(* ===== verification/Orion_Prelude.thy ===== *)
theory Orion_Prelude
  imports Main "HOL-Library.Word"
begin

text \<open>
  Vocabulary shared by every component: the faults a C program can run into, a
  bind for computations that may fault, the array idioms of the sources (linear
  search, deletion by shifting left, insertion by shifting right, appending
  under a capacity) and the bounded string copies.  Each array idiom is defined
  as the loop that the sources write and related to the list operation it
  computes.
\<close>

named_theorems array_simps "loops over arrays in terms of take, drop and update"
named_theorems fault_simps "computations that may fault"

section \<open>Faults\<close>

text \<open>
  What the C standard or POSIX leaves without a result: a null pointer is
  dereferenced, a fixed buffer is overrun, a freed object is used, a thread
  waits for a mutex that it holds itself, a variable is read that was never
  written (a reply that did not arrive), or a text without an end is read past
  its array.
\<close>

datatype fault = NullDeref | Overflow | UseAfterFree | Deadlock | Uninitialised | Overread

type_synonym 'a result = "fault + 'a"

definition ebind :: "'a result \<Rightarrow> ('a \<Rightarrow> 'b result) \<Rightarrow> 'b result" where
  "ebind m f = (case m of Inl e \<Rightarrow> Inl e | Inr x \<Rightarrow> f x)"

lemma ebind_Inl [simp]: "ebind (Inl e) f = Inl e"
  by (simp add: ebind_def)

lemma ebind_Inr [simp]: "ebind (Inr x) f = f x"
  by (simp add: ebind_def)

lemma ebind_eq_Inr [fault_simps]: "ebind m f = Inr y \<longleftrightarrow> (\<exists>x. m = Inr x \<and> f x = Inr y)"
  by (cases m) auto

lemma ebind_eq_Inl [fault_simps]:
  "ebind m f = Inl e \<longleftrightarrow> m = Inl e \<or> (\<exists>x. m = Inr x \<and> f x = Inl e)"
  by (cases m) auto

definition is_ok :: "'a result \<Rightarrow> bool" where
  "is_ok r = (case r of Inl _ \<Rightarrow> False | Inr _ \<Rightarrow> True)"

lemma is_ok_simps [simp]: "is_ok (Inr x)" "\<not> is_ok (Inl e)"
  by (simp_all add: is_ok_def)

lemma is_ok_iff: "is_ok r \<longleftrightarrow> (\<exists>x. r = Inr x)"
  by (cases r) auto

section \<open>Linear search\<close>

text \<open>The loop that returns the index of the first matching entry of an array.\<close>

fun find_idx :: "('a \<Rightarrow> bool) \<Rightarrow> 'a list \<Rightarrow> nat option" where
  "find_idx P [] = None"
| "find_idx P (x # xs) = (if P x then Some 0 else map_option Suc (find_idx P xs))"

lemma find_idx_None [array_simps]: "find_idx P xs = None \<longleftrightarrow> (\<forall>x \<in> set xs. \<not> P x)"
  by (induction xs) auto

lemma find_idx_SomeD:
  "find_idx P xs = Some i \<Longrightarrow> i < length xs \<and> P (xs ! i) \<and> (\<forall>j < i. \<not> P (xs ! j))"
  by (induction xs arbitrary: i) (auto simp: less_Suc_eq_0_disj split: if_splits)

lemma find_idx_Some_iff:
  "find_idx P xs = Some i \<longleftrightarrow> i < length xs \<and> P (xs ! i) \<and> (\<forall>j < i. \<not> P (xs ! j))"
proof
  assume R: "i < length xs \<and> P (xs ! i) \<and> (\<forall>j < i. \<not> P (xs ! j))"
  then have "xs ! i \<in> set xs" "P (xs ! i)" by simp_all
  then obtain k where k: "find_idx P xs = Some k"
    using find_idx_None [of P xs] by (cases "find_idx P xs") blast+
  with R find_idx_SomeD [OF k] have "k = i" by (metis linorder_neqE_nat)
  with k show "find_idx P xs = Some i" by simp
qed (rule find_idx_SomeD)

lemma find_idx_append:
  "find_idx P (xs @ ys) =
     (case find_idx P xs of Some i \<Rightarrow> Some i | None \<Rightarrow> map_option (\<lambda>i. i + length xs) (find_idx P ys))"
  by (induction xs) (auto split: option.splits simp: option.map_comp comp_def option.map_id0 id_def[symmetric])

lemma find_idx_lt: "find_idx P xs = Some i \<Longrightarrow> i < length xs"
  by (auto dest: find_idx_SomeD)

lemma find_idx_cong:
  "(\<And>x. x \<in> set xs \<Longrightarrow> P x = Q x) \<Longrightarrow> find_idx P xs = find_idx Q xs"
  by (induction xs) auto

lemma find_idx_map: "find_idx P (map f xs) = find_idx (P \<circ> f) xs"
  by (induction xs) auto

text \<open>\<^verbatim>\<open>strchr\<close> of a separator.\<close>

lemma find_idx_colon: "c \<notin> set u \<Longrightarrow> find_idx (\<lambda>x. x = c) (u @ c # s) = Some (length u)"
  by (induction u) auto

section \<open>Deletion by shifting left\<close>

text \<open>\<^verbatim>\<open>for (int j = i; j < n - 1; j++) a[j] = a[j + 1]; n--;\<close>\<close>

function shift_left :: "'a list \<Rightarrow> nat \<Rightarrow> 'a list" where
  "shift_left xs j = (if Suc j < length xs then shift_left (xs[j := xs ! Suc j]) (Suc j) else xs)"
  by pat_completeness auto
termination by (relation "measure (\<lambda>(xs, j). length xs - j)") auto

declare shift_left.simps [simp del]

definition delete_at :: "'a list \<Rightarrow> nat \<Rightarrow> 'a list" where
  "delete_at xs i = butlast (shift_left xs i)"

lemma shift_left_eq:
  "i < length xs \<Longrightarrow> shift_left xs i = take i xs @ drop (Suc i) xs @ [last xs]"
proof (induction xs i rule: shift_left.induct)
  case (1 xs j)
  show ?case
  proof (cases "Suc j < length xs")
    case True
    let ?ys = "xs[j := xs ! Suc j]"
    have "shift_left xs j = shift_left ?ys (Suc j)"
      using True by (simp add: shift_left.simps [of xs j])
    also have "\<dots> = take (Suc j) ?ys @ drop (Suc (Suc j)) ?ys @ [last ?ys]"
      using "1.IH" True by simp
    also have "take (Suc j) ?ys = take j xs @ [xs ! Suc j]"
      using True by (simp add: take_Suc_conv_app_nth)
    also have "drop (Suc (Suc j)) ?ys = drop (Suc (Suc j)) xs" by simp
    also have "last ?ys = last xs"
      using True by (subst (1 2) last_conv_nth) auto
    also have "(take j xs @ [xs ! Suc j]) @ drop (Suc (Suc j)) xs @ [last xs]
               = take j xs @ drop (Suc j) xs @ [last xs]"
      using True by (simp add: Cons_nth_drop_Suc)
    finally show ?thesis .
  next
    case False
    with "1.prems" have j: "j = length xs - 1" "xs \<noteq> []" by auto
    then have "take j xs @ [last xs] = xs" by (simp add: take_butlast [symmetric] butlast_conv_take [symmetric])
    moreover have "shift_left xs j = xs" using False by (simp add: shift_left.simps [of xs j])
    ultimately show ?thesis using j by simp
  qed
qed

lemma delete_at_eq [array_simps]:
  "i < length xs \<Longrightarrow> delete_at xs i = take i xs @ drop (Suc i) xs"
  by (simp add: delete_at_def shift_left_eq butlast_append)

lemma length_delete_at [simp]: "i < length xs \<Longrightarrow> length (delete_at xs i) = length xs - 1"
  by (simp add: delete_at_eq)

lemma set_delete_at_subset: "i < length xs \<Longrightarrow> set (delete_at xs i) \<subseteq> set xs"
  by (auto simp: delete_at_eq dest: in_set_takeD in_set_dropD)

lemma distinct_delete_at: "i < length xs \<Longrightarrow> distinct xs \<Longrightarrow> distinct (delete_at xs i)"
  using set_take_disj_set_drop_if_distinct [of xs i "Suc i"] by (simp add: delete_at_eq)

lemma map_delete_at: "i < length xs \<Longrightarrow> map f (delete_at xs i) = delete_at (map f xs) i"
  by (simp add: delete_at_eq take_map drop_map)

lemma set_delete_at_distinct:
  "i < length xs \<Longrightarrow> distinct xs \<Longrightarrow> set (delete_at xs i) = set xs - {xs ! i}"
proof -
  assume i: "i < length xs" and d: "distinct xs"
  have "set xs = set (take i xs @ xs ! i # drop (Suc i) xs)" using i by (simp add: id_take_nth_drop [symmetric])
  moreover have "distinct (take i xs @ xs ! i # drop (Suc i) xs)" using i d by (simp add: id_take_nth_drop [symmetric])
  ultimately show ?thesis using i by (auto simp: delete_at_eq)
qed

section \<open>Insertion by shifting right\<close>

text \<open>
  \<^verbatim>\<open>for (int i = n; i > k; i--) a[i] = a[i - 1]; a[k] = x; n++;\<close>  The array has room
  for one more entry; the model appends a slot that the loop overwrites, or, when
  the loop body never runs, the final assignment.
\<close>

fun shift_right :: "'a list \<Rightarrow> nat \<Rightarrow> nat \<Rightarrow> 'a list" where
  "shift_right xs k 0 = xs"
| "shift_right xs k (Suc i) = (if k < Suc i then shift_right (xs[Suc i := xs ! i]) k i else xs)"

definition insert_at :: "'a list \<Rightarrow> nat \<Rightarrow> 'a \<Rightarrow> 'a list" where
  "insert_at xs k x = (shift_right (xs @ [x]) k (length xs))[k := x]"

lemma length_shift_right [simp]: "length (shift_right xs k i) = length xs"
  by (induction xs k i rule: shift_right.induct) auto

lemma shift_right_nth:
  "i < length xs \<Longrightarrow> m < length xs \<Longrightarrow>
   shift_right xs k i ! m = (if k < m \<and> m \<le> i then xs ! (m - 1) else xs ! m)"
proof (induction xs k i arbitrary: m rule: shift_right.induct)
  case (1 xs k)
  then show ?case by simp
next
  case (2 xs k i)
  show ?case
  proof (cases "k < Suc i")
    case True
    with 2 show ?thesis
      by (cases "m = Suc i") (auto simp: nth_list_update)
  next
    case False
    then show ?thesis by auto
  qed
qed

lemma insert_at_eq [array_simps]:
  assumes "k \<le> length xs"
  shows "insert_at xs k x = take k xs @ x # drop k xs"
proof (rule nth_equalityI)
  show "length (insert_at xs k x) = length (take k xs @ x # drop k xs)"
    using assms by (simp add: insert_at_def)
next
  fix m assume "m < length (insert_at xs k x)"
  then have m: "m < Suc (length xs)" by (simp add: insert_at_def)
  show "insert_at xs k x ! m = (take k xs @ x # drop k xs) ! m"
  proof (cases m k rule: linorder_cases)
    case less
    with m assms show ?thesis by (auto simp: insert_at_def shift_right_nth nth_append)
  next
    case equal
    with m assms show ?thesis by (auto simp: insert_at_def shift_right_nth nth_append)
  next
    case greater
    with m assms have "m - 1 < length xs" by simp
    with m assms greater show ?thesis
      by (auto simp: insert_at_def shift_right_nth nth_append nth_Cons' min_def)
  qed
qed

section \<open>Bounded copies\<close>

text \<open>
  \<^verbatim>\<open>strncpy(dst, src, n - 1)\<close> into a zeroed buffer of \<open>n\<close> bytes, and \<^verbatim>\<open>snprintf\<close> into
  a buffer of \<open>n\<close> bytes: the first \<open>n - 1\<close> characters.  A plain \<^verbatim>\<open>strcpy\<close> or \<^verbatim>\<open>strcat\<close>
  overruns its buffer when the text and its terminator do not fit.
\<close>

definition strncpy_buf :: "nat \<Rightarrow> string \<Rightarrow> string" where
  "strncpy_buf n s = take (n - 1) s"

definition strcat_buf :: "nat \<Rightarrow> string \<Rightarrow> string \<Rightarrow> string result" where
  "strcat_buf n buf s = (if length buf + length s < n then Inr (buf @ s) else Inl Overflow)"

definition strcpy_buf :: "nat \<Rightarrow> string \<Rightarrow> string result" where
  "strcpy_buf n s = strcat_buf n [] s"

lemma strncpy_buf_id [simp]: "length s < n \<Longrightarrow> strncpy_buf n s = s"
  by (simp add: strncpy_buf_def)

lemma strncpy_buf_length: "0 < n \<Longrightarrow> length (strncpy_buf n s) < n"
  by (simp add: strncpy_buf_def)

lemma strcat_buf_Inr [fault_simps]:
  "strcat_buf n buf s = Inr r \<longleftrightarrow> length buf + length s < n \<and> r = buf @ s"
  by (auto simp: strcat_buf_def)

text \<open>A loop of \<^verbatim>\<open>strcat\<close> calls over one buffer.\<close>

fun strcat_all :: "nat \<Rightarrow> string \<Rightarrow> string list \<Rightarrow> string result" where
  "strcat_all n buf [] = Inr buf"
| "strcat_all n buf (s # ss) = ebind (strcat_buf n buf s) (\<lambda>b. strcat_all n b ss)"

lemma strcat_all_Inr [fault_simps]:
  "length buf < n \<Longrightarrow>
   strcat_all n buf ss = (if length buf + length (concat ss) < n then Inr (buf @ concat ss) else Inl Overflow)"
  by (induction ss arbitrary: buf) (auto simp: strcat_buf_def)

section \<open>Lists as sets with a first-come order\<close>

text \<open>\<^verbatim>\<open>concat\<close> of equal-length bounds, used for buffer capacities.\<close>

lemma length_concat_le:
  "(\<And>x. x \<in> set xs \<Longrightarrow> length (f x) \<le> b) \<Longrightarrow> length (concat (map f xs)) \<le> b * length xs"
  by (induction xs) (auto simp: add_le_mono)

lemma map_of_map_Pair: "map_of (map (\<lambda>x. (f x, g x)) xs) k = map_option g (find (\<lambda>x. f x = k) xs)"
  by (induction xs) auto

end
