(* ===== verification/C_Strings.thy ===== *)
theory C_Strings
  imports Orion_Prelude "HOL-Library.Char_ord"
begin

text \<open>
  The parts of the C library on strings that the sources use: \<open>isspace\<close> and its
  relatives, \<open>strtok\<close> tokenisation, decimal printing and \<open>atoi\<close>, and \<open>fgets\<close> over
  a text.  A C string is a list of characters without the terminator.  The
  lemmas are the laws the components use: what tokens look like, that joining
  and tokenising invert each other, and that numbers survive printing and
  parsing.
\<close>

section \<open>Character classes\<close>

abbreviation nl :: char where "nl \<equiv> CHR 0x0A"

definition isspace :: "char \<Rightarrow> bool" where
  "isspace c \<longleftrightarrow> c \<in> {CHR '' '', CHR 0x09, CHR 0x0A, CHR 0x0B, CHR 0x0C, CHR 0x0D}"

definition isdigit :: "char \<Rightarrow> bool" where
  "isdigit c \<longleftrightarrow> 48 \<le> (of_char c :: nat) \<and> (of_char c :: nat) \<le> 57"

definition isalpha :: "char \<Rightarrow> bool" where
  "isalpha c \<longleftrightarrow> (65 \<le> (of_char c :: nat) \<and> (of_char c :: nat) \<le> 90)
              \<or> (97 \<le> (of_char c :: nat) \<and> (of_char c :: nat) \<le> 122)"

definition isalnum :: "char \<Rightarrow> bool" where
  "isalnum c \<longleftrightarrow> isalpha c \<or> isdigit c"

text \<open>What a C function sees of a byte buffer: the bytes before the first NUL.\<close>

definition c_string :: "string \<Rightarrow> string" where
  "c_string s = takeWhile (\<lambda>c. c \<noteq> CHR 0x00) s"

lemma c_string_id: "CHR 0x00 \<notin> set s \<Longrightarrow> c_string s = s"
  by (simp add: c_string_def takeWhile_eq_all_conv) auto

lemma c_string_no_nul: "CHR 0x00 \<notin> set (c_string s)"
  by (auto simp: c_string_def dest: set_takeWhileD)

lemma c_string_idem [simp]: "c_string (c_string s) = c_string s"
  by (rule c_string_id [OF c_string_no_nul])

section \<open>strtok\<close>

text \<open>
  \<open>strtok\<close> skips delimiters, then takes the run of other characters, until the
  text is used up.  The whole loop over \<open>strtok\<close> gives this list of tokens.
\<close>

function strtok :: "char set \<Rightarrow> string \<Rightarrow> string list" where
  "strtok ds s =
     (let r = dropWhile (\<lambda>c. c \<in> ds) s
      in if r = [] then []
         else takeWhile (\<lambda>c. c \<notin> ds) r # strtok ds (dropWhile (\<lambda>c. c \<notin> ds) r))"
  by pat_completeness auto
termination
proof (relation "measure (\<lambda>(ds, s). length s)", goal_cases)
  case (2 ds s r)
  then obtain c cs where r: "r = c # cs" by (meson neq_Nil_conv)
  with 2(1) have "c \<notin> ds" by (metis dropWhile_eq_Cons_conv)
  with r have "length (dropWhile (\<lambda>c. c \<notin> ds) r) \<le> length cs"
    by (simp add: length_dropWhile_le)
  also have "\<dots> < length r" using r by simp
  also have "length r \<le> length s" using 2(1) by (simp add: length_dropWhile_le)
  finally show ?case by simp
qed simp

declare strtok.simps [simp del]

lemma strtok_Nil [simp]: "strtok ds [] = []"
  by (simp add: strtok.simps)

lemma strtok_skip: "c \<in> ds \<Longrightarrow> strtok ds (c # s) = strtok ds s"
  by (subst (1 2) strtok.simps) (simp add: Let_def)

lemma strtok_skip_all: "set p \<subseteq> ds \<Longrightarrow> strtok ds (p @ s) = strtok ds s"
  by (induction p) (auto simp: strtok_skip)

lemma strtok_token:
  assumes "w \<noteq> []" "set w \<inter> ds = {}" "s = [] \<or> hd s \<in> ds"
  shows "strtok ds (w @ s) = w # strtok ds s"
proof -
  have d: "dropWhile (\<lambda>c. c \<in> ds) (w @ s) = w @ s"
    using assms by (cases w) auto
  have w: "\<forall>c \<in> set w. c \<notin> ds" using assms(2) by blast
  then have "takeWhile (\<lambda>c. c \<notin> ds) (w @ s) = w @ takeWhile (\<lambda>c. c \<notin> ds) s"
    and "dropWhile (\<lambda>c. c \<notin> ds) (w @ s) = dropWhile (\<lambda>c. c \<notin> ds) s"
    by (simp_all add: takeWhile_append2 dropWhile_append2)
  moreover have "takeWhile (\<lambda>c. c \<notin> ds) s = []" "dropWhile (\<lambda>c. c \<notin> ds) s = s"
    using assms(3) by (cases s; auto)+
  ultimately show ?thesis using assms(1) by (subst strtok.simps) (simp add: d Let_def)
qed

lemma strtok_tokens:
  "w \<in> set (strtok ds s) \<Longrightarrow> w \<noteq> [] \<and> set w \<inter> ds = {} \<and> set w \<subseteq> set s"
proof (induction ds s rule: strtok.induct)
  case (1 ds s)
  let ?r = "dropWhile (\<lambda>c. c \<in> ds) s"
  have sub: "set ?r \<subseteq> set s" by (auto dest: set_dropWhileD)
  from "1.prems" have ne: "?r \<noteq> []" by (subst (asm) strtok.simps) (auto simp: Let_def split: if_splits)
  then obtain c cs where r: "?r = c # cs" and c: "c \<notin> ds"
    by (cases ?r) (auto dest: dropWhile_eq_Cons_conv [THEN iffD1])
  have "strtok ds s = takeWhile (\<lambda>c. c \<notin> ds) ?r # strtok ds (dropWhile (\<lambda>c. c \<notin> ds) ?r)"
    using ne by (subst strtok.simps) (simp add: Let_def del: dropWhile_eq_Nil_conv)
  with "1.prems" consider "w = takeWhile (\<lambda>c. c \<notin> ds) ?r"
    | "w \<in> set (strtok ds (dropWhile (\<lambda>c. c \<notin> ds) ?r))"
    by auto
  then show ?case
  proof cases
    case 1
    with r c sub show ?thesis by (auto dest: set_takeWhileD)
  next
    case 2
    with "1.IH" ne sub show ?thesis by (fastforce dest: set_dropWhileD)
  qed
qed

lemma strtok_none: "set s \<subseteq> ds \<Longrightarrow> strtok ds s = []"
  using strtok_skip_all [of s ds "[]"] by simp

lemma strtok_eq_Nil: "strtok ds s = [] \<longleftrightarrow> set s \<subseteq> ds"
proof
  assume "strtok ds s = []"
  then have "dropWhile (\<lambda>c. c \<in> ds) s = []"
    by (subst (asm) strtok.simps) (auto simp: Let_def split: if_splits)
  then show "set s \<subseteq> ds" by auto
qed (rule strtok_none)

text \<open>Fields written one after the other with a separator character.\<close>

fun join_with :: "char \<Rightarrow> string list \<Rightarrow> string" where
  "join_with d [] = []"
| "join_with d [w] = w"
| "join_with d (w # ws) = w @ d # join_with d ws"

lemma join_with_Cons: "ws \<noteq> [] \<Longrightarrow> join_with d (w # ws) = w @ d # join_with d ws"
  by (cases ws) auto

lemma join_with_append:
  "us \<noteq> [] \<Longrightarrow> ws \<noteq> [] \<Longrightarrow> join_with d (us @ ws) = join_with d us @ d # join_with d ws"
  by (induction d us rule: join_with.induct) (auto simp: join_with_Cons)

lemma join_with_snoc: "ws \<noteq> [] \<Longrightarrow> join_with d (ws @ [w]) = join_with d ws @ d # w"
  by (simp add: join_with_append)

lemma set_join_with: "set (join_with d ws) \<subseteq> insert d (\<Union>w \<in> set ws. set w)"
  by (induction d ws rule: join_with.induct) auto

lemma strtok_join_with:
  assumes "d \<in> ds" "\<And>w. w \<in> set ws \<Longrightarrow> w \<noteq> [] \<and> set w \<inter> ds = {}"
  shows "strtok ds (join_with d ws) = ws"
  using assms
proof (induction d ws rule: join_with.induct)
  case (2 d w)
  then show ?case using strtok_token [of w ds "[]"] by simp
next
  case (3 d w v vs)
  then have "strtok ds (w @ d # join_with d (v # vs)) = w # strtok ds (d # join_with d (v # vs))"
    by (intro strtok_token) auto
  with 3 show ?case by (simp add: strtok_skip)
qed simp

section \<open>Decimal numbers\<close>

definition digit_char :: "nat \<Rightarrow> char" where
  "digit_char n = char_of (48 + n mod 10)"

fun show_nat :: "nat \<Rightarrow> string" where
  "show_nat n = (if n < 10 then [digit_char n] else show_nat (n div 10) @ [digit_char n])"

declare show_nat.simps [simp del]

definition show_int :: "int \<Rightarrow> string" where
  "show_int i = (if i < 0 then CHR ''-'' # show_nat (nat (- i)) else show_nat (nat i))"

definition digits_value :: "string \<Rightarrow> nat" where
  "digits_value s = foldl (\<lambda>v c. 10 * v + (of_char c - 48)) 0 s"

text \<open>
  \<open>atoi\<close>, \<open>atol\<close> and \<open>strtoull\<close>: skip white space, read an optional sign, read the
  longest run of digits.  Values outside the target type are undefined behaviour
  (\<open>atoi\<close>) or saturate; the callers read back what \<open>fprintf\<close> printed.
\<close>

definition atoi :: "string \<Rightarrow> int" where
  "atoi s =
     (let t = dropWhile isspace s
      in case t of
           [] \<Rightarrow> 0
         | c # u \<Rightarrow>
             if c = CHR ''-'' then - int (digits_value (takeWhile isdigit u))
             else if c = CHR ''+'' then int (digits_value (takeWhile isdigit u))
             else int (digits_value (takeWhile isdigit t)))"

lemma of_char_digit [simp]: "n < 10 \<Longrightarrow> (of_char (digit_char n) :: nat) = 48 + n"
  by (simp add: digit_char_def)

lemma isdigit_digit_char [simp]: "isdigit (digit_char n)"
  by (simp add: isdigit_def digit_char_def)

lemma show_nat_digits: "c \<in> set (show_nat n) \<Longrightarrow> isdigit c"
  by (induction n rule: show_nat.induct) (subst (asm) (2) show_nat.simps, auto split: if_splits)

lemma show_nat_ne [simp]: "show_nat n \<noteq> []"
  by (subst show_nat.simps) simp

lemma digits_value_snoc: "digits_value (s @ [c]) = 10 * digits_value s + (of_char c - 48)"
  by (simp add: digits_value_def)

lemma digits_value_show_nat [simp]: "digits_value (show_nat n) = n"
proof (induction n rule: show_nat.induct)
  case (1 n)
  show ?case
  proof (cases "n < 10")
    case True
    then show ?thesis by (subst show_nat.simps) (simp add: digits_value_def)
  next
    case False
    have "(of_char (digit_char n) :: nat) = 48 + n mod 10" by (simp add: digit_char_def)
    with False 1 show ?thesis by (subst show_nat.simps) (simp add: digits_value_snoc)
  qed
qed

lemma isdigit_not [simp]:
  "\<not> isdigit (CHR ''-'')" "\<not> isdigit (CHR ''+'')" "\<not> isdigit (CHR ''|'')" "\<not> isdigit (CHR '','')"
  "\<not> isdigit (CHR '':'')" "\<not> isdigit (CHR '' '')" "\<not> isdigit nl" "\<not> isdigit (CHR 0x0D)" "\<not> isdigit (CHR 0x00)"
  by (simp_all add: isdigit_def)

lemma isdigit_not_space: "isdigit c \<Longrightarrow> \<not> isspace c"
  by (auto simp: isspace_def isdigit_def)

lemma show_nat_first: "show_nat n = c # s \<Longrightarrow> isdigit c"
  using show_nat_digits [of c n] by simp

lemma atoi_show_nat [simp]: "atoi (show_nat n) = int n"
proof -
  obtain c s where cs: "show_nat n = c # s" by (cases "show_nat n") auto
  then have c: "isdigit c" by (rule show_nat_first)
  have tw: "takeWhile isdigit (show_nat n) = show_nat n"
    by (simp add: takeWhile_eq_all_conv show_nat_digits)
  have "c \<noteq> CHR ''-''" "c \<noteq> CHR ''+''" using c by auto
  moreover have "dropWhile isspace (show_nat n) = show_nat n"
    using c by (simp add: cs isdigit_not_space)
  ultimately show ?thesis using tw digits_value_show_nat [of n] by (simp add: atoi_def Let_def cs)
qed

lemma atoi_show_int [simp]: "atoi (show_int i) = i"
proof (cases "i < 0")
  case True
  have "takeWhile isdigit (show_nat (nat (- i))) = show_nat (nat (- i))"
    by (simp add: takeWhile_eq_all_conv show_nat_digits)
  then have "digits_value (takeWhile isdigit (show_nat (nat (- i)))) = nat (- i)"
    by (simp only: digits_value_show_nat)
  with True show ?thesis by (simp add: show_int_def atoi_def isspace_def)
qed (simp add: show_int_def)

text \<open>
  \<open>atoi\<close> on any text: \<open>strtol\<close> saturates at 64 bits and the cast to \<open>int\<close> keeps
  the low 32 bits.
\<close>

definition atoi32 :: "string \<Rightarrow> int" where
  "atoi32 s = signed_take_bit 31 (max (- (2 ^ 63)) (min (2 ^ 63 - 1) (atoi s)))"

lemma show_int_ne [simp]: "show_int i \<noteq> []"
  by (simp add: show_int_def)

lemma show_int_chars: "c \<in> set (show_int i) \<Longrightarrow> isdigit c \<or> c = CHR ''-''"
  by (auto simp: show_int_def dest: show_nat_digits split: if_splits)

lemma show_int_free:
  "CHR ''|'' \<notin> set (show_int i)" "CHR '','' \<notin> set (show_int i)" "CHR '':'' \<notin> set (show_int i)"
  "nl \<notin> set (show_int i)" "CHR 0x0D \<notin> set (show_int i)" "CHR 0x00 \<notin> set (show_int i)"
  using show_int_chars by fastforce+

section \<open>fgets\<close>

text \<open>
  Reading a text with \<open>fgets(line, n, f)\<close>: each call returns at most \<open>n - 1\<close>
  characters and stops after a newline, which it keeps.
\<close>

definition fgets_line :: "nat \<Rightarrow> string \<Rightarrow> string" where
  "fgets_line n s = (let l = takeWhile (\<lambda>c. c \<noteq> nl) s
                     in if length l < n - 1 \<and> length l < length s then l @ [nl] else take (n - 1) l)"

function fgets_lines :: "nat \<Rightarrow> string \<Rightarrow> string list" where
  "fgets_lines n s = (if s = [] \<or> n \<le> 1 then []
                      else fgets_line n s # fgets_lines n (drop (length (fgets_line n s)) s))"
  by pat_completeness auto
termination
proof (relation "measure (\<lambda>(n, s). length s)", goal_cases)
  case (2 n s)
  then have "fgets_line n s \<noteq> []"
    by (cases s) (auto simp: fgets_line_def Let_def)
  with 2 show ?case by (cases s) auto
qed simp

declare fgets_lines.simps [simp del]

lemma fgets_lines_Nil [simp]: "fgets_lines n [] = []"
  by (simp add: fgets_lines.simps)

lemma fgets_lines_line:
  assumes "nl \<notin> set l" "length l + 1 < n"
  shows "fgets_lines n (l @ nl # s) = (l @ [nl]) # fgets_lines n s"
proof -
  have "takeWhile (\<lambda>c. c \<noteq> nl) (l @ nl # s) = l"
    using assms(1) by (subst takeWhile_append2) auto
  then have "fgets_line n (l @ nl # s) = l @ [nl]"
    using assms(2) by (simp add: fgets_line_def Let_def)
  then show ?thesis using assms(2) by (subst fgets_lines.simps) simp
qed

lemma fgets_lines_concat:
  assumes "\<And>l. l \<in> set ls \<Longrightarrow> nl \<notin> set l \<and> length l + 1 < n"
  shows "fgets_lines n (concat (map (\<lambda>l. l @ [nl]) ls)) = map (\<lambda>l. l @ [nl]) ls"
  using assms by (induction ls) (simp_all add: fgets_lines_line)

text \<open>\<^verbatim>\<open>line[strcspn(line, "\r\n")] = 0\<close>\<close>

definition chomp :: "string \<Rightarrow> string" where
  "chomp l = takeWhile (\<lambda>c. c \<noteq> CHR 0x0D \<and> c \<noteq> nl) l"

lemma chomp_line: "nl \<notin> set l \<Longrightarrow> CHR 0x0D \<notin> set l \<Longrightarrow> chomp (l @ [nl]) = l"
  by (auto simp: chomp_def takeWhile_append)

end
