(* ===== verification/Protocol.thy ===== *)
theory Protocol
  imports C_Strings
begin

text \<open>
  \<^verbatim>\<open>common/protocol.h\<close>: the limits, the enumerations and the message that every
  process exchanges, and \<open>error_to_string\<close> of \<^verbatim>\<open>common/utils.c\<close>.
\<close>

section \<open>Limits\<close>

definition MAX_FILENAME_LEN :: nat where "MAX_FILENAME_LEN = 256"
definition MAX_USERNAME_LEN :: nat where "MAX_USERNAME_LEN = 64"
definition MAX_IP_LEN :: nat where "MAX_IP_LEN = 16"
definition MAX_CONTENT_LEN :: nat where "MAX_CONTENT_LEN = 4096"
definition MAX_USERS :: nat where "MAX_USERS = 100"
definition MAX_STORAGE_SERVERS :: nat where "MAX_STORAGE_SERVERS = 10"
definition MAX_CLIENTS :: nat where "MAX_CLIENTS = 50"
definition MAX_SENTENCES :: nat where "MAX_SENTENCES = 1000"
definition MAX_WORDS_PER_SENTENCE :: nat where "MAX_WORDS_PER_SENTENCE = 1000"
definition CACHE_CAPACITY :: nat where "CACHE_CAPACITY = 100"

lemmas limit_defs = MAX_FILENAME_LEN_def MAX_USERNAME_LEN_def MAX_IP_LEN_def MAX_CONTENT_LEN_def
  MAX_USERS_def MAX_STORAGE_SERVERS_def MAX_CLIENTS_def MAX_SENTENCES_def
  MAX_WORDS_PER_SENTENCE_def CACHE_CAPACITY_def

section \<open>Message types and error codes\<close>

datatype message_type =
    MSG_CLIENT_REGISTER | MSG_VIEW_FILES | MSG_READ_FILE | MSG_CREATE_FILE | MSG_WRITE_FILE
  | MSG_DELETE_FILE | MSG_INFO_FILE | MSG_STREAM_FILE | MSG_LIST_USERS | MSG_ADDACCESS
  | MSG_REMACCESS | MSG_EXEC_FILE | MSG_UNDO_FILE
  | MSG_CREATE_FILE_SS | MSG_DELETE_FILE_SS | MSG_GET_FILE_CONTENT | MSG_WRITE_FILE_SS
  | MSG_CREATE_FOLDER_SS | MSG_MOVE_FILE_SS
  | MSG_SS_REGISTER | MSG_SS_ACK | MSG_SS_ERROR | MSG_SS_HEARTBEAT | MSG_UPDATE_METADATA
  | MSG_SS_INFO | MSG_FILE_LIST | MSG_USER_LIST | MSG_FILE_INFO | MSG_ACK | MSG_ERROR
  | MSG_READ_REQUEST | MSG_WRITE_REQUEST | MSG_STREAM_REQUEST | MSG_EXEC_READ_REQUEST
  | MSG_EXEC_OUTPUT | MSG_EXEC_DONE
  | MSG_CREATE_FOLDER | MSG_MOVE_FILE | MSG_VIEW_FOLDER | MSG_CHECKPOINT | MSG_REQUEST_ACCESS
  | MSG_CP_CREATE | MSG_CP_VIEW | MSG_CP_REVERT | MSG_CP_LIST
  | MSG_VIEW_REQUESTS | MSG_APPROVE_REQUEST | MSG_DENY_REQUEST

datatype error_code =
    ERR_SUCCESS | ERR_FILE_NOT_FOUND | ERR_ACCESS_DENIED | ERR_FILE_EXISTS | ERR_SENTENCE_LOCKED
  | ERR_INVALID_INDEX | ERR_SS_UNAVAILABLE | ERR_INVALID_COMMAND | ERR_PERMISSION_DENIED
  | ERR_NOT_OWNER | ERR_CONNECTION_FAILED | ERR_TIMEOUT | ERR_INVALID_SENTENCE
  | ERR_INVALID_WORD_INDEX | ERR_FILE_LOCKED | ERR_UNKNOWN | ERR_REQUEST_NOT_FOUND
  | ERR_REQUEST_ALREADY_EXISTS

fun error_to_string :: "error_code \<Rightarrow> string" where
  "error_to_string ERR_SUCCESS = ''Success''"
| "error_to_string ERR_FILE_NOT_FOUND = ''File not found''"
| "error_to_string ERR_ACCESS_DENIED = ''Access denied''"
| "error_to_string ERR_FILE_EXISTS = ''File already exists''"
| "error_to_string ERR_SENTENCE_LOCKED = ''Sentence is locked by another user''"
| "error_to_string ERR_INVALID_INDEX = ''Invalid index''"
| "error_to_string ERR_SS_UNAVAILABLE = ''Storage server unavailable''"
| "error_to_string ERR_INVALID_COMMAND = ''Invalid command''"
| "error_to_string ERR_PERMISSION_DENIED = ''Permission denied''"
| "error_to_string ERR_NOT_OWNER = ''You are not the owner''"
| "error_to_string ERR_CONNECTION_FAILED = ''Connection failed''"
| "error_to_string ERR_TIMEOUT = ''Operation timed out''"
| "error_to_string ERR_INVALID_SENTENCE = ''Invalid sentence index''"
| "error_to_string ERR_INVALID_WORD_INDEX = ''Invalid word index''"
| "error_to_string ERR_FILE_LOCKED = ''File is locked''"
| "error_to_string _ = ''Unknown error''"

section \<open>Access types\<close>

text \<open>
  The C enumeration has the values 0, 1 and 2, but a value read from disk is cast
  from \<open>atoi\<close>, so a variable of the type can hold any 32-bit code.  \<open>ACCESS_RAW k\<close>
  is the code \<open>k + 3\<close>.  The code orders the type, as the comparisons of the sources do.
\<close>

datatype access_type = ACCESS_NONE | ACCESS_READ | ACCESS_WRITE | ACCESS_RAW nat

fun access_code :: "access_type \<Rightarrow> nat" where
  "access_code ACCESS_NONE = 0"
| "access_code ACCESS_READ = 1"
| "access_code ACCESS_WRITE = 2"
| "access_code (ACCESS_RAW k) = k + 3"

definition access_of_code :: "nat \<Rightarrow> access_type" where
  "access_of_code n = (if n = 0 then ACCESS_NONE else if n = 1 then ACCESS_READ
                       else if n = 2 then ACCESS_WRITE else ACCESS_RAW (n - 3))"

text \<open>The cast \<^verbatim>\<open>(AccessType)acc\<close> of an \<open>int\<close>, and the cast back that \<open>%d\<close> prints.\<close>

definition access_of_int :: "int \<Rightarrow> access_type" where
  "access_of_int i = access_of_code (nat (i mod 2 ^ 32))"

definition int_of_access :: "access_type \<Rightarrow> int" where
  "int_of_access a = (let n = int (access_code a) in if n < 2 ^ 31 then n else n - 2 ^ 32)"

lemma access_of_code_inverse [simp]: "access_of_code (access_code a) = a"
  by (cases a) (auto simp: access_of_code_def)

lemma access_code_inverse [simp]: "access_code (access_of_code n) = n"
  by (auto simp: access_of_code_def)

lemma access_code_inject [simp]: "access_code a = access_code b \<longleftrightarrow> a = b"
  by (metis access_of_code_inverse)

lemma access_of_int_of_access:
  assumes "access_code a < 2 ^ 32"
  shows "access_of_int (int_of_access a) = a"
proof -
  have "int_of_access a mod 2 ^ 32 = int (access_code a)"
    using assms by (auto simp: int_of_access_def Let_def mod_pos_pos_trivial) 
  then show ?thesis by (simp add: access_of_int_def)
qed

lemma int_of_access_simps [simp]:
  "int_of_access ACCESS_NONE = 0" "int_of_access ACCESS_READ = 1" "int_of_access ACCESS_WRITE = 2"
  by (simp_all add: int_of_access_def)

instantiation access_type :: linorder
begin

definition less_eq_access_type :: "access_type \<Rightarrow> access_type \<Rightarrow> bool" where
  "less_eq_access_type a b = (access_code a \<le> access_code b)"

definition less_access_type :: "access_type \<Rightarrow> access_type \<Rightarrow> bool" where
  "less_access_type a b = (access_code a < access_code b)"

instance
  by standard (auto simp: less_eq_access_type_def less_access_type_def)

end

lemma access_order [simp]:
  "ACCESS_NONE \<le> a" "ACCESS_READ \<le> a \<longleftrightarrow> a \<noteq> ACCESS_NONE"
  "ACCESS_WRITE \<le> ACCESS_READ \<longleftrightarrow> False"
  by (cases a; simp add: less_eq_access_type_def)+

section \<open>Messages\<close>

text \<open>
  The struct \<open>Message\<close>.  The three text fields are arrays of \<open>MAX_USERNAME_LEN\<close>,
  \<open>MAX_FILENAME_LEN\<close> and \<open>MAX_CONTENT_LEN\<close> bytes; \<open>message_ok\<close> says that the texts and
  their terminators fit, and \<open>message_zero\<close> is the initialiser \<^verbatim>\<open>{0}\<close>, whose type is
  the enumeration's first constant.
\<close>

record message =
  m_type :: message_type
  m_sender :: string
  m_filename :: string
  m_data :: string
  m_arg1 :: int
  m_arg2 :: int
  m_error :: error_code

definition message_zero :: message where
  "message_zero = \<lparr>m_type = MSG_CLIENT_REGISTER, m_sender = [], m_filename = [], m_data = [],
                   m_arg1 = 0, m_arg2 = 0, m_error = ERR_SUCCESS\<rparr>"

definition message_ok :: "message \<Rightarrow> bool" where
  "message_ok m \<longleftrightarrow> length (m_sender m) < MAX_USERNAME_LEN \<and> length (m_filename m) < MAX_FILENAME_LEN
                  \<and> length (m_data m) < MAX_CONTENT_LEN
                  \<and> CHR 0x00 \<notin> set (m_sender m) \<union> set (m_filename m) \<union> set (m_data m)"

text \<open>The replies the handlers build from a zeroed message.\<close>

definition error_reply :: "error_code \<Rightarrow> string \<Rightarrow> message" where
  "error_reply e txt = message_zero\<lparr>m_type := MSG_ERROR, m_error := e, m_data := txt\<rparr>"

definition ack_reply :: "string \<Rightarrow> message" where
  "ack_reply txt = message_zero\<lparr>m_type := MSG_ACK, m_data := txt\<rparr>"

lemma reply_simps [simp]:
  "m_type (error_reply e t) = MSG_ERROR" "m_error (error_reply e t) = e" "m_data (error_reply e t) = t"
  "m_type (ack_reply t) = MSG_ACK" "m_error (ack_reply t) = ERR_SUCCESS" "m_data (ack_reply t) = t"
  by (simp_all add: error_reply_def ack_reply_def message_zero_def)

lemma reply_eq [simp]:
  "error_reply e t = error_reply e' t' \<longleftrightarrow> e = e' \<and> t = t'" "ack_reply t = ack_reply t' \<longleftrightarrow> t = t'"
  "error_reply e t \<noteq> ack_reply t'" "ack_reply t' \<noteq> error_reply e t"
  by (auto simp: error_reply_def ack_reply_def message_zero_def)

end
