(* ===== verification/Trie.thy ===== *)
theory Trie
  imports Protocol
begin

text \<open>
  The trie of \<^verbatim>\<open>naming_server/nm_storage.c\<close>: a node has one child pointer per byte, a
  flag that marks the end of a name and a pointer to that name's metadata.  The
  metadata objects live in the naming server's heap, so the trie is polymorphic
  in the pointers it holds.  A child pointer that is \<open>NULL\<close> is \<open>None\<close>.

  The lemmas show that the trie is a finite map from names to pointers
  (\<open>trie_store\<close>, an instance of the store contract \<open>name_store\<close>), and that the
  enumeration lists every stored name once, in byte order, cut at the capacity
  of the caller's array.
\<close>

section \<open>The contract of a name store\<close>

text \<open>
  What the naming server relies on: a lookup returns what was inserted last, and
  a deletion removes the name and nothing else.
\<close>

locale name_store =
  fixes empty :: "'s"
    and insert :: "'s \<Rightarrow> string \<Rightarrow> 'p \<Rightarrow> 's"
    and delete :: "'s \<Rightarrow> string \<Rightarrow> 's"
    and lookup :: "'s \<Rightarrow> string \<Rightarrow> 'p option"
    and good_name :: "string \<Rightarrow> bool"
    and invar :: "'s \<Rightarrow> bool"
  assumes lookup_empty: "lookup empty k = None"
    and lookup_insert: "invar s \<Longrightarrow> good_name k \<Longrightarrow>
           lookup (insert s k p) k' = (if k' = k then Some p else lookup s k')"
    and lookup_delete: "invar s \<Longrightarrow> lookup (delete s k) k' = (if k' = k then None else lookup s k')"
    and invar_empty: "invar empty"
    and invar_insert: "invar s \<Longrightarrow> good_name k \<Longrightarrow> invar (insert s k p)"
    and invar_delete: "invar s \<Longrightarrow> invar (delete s k)"
begin

lemmas store_laws = lookup_empty lookup_insert lookup_delete invar_empty invar_insert invar_delete

lemma lookup_insert_same: "invar s \<Longrightarrow> good_name k \<Longrightarrow> lookup (insert s k p) k = Some p"
  by (simp add: lookup_insert)

lemma lookup_delete_same: "invar s \<Longrightarrow> lookup (delete s k) k = None"
  by (simp add: lookup_delete)

lemma dom_insert: "invar s \<Longrightarrow> good_name k \<Longrightarrow> dom (lookup (insert s k p)) = {k} \<union> dom (lookup s)"
  by (auto simp: lookup_insert split: if_splits)

lemma dom_delete: "invar s \<Longrightarrow> dom (lookup (delete s k)) = dom (lookup s) - {k}"
  by (auto simp: lookup_delete split: if_splits)

lemma ran_insert_subset: "invar s \<Longrightarrow> good_name k \<Longrightarrow> ran (lookup (insert s k p)) \<subseteq> ran (lookup s) \<union> {p}"
  by (auto simp: ran_def lookup_insert split: if_splits)

lemma ran_delete_subset: "invar s \<Longrightarrow> ran (lookup (delete s k)) \<subseteq> ran (lookup s)"
  by (auto simp: ran_def lookup_delete split: if_splits)

text \<open>A delete right after an insert of a fresh name restores the old contents.\<close>

lemma delete_insert_fresh:
  "invar s \<Longrightarrow> good_name k \<Longrightarrow> lookup s k = None \<Longrightarrow> lookup (delete (insert s k p) k) = lookup s"
  by (rule ext) (simp add: lookup_insert lookup_delete invar_insert)

end

section \<open>Nodes\<close>

datatype 'p trie = TrieNode
  (is_end_of_word: bool)
  (file_data: "'p option")
  (children: "char \<Rightarrow> 'p trie option")

definition trie_init :: "'p trie" where
  "trie_init = TrieNode False None (\<lambda>_. None)"

text \<open>\<open>trie_insert\<close> walks down the name and allocates the nodes that are missing.\<close>

fun trie_insert :: "'p trie \<Rightarrow> string \<Rightarrow> 'p \<Rightarrow> 'p trie" where
  "trie_insert (TrieNode e d ch) [] p = TrieNode True (Some p) ch"
| "trie_insert (TrieNode e d ch) (c # cs) p =
     TrieNode e d (ch(c := Some (trie_insert (case ch c of None \<Rightarrow> trie_init | Some t \<Rightarrow> t) cs p)))"

fun trie_search :: "'p trie \<Rightarrow> string \<Rightarrow> 'p option" where
  "trie_search (TrieNode e d ch) [] = (if e then d else None)"
| "trie_search (TrieNode e d ch) (c # cs) =
     (case ch c of None \<Rightarrow> None | Some t \<Rightarrow> trie_search t cs)"

text \<open>
  \<open>trie_delete\<close> returns -1 when the path ends early; otherwise it clears the flag and
  the pointer of the last node and keeps the nodes.  (The metadata object it frees
  is removed from the heap by the caller's model.)
\<close>

fun trie_delete :: "'p trie \<Rightarrow> string \<Rightarrow> 'p trie \<times> int" where
  "trie_delete (TrieNode e d ch) [] = (TrieNode False None ch, 0)"
| "trie_delete (TrieNode e d ch) (c # cs) =
     (case ch c of
        None \<Rightarrow> (TrieNode e d ch, -1)
      | Some t \<Rightarrow> (case trie_delete t cs of (t', r) \<Rightarrow> (TrieNode e d (ch(c := Some t')), r)))"

lemma trie_search_init [simp]: "trie_search trie_init k = None"
  by (cases k) (simp_all add: trie_init_def)

lemma trie_search_insert:
  "trie_search (trie_insert t k p) k' = (if k' = k then Some p else trie_search t k')"
proof (induction t k p arbitrary: k' rule: trie_insert.induct)
  case (1 e d ch p)
  then show ?case by (cases k') auto
next
  case (2 e d ch c cs p)
  then show ?case by (cases k') (auto split: option.splits)
qed

lemma trie_search_delete:
  "trie_search (fst (trie_delete t k)) k' = (if k' = k then None else trie_search t k')"
proof (induction t k arbitrary: k' rule: trie_delete.induct)
  case (1 e d ch)
  then show ?case by (cases k') auto
next
  case (2 e d ch c cs)
  show ?case
  proof (cases "ch c")
    case None
    then show ?thesis by (cases k') auto
  next
    case (Some t)
    obtain t' r where t': "trie_delete t cs = (t', r)" by (cases "trie_delete t cs") auto
    from "2.IH" [OF Some] t' have "trie_search t' x = (if x = cs then None else trie_search t x)" for x
      by simp
    with Some t' show ?thesis by (cases k') auto
  qed
qed

lemma trie_delete_result:
  "trie_search t k \<noteq> None \<Longrightarrow> snd (trie_delete t k) = 0"
  by (induction t k rule: trie_delete.induct) (auto split: option.splits prod.splits if_splits)

interpretation trie_store: name_store trie_init trie_insert "\<lambda>t k. fst (trie_delete t k)"
  trie_search "\<lambda>_. True" "\<lambda>_. True"
  by unfold_locales (simp_all add: trie_search_insert trie_search_delete)

section \<open>Enumeration\<close>

definition all_bytes :: "char list" where
  "all_bytes = map char_of [0..<256::nat]"

lemma set_all_bytes [simp]: "c \<in> set all_bytes"
proof -
  have "char_of (of_char c :: nat) = c" "(of_char c :: nat) < 256" by simp_all
  then show ?thesis unfolding all_bytes_def by (metis atLeastLessThan_iff imageI le0 set_map set_upt)
qed

lemma sorted_all_bytes: "sorted_wrt (<) all_bytes"
proof -
  have "sorted_wrt (\<lambda>i j. (char_of i :: char) < char_of j) [0..<256::nat]"
    by (rule sorted_wrt_mono_rel [OF _ sorted_wrt_upt])
       (auto simp: less_char_def of_char_of)
  then show ?thesis by (simp add: all_bytes_def sorted_wrt_map)
qed

text \<open>
  \<open>trie_get_all_helper\<close> appends to the caller's array until it holds \<open>max_count\<close>
  names.  \<open>prefix\<close> is the part of the prefix buffer that is in use.
\<close>

primrec trie_get_all_helper :: "'p trie \<Rightarrow> string \<Rightarrow> nat \<Rightarrow> string list \<Rightarrow> string list" where
  "trie_get_all_helper (TrieNode e d ch) prefix max_count acc =
     (if max_count \<le> length acc then acc
      else foldl (\<lambda>a i. case map_option trie_get_all_helper (ch i) of
                          None \<Rightarrow> a
                        | Some visit \<Rightarrow> visit (prefix @ [i]) max_count a)
             (if e \<and> d \<noteq> None then acc @ [prefix] else acc) all_bytes)"

definition trie_get_all_files :: "'p trie \<Rightarrow> nat \<Rightarrow> string list" where
  "trie_get_all_files root max_count = trie_get_all_helper root [] max_count []"

text \<open>The reference: all names in byte order, without the capacity.\<close>

primrec trie_names :: "'p trie \<Rightarrow> string list" where
  "trie_names (TrieNode e d ch) =
     (if e \<and> d \<noteq> None then [[]] else [])
     @ concat (map (\<lambda>i. case map_option trie_names (ch i) of None \<Rightarrow> [] | Some ns \<Rightarrow> map ((#) i) ns) all_bytes)"

lemma get_all_foldl:
  assumes step: "\<And>a i. i \<in> set cs \<Longrightarrow> length a \<le> m \<Longrightarrow> f a i = take m (a @ g i)"
    and "length acc \<le> m"
  shows "foldl f acc cs = take m (acc @ concat (map g cs))"
  using assms
proof (induction cs arbitrary: acc)
  case (Cons c cs)
  then have "f acc c = take m (acc @ g c)" by simp
  moreover have "take m (take m (acc @ g c) @ xs) = take m (acc @ g c @ xs)" for xs
    by (cases "length (acc @ g c) \<le> m") (simp_all add: min_def)
  ultimately show ?case using Cons by simp
qed simp

lemma trie_get_all_helper_eq:
  "length acc \<le> m \<Longrightarrow>
   trie_get_all_helper t prefix m acc = take m (acc @ map ((@) prefix) (trie_names t))"
proof (induction t arbitrary: prefix acc)
  case (TrieNode e d ch)
  let ?acc = "if e \<and> d \<noteq> None then acc @ [prefix] else acc"
  let ?g = "\<lambda>i. map ((@) prefix) (case map_option trie_names (ch i) of None \<Rightarrow> [] | Some ns \<Rightarrow> map ((#) i) ns)"
  show ?case
  proof (cases "m \<le> length acc")
    case True
    with TrieNode.prems show ?thesis by simp
  next
    case False
    have "foldl (\<lambda>a i. case map_option trie_get_all_helper (ch i) of
                          None \<Rightarrow> a
                        | Some visit \<Rightarrow> visit (prefix @ [i]) m a) ?acc all_bytes
        = take m (?acc @ concat (map ?g all_bytes))"
    proof (rule get_all_foldl)
      fix a :: "string list" and i assume a: "length a \<le> m"
      show "(case map_option trie_get_all_helper (ch i) of
               None \<Rightarrow> a | Some visit \<Rightarrow> visit (prefix @ [i]) m a) = take m (a @ ?g i)"
      proof (cases "ch i")
        case (Some t)
        then have "Some t \<in> range ch" by (metis rangeI)
        then have "trie_get_all_helper t (prefix @ [i]) m a = take m (a @ map ((@) (prefix @ [i])) (trie_names t))"
          using a by (intro TrieNode.IH) auto
        moreover have "map ((@) (prefix @ [i])) (trie_names t) = ?g i" using Some by simp
        ultimately show ?thesis using Some by simp
      qed (use a in simp)
    next
      show "length ?acc \<le> m" using False by simp
    qed
    moreover have "map ((@) prefix) (trie_names (TrieNode e d ch))
        = (if e \<and> d \<noteq> None then [prefix] else []) @ concat (map ?g all_bytes)"
      by (simp add: map_concat comp_def)
    moreover have "?acc = acc @ (if e \<and> d \<noteq> None then [prefix] else [])" by simp
    ultimately show ?thesis using False by (simp only: trie_get_all_helper.simps if_False append_assoc)
  qed
qed

lemma trie_get_all_files_eq: "trie_get_all_files t m = take m (trie_names t)"
  by (simp add: trie_get_all_files_def trie_get_all_helper_eq map_idI)

lemma trie_names_iff: "k \<in> set (trie_names t) \<longleftrightarrow> trie_search t k \<noteq> None"
proof (induction t arbitrary: k)
  case (TrieNode e d ch)
  show ?case
  proof (cases k)
    case (Cons c cs)
    have "k \<in> set (trie_names (TrieNode e d ch)) \<longleftrightarrow> (\<exists>t. ch c = Some t \<and> cs \<in> set (trie_names t))"
    proof
      assume "k \<in> set (trie_names (TrieNode e d ch))"
      then show "\<exists>t. ch c = Some t \<and> cs \<in> set (trie_names t)"
        using Cons by (cases "ch c") (force split: option.splits if_splits)+
    next
      assume "\<exists>t. ch c = Some t \<and> cs \<in> set (trie_names t)"
      then obtain t where "ch c = Some t" "cs \<in> set (trie_names t)" by blast
      then show "k \<in> set (trie_names (TrieNode e d ch))"
        using Cons by (auto intro!: bexI [of _ c])
    qed
    also have "\<dots> \<longleftrightarrow> trie_search (TrieNode e d ch) k \<noteq> None"
    proof (cases "ch c")
      case (Some t)
      then have "Some t \<in> range ch" by (metis rangeI)
      then have "cs \<in> set (trie_names t) \<longleftrightarrow> trie_search t cs \<noteq> None" by (intro TrieNode.IH) auto
      with Some Cons show ?thesis by simp
    qed (simp add: Cons)
    finally show ?thesis .
  qed (auto split: option.splits)
qed

text \<open>The names come in strictly ascending byte order, so none comes twice.\<close>

definition byte_less :: "string \<Rightarrow> string \<Rightarrow> bool" where
  "byte_less a b \<longleftrightarrow> (a, b) \<in> lexord {(x, y). x < y}"

lemma byte_less_simps [simp]:
  "byte_less [] (c # s)" "\<not> byte_less s []"
  "byte_less (c # s) (d # t) \<longleftrightarrow> c < d \<or> c = d \<and> byte_less s t"
  by (auto simp: byte_less_def)

lemma byte_less_irrefl [simp]: "\<not> byte_less s s"
  by (induction s) auto

lemma sorted_wrt_concat_map:
  assumes "sorted_wrt R cs" "\<And>c. c \<in> set cs \<Longrightarrow> sorted_wrt P (g c)"
    and "\<And>c d x y. R c d \<Longrightarrow> x \<in> set (g c) \<Longrightarrow> y \<in> set (g d) \<Longrightarrow> P x y"
  shows "sorted_wrt P (concat (map g cs))"
  using assms by (induction cs) (fastforce simp: sorted_wrt_append)+

lemma trie_names_sorted: "sorted_wrt byte_less (trie_names t)"
proof (induction t)
  case (TrieNode e d ch)
  let ?g = "\<lambda>i. case map_option trie_names (ch i) of None \<Rightarrow> [] | Some ns \<Rightarrow> map ((#) i) ns"
  have "sorted_wrt byte_less (concat (map ?g all_bytes))"
  proof (rule sorted_wrt_concat_map [OF sorted_all_bytes])
    fix c
    show "sorted_wrt byte_less (?g c)"
    proof (cases "ch c")
      case (Some t)
      then have "Some t \<in> range ch" by (metis rangeI)
      then have "sorted_wrt byte_less (trie_names t)" by (intro TrieNode.IH) auto
      with Some show ?thesis by (simp add: sorted_wrt_map)
    qed simp
  next
    fix c d :: char and x y
    assume "c < d" "x \<in> set (?g c)" "y \<in> set (?g d)"
    then show "byte_less x y" by (auto split: option.splits)
  qed
  moreover have "byte_less [] y" if "y \<in> set (concat (map ?g all_bytes))" for y
    using that by (auto split: option.splits)
  ultimately show ?case by (simp add: sorted_wrt_append del: set_concat)
qed

lemma trie_names_distinct: "distinct (trie_names t)"
proof -
  have "sorted_wrt byte_less ns \<Longrightarrow> distinct ns" for ns
    by (induction ns) auto
  from this [OF trie_names_sorted] show ?thesis .
qed

lemma trie_get_all_files_set:
  "set (trie_get_all_files t m) \<subseteq> {k. trie_search t k \<noteq> None}"
  by (auto simp: trie_get_all_files_eq simp del: not_None_eq
           dest!: in_set_takeD trie_names_iff [THEN iffD1])

lemma trie_get_all_files_complete:
  "length (trie_names t) \<le> m \<Longrightarrow> set (trie_get_all_files t m) = {k. trie_search t k \<noteq> None}"
  by (auto simp: trie_get_all_files_eq trie_names_iff)

end
