(* ===== verification/Utils.thy ===== *)
theory Utils
  imports Protocol
begin

text \<open>
  \<^verbatim>\<open>common/utils.c\<close> without its file functions (see \<open>File_System\<close>) and its logger:
  white-space trimming, tokenising, the sentence delimiter, word lists, command
  parsing, validation and the djb2 hash.
\<close>

section \<open>Text\<close>

text \<open>
  \<open>trim_string\<close> moves the start past leading white space; when something is left it
  walks back from the end, never past the start.
\<close>

definition trim_string :: "string \<Rightarrow> string" where
  "trim_string s =
     (case dropWhile isspace s of
        [] \<Rightarrow> []
      | c # t \<Rightarrow> c # rev (dropWhile isspace (rev t)))"

definition is_sentence_delimiter :: "char \<Rightarrow> bool" where
  "is_sentence_delimiter c \<longleftrightarrow> c = CHR ''.'' \<or> c = CHR ''!'' \<or> c = CHR ''?''"

text \<open>
  \<open>split_string\<close> hands the address of its one-character parameter to \<open>strtok\<close>, which
  reads on to the next zero byte: \<open>stray\<close> is the set of characters that happen to lie
  between the parameter and that byte.
\<close>

definition split_string :: "char set \<Rightarrow> string \<Rightarrow> char \<Rightarrow> nat \<Rightarrow> string list" where
  "split_string stray str delimiter max_tokens = take max_tokens (strtok (insert delimiter stray) str)"

definition blanks :: "char set" where
  "blanks = {CHR '' '', CHR 0x09, CHR 0x0A}"

definition parse_sentence_to_words :: "string \<Rightarrow> nat \<Rightarrow> string list" where
  "parse_sentence_to_words sentence max_words = take max_words (strtok blanks sentence)"

text \<open>
  The blank is appended with an unbounded \<open>strcat\<close>, the word with a \<open>strncat\<close> that is
  bounded by the rest of the buffer.
\<close>

fun join_words_loop :: "nat \<Rightarrow> string \<Rightarrow> bool \<Rightarrow> string list \<Rightarrow> string result" where
  "join_words_loop max_len sentence first [] = Inr sentence"
| "join_words_loop max_len sentence first (w # ws) =
     ebind (if first then Inr sentence else strcat_buf max_len sentence '' '')
       (\<lambda>s. join_words_loop max_len (s @ take (max_len - length s - 1) w) False ws)"

definition join_words_to_sentence :: "string list \<Rightarrow> nat \<Rightarrow> string result" where
  "join_words_to_sentence words max_len = join_words_loop max_len [] True words"

text \<open>
  \<open>count_words_in_file\<close> over the bytes of the file.  The byte \<open>0xFF\<close> compares equal to
  \<open>EOF\<close> once it is stored in a (signed) \<open>char\<close>, and ends the loop.
\<close>

fun count_words_loop :: "char \<Rightarrow> nat \<Rightarrow> string \<Rightarrow> char \<times> nat" where
  "count_words_loop prev n [] = (prev, n)"
| "count_words_loop prev n (ch # s) =
     (if ch = CHR 0xFF then (prev, n)
      else count_words_loop ch (if isspace ch \<and> \<not> isspace prev then n + 1 else n) s)"

definition count_words_in_file :: "string \<Rightarrow> nat" where
  "count_words_in_file bytes =
     (case count_words_loop (CHR '' '') 0 bytes of (prev, n) \<Rightarrow> if \<not> isspace prev then n + 1 else n)"

lemma trim_string_cases:
  obtains "dropWhile isspace s = []" "trim_string s = []"
  | c t where "dropWhile isspace s = c # t" "\<not> isspace c"
      "trim_string s = c # rev (dropWhile isspace (rev t))"
proof (cases "dropWhile isspace s")
  case Nil
  then show ?thesis using that(1) by (simp only: trim_string_def list.case)
next
  case (Cons c t)
  then have "\<not> isspace c" by (metis dropWhile_eq_Cons_conv)
  with Cons that(2) show ?thesis by (simp add: trim_string_def)
qed

lemma trim_string_eq: "trim_string s = rev (dropWhile isspace (rev (dropWhile isspace s)))"
  by (cases s rule: trim_string_cases) (simp_all add: dropWhile_append del: dropWhile_eq_Nil_conv, auto)

lemma trim_string_ends:
  "trim_string s = [] \<or> \<not> isspace (hd (trim_string s)) \<and> \<not> isspace (last (trim_string s))"
proof (cases s rule: trim_string_cases)
  case (2 c t)
  show ?thesis
  proof (cases "dropWhile isspace (rev t)")
    case (Cons d u)
    then have "\<not> isspace d" by (metis dropWhile_eq_Cons_conv)
    with 2 Cons show ?thesis by simp
  qed (use 2 in \<open>simp add: del: dropWhile_eq_Nil_conv\<close>)
qed simp

lemma trim_string_id:
  assumes "s = [] \<or> \<not> isspace (hd s) \<and> \<not> isspace (last s)"
  shows "trim_string s = s"
proof (cases s)
  case Nil
  then show ?thesis by (simp add: trim_string_def)
next
  case (Cons c t)
  with assms have a: "dropWhile isspace s = s" by simp
  obtain d u where u: "rev s = d # u" using Cons by (cases "rev s") auto
  then have "last s = d" by (metis hd_rev list.sel(1))
  with assms Cons u have "dropWhile isspace (rev s) = rev s" by simp
  with a show ?thesis by (simp only: trim_string_eq rev_rev_ident)
qed

lemma trim_string_idem: "trim_string (trim_string s) = trim_string s"
  by (rule trim_string_id [OF trim_string_ends])

lemma strtok_Cons_token:
  assumes "c \<notin> ds"
  shows "strtok ds (c # s) = (c # takeWhile (\<lambda>x. x \<notin> ds) s) # strtok ds (dropWhile (\<lambda>x. x \<notin> ds) s)"
  using assms by (subst strtok.simps) (simp add: Let_def)

lemma count_words_loop_eq:
  assumes "CHR 0xFF \<notin> set s"
  shows "(case count_words_loop prev n s of (p, m) \<Rightarrow> if \<not> isspace p then m + 1 else m)
       = (if isspace prev then n + length (strtok {c. isspace c} s)
          else n + 1 + length (strtok {c. isspace c} (dropWhile (\<lambda>c. \<not> isspace c) s)))"
  using assms
proof (induction prev n s rule: count_words_loop.induct)
  case (2 prev n ch s)
  from "2.prems" have ne: "ch \<noteq> CHR 0xFF" and s: "CHR 0xFF \<notin> set s" by auto
  from "2.IH" [OF ne s] ne show ?case
    by (cases "isspace ch"; cases "isspace prev") (simp_all add: strtok_skip strtok_Cons_token)
qed simp

lemma count_words_in_file_eq:
  "CHR 0xFF \<notin> set s \<Longrightarrow> count_words_in_file s = length (strtok {c. isspace c} s)"
  by (simp add: count_words_in_file_def count_words_loop_eq isspace_def [of "CHR '' ''"])

lemma join_words_loop_eq:
  assumes "length buf < n"
    "length buf + length (concat (map (\<lambda>w. CHR '' '' # w) ws)) < n + (if first then 1 else 0)"
    "first \<longrightarrow> buf = []"
  shows "join_words_loop n buf first ws = Inr (buf @ (if first then join_with (CHR '' '') ws
                                                     else concat (map (\<lambda>w. CHR '' '' # w) ws)))"
  using assms
proof (induction ws arbitrary: buf first)
  case (Cons w ws)
  have "join_with (CHR '' '') (w # ws) = w @ concat (map (\<lambda>w. CHR '' '' # w) ws)"
    by (induction ws arbitrary: w) auto
  with Cons show ?case by (cases first) (auto simp: strcat_buf_def)
qed auto

lemma join_words_to_sentence_eq:
  assumes "length (join_with (CHR '' '') ws) < n"
  shows "join_words_to_sentence ws n = Inr (join_with (CHR '' '') ws)"
proof -
  have "length (concat (map (\<lambda>w. CHR '' '' # w) ws)) \<le> Suc (length (join_with (CHR '' '') ws))"
    by (induction ws rule: induct_list012) auto
  then show ?thesis using assms join_words_loop_eq [of "[]" n ws True]
    by (cases ws) (auto simp: join_words_to_sentence_def)
qed

section \<open>Validation\<close>

definition is_valid_filename :: "string \<Rightarrow> bool" where
  "is_valid_filename f \<longleftrightarrow>
     f \<noteq> [] \<and> length f < MAX_FILENAME_LEN
     \<and> list_all (\<lambda>c. c \<notin> {CHR ''/'', CHR 0x5C, CHR '':'', CHR ''*'', CHR ''?'', CHR 0x22,
                             CHR ''<'', CHR ''>'', CHR ''|''}) f"

definition is_valid_username :: "string \<Rightarrow> bool" where
  "is_valid_username u \<longleftrightarrow>
     u \<noteq> [] \<and> length u < MAX_USERNAME_LEN \<and> list_all (\<lambda>c. isalnum c \<or> c = CHR ''_'') u"

fun valid_ip_loop :: "string \<Rightarrow> nat \<Rightarrow> nat option" where
  "valid_ip_loop [] dots = Some dots"
| "valid_ip_loop (c # s) dots =
     (if c = CHR ''.'' then valid_ip_loop s (dots + 1)
      else if \<not> isdigit c then None else valid_ip_loop s dots)"

definition is_valid_ip :: "string \<Rightarrow> bool" where
  "is_valid_ip s = (valid_ip_loop s 0 = Some 3)"

definition is_valid_port :: "int \<Rightarrow> bool" where
  "is_valid_port p \<longleftrightarrow> 0 < p \<and> p < 65536"

section \<open>The djb2 hash\<close>

text \<open>
  \<open>unsigned long\<close> has 64 bits; a \<open>char\<close> is signed, so a byte above 127 is added as a
  negative number.  The same loop is \<open>hash_filename\<close> of the naming server.
\<close>

definition char_int :: "char \<Rightarrow> int" where
  "char_int c = (let n = of_char c in if n < 128 then n else n - 256)"

fun hash_loop :: "64 word \<Rightarrow> string \<Rightarrow> 64 word" where
  "hash_loop h [] = h"
| "hash_loop h (c # s) = hash_loop (push_bit 5 h + h + word_of_int (char_int c)) s"

definition hash_string :: "string \<Rightarrow> 64 word" where
  "hash_string s = hash_loop 5381 s"

lemma hash_step: "push_bit 5 h + h = 33 * (h :: 64 word)"
  by (simp add: push_bit_eq_mult)

lemma hash_loop_eq:
  "hash_loop h s = word_of_int (foldl (\<lambda>v c. 33 * v + char_int c) (uint h) s)"
proof (induction h s rule: hash_loop.induct)
  case (2 h c s)
  have *: "(word_of_int (foldl (\<lambda>v c. 33 * v + char_int c) a s) :: 64 word)
         = word_of_int (foldl (\<lambda>v c. 33 * v + char_int c) b s)"
    if "(word_of_int a :: 64 word) = word_of_int b" for a b
    using that
  proof (induction s arbitrary: a b)
    case (Cons d s)
    have "(word_of_int (33 * a + char_int d) :: 64 word) = 33 * word_of_int a + word_of_int (char_int d)"
      by simp
    also have "\<dots> = word_of_int (33 * b + char_int d)" using Cons.prems by simp
    finally show ?case using Cons.IH by simp
  qed simp
  have "(word_of_int (uint (push_bit 5 h + h + word_of_int (char_int c))) :: 64 word)
       = word_of_int (33 * uint h + char_int c)"
    by (simp add: hash_step)
  with 2 * show ?case by simp
qed simp

section \<open>Commands\<close>

text \<open>
  \<open>parse_command\<close>: the first token is the command name, cut to 31 characters; a token
  that starts with \<open>-\<close> sets flags; every other token is an argument, at most ten of them.
\<close>

record command =
  cmd :: string
  args :: "string list"
  flag_a :: bool
  flag_l :: bool
  flag_r :: bool
  flag_w :: bool

definition command_zero :: command where
  "command_zero = \<lparr>cmd = [], args = [], flag_a = False, flag_l = False, flag_r = False, flag_w = False\<rparr>"

definition parse_flag :: "command \<Rightarrow> char \<Rightarrow> command" where
  "parse_flag c ch =
     (if ch = CHR ''a'' then c\<lparr>flag_a := True\<rparr>
      else if ch = CHR ''l'' then c\<lparr>flag_l := True\<rparr>
      else if ch = CHR ''R'' then c\<lparr>flag_r := True\<rparr>
      else if ch = CHR ''W'' then c\<lparr>flag_w := True\<rparr>
      else c)"

definition parse_token :: "command \<Rightarrow> string \<Rightarrow> command" where
  "parse_token c token =
     (case token of
        [] \<Rightarrow> (if length (args c) < 10 then c\<lparr>args := args c @ [[]]\<rparr> else c)
      | d # fs \<Rightarrow>
          if d = CHR ''-'' then foldl parse_flag c fs
          else if length (args c) < 10
               then c\<lparr>args := args c @ [strncpy_buf MAX_FILENAME_LEN token]\<rparr>
               else c)"

definition parse_command :: "char set \<Rightarrow> string \<Rightarrow> command" where
  "parse_command stray input =
     (case split_string stray input (CHR '' '') 20 of
        [] \<Rightarrow> command_zero
      | t # ts \<Rightarrow> foldl parse_token (command_zero\<lparr>cmd := strncpy_buf 32 t\<rparr>) ts)"

lemma parse_flags_frame [simp]:
  "cmd (foldl parse_flag c fs) = cmd c" "args (foldl parse_flag c fs) = args c"
  by (induction fs arbitrary: c) (auto simp: parse_flag_def)

lemma parse_flags_set:
  "flag_a (foldl parse_flag c fs) \<longleftrightarrow> flag_a c \<or> CHR ''a'' \<in> set fs"
  "flag_l (foldl parse_flag c fs) \<longleftrightarrow> flag_l c \<or> CHR ''l'' \<in> set fs"
  "flag_r (foldl parse_flag c fs) \<longleftrightarrow> flag_r c \<or> CHR ''R'' \<in> set fs"
  "flag_w (foldl parse_flag c fs) \<longleftrightarrow> flag_w c \<or> CHR ''W'' \<in> set fs"
  by (induction fs arbitrary: c) (auto simp: parse_flag_def)

lemma parse_token_cmd [simp]: "cmd (parse_token c t) = cmd c"
  by (simp add: parse_token_def split: list.splits)

lemma parse_tokens_cmd [simp]: "cmd (foldl parse_token c ts) = cmd c"
  by (induction ts arbitrary: c) auto

text \<open>What the loop over the tokens leaves in the argument array.\<close>

lemma parse_tokens_args:
  assumes "length (args c) \<le> 10" "[] \<notin> set ts"
  shows "args (foldl parse_token c ts)
       = take 10 (args c @ map (strncpy_buf MAX_FILENAME_LEN) (filter (\<lambda>t. hd t \<noteq> CHR ''-'') ts))"
  using assms
proof (induction ts arbitrary: c)
  case (Cons t ts)
  then obtain d fs where t: "t = d # fs" by (cases t) auto
  show ?case
  proof (cases "d = CHR ''-''")
    case True
    with Cons t show ?thesis by (simp add: parse_token_def)
  next
    case False
    show ?thesis
    proof (cases "length (args c) < 10")
      case True
      then have "10 - length (args c) = Suc (9 - length (args c))" by simp
      with True False Cons t show ?thesis by (simp add: parse_token_def)
    next
      case full: False
      with Cons.prems have "length (args c) = 10" by simp
      with False Cons t show ?thesis by (simp add: parse_token_def)
    qed
  qed
qed simp

lemma args_bounded: "length (args (parse_command stray input)) \<le> 10"
proof (cases "split_string stray input (CHR '' '') 20")
  case (Cons t ts)
  have "[] \<notin> set ts"
  proof
    assume "[] \<in> set ts"
    then have "[] \<in> set (split_string stray input (CHR '' '') 20)" by (simp add: Cons)
    then show False by (auto simp: split_string_def dest!: in_set_takeD strtok_tokens)
  qed
  then show ?thesis by (simp add: parse_command_def Cons parse_tokens_args command_zero_def)
qed (simp add: parse_command_def command_zero_def)

end
