(* ===== verification/Hash_Table.thy ===== *)
theory Hash_Table
  imports Trie Utils
begin

text \<open>
  The chained hash table inside the metadata cache of \<^verbatim>\<open>naming_server/nm_storage.c\<close>
  (\<open>HashEntry\<close>, \<open>HashTable\<close>, \<open>ht_create\<close>, \<open>ht_get\<close>, \<open>ht_put\<close>, \<open>ht_remove\<close>): an array of
  chains of (key, node pointer) entries.  It satisfies the contract \<open>name_store\<close> for
  keys that fit the key buffer.
\<close>

type_synonym chain = "(string \<times> nat) list"
type_synonym hash_table = "chain list"

definition hash_filename :: "string \<Rightarrow> 64 word" where
  "hash_filename str = hash_loop 5381 str"

definition ht_create :: "nat \<Rightarrow> hash_table" where
  "ht_create capacity = replicate capacity []"

definition ht_index :: "hash_table \<Rightarrow> string \<Rightarrow> nat" where
  "ht_index ht key = unat (hash_filename key mod of_nat (length ht))"

fun chain_get :: "chain \<Rightarrow> string \<Rightarrow> nat option" where
  "chain_get [] key = None"
| "chain_get ((k, node) # e) key = (if k = key then Some node else chain_get e key)"

definition ht_get :: "hash_table \<Rightarrow> string \<Rightarrow> nat option" where
  "ht_get ht key = chain_get (ht ! ht_index ht key) key"

text \<open>Overwrites the node of the first entry with the key; \<open>None\<close> when there is none.\<close>

fun chain_replace :: "chain \<Rightarrow> string \<Rightarrow> nat \<Rightarrow> chain option" where
  "chain_replace [] key node = None"
| "chain_replace ((k, n) # e) key node =
     (if k = key then Some ((k, node) # e) else map_option ((#) (k, n)) (chain_replace e key node))"

definition ht_put :: "hash_table \<Rightarrow> string \<Rightarrow> nat \<Rightarrow> hash_table" where
  "ht_put ht key node =
     (let h = ht_index ht key in
      case chain_replace (ht ! h) key node of
        Some c \<Rightarrow> ht[h := c]
      | None \<Rightarrow> ht[h := (strncpy_buf MAX_FILENAME_LEN key, node) # ht ! h])"

fun chain_remove :: "chain \<Rightarrow> string \<Rightarrow> chain" where
  "chain_remove [] key = []"
| "chain_remove ((k, n) # e) key = (if k = key then e else (k, n) # chain_remove e key)"

definition ht_remove :: "hash_table \<Rightarrow> string \<Rightarrow> hash_table" where
  "ht_remove ht key = (let h = ht_index ht key in ht[h := chain_remove (ht ! h) key])"

section \<open>Chains\<close>

lemma chain_get_map_of: "chain_get c key = map_of c key"
  by (induction c key rule: chain_get.induct) auto

lemma chain_replace_None: "chain_replace c key n = None \<longleftrightarrow> chain_get c key = None"
  by (induction c key n rule: chain_replace.induct) auto

lemma chain_replace_Some:
  "chain_replace c key n = Some c' \<Longrightarrow>
   map fst c' = map fst c \<and> chain_get c' k = (if k = key then Some n else chain_get c k)"
  by (induction c key n arbitrary: c' rule: chain_replace.induct) (auto split: if_splits)

lemma chain_get_remove:
  "distinct (map fst c) \<Longrightarrow>
   chain_get (chain_remove c key) k = (if k = key then None else chain_get c k)"
  by (induction c key rule: chain_remove.induct) (auto simp: chain_get_map_of map_of_eq_None_iff, force)

lemma set_chain_remove: "set (chain_remove c key) \<subseteq> set c"
  by (induction c key rule: chain_remove.induct) auto

lemma distinct_chain_remove: "distinct (map fst c) \<Longrightarrow> distinct (map fst (chain_remove c key))"
  by (induction c key rule: chain_remove.induct) (auto dest: set_chain_remove [THEN subsetD])

section \<open>The table as a store\<close>

text \<open>
  Well-formed: there are buckets (their number is an \<open>int\<close>), no chain repeats a key,
  and a key sits in the bucket of its hash.
\<close>

definition ht_ok :: "hash_table \<Rightarrow> bool" where
  "ht_ok ht \<longleftrightarrow> 0 < length ht \<and> length ht < 2 ^ 31 \<and> (\<forall>c \<in> set ht. distinct (map fst c))"

definition short_name :: "string \<Rightarrow> bool" where
  "short_name k \<longleftrightarrow> length k < MAX_FILENAME_LEN"

lemma ht_index_lt:
  assumes "0 < length ht" "length ht < 2 ^ 31"
  shows "ht_index ht key < length ht"
proof -
  have "unat (of_nat (length ht) :: 64 word) = length ht"
    using assms by (simp add: unat_of_nat take_bit_nat_eq_self)
  then show ?thesis using assms by (simp add: ht_index_def unat_mod)
qed

lemma ht_index_update [simp]: "ht_index (ht[i := c]) key = ht_index ht key"
  by (simp add: ht_index_def)

lemma ht_put_get:
  assumes "ht_ok ht" "short_name key"
  shows "ht_get (ht_put ht key n) k = (if k = key then Some n else ht_get ht k)"
proof -
  let ?h = "ht_index ht key"
  have h: "?h < length ht" using assms by (simp add: ht_ok_def ht_index_lt)
  have key: "strncpy_buf MAX_FILENAME_LEN key = key" using assms(2) by (simp add: short_name_def)
  show ?thesis
  proof (cases "chain_replace (ht ! ?h) key n")
    case None
    with h key show ?thesis by (auto simp: ht_put_def ht_get_def Let_def nth_list_update)
  next
    case (Some c)
    with h chain_replace_Some [OF Some] show ?thesis
      by (auto simp: ht_put_def ht_get_def Let_def nth_list_update)
  qed
qed

lemma ht_put_ok:
  assumes "ht_ok ht" "short_name key"
  shows "ht_ok (ht_put ht key n)"
proof -
  let ?h = "ht_index ht key"
  have h: "?h < length ht" using assms by (simp add: ht_ok_def ht_index_lt)
  have key: "strncpy_buf MAX_FILENAME_LEN key = key" using assms(2) by (simp add: short_name_def)
  have d: "distinct (map fst (ht ! ?h))" using assms(1) h by (simp add: ht_ok_def)
  have upd: "ht_ok (ht[?h := c])" if "distinct (map fst c)" for c
    using assms(1) that by (auto simp: ht_ok_def dest: set_update_subset_insert [THEN subsetD])
  show ?thesis
  proof (cases "chain_replace (ht ! ?h) key n")
    case None
    then have "key \<notin> fst ` set (ht ! ?h)"
      by (simp add: chain_replace_None chain_get_map_of map_of_eq_None_iff)
    with None d upd key show ?thesis by (simp add: ht_put_def Let_def)
  next
    case (Some c)
    then have "map fst c = map fst (ht ! ?h)" using chain_replace_Some by blast
    with Some d upd show ?thesis by (simp add: ht_put_def Let_def)
  qed
qed

lemma ht_remove_get:
  assumes "ht_ok ht"
  shows "ht_get (ht_remove ht key) k = (if k = key then None else ht_get ht k)"
proof -
  let ?h = "ht_index ht key"
  have h: "?h < length ht" using assms by (simp add: ht_ok_def ht_index_lt)
  then have "distinct (map fst (ht ! ?h))" using assms by (simp add: ht_ok_def)
  with h show ?thesis
    by (auto simp: ht_remove_def ht_get_def Let_def nth_list_update chain_get_remove)
qed

lemma ht_remove_ok: "ht_ok ht \<Longrightarrow> ht_ok (ht_remove ht key)"
  by (auto simp: ht_ok_def ht_remove_def Let_def ht_index_lt distinct_chain_remove
           dest!: set_update_subset_insert [THEN subsetD])

lemma ht_create_ok: "0 < n \<Longrightarrow> n < 2 ^ 31 \<Longrightarrow> ht_ok (ht_create n)"
  by (auto simp: ht_ok_def ht_create_def)

lemma ht_create_get: "0 < n \<Longrightarrow> n < 2 ^ 31 \<Longrightarrow> ht_get (ht_create n) k = None"
  using ht_index_lt [of "ht_create n" k] by (simp add: ht_get_def ht_create_def)

text \<open>The cache of 100 entries has 256 buckets.\<close>

interpretation ht_store: name_store "ht_create 256" ht_put ht_remove ht_get short_name ht_ok
  by unfold_locales
     (simp_all add: ht_create_get ht_put_get ht_remove_get ht_create_ok ht_put_ok ht_remove_ok)

end
