(* ===== verification/Lru_Cache.thy ===== *)
theory Lru_Cache
  imports Hash_Table
begin

text \<open>
  The metadata cache of \<^verbatim>\<open>naming_server/nm_storage.c\<close>: a doubly linked list of nodes, most
  recently used first, and a hash table from file names to nodes.  Nodes live in an
  explicit store from addresses to nodes; \<open>calloc\<close> takes a fresh address, \<open>free\<close> removes
  one, and following a pointer to a freed node is the fault \<open>UseAfterFree\<close>.  Each C
  assignment through a pointer is one update of the store.

  The second half relates this to an association list in order of use: \<open>lru_rep c ps\<close>
  says that the cache \<open>c\<close> represents the list of nodes \<open>ps\<close>, and every operation is shown
  to succeed, to preserve the representation and to compute the list operation.
\<close>

section \<open>Nodes and pointers\<close>

record cache_node =
  cn_filename :: string
  cn_data :: nat
  cn_prev :: "nat option"
  cn_next :: "nat option"
  cn_time :: int

type_synonym node_store = "nat \<Rightarrow> cache_node option"

record lru_cache =
  lru_head :: "nat option"
  lru_tail :: "nat option"
  lru_capacity :: nat
  lru_size :: nat
  lru_map :: hash_table
  lru_nodes :: node_store
  lru_fresh :: nat

definition deref :: "node_store \<Rightarrow> nat \<Rightarrow> cache_node result" where
  "deref N p = (case N p of None \<Rightarrow> Inl UseAfterFree | Some n \<Rightarrow> Inr n)"

definition upd_node :: "node_store \<Rightarrow> nat \<Rightarrow> (cache_node \<Rightarrow> cache_node) \<Rightarrow> node_store result" where
  "upd_node N p f = (case N p of None \<Rightarrow> Inl UseAfterFree | Some n \<Rightarrow> Inr (N(p \<mapsto> f n)))"

text \<open>\<^verbatim>\<open>if (p) p->field = v;\<close>\<close>

fun upd_opt :: "node_store \<Rightarrow> nat option \<Rightarrow> (cache_node \<Rightarrow> cache_node) \<Rightarrow> node_store result" where
  "upd_opt N None f = Inr N"
| "upd_opt N (Some p) f = upd_node N p f"

section \<open>Operations\<close>

definition detach_node :: "lru_cache \<Rightarrow> nat \<Rightarrow> lru_cache result" where
  "detach_node c p =
     ebind (deref (lru_nodes c) p) (\<lambda>n.
     ebind (upd_opt (lru_nodes c) (cn_prev n) (\<lambda>m. m\<lparr>cn_next := cn_next n\<rparr>)) (\<lambda>N1.
     ebind (deref N1 p) (\<lambda>n1.
     ebind (upd_opt N1 (cn_next n1) (\<lambda>m. m\<lparr>cn_prev := cn_prev n1\<rparr>)) (\<lambda>N2.
     ebind (deref N2 p) (\<lambda>n2.
     ebind (upd_node N2 p (\<lambda>m. m\<lparr>cn_prev := None, cn_next := None\<rparr>)) (\<lambda>N3.
       Inr (c\<lparr>lru_nodes := N3,
              lru_head := if lru_head c = Some p then cn_next n2 else lru_head c,
              lru_tail := if lru_tail c = Some p then cn_prev n2 else lru_tail c\<rparr>)))))))"

definition attach_front :: "lru_cache \<Rightarrow> nat \<Rightarrow> lru_cache result" where
  "attach_front c p =
     ebind (upd_node (lru_nodes c) p (\<lambda>m. m\<lparr>cn_prev := None, cn_next := lru_head c\<rparr>)) (\<lambda>N1.
     ebind (upd_opt N1 (lru_head c) (\<lambda>m. m\<lparr>cn_prev := Some p\<rparr>)) (\<lambda>N2.
       Inr (c\<lparr>lru_nodes := N2, lru_head := Some p,
              lru_tail := if lru_tail c = None then Some p else lru_tail c\<rparr>)))"

text \<open>\<^verbatim>\<open>int buckets = 1; while (buckets < capacity * 2) buckets <<= 1;\<close>\<close>

function cache_buckets :: "nat \<Rightarrow> nat \<Rightarrow> nat" where
  "cache_buckets capacity buckets =
     (if 0 < buckets \<and> buckets < capacity * 2 then cache_buckets capacity (2 * buckets) else buckets)"
  by pat_completeness auto
termination by (relation "measure (\<lambda>(c, b). c * 2 - b)") auto

declare cache_buckets.simps [simp del]

definition cache_init :: "int \<Rightarrow> lru_cache" where
  "cache_init capacity =
     (let cap = (if capacity \<le> 0 then CACHE_CAPACITY else nat capacity)
      in \<lparr>lru_head = None, lru_tail = None, lru_capacity = cap, lru_size = 0,
          lru_map = ht_create (cache_buckets cap 1), lru_nodes = Map.empty, lru_fresh = 0\<rparr>)"

text \<open>The hit path shared by \<open>cache_get\<close> and \<open>cache_put\<close>: move the node to the front.\<close>

definition move_to_front :: "lru_cache \<Rightarrow> nat \<Rightarrow> lru_cache result" where
  "move_to_front c p = ebind (detach_node c p) (\<lambda>c1. attach_front c1 p)"

definition cache_get :: "lru_cache \<Rightarrow> string \<Rightarrow> int \<Rightarrow> (lru_cache \<times> nat option) result" where
  "cache_get c filename now =
     (case ht_get (lru_map c) filename of
        None \<Rightarrow> Inr (c, None)
      | Some p \<Rightarrow>
          ebind (upd_node (lru_nodes c) p (\<lambda>m. m\<lparr>cn_time := now\<rparr>)) (\<lambda>N1.
          ebind (move_to_front (c\<lparr>lru_nodes := N1\<rparr>) p) (\<lambda>c1.
          ebind (deref (lru_nodes c1) p) (\<lambda>n.
            Inr (c1, Some (cn_data n))))))"

text \<open>The eviction at the end of \<open>cache_put\<close>.\<close>

definition cache_evict :: "lru_cache \<Rightarrow> lru_cache result" where
  "cache_evict c =
     (if lru_capacity c < lru_size c
      then (case lru_tail c of
              None \<Rightarrow> Inr c
            | Some ev \<Rightarrow>
                ebind (detach_node c ev) (\<lambda>c1.
                ebind (deref (lru_nodes c1) ev) (\<lambda>n.
                  Inr (c1\<lparr>lru_map := ht_remove (lru_map c1) (cn_filename n),
                          lru_nodes := (lru_nodes c1)(ev := None),
                          lru_size := lru_size c1 - 1\<rparr>))))
      else Inr c)"

definition cache_put :: "lru_cache \<Rightarrow> string \<Rightarrow> nat \<Rightarrow> int \<Rightarrow> lru_cache result" where
  "cache_put c filename data now =
     (case ht_get (lru_map c) filename of
        Some p \<Rightarrow>
          ebind (upd_node (lru_nodes c) p (\<lambda>m. m\<lparr>cn_data := data, cn_time := now\<rparr>)) (\<lambda>N1.
            move_to_front (c\<lparr>lru_nodes := N1\<rparr>) p)
      | None \<Rightarrow>
          (let p = lru_fresh c;
               node = \<lparr>cn_filename = strncpy_buf MAX_FILENAME_LEN filename, cn_data = data,
                       cn_prev = None, cn_next = None, cn_time = now\<rparr>
           in ebind (attach_front (c\<lparr>lru_nodes := (lru_nodes c)(p \<mapsto> node), lru_fresh := Suc p\<rparr>) p) (\<lambda>c1.
                cache_evict (c1\<lparr>lru_map := ht_put (lru_map c1) filename p,
                                lru_size := lru_size c1 + 1\<rparr>))))"

definition cache_remove :: "lru_cache \<Rightarrow> string \<Rightarrow> lru_cache result" where
  "cache_remove c filename =
     (case ht_get (lru_map c) filename of
        None \<Rightarrow> Inr c
      | Some p \<Rightarrow>
          ebind (detach_node c p) (\<lambda>c1.
            Inr (c1\<lparr>lru_map := ht_remove (lru_map c1) filename,
                    lru_nodes := (lru_nodes c1)(p := None),
                    lru_size := lru_size c1 - 1\<rparr>)))"

section \<open>The reference: an association list in order of use\<close>

definition lru_drop :: "string \<Rightarrow> (string \<times> nat) list \<Rightarrow> (string \<times> nat) list" where
  "lru_drop k l = filter (\<lambda>e. fst e \<noteq> k) l"

definition lru_list_get :: "string \<Rightarrow> (string \<times> nat) list \<Rightarrow> (string \<times> nat) list \<times> nat option" where
  "lru_list_get k l = (case map_of l k of None \<Rightarrow> (l, None) | Some d \<Rightarrow> ((k, d) # lru_drop k l, Some d))"

definition lru_list_put :: "nat \<Rightarrow> string \<Rightarrow> nat \<Rightarrow> (string \<times> nat) list \<Rightarrow> (string \<times> nat) list" where
  "lru_list_put cap k d l = take cap ((k, d) # lru_drop k l)"

definition lru_list_remove :: "string \<Rightarrow> (string \<times> nat) list \<Rightarrow> (string \<times> nat) list" where
  "lru_list_remove k l = lru_drop k l"

section \<open>Linked segments\<close>

text \<open>
  \<open>seg N pv ps nx\<close>: the nodes \<open>ps\<close> are linked in this order; the first one points back to
  \<open>pv\<close> and the last one on to \<open>nx\<close>.
\<close>

definition hd_ptr :: "nat list \<Rightarrow> nat option \<Rightarrow> nat option" where
  "hd_ptr ps nx = (case ps of [] \<Rightarrow> nx | p # _ \<Rightarrow> Some p)"

definition last_ptr :: "nat option \<Rightarrow> nat list \<Rightarrow> nat option" where
  "last_ptr pv ps = (if ps = [] then pv else Some (last ps))"

fun seg :: "node_store \<Rightarrow> nat option \<Rightarrow> nat list \<Rightarrow> nat option \<Rightarrow> bool" where
  "seg N pv [] nx = True"
| "seg N pv (p # ps) nx =
     ((case N p of None \<Rightarrow> False | Some n \<Rightarrow> cn_prev n = pv \<and> cn_next n = hd_ptr ps nx)
      \<and> seg N (Some p) ps nx)"

lemma hd_ptr_simps [simp]: "hd_ptr [] nx = nx" "hd_ptr (p # ps) nx = Some p"
  by (simp_all add: hd_ptr_def)

lemma hd_ptr_append [simp]: "hd_ptr (ps @ qs) nx = hd_ptr ps (hd_ptr qs nx)"
  by (cases ps) auto

lemma last_ptr_simps [simp]:
  "last_ptr pv [] = pv" "last_ptr pv (p # ps) = last_ptr (Some p) ps" "last_ptr pv (ps @ [p]) = Some p"
  by (simp_all add: last_ptr_def)

lemma last_ptr_append [simp]: "last_ptr pv (ps @ qs) = last_ptr (last_ptr pv ps) qs"
  by (induction ps arbitrary: pv) auto

lemma seg_append [simp]:
  "seg N pv (ps @ qs) nx \<longleftrightarrow> seg N pv ps (hd_ptr qs nx) \<and> seg N (last_ptr pv ps) qs nx"
  by (induction ps arbitrary: pv) (auto split: option.splits)

lemma seg_frame [simp]: "p \<notin> set ps \<Longrightarrow> seg (N(p := x)) pv ps nx = seg N pv ps nx"
  by (induction ps arbitrary: pv) auto

lemma seg_live: "seg N pv ps nx \<Longrightarrow> p \<in> set ps \<Longrightarrow> \<exists>n. N p = Some n"
  by (induction ps arbitrary: pv) (auto split: option.splits)

lemma seg_cong: "(\<And>p. p \<in> set ps \<Longrightarrow> N' p = N p) \<Longrightarrow> seg N' pv ps nx = seg N pv ps nx"
  by (induction ps arbitrary: pv) auto

text \<open>What a node carries besides its links.\<close>

definition payload :: "cache_node \<Rightarrow> string \<times> nat \<times> int" where
  "payload n = (cn_filename n, cn_data n, cn_time n)"

definition same_payload :: "node_store \<Rightarrow> node_store \<Rightarrow> bool" where
  "same_payload N N' \<longleftrightarrow> (\<forall>q. map_option payload (N' q) = map_option payload (N q))"

lemma same_payload_trans: "same_payload N N1 \<Longrightarrow> same_payload N1 N2 \<Longrightarrow> same_payload N N2"
  by (simp add: same_payload_def)

lemma same_payload_refl [simp]: "same_payload N N"
  by (simp add: same_payload_def)

lemma same_payload_dom: "same_payload N N' \<Longrightarrow> dom N' = dom N"
  unfolding same_payload_def dom_def by (metis (no_types, lifting) map_option_is_None)

lemma same_payloadD:
  "same_payload N N' \<Longrightarrow> N p = Some n \<Longrightarrow>
   \<exists>n'. N' p = Some n' \<and> cn_filename n' = cn_filename n \<and> cn_data n' = cn_data n"
  by (auto simp: same_payload_def payload_def dest!: spec [of _ p])

text \<open>Redirecting the first back pointer or the last forward pointer of a segment.\<close>

lemma seg_redirect_next:
  assumes "seg N pv ps nx" "distinct ps" "last_ptr pv' ps = q"
    and "ps = [] \<Longrightarrow> q = None"
  shows "\<exists>N'. upd_opt N q (\<lambda>m. m\<lparr>cn_next := nx'\<rparr>) = Inr N' \<and> seg N' pv ps nx'
            \<and> same_payload N N' \<and> (\<forall>x. x \<notin> set ps \<longrightarrow> N' x = N x)"
proof (cases ps rule: rev_cases)
  case Nil
  with assms show ?thesis by simp
next
  case (snoc us p)
  with assms obtain n where n: "N p = Some n" and q: "q = Some p"
    by (auto split: option.splits)
  have "seg (N(p \<mapsto> n\<lparr>cn_next := nx'\<rparr>)) pv ps nx'"
    using assms snoc n by (auto split: option.splits)
  moreover have "same_payload N (N(p \<mapsto> n\<lparr>cn_next := nx'\<rparr>))"
    using n by (simp add: same_payload_def payload_def)
  ultimately show ?thesis using n q snoc by (simp add: upd_node_def)
qed

lemma seg_redirect_prev:
  assumes "seg N pv ps nx" "distinct ps" "hd_ptr ps None = q"
  shows "\<exists>N'. upd_opt N q (\<lambda>m. m\<lparr>cn_prev := pv'\<rparr>) = Inr N' \<and> seg N' pv' ps nx
            \<and> same_payload N N' \<and> (\<forall>x. x \<notin> set ps \<longrightarrow> N' x = N x)"
proof (cases ps)
  case Nil
  with assms show ?thesis by simp
next
  case (Cons p us)
  with assms obtain n where n: "N p = Some n" and q: "q = Some p"
    by (auto split: option.splits)
  have "seg (N(p \<mapsto> n\<lparr>cn_prev := pv'\<rparr>)) pv' ps nx"
    using assms Cons n by (auto split: option.splits)
  moreover have "same_payload N (N(p \<mapsto> n\<lparr>cn_prev := pv'\<rparr>))"
    using n by (simp add: same_payload_def payload_def)
  ultimately show ?thesis using n q Cons by (simp add: upd_node_def)
qed

section \<open>The list as the cache links it\<close>

definition linked :: "lru_cache \<Rightarrow> nat list \<Rightarrow> bool" where
  "linked c ps \<longleftrightarrow> seg (lru_nodes c) None ps None \<and> distinct ps
                 \<and> lru_head c = hd_ptr ps None \<and> lru_tail c = last_ptr None ps"

lemma detach_node_ok:
  assumes "linked c (us @ p # vs)"
  shows "\<exists>c'. detach_node c p = Inr c' \<and> linked c' (us @ vs)
            \<and> same_payload (lru_nodes c) (lru_nodes c')
            \<and> c' = c\<lparr>lru_nodes := lru_nodes c', lru_head := lru_head c', lru_tail := lru_tail c'\<rparr>"
proof -
  let ?N = "lru_nodes c"
  from assms have s1: "seg ?N None us (Some p)" and s2: "seg ?N (Some p) vs None"
    and d: "distinct us" "distinct vs" "p \<notin> set us" "p \<notin> set vs" "set us \<inter> set vs = {}"
    by (auto simp: linked_def split: option.splits)
  from assms obtain n where n: "?N p = Some n" "cn_prev n = last_ptr None us" "cn_next n = hd_ptr vs None"
    by (auto simp: linked_def split: option.splits)
  obtain N1 where N1: "upd_opt ?N (cn_prev n) (\<lambda>m. m\<lparr>cn_next := cn_next n\<rparr>) = Inr N1"
      "seg N1 None us (cn_next n)" "same_payload ?N N1" "\<forall>x. x \<notin> set us \<longrightarrow> N1 x = ?N x"
    using seg_redirect_next [OF s1 d(1), of None "cn_prev n" "cn_next n"] n(2) by auto
  have v1: "seg N1 (Some p) vs None"
    using s2 N1(4) d(5) by (subst seg_cong [where N = ?N]) auto
  have n1: "N1 p = Some n" using N1(4) d(3) n(1) by simp
  obtain N2 where N2: "upd_opt N1 (cn_next n) (\<lambda>m. m\<lparr>cn_prev := cn_prev n\<rparr>) = Inr N2"
      "seg N2 (cn_prev n) vs None" "same_payload N1 N2" "\<forall>x. x \<notin> set vs \<longrightarrow> N2 x = N1 x"
    using seg_redirect_prev [OF v1 d(2), of "cn_next n" "cn_prev n"] n(3) by auto
  have u2: "seg N2 None us (cn_next n)"
    using N1(2) N2(4) d(5) by (subst seg_cong [where N = N1]) auto
  have n2: "N2 p = Some n" using N2(4) d(4) n1 by simp
  let ?N3 = "N2(p \<mapsto> n\<lparr>cn_prev := None, cn_next := None\<rparr>)"
  let ?c = "c\<lparr>lru_nodes := ?N3,
              lru_head := if lru_head c = Some p then cn_next n else lru_head c,
              lru_tail := if lru_tail c = Some p then cn_prev n else lru_tail c\<rparr>"
  have res: "detach_node c p = Inr ?c"
    using n N1(1) N2(1) n1 n2 by (simp add: detach_node_def deref_def upd_node_def)
  have "same_payload N2 ?N3" using n2 by (simp add: same_payload_def payload_def)
  with N1(3) N2(3) have pay: "same_payload ?N ?N3" using same_payload_trans by blast
  have head: "lru_head ?c = hd_ptr (us @ vs) None"
    using assms n d by (cases us) (auto simp: linked_def)
  have tail: "lru_tail ?c = last_ptr None (us @ vs)"
    using assms n d by (cases vs rule: rev_cases) (auto simp: linked_def)
  have "linked ?c (us @ vs)"
    using head tail u2 N2(2) n d unfolding linked_def by simp
  with res pay show ?thesis by auto
qed

lemma attach_front_ok:
  assumes l: "linked c ps" and p: "p \<notin> set ps" "lru_nodes c p = Some n"
  shows "\<exists>c'. attach_front c p = Inr c' \<and> linked c' (p # ps)
            \<and> same_payload (lru_nodes c) (lru_nodes c')
            \<and> c' = c\<lparr>lru_nodes := lru_nodes c', lru_head := lru_head c', lru_tail := lru_tail c'\<rparr>"
proof -
  let ?N = "lru_nodes c"
  let ?N1 = "?N(p \<mapsto> n\<lparr>cn_prev := None, cn_next := lru_head c\<rparr>)"
  have s1: "seg ?N1 None ps None" using l p by (simp add: linked_def)
  obtain N2 where N2: "upd_opt ?N1 (lru_head c) (\<lambda>m. m\<lparr>cn_prev := Some p\<rparr>) = Inr N2"
      "seg N2 (Some p) ps None" "same_payload ?N1 N2" "\<forall>x. x \<notin> set ps \<longrightarrow> N2 x = ?N1 x"
    using seg_redirect_prev [OF s1, of "lru_head c" "Some p"] l by (auto simp: linked_def)
  let ?c = "c\<lparr>lru_nodes := N2, lru_head := Some p,
              lru_tail := if lru_tail c = None then Some p else lru_tail c\<rparr>"
  have res: "attach_front c p = Inr ?c"
    using p N2(1) by (simp add: attach_front_def upd_node_def)
  have "same_payload ?N ?N1" using p by (simp add: same_payload_def payload_def)
  with N2(3) have pay: "same_payload ?N N2" using same_payload_trans by blast
  have "lru_tail ?c = last_ptr None (p # ps)"
    using l by (cases ps rule: rev_cases) (auto simp: linked_def)
  moreover have "N2 p = Some (n\<lparr>cn_prev := None, cn_next := lru_head c\<rparr>)" using N2(4) p by simp
  ultimately have "linked ?c (p # ps)"
    using l N2(2) p by (simp add: linked_def)
  with res pay show ?thesis by auto
qed

section \<open>Representation invariant and abstraction\<close>

definition node_name :: "node_store \<Rightarrow> nat \<Rightarrow> string" where
  "node_name N p = (case N p of None \<Rightarrow> [] | Some n \<Rightarrow> cn_filename n)"

definition node_data :: "node_store \<Rightarrow> nat \<Rightarrow> nat" where
  "node_data N p = (case N p of None \<Rightarrow> 0 | Some n \<Rightarrow> cn_data n)"

definition lru_abs :: "lru_cache \<Rightarrow> nat list \<Rightarrow> (string \<times> nat) list" where
  "lru_abs c ps = map (\<lambda>p. (node_name (lru_nodes c) p, node_data (lru_nodes c) p)) ps"

text \<open>
  The part of the invariant that does not bound the size: the list is linked, exactly its
  nodes are allocated, and the hash table maps the names of its nodes to them.
\<close>

definition lru_shape :: "lru_cache \<Rightarrow> nat list \<Rightarrow> bool" where
  "lru_shape c ps \<longleftrightarrow>
     linked c ps \<and> dom (lru_nodes c) = set ps \<and> (\<forall>p \<in> set ps. p < lru_fresh c)
     \<and> lru_size c = length ps \<and> 0 < lru_capacity c \<and> ht_ok (lru_map c)
     \<and> (\<forall>p \<in> set ps. short_name (node_name (lru_nodes c) p))
     \<and> (\<forall>k p. ht_get (lru_map c) k = Some p \<longleftrightarrow> p \<in> set ps \<and> node_name (lru_nodes c) p = k)"

definition lru_rep :: "lru_cache \<Rightarrow> nat list \<Rightarrow> bool" where
  "lru_rep c ps \<longleftrightarrow> lru_shape c ps \<and> length ps \<le> lru_capacity c"

lemma same_payload_name:
  assumes "same_payload N N'"
  shows "node_name N' = node_name N" "node_data N' = node_data N"
proof -
  have "map_option payload (N' q) = map_option payload (N q)" for q
    using assms by (simp add: same_payload_def)
  then have "node_name N' q = node_name N q \<and> node_data N' q = node_data N q" for q
    by (cases "N q"; cases "N' q")
       (metis option.simps(8) option.simps(9) option.distinct(1) option.inject prod.inject payload_def
          node_name_def node_data_def option.simps(4) option.simps(5))+
  then show "node_name N' = node_name N" "node_data N' = node_data N" by auto
qed

lemma lru_shapeD:
  assumes "lru_shape c ps"
  shows "linked c ps" "distinct ps" "dom (lru_nodes c) = set ps" "ht_ok (lru_map c)"
    and "lru_size c = length ps" "0 < lru_capacity c"
    and "\<And>p. p \<in> set ps \<Longrightarrow> p < lru_fresh c"
    and "\<And>p. p \<in> set ps \<Longrightarrow> short_name (node_name (lru_nodes c) p)"
    and "\<And>k p. ht_get (lru_map c) k = Some p \<longleftrightarrow> p \<in> set ps \<and> node_name (lru_nodes c) p = k"
  using assms by (auto simp: lru_shape_def linked_def)

lemma lru_shape_node:
  assumes "lru_shape c ps" "p \<in> set ps"
  obtains n where "lru_nodes c p = Some n"
  using lru_shapeD(3) [OF assms(1)] assms(2) by blast

lemma lru_abs_payload: "same_payload (lru_nodes c) (lru_nodes c') \<Longrightarrow> lru_abs c' ps = lru_abs c ps"
  by (simp add: lru_abs_def same_payload_name)

lemma lru_names_distinct:
  assumes "lru_shape c ps"
  shows "inj_on (node_name (lru_nodes c)) (set ps)"
proof (rule inj_onI)
  fix p q assume "p \<in> set ps" "q \<in> set ps" "node_name (lru_nodes c) p = node_name (lru_nodes c) q"
  with lru_shapeD(9) [OF assms] show "p = q" by (metis option.inject)
qed

lemma lru_abs_keys_distinct: "lru_shape c ps \<Longrightarrow> distinct (map fst (lru_abs c ps))"
  by (simp add: lru_abs_def comp_def distinct_map lru_names_distinct lru_shapeD(2))

lemma lru_abs_lookup:
  assumes "lru_shape c ps"
  shows "map_of (lru_abs c ps) k = map_option (node_data (lru_nodes c)) (ht_get (lru_map c) k)"
proof (cases "ht_get (lru_map c) k")
  case None
  have "k \<notin> set (map fst (lru_abs c ps))"
  proof
    assume "k \<in> set (map fst (lru_abs c ps))"
    then obtain p where "p \<in> set ps" "node_name (lru_nodes c) p = k" by (auto simp: lru_abs_def)
    then have "ht_get (lru_map c) k = Some p" by (simp add: lru_shapeD(9) [OF assms])
    with None show False by simp
  qed
  then have "map_of (lru_abs c ps) k = None" by (simp add: map_of_eq_None_iff)
  with None show ?thesis by simp
next
  case (Some p)
  then have p: "p \<in> set ps" "node_name (lru_nodes c) p = k" using lru_shapeD(9) [OF assms] by auto
  then have "(k, node_data (lru_nodes c) p) \<in> set (lru_abs c ps)" by (force simp: lru_abs_def)
  with Some lru_abs_keys_distinct [OF assms] show ?thesis by simp
qed

text \<open>Dropping a key from the list is dropping its node from the chain.\<close>

lemma lru_drop_abs:
  assumes "lru_shape c (us @ p # vs)" "node_name (lru_nodes c) p = k"
  shows "lru_drop k (lru_abs c (us @ p # vs)) = lru_abs c (us @ vs)"
proof -
  have "inj_on (node_name (lru_nodes c)) (set (us @ p # vs))" using assms(1) by (rule lru_names_distinct)
  moreover have "p \<notin> set us" "p \<notin> set vs" using assms(1) by (auto simp: lru_shape_def linked_def)
  ultimately have "\<forall>q \<in> set (us @ vs). node_name (lru_nodes c) q \<noteq> k"
    using assms(2) by (auto simp: inj_on_def)
  then have "lru_drop k (lru_abs c (us @ vs)) = lru_abs c (us @ vs)"
    by (auto simp: lru_drop_def lru_abs_def filter_id_conv)
  then show ?thesis using assms(2) by (simp add: lru_abs_def lru_drop_def)
qed

lemma lru_drop_absent:
  assumes "lru_shape c ps" "ht_get (lru_map c) k = None"
  shows "lru_drop k (lru_abs c ps) = lru_abs c ps"
proof -
  have "node_name (lru_nodes c) p \<noteq> k" if "p \<in> set ps" for p
    using lru_shapeD(9) [OF assms(1), of k p] assms(2) that by auto
  then show ?thesis by (auto simp: lru_drop_def lru_abs_def filter_id_conv)
qed

section \<open>Every operation computes its list operation\<close>

lemma move_to_front_ok:
  assumes "lru_shape c (us @ p # vs)"
  shows "\<exists>c'. move_to_front c p = Inr c' \<and> lru_shape c' (p # us @ vs)
            \<and> same_payload (lru_nodes c) (lru_nodes c') \<and> lru_capacity c' = lru_capacity c
            \<and> lru_fresh c' = lru_fresh c"
proof -
  from assms have l: "linked c (us @ p # vs)" by (simp add: lru_shape_def)
  obtain c1 where c1: "detach_node c p = Inr c1" "linked c1 (us @ vs)"
      "same_payload (lru_nodes c) (lru_nodes c1)"
      "c1 = c\<lparr>lru_nodes := lru_nodes c1, lru_head := lru_head c1, lru_tail := lru_tail c1\<rparr>"
    using detach_node_ok [OF l] by blast
  have np: "p \<notin> set (us @ vs)" using l by (auto simp: linked_def)
  have "p \<in> dom (lru_nodes c1)"
    using assms same_payload_dom [OF c1(3)] by (simp add: lru_shape_def)
  then obtain n where n: "lru_nodes c1 p = Some n" by blast
  obtain c2 where c2: "attach_front c1 p = Inr c2" "linked c2 (p # us @ vs)"
      "same_payload (lru_nodes c1) (lru_nodes c2)"
      "c2 = c1\<lparr>lru_nodes := lru_nodes c2, lru_head := lru_head c2, lru_tail := lru_tail c2\<rparr>"
    using attach_front_ok [OF c1(2) np n] by blast
  have pay: "same_payload (lru_nodes c) (lru_nodes c2)" using c1(3) c2(3) by (rule same_payload_trans)
  have frame: "lru_map c2 = lru_map c" "lru_size c2 = lru_size c" "lru_capacity c2 = lru_capacity c"
      "lru_fresh c2 = lru_fresh c"
    by (subst c2(4), subst c1(4), simp)+
  have "lru_shape c2 (p # us @ vs)"
    using assms c2(2) same_payload_dom [OF pay] unfolding lru_shape_def frame same_payload_name [OF pay]
    by auto
  with c1(1) c2(1) pay frame show ?thesis by (simp add: move_to_front_def)
qed

lemma lru_shape_split:
  assumes "lru_shape c ps" "ht_get (lru_map c) k = Some p"
  obtains us vs where "ps = us @ p # vs" "node_name (lru_nodes c) p = k"
  using lru_shapeD(9) [OF assms(1)] assms(2) split_list by metis

lemma lru_shape_upd_payload:
  assumes "lru_shape c ps" "lru_nodes c p = Some n"
    "cn_filename n' = cn_filename n" "cn_prev n' = cn_prev n" "cn_next n' = cn_next n"
  shows "lru_shape (c\<lparr>lru_nodes := (lru_nodes c)(p \<mapsto> n')\<rparr>) ps"
proof -
  have "seg ((lru_nodes c)(p \<mapsto> n')) pv qs nx = seg (lru_nodes c) pv qs nx" for pv qs nx
    using assms by (induction qs arbitrary: pv) auto
  moreover have "node_name ((lru_nodes c)(p \<mapsto> n')) = node_name (lru_nodes c)"
    using assms by (auto simp: node_name_def fun_eq_iff)
  ultimately show ?thesis using assms by (auto simp: lru_shape_def linked_def)
qed

theorem cache_get_refines:
  assumes "lru_rep c ps"
  shows "\<exists>c' ps' r. cache_get c k now = Inr (c', r) \<and> lru_rep c' ps'
           \<and> (lru_abs c' ps', r) = lru_list_get k (lru_abs c ps)
           \<and> lru_capacity c' = lru_capacity c"
proof (cases "ht_get (lru_map c) k")
  case None
  with assms show ?thesis
    using lru_abs_lookup [of c ps k] by (auto simp: cache_get_def lru_list_get_def lru_rep_def)
next
  case (Some p)
  from assms have sh: "lru_shape c ps" by (simp add: lru_rep_def)
  then obtain us vs where ps: "ps = us @ p # vs" and pk: "node_name (lru_nodes c) p = k"
    using Some by (rule lru_shape_split)
  obtain n where n: "lru_nodes c p = Some n" using lru_shape_node [OF sh, of p] ps by auto
  let ?c1 = "c\<lparr>lru_nodes := (lru_nodes c)(p \<mapsto> n\<lparr>cn_time := now\<rparr>)\<rparr>"
  have sh1: "lru_shape ?c1 (us @ p # vs)" using lru_shape_upd_payload [OF sh n] ps by simp
  obtain c' where c': "move_to_front ?c1 p = Inr c'" "lru_shape c' (p # us @ vs)"
      "same_payload (lru_nodes ?c1) (lru_nodes c')" "lru_capacity c' = lru_capacity ?c1"
    using move_to_front_ok [OF sh1] by blast
  have nm: "node_name (lru_nodes ?c1) = node_name (lru_nodes c)"
      "node_data (lru_nodes ?c1) = node_data (lru_nodes c)"
    using n by (auto simp: node_name_def node_data_def fun_eq_iff)
  then have nc': "node_name (lru_nodes c') = node_name (lru_nodes c)"
      "node_data (lru_nodes c') = node_data (lru_nodes c)"
    using same_payload_name [OF c'(3)] by simp_all
  obtain n' where n': "lru_nodes c' p = Some n'" "cn_data n' = cn_data n"
    using same_payloadD [OF c'(3), of p "n\<lparr>cn_time := now\<rparr>"] by auto
  have res: "cache_get c k now = Inr (c', Some (cn_data n))"
    using Some n c'(1) n' by (simp add: cache_get_def upd_node_def deref_def)
  have look: "map_of (lru_abs c ps) k = Some (cn_data n)"
    using lru_abs_lookup [OF sh, of k] Some n by (simp add: node_data_def)
  have "lru_abs c' (p # us @ vs) = (k, cn_data n) # lru_abs c (us @ vs)"
    using nc' pk n by (simp add: lru_abs_def node_data_def)
  also have "lru_abs c (us @ vs) = lru_drop k (lru_abs c ps)"
    using lru_drop_abs [of c us p vs k] sh ps pk by simp
  finally have abs: "(lru_abs c' (p # us @ vs), Some (cn_data n)) = lru_list_get k (lru_abs c ps)"
    using look by (simp add: lru_list_get_def)
  have "lru_rep c' (p # us @ vs)" using c' assms ps by (simp add: lru_rep_def)
  with res abs c'(4) show ?thesis by auto
qed

lemma lru_unlink:
  \<comment> \<open>taking one node out of the list, the table and the store\<close>
  assumes sh: "lru_shape c (us @ p # vs)" and pk: "node_name (lru_nodes c) p = k"
  shows "\<exists>c1. detach_node c p = Inr c1 \<and> node_name (lru_nodes c1) p = k
           \<and> (\<exists>n. lru_nodes c1 p = Some n \<and> cn_filename n = k)
           \<and> lru_shape (c1\<lparr>lru_map := ht_remove (lru_map c1) k, lru_nodes := (lru_nodes c1)(p := None),
                         lru_size := lru_size c1 - 1\<rparr>) (us @ vs)
           \<and> lru_abs (c1\<lparr>lru_map := ht_remove (lru_map c1) k, lru_nodes := (lru_nodes c1)(p := None),
                         lru_size := lru_size c1 - 1\<rparr>) (us @ vs) = lru_abs c (us @ vs)
           \<and> lru_capacity c1 = lru_capacity c"
proof -
  obtain c1 where c1: "detach_node c p = Inr c1" "linked c1 (us @ vs)"
      "same_payload (lru_nodes c) (lru_nodes c1)"
      "c1 = c\<lparr>lru_nodes := lru_nodes c1, lru_head := lru_head c1, lru_tail := lru_tail c1\<rparr>"
    using detach_node_ok [OF lru_shapeD(1) [OF sh]] by blast
  have frame: "lru_map c1 = lru_map c" "lru_size c1 = lru_size c" "lru_capacity c1 = lru_capacity c"
      "lru_fresh c1 = lru_fresh c"
    by (subst c1(4), simp)+
  note nm = same_payload_name [OF c1(3)]
  have np: "p \<notin> set (us @ vs)" using lru_shapeD(2) [OF sh] by auto
  have dom1: "dom (lru_nodes c1) = set (us @ p # vs)"
    using same_payload_dom [OF c1(3)] lru_shapeD(3) [OF sh] by simp
  then obtain n where n: "lru_nodes c1 p = Some n" by fastforce
  then have fn: "cn_filename n = k" using nm(1) pk by (simp add: node_name_def fun_eq_iff) (metis option.simps(5))
  let ?c = "c1\<lparr>lru_map := ht_remove (lru_map c1) k, lru_nodes := (lru_nodes c1)(p := None),
              lru_size := lru_size c1 - 1\<rparr>"
  have nn: "node_name (lru_nodes ?c) q = node_name (lru_nodes c) q"
           "node_data (lru_nodes ?c) q = node_data (lru_nodes c) q" if "q \<noteq> p" for q
    using nm that by (simp_all add: node_name_def node_data_def fun_eq_iff)
  have look: "ht_get (lru_map ?c) l = Some q \<longleftrightarrow> q \<in> set (us @ vs) \<and> node_name (lru_nodes ?c) q = l" for l q
  proof (cases "q = p")
    case True
    have "l \<noteq> k \<Longrightarrow> ht_get (lru_map c) l \<noteq> Some p" using lru_shapeD(9) [OF sh, of l p] pk by simp
    with True np show ?thesis using lru_shapeD(4) [OF sh] by (simp add: frame ht_remove_get)
  next
    case False
    have inj: "inj_on (node_name (lru_nodes c)) (set (us @ p # vs))" by (rule lru_names_distinct [OF sh])
    have "ht_get (lru_map ?c) l = Some q \<longleftrightarrow> l \<noteq> k \<and> q \<in> set (us @ p # vs) \<and> node_name (lru_nodes c) q = l"
      using lru_shapeD(4) [OF sh] lru_shapeD(9) [OF sh, of l q] by (simp add: frame ht_remove_get)
    also have "\<dots> \<longleftrightarrow> q \<in> set (us @ vs) \<and> node_name (lru_nodes c) q = l"
      using False inj pk by (auto simp: inj_on_def)
    finally show ?thesis using nn [OF False] by simp
  qed
  have "linked ?c (us @ vs)" using c1(2) np by (simp add: linked_def)
  moreover have "dom (lru_nodes ?c) = set (us @ vs)" using dom1 np by auto
  moreover have "\<forall>q \<in> set (us @ vs). short_name (node_name (lru_nodes ?c) q)"
    using lru_shapeD(8) [OF sh] nn(1) np by (metis Un_iff list.set_intros(2) set_append)
  moreover have "\<forall>q \<in> set (us @ vs). q < lru_fresh ?c" using lru_shapeD(7) [OF sh] frame by auto
  moreover have "lru_size ?c = length (us @ vs)" using lru_shapeD(5) [OF sh] frame by simp
  ultimately have "lru_shape ?c (us @ vs)"
    unfolding lru_shape_def using look lru_shapeD(4,6) [OF sh] by (auto simp: frame ht_remove_ok)
  moreover have "lru_abs ?c (us @ vs) = lru_abs c (us @ vs)"
    unfolding lru_abs_def
  proof (intro map_cong refl)
    fix q assume "q \<in> set (us @ vs)"
    with np have "q \<noteq> p" by blast
    with nn show "(node_name (lru_nodes ?c) q, node_data (lru_nodes ?c) q)
                = (node_name (lru_nodes c) q, node_data (lru_nodes c) q)" by simp
  qed
  moreover have "node_name (lru_nodes c1) p = k" using nm pk by simp
  ultimately show ?thesis using c1(1) n fn frame(3) by blast
qed

theorem cache_remove_refines:
  assumes "lru_rep c ps"
  shows "\<exists>c' ps'. cache_remove c k = Inr c' \<and> lru_rep c' ps'
           \<and> lru_abs c' ps' = lru_list_remove k (lru_abs c ps) \<and> lru_capacity c' = lru_capacity c"
proof (cases "ht_get (lru_map c) k")
  case None
  then show ?thesis
    using assms lru_drop_absent [of c ps k] by (auto simp: cache_remove_def lru_list_remove_def lru_rep_def)
next
  case (Some p)
  from assms have sh: "lru_shape c ps" by (simp add: lru_rep_def)
  then obtain us vs where ps: "ps = us @ p # vs" and pk: "node_name (lru_nodes c) p = k"
    using Some by (rule lru_shape_split)
  obtain c1 where c1: "detach_node c p = Inr c1"
      "lru_shape (c1\<lparr>lru_map := ht_remove (lru_map c1) k, lru_nodes := (lru_nodes c1)(p := None),
                    lru_size := lru_size c1 - 1\<rparr>) (us @ vs)"
      "lru_abs (c1\<lparr>lru_map := ht_remove (lru_map c1) k, lru_nodes := (lru_nodes c1)(p := None),
                    lru_size := lru_size c1 - 1\<rparr>) (us @ vs) = lru_abs c (us @ vs)"
      "lru_capacity c1 = lru_capacity c"
    using lru_unlink [of c us p vs k] sh ps pk by blast
  have "lru_abs c (us @ vs) = lru_list_remove k (lru_abs c ps)"
    using lru_drop_abs [of c us p vs k] sh ps pk by (simp add: lru_list_remove_def)
  with c1 assms ps Some show ?thesis
    by (intro exI [of _ "c1\<lparr>lru_map := ht_remove (lru_map c1) k, lru_nodes := (lru_nodes c1)(p := None),
                    lru_size := lru_size c1 - 1\<rparr>"] exI [of _ "us @ vs"])
       (simp add: cache_remove_def lru_rep_def)
qed

lemma lru_evict:
  \<comment> \<open>one entry too many: the tail goes\<close>
  assumes sh: "lru_shape c ps" and len: "length ps \<le> Suc (lru_capacity c)"
  shows "\<exists>c' ps'. cache_evict c = Inr c' \<and> lru_rep c' ps'
           \<and> lru_abs c' ps' = take (lru_capacity c) (lru_abs c ps) \<and> lru_capacity c' = lru_capacity c"
proof (cases "lru_capacity c < lru_size c")
  case False
  with sh show ?thesis using lru_shapeD(5) [OF sh]
    by (auto simp: cache_evict_def lru_rep_def lru_abs_def)
next
  case True
  with len lru_shapeD(5) [OF sh] have full: "length ps = Suc (lru_capacity c)" by simp
  then obtain us p where ps: "ps = us @ [p]" by (cases ps rule: rev_cases) auto
  let ?k = "node_name (lru_nodes c) p"
  have tail: "lru_tail c = Some p" using lru_shapeD(1) [OF sh] ps by (simp add: linked_def)
  obtain c1 n where c1: "detach_node c p = Inr c1" "lru_nodes c1 p = Some n" "cn_filename n = ?k"
      "lru_shape (c1\<lparr>lru_map := ht_remove (lru_map c1) ?k, lru_nodes := (lru_nodes c1)(p := None),
                    lru_size := lru_size c1 - 1\<rparr>) us"
      "lru_abs (c1\<lparr>lru_map := ht_remove (lru_map c1) ?k, lru_nodes := (lru_nodes c1)(p := None),
                    lru_size := lru_size c1 - 1\<rparr>) us = lru_abs c us"
      "lru_capacity c1 = lru_capacity c"
    using lru_unlink [of c us p "[]" ?k] sh ps by auto
  have "lru_abs c us = take (lru_capacity c) (lru_abs c ps)" using ps full by (simp add: lru_abs_def)
  with c1 True tail full ps show ?thesis
    by (intro exI [of _ "c1\<lparr>lru_map := ht_remove (lru_map c1) ?k, lru_nodes := (lru_nodes c1)(p := None),
                    lru_size := lru_size c1 - 1\<rparr>"] exI [of _ us])
       (simp add: cache_evict_def deref_def lru_rep_def)
qed

lemma lru_add_front:
  \<comment> \<open>a fresh node linked in at the front and entered into the table\<close>
  assumes sh: "lru_shape c ps" and free: "ht_get (lru_map c) k = None" and k: "short_name k"
    and node: "cn_filename node = k" "cn_data node = d"
  shows "\<exists>c1. attach_front (c\<lparr>lru_nodes := (lru_nodes c)(lru_fresh c \<mapsto> node), lru_fresh := Suc (lru_fresh c)\<rparr>)
                (lru_fresh c) = Inr c1
           \<and> lru_shape (c1\<lparr>lru_map := ht_put (lru_map c1) k (lru_fresh c), lru_size := lru_size c1 + 1\<rparr>)
                (lru_fresh c # ps)
           \<and> lru_abs (c1\<lparr>lru_map := ht_put (lru_map c1) k (lru_fresh c), lru_size := lru_size c1 + 1\<rparr>)
                (lru_fresh c # ps) = (k, d) # lru_abs c ps
           \<and> lru_capacity c1 = lru_capacity c"
proof -
  let ?p = "lru_fresh c"
  let ?c0 = "c\<lparr>lru_nodes := (lru_nodes c)(?p \<mapsto> node), lru_fresh := Suc ?p\<rparr>"
  have np: "?p \<notin> set ps" using lru_shapeD(7) [OF sh] by blast
  then have l0: "linked ?c0 ps" using lru_shapeD(1) [OF sh] by (simp add: linked_def)
  obtain c1 where c1: "attach_front ?c0 ?p = Inr c1" "linked c1 (?p # ps)"
      "same_payload (lru_nodes ?c0) (lru_nodes c1)"
      "c1 = ?c0\<lparr>lru_nodes := lru_nodes c1, lru_head := lru_head c1, lru_tail := lru_tail c1\<rparr>"
    using attach_front_ok [OF l0 np] by auto
  have frame: "lru_map c1 = lru_map c" "lru_size c1 = lru_size c" "lru_capacity c1 = lru_capacity c"
      "lru_fresh c1 = Suc ?p"
    by (subst c1(4), simp)+
  have nm: "node_name (lru_nodes c1) = (node_name (lru_nodes c))(?p := k)"
      "node_data (lru_nodes c1) = (node_data (lru_nodes c))(?p := d)"
    using node unfolding same_payload_name [OF c1(3)] by (auto simp: node_name_def node_data_def fun_eq_iff)
  let ?c = "c1\<lparr>lru_map := ht_put (lru_map c1) k ?p, lru_size := lru_size c1 + 1\<rparr>"
  have look: "ht_get (lru_map ?c) l = Some q \<longleftrightarrow> q \<in> set (?p # ps) \<and> node_name (lru_nodes ?c) q = l" for l q
  proof -
    have "ht_get (lru_map ?c) l = (if l = k then Some ?p else ht_get (lru_map c) l)"
      using ht_put_get [OF lru_shapeD(4) [OF sh] k] by (simp add: frame)
    moreover have "ht_get (lru_map c) l = Some q \<longleftrightarrow> q \<in> set ps \<and> node_name (lru_nodes c) q = l"
      by (rule lru_shapeD(9) [OF sh])
    moreover have "q \<in> set ps \<Longrightarrow> node_name (lru_nodes c) q \<noteq> k"
      using lru_shapeD(9) [OF sh, of k q] free by auto
    ultimately show ?thesis using np by (auto simp: nm)
  qed
  have "dom (lru_nodes c1) = set (?p # ps)"
    using same_payload_dom [OF c1(3)] lru_shapeD(3) [OF sh] by auto
  moreover have "\<forall>q \<in> set (?p # ps). q < lru_fresh ?c" using lru_shapeD(7) [OF sh] frame by (auto simp: less_SucI)
  moreover have "\<forall>q \<in> set (?p # ps). short_name (node_name (lru_nodes ?c) q)"
    using lru_shapeD(8) [OF sh] k by (simp add: nm)
  moreover have "linked ?c (?p # ps)" using c1(2) by (simp add: linked_def)
  moreover have "ht_ok (lru_map ?c)" using ht_put_ok [OF lru_shapeD(4) [OF sh] k] by (simp add: frame)
  ultimately have "lru_shape ?c (?p # ps)"
    unfolding lru_shape_def using look lru_shapeD(5,6) [OF sh] by (auto simp: frame)
  moreover have "lru_abs ?c (?p # ps) = (k, d) # lru_abs c ps"
    using np by (auto simp: lru_abs_def nm)
  ultimately show ?thesis using c1(1) frame(3) by blast
qed

theorem cache_put_refines:
  assumes rep: "lru_rep c ps" and k: "short_name k"
  shows "\<exists>c' ps'. cache_put c k d now = Inr c' \<and> lru_rep c' ps'
           \<and> lru_abs c' ps' = lru_list_put (lru_capacity c) k d (lru_abs c ps)
           \<and> lru_capacity c' = lru_capacity c"
proof (cases "ht_get (lru_map c) k")
  case None
  from rep have sh: "lru_shape c ps" and len: "length ps \<le> lru_capacity c" by (auto simp: lru_rep_def)
  have kk: "strncpy_buf MAX_FILENAME_LEN k = k" using k by (simp add: short_name_def)
  let ?node = "\<lparr>cn_filename = k, cn_data = d, cn_prev = None, cn_next = None, cn_time = now\<rparr>"
  obtain c1 where c1: "attach_front (c\<lparr>lru_nodes := (lru_nodes c)(lru_fresh c \<mapsto> ?node),
                          lru_fresh := Suc (lru_fresh c)\<rparr>) (lru_fresh c) = Inr c1"
      "lru_shape (c1\<lparr>lru_map := ht_put (lru_map c1) k (lru_fresh c), lru_size := lru_size c1 + 1\<rparr>)
         (lru_fresh c # ps)"
      "lru_abs (c1\<lparr>lru_map := ht_put (lru_map c1) k (lru_fresh c), lru_size := lru_size c1 + 1\<rparr>)
         (lru_fresh c # ps) = (k, d) # lru_abs c ps"
      "lru_capacity c1 = lru_capacity c"
    using lru_add_front [OF sh None k, of ?node d] by auto
  have "cache_put c k d now
      = cache_evict (c1\<lparr>lru_map := ht_put (lru_map c1) k (lru_fresh c), lru_size := lru_size c1 + 1\<rparr>)"
    using None c1(1) by (simp add: cache_put_def Let_def kk)
  moreover have "lru_list_put (lru_capacity c) k d (lru_abs c ps) = take (lru_capacity c) ((k, d) # lru_abs c ps)"
    using lru_drop_absent [OF sh None] by (simp add: lru_list_put_def)
  ultimately show ?thesis using lru_evict [OF c1(2)] len c1(3,4) by simp
next
  case (Some p)
  from rep have sh: "lru_shape c ps" by (simp add: lru_rep_def)
  then obtain us vs where ps: "ps = us @ p # vs" and pk: "node_name (lru_nodes c) p = k"
    using Some by (rule lru_shape_split)
  obtain n where n: "lru_nodes c p = Some n" using lru_shape_node [OF sh, of p] ps by auto
  let ?c1 = "c\<lparr>lru_nodes := (lru_nodes c)(p \<mapsto> n\<lparr>cn_data := d, cn_time := now\<rparr>)\<rparr>"
  have sh1: "lru_shape ?c1 (us @ p # vs)" using lru_shape_upd_payload [OF sh n] ps by simp
  obtain c' where c': "move_to_front ?c1 p = Inr c'" "lru_shape c' (p # us @ vs)"
      "same_payload (lru_nodes ?c1) (lru_nodes c')" "lru_capacity c' = lru_capacity ?c1"
    using move_to_front_ok [OF sh1] by blast
  have nm: "node_name (lru_nodes c') = node_name (lru_nodes c)"
      "node_data (lru_nodes c') = (node_data (lru_nodes c))(p := d)"
    using n unfolding same_payload_name [OF c'(3)] by (auto simp: node_name_def node_data_def fun_eq_iff)
  have "p \<notin> set (us @ vs)" using lru_shapeD(2) [OF sh] ps by auto
  then have "lru_abs c' (p # us @ vs) = (k, d) # lru_abs c (us @ vs)"
    using pk by (auto simp: lru_abs_def nm)
  also have "lru_abs c (us @ vs) = lru_drop k (lru_abs c ps)"
    using lru_drop_abs [of c us p vs k] sh ps pk by simp
  finally have a: "lru_abs c' (p # us @ vs) = (k, d) # lru_drop k (lru_abs c ps)" .
  have "length (lru_abs c' (p # us @ vs)) \<le> lru_capacity c"
    using rep ps by (simp add: lru_rep_def lru_abs_def)
  with a have "lru_abs c' (p # us @ vs) = lru_list_put (lru_capacity c) k d (lru_abs c ps)"
    by (simp add: lru_list_put_def)
  moreover have "cache_put c k d now = Inr c'"
    using Some n c'(1) by (simp add: cache_put_def upd_node_def)
  moreover have "lru_rep c' (p # us @ vs)" using c' rep ps by (simp add: lru_rep_def)
  ultimately show ?thesis using c'(4) by auto
qed

lemma cache_buckets_pos: "0 < b \<Longrightarrow> 0 < cache_buckets cap b"
  by (induction cap b rule: cache_buckets.induct) (subst cache_buckets.simps, simp)

lemma cache_buckets_le: "0 < b \<Longrightarrow> b \<le> 4 * cap \<Longrightarrow> cache_buckets cap b \<le> 4 * cap"
  by (induction cap b rule: cache_buckets.induct) (subst cache_buckets.simps, simp)

lemma cache_buckets_100: "cache_buckets 100 1 = 256"
  by (simp add: cache_buckets.simps)

theorem cache_init_rep:
  assumes "n < 2 ^ 28"
  shows "lru_rep (cache_init n) [] \<and> lru_abs (cache_init n) [] = []"
proof -
  let ?cap = "if n \<le> 0 then CACHE_CAPACITY else nat n"
  have cap: "0 < ?cap" "?cap < 2 ^ 28" using assms by (auto simp: CACHE_CAPACITY_def)
  have "0 < cache_buckets ?cap 1" by (simp add: cache_buckets_pos)
  moreover have "cache_buckets ?cap 1 \<le> 4 * ?cap" using cap by (intro cache_buckets_le) auto
  ultimately have b: "0 < cache_buckets ?cap 1" "cache_buckets ?cap 1 < 2 ^ 31" using cap by simp_all
  show ?thesis
    using cap ht_create_ok [OF b] ht_create_get [OF b]
    by (simp add: cache_init_def Let_def lru_rep_def lru_shape_def linked_def lru_abs_def)
qed

end
