(* ===== verification/Metadata.thy ===== *)
theory Metadata
  imports Trie
begin

text \<open>
  \<open>FileMetadata\<close> (\<^verbatim>\<open>common/protocol.h\<close>) and its operations in
  \<^verbatim>\<open>naming_server/nm_storage.c\<close>: creation, the access list, and the files a user can
  see.  The access list is the used part of the array \<open>access_list\<close>, so
  \<open>access_count\<close> is its length.  Metadata objects live in a heap from references to
  objects; a reference that is not in the heap has been freed.

  The lemmas show that the owner keeps WRITE access under every operation, that a grant
  never takes access away, and that removal takes it away for everybody but the owner.
\<close>

record file_metadata =
  fm_filename :: string
  fm_owner :: string
  fm_ss_id :: int
  fm_ss_ip :: string
  fm_ss_client_port :: int
  fm_access_list :: "(string \<times> access_type) list"
  fm_created_at :: int
  fm_last_modified :: int
  fm_last_accessed :: int
  fm_last_accessed_by :: string
  fm_size_bytes :: "64 word"
  fm_word_count :: int
  fm_char_count :: int

type_synonym meta_heap = "nat \<Rightarrow> file_metadata option"

section \<open>Operations\<close>

definition create_file_metadata ::
  "string \<Rightarrow> string \<Rightarrow> int \<Rightarrow> string \<Rightarrow> int \<Rightarrow> int \<Rightarrow> file_metadata" where
  "create_file_metadata filename owner ss_id ss_ip ss_client_port now =
     \<lparr>fm_filename = strncpy_buf MAX_FILENAME_LEN filename,
      fm_owner = strncpy_buf MAX_USERNAME_LEN owner,
      fm_ss_id = ss_id,
      fm_ss_ip = strncpy_buf MAX_IP_LEN ss_ip,
      fm_ss_client_port = ss_client_port,
      fm_access_list = [(strncpy_buf MAX_USERNAME_LEN owner, ACCESS_WRITE)],
      fm_created_at = now, fm_last_modified = now, fm_last_accessed = now,
      fm_last_accessed_by = strncpy_buf MAX_USERNAME_LEN owner,
      fm_size_bytes = 0, fm_word_count = 0, fm_char_count = 0\<rparr>"

text \<open>The index of a user's entry, and an entry appended when the array has room.\<close>

definition access_idx :: "file_metadata \<Rightarrow> string \<Rightarrow> nat option" where
  "access_idx m u = find_idx (\<lambda>e. fst e = u) (fm_access_list m)"

definition set_access :: "file_metadata \<Rightarrow> nat \<Rightarrow> access_type \<Rightarrow> file_metadata" where
  "set_access m i a =
     m\<lparr>fm_access_list := (fm_access_list m)[i := (fst (fm_access_list m ! i), a)]\<rparr>"

definition push_access :: "file_metadata \<Rightarrow> string \<Rightarrow> access_type \<Rightarrow> file_metadata \<times> int" where
  "push_access m u a =
     (if length (fm_access_list m) < MAX_USERS
      then (m\<lparr>fm_access_list := fm_access_list m @ [(strncpy_buf MAX_USERNAME_LEN u, a)]\<rparr>, 0)
      else (m, -1))"

definition add_file_access :: "file_metadata \<Rightarrow> string \<Rightarrow> access_type \<Rightarrow> file_metadata \<times> int" where
  "add_file_access m u access =
     (if fm_owner m = u
      then (case access_idx m u of
              Some i \<Rightarrow> (set_access m i ACCESS_WRITE, 0)
            | None \<Rightarrow> push_access m u ACCESS_WRITE)
      else (case access_idx m u of
              Some i \<Rightarrow> if snd (fm_access_list m ! i) = ACCESS_WRITE then (m, 0)
                        else (set_access m i access, 0)
            | None \<Rightarrow> push_access m u access))"

definition remove_file_access :: "file_metadata \<Rightarrow> string \<Rightarrow> file_metadata \<times> int" where
  "remove_file_access m u =
     (if fm_owner m = u then (m, -1)
      else (case access_idx m u of
              Some i \<Rightarrow> (m\<lparr>fm_access_list := delete_at (fm_access_list m) i\<rparr>, 0)
            | None \<Rightarrow> (m, -1)))"

definition check_file_access :: "file_metadata \<Rightarrow> string \<Rightarrow> access_type" where
  "check_file_access m u =
     (case access_idx m u of Some i \<Rightarrow> snd (fm_access_list m ! i) | None \<Rightarrow> ACCESS_NONE)"

text \<open>
  \<open>get_user_accessible_files\<close> filters the first 1000 names of the trie; a dangling
  reference is a fault.
\<close>

fun accessible_loop :: "meta_heap \<Rightarrow> nat trie \<Rightarrow> string \<Rightarrow> nat \<Rightarrow> string list \<Rightarrow> string list \<Rightarrow> string list result" where
  "accessible_loop H root u max_count [] acc = Inr acc"
| "accessible_loop H root u max_count (f # fs) acc =
     (if max_count \<le> length acc then Inr acc
      else (case trie_search root f of
              None \<Rightarrow> accessible_loop H root u max_count fs acc
            | Some r \<Rightarrow>
                (case H r of
                   None \<Rightarrow> Inl UseAfterFree
                 | Some m \<Rightarrow> accessible_loop H root u max_count fs
                              (if check_file_access m u \<noteq> ACCESS_NONE then acc @ [f] else acc))))"

definition get_user_accessible_files ::
  "meta_heap \<Rightarrow> nat trie \<Rightarrow> string \<Rightarrow> nat \<Rightarrow> string list result" where
  "get_user_accessible_files H root u max_count =
     accessible_loop H root u max_count (trie_get_all_files root 1000) []"

section \<open>The access list as a map\<close>

text \<open>
  Well-formed: the array bound, names that fit their buffers, one entry per user, and
  WRITE for the owner.
\<close>

definition acl_ok :: "file_metadata \<Rightarrow> bool" where
  "acl_ok m \<longleftrightarrow> length (fm_access_list m) \<le> MAX_USERS
     \<and> distinct (map fst (fm_access_list m))
     \<and> (\<forall>u \<in> fst ` set (fm_access_list m). length u < MAX_USERNAME_LEN)
     \<and> map_of (fm_access_list m) (fm_owner m) = Some ACCESS_WRITE"

lemma map_of_find_idx:
  "map_of l u = map_option (\<lambda>i. snd (l ! i)) (find_idx (\<lambda>e. fst e = u) l)"
  by (induction l) (auto simp: option.map_comp comp_def)

lemma access_idx_map_of:
  "map_of (fm_access_list m) u = map_option (\<lambda>i. snd (fm_access_list m ! i)) (access_idx m u)"
  by (simp add: access_idx_def map_of_find_idx)

lemma check_file_access_map_of:
  "check_file_access m u = (case map_of (fm_access_list m) u of None \<Rightarrow> ACCESS_NONE | Some a \<Rightarrow> a)"
  by (simp add: check_file_access_def access_idx_map_of split: option.splits)

lemma access_idx_SomeD:
  "access_idx m u = Some i \<Longrightarrow> i < length (fm_access_list m) \<and> fst (fm_access_list m ! i) = u"
  by (auto simp: access_idx_def dest: find_idx_SomeD)

lemma access_idx_None: "access_idx m u = None \<longleftrightarrow> u \<notin> fst ` set (fm_access_list m)"
  by (auto simp: access_idx_def find_idx_None)

lemma map_of_update_idx:
  assumes "find_idx (\<lambda>e. fst e = u) l = Some i"
  shows "map_of (l[i := (u, a)]) = (map_of l)(u \<mapsto> a)"
  using assms
proof (induction l arbitrary: i)
  case (Cons e l)
  then show ?case by (cases i) (auto split: if_splits simp: fun_upd_twist)
qed simp

lemma set_access_map_of:
  assumes "access_idx m u = Some i"
  shows "map_of (fm_access_list (set_access m i a)) = (map_of (fm_access_list m))(u \<mapsto> a)"
  using assms access_idx_SomeD [OF assms] map_of_update_idx [of u "fm_access_list m" i a]
  by (simp add: set_access_def access_idx_def)

lemma set_access_names:
  "access_idx m u = Some i \<Longrightarrow> map fst (fm_access_list (set_access m i a)) = map fst (fm_access_list m)"
  by (auto simp: set_access_def map_update nth_map [symmetric] simp del: nth_map dest!: access_idx_SomeD)

lemma set_access_frame [simp]: "fm_owner (set_access m i a) = fm_owner m"
  by (simp add: set_access_def)

lemma set_access_ok:
  assumes "acl_ok m" "access_idx m u = Some i" "u = fm_owner m \<Longrightarrow> a = ACCESS_WRITE"
  shows "acl_ok (set_access m i a)"
proof -
  have "fst ` set (fm_access_list (set_access m i a)) = fst ` set (fm_access_list m)"
    using set_access_names [OF assms(2), of a] by (metis list.set_map)
  moreover have "length (fm_access_list (set_access m i a)) = length (fm_access_list m)"
    using set_access_names [OF assms(2), of a] by (metis length_map)
  ultimately show ?thesis
    using assms by (auto simp: acl_ok_def set_access_names set_access_map_of)
qed

lemma push_access_ok:
  assumes "acl_ok m" "access_idx m u = None" "length u < MAX_USERNAME_LEN"
  shows "acl_ok (fst (push_access m u a))"
proof -
  have "u \<noteq> fm_owner m" using assms by (auto simp: acl_ok_def access_idx_None map_of_eq_Some_iff rev_image_eqI)
  then show ?thesis
    using assms by (auto simp: acl_ok_def push_access_def access_idx_None map_add_def)
qed

lemma add_file_access_frame [simp]:
  "fm_owner (fst (add_file_access m u a)) = fm_owner m"
  "fm_filename (fst (add_file_access m u a)) = fm_filename m"
  by (auto simp: add_file_access_def push_access_def set_access_def split: option.splits)

lemma remove_file_access_frame [simp]:
  "fm_owner (fst (remove_file_access m u)) = fm_owner m"
  "fm_filename (fst (remove_file_access m u)) = fm_filename m"
  by (auto simp: remove_file_access_def split: option.splits)

lemma add_file_access_ok:
  assumes "acl_ok m" "length u < MAX_USERNAME_LEN"
  shows "acl_ok (fst (add_file_access m u a))"
  using assms by (auto simp: add_file_access_def push_access_ok intro!: set_access_ok split: option.splits)

lemma add_file_access_check:
  assumes "acl_ok m" "length u < MAX_USERNAME_LEN" "snd (add_file_access m u a) = 0"
  shows "check_file_access (fst (add_file_access m u a)) v =
           (if v = u
            then (if check_file_access m u = ACCESS_WRITE then ACCESS_WRITE else a)
            else check_file_access m v)"
proof (cases "access_idx m u")
  case None
  then have "u \<noteq> fm_owner m" using assms by (auto simp: acl_ok_def access_idx_None map_of_eq_Some_iff rev_image_eqI)
  moreover have "map_of (fm_access_list m) u = None" using None by (simp add: access_idx_map_of)
  ultimately show ?thesis
    using assms None by (auto simp: add_file_access_def push_access_def check_file_access_map_of
        map_add_def split: if_splits option.splits)
next
  case (Some i)
  have ow: "map_of (fm_access_list m) (fm_owner m) = Some ACCESS_WRITE" using assms(1) by (simp add: acl_ok_def)
  have u: "map_of (fm_access_list m) u = Some (snd (fm_access_list m ! i))"
    using Some by (simp add: access_idx_map_of)
  show ?thesis
    using Some ow u by (auto simp: add_file_access_def check_file_access_map_of set_access_map_of)
qed

lemma drop_idx_map_of:
  assumes "find_idx (\<lambda>e. fst e = u) l = Some i" "distinct (map fst l)"
  shows "map_of (take i l @ drop (Suc i) l) = (map_of l)(u := None)"
  using assms
proof (induction l arbitrary: i)
  case (Cons e l)
  obtain k a where e: "e = (k, a)" by (cases e)
  show ?case
  proof (cases "k = u")
    case True
    with Cons.prems e have "i = 0" "map_of l u = None" by (auto simp: map_of_eq_None_iff)
    with True e show ?thesis by (auto simp: fun_eq_iff)
  next
    case False
    with Cons.prems e obtain j where "i = Suc j" "find_idx (\<lambda>e. fst e = u) l = Some j" by auto
    with Cons False e show ?thesis by (auto simp: fun_eq_iff)
  qed
qed simp

lemma delete_at_map_of:
  assumes "find_idx (\<lambda>e. fst e = u) l = Some i" "distinct (map fst l)"
  shows "map_of (delete_at l i) = (map_of l)(u := None)"
  using drop_idx_map_of [OF assms] find_idx_lt [OF assms(1)] by (simp add: delete_at_eq)

lemma remove_file_access_ok:
  assumes "acl_ok m"
  shows "acl_ok (fst (remove_file_access m u))"
proof (cases "fm_owner m = u \<or> access_idx m u = None")
  case True
  then show ?thesis using assms by (auto simp: remove_file_access_def)
next
  case False
  then obtain i where i: "access_idx m u = Some i" "fm_owner m \<noteq> u" by auto
  let ?l = "fm_access_list m"
  have lt: "i < length ?l" using access_idx_SomeD [OF i(1)] by simp
  have "map_of (delete_at ?l i) = (map_of ?l)(u := None)"
    using i assms by (intro delete_at_map_of) (auto simp: access_idx_def acl_ok_def)
  moreover have "distinct (map fst (delete_at ?l i))"
    using lt assms by (simp add: map_delete_at distinct_delete_at acl_ok_def)
  moreover have "set (delete_at ?l i) \<subseteq> set ?l" using lt by (rule set_delete_at_subset)
  ultimately show ?thesis
    using assms i lt by (auto simp: remove_file_access_def acl_ok_def)
qed

lemma remove_file_access_check:
  assumes "acl_ok m"
  shows "check_file_access (fst (remove_file_access m u)) v =
           (if v = u \<and> u \<noteq> fm_owner m then ACCESS_NONE else check_file_access m v)"
proof (cases "fm_owner m = u \<or> access_idx m u = None")
  case True
  then have "fst (remove_file_access m u) = m" by (auto simp: remove_file_access_def)
  moreover have "u \<noteq> fm_owner m \<Longrightarrow> check_file_access m u = ACCESS_NONE"
    using True by (simp add: check_file_access_def)
  ultimately show ?thesis by simp
next
  case False
  then obtain i where i: "access_idx m u = Some i" "fm_owner m \<noteq> u" by auto
  then have "map_of (delete_at (fm_access_list m) i) = (map_of (fm_access_list m))(u := None)"
    using assms by (intro delete_at_map_of) (auto simp: access_idx_def acl_ok_def)
  moreover have "fst (remove_file_access m u) = m\<lparr>fm_access_list := delete_at (fm_access_list m) i\<rparr>"
    using i by (simp add: remove_file_access_def)
  ultimately have "map_of (fm_access_list (fst (remove_file_access m u))) = (map_of (fm_access_list m))(u := None)"
    by simp
  with i show ?thesis by (simp add: check_file_access_map_of)
qed

lemma acl_ok_owner: "acl_ok m \<Longrightarrow> check_file_access m (fm_owner m) = ACCESS_WRITE"
  by (simp add: acl_ok_def check_file_access_map_of)

lemma create_file_metadata_ok: "acl_ok (create_file_metadata f u s ip p now)"
  by (simp add: acl_ok_def create_file_metadata_def limit_defs strncpy_buf_def)

section \<open>Accessible files\<close>

lemma accessible_loop_eq:
  assumes "\<And>f. f \<in> set fs \<Longrightarrow> \<exists>r m. trie_search root f = Some r \<and> H r = Some m" "length acc \<le> k"
  shows "accessible_loop H root u k fs acc =
    Inr (take k (acc @ filter (\<lambda>f. check_file_access (the (H (the (trie_search root f)))) u \<noteq> ACCESS_NONE) fs))"
  using assms
proof (induction fs arbitrary: acc)
  case (Cons f fs)
  obtain r m where f: "trie_search root f = Some r" "H r = Some m" using Cons.prems(1) [of f] by auto
  have IH: "length acc' \<le> k \<Longrightarrow> accessible_loop H root u k fs acc' =
    Inr (take k (acc' @ filter (\<lambda>f. check_file_access (the (H (the (trie_search root f)))) u \<noteq> ACCESS_NONE) fs))"
    for acc'
    using Cons.prems(1) by (intro Cons.IH) auto
  show ?case
  proof (cases "k \<le> length acc")
    case False
    then have "k - length acc = Suc (k - Suc (length acc))" by simp
    with False f show ?thesis by (simp add: IH)
  qed (use Cons.prems(2) in simp)
qed simp

end
