(* ===== verification/Histories.thy ===== *)
theory Histories
  imports Lru_Cache Metadata
begin

text \<open>
  Sequences of calls.  The cache and the access list of a file are used over and over by
  the naming server; this theory lifts the single-call results of \<open>Lru_Cache\<close> and \<open>Metadata\<close>
  to arbitrary histories: a cache that starts empty answers every call as the association
  list in order of use does, and the access list behaves as a map from users to permissions.
\<close>

section \<open>Histories of the cache\<close>

datatype cache_op = CacheGet string int | CachePut string nat int | CacheRemove string

fun run_cache :: "lru_cache \<Rightarrow> cache_op list \<Rightarrow> (lru_cache \<times> nat option list) result" where
  "run_cache c [] = Inr (c, [])"
| "run_cache c (CacheGet k now # ops) =
     ebind (cache_get c k now) (\<lambda>(c1, r). ebind (run_cache c1 ops) (\<lambda>(c2, rs). Inr (c2, r # rs)))"
| "run_cache c (CachePut k d now # ops) =
     ebind (cache_put c k d now) (\<lambda>c1. run_cache c1 ops)"
| "run_cache c (CacheRemove k # ops) =
     ebind (cache_remove c k) (\<lambda>c1. run_cache c1 ops)"

text \<open>The same history on the association list; the answers of the gets.\<close>

fun run_lru_list :: "nat \<Rightarrow> (string \<times> nat) list \<Rightarrow> cache_op list \<Rightarrow> (string \<times> nat) list \<times> nat option list" where
  "run_lru_list cap l [] = (l, [])"
| "run_lru_list cap l (CacheGet k now # ops) =
     (case lru_list_get k l of (l1, r) \<Rightarrow> (case run_lru_list cap l1 ops of (l2, rs) \<Rightarrow> (l2, r # rs)))"
| "run_lru_list cap l (CachePut k d now # ops) = run_lru_list cap (lru_list_put cap k d l) ops"
| "run_lru_list cap l (CacheRemove k # ops) = run_lru_list cap (lru_list_remove k l) ops"

definition op_name_ok :: "cache_op \<Rightarrow> bool" where
  "op_name_ok p \<longleftrightarrow> (case p of CachePut k d now \<Rightarrow> short_name k | _ \<Rightarrow> True)"

lemma run_cache_refines:
  assumes "lru_rep c ps" "list_all op_name_ok ops"
  shows "\<exists>c' ps'. run_cache c ops = Inr (c', snd (run_lru_list (lru_capacity c) (lru_abs c ps) ops))
     \<and> lru_rep c' ps' \<and> lru_abs c' ps' = fst (run_lru_list (lru_capacity c) (lru_abs c ps) ops)
     \<and> lru_capacity c' = lru_capacity c"
  using assms
proof (induction ops arbitrary: c ps)
  case (Cons p ops)
  then have ops: "list_all op_name_ok ops" by simp
  show ?case
  proof (cases p)
    case (CacheGet k now)
    obtain c1 ps1 r where 1: "cache_get c k now = Inr (c1, r)" "lru_rep c1 ps1"
      "(lru_abs c1 ps1, r) = lru_list_get k (lru_abs c ps)" "lru_capacity c1 = lru_capacity c"
      using cache_get_refines [OF Cons.prems(1)] by blast
    from Cons.IH [OF 1(2) ops] 1(4) obtain c2 ps2 where
      2: "run_cache c1 ops = Inr (c2, snd (run_lru_list (lru_capacity c) (lru_abs c1 ps1) ops))" "lru_rep c2 ps2"
      "lru_abs c2 ps2 = fst (run_lru_list (lru_capacity c) (lru_abs c1 ps1) ops)" "lru_capacity c2 = lru_capacity c"
      by auto
    from 1(3) have "lru_list_get k (lru_abs c ps) = (lru_abs c1 ps1, r)" by simp
    with 1(1) 2 CacheGet show ?thesis
      by (intro exI [of _ c2] exI [of _ ps2]) (simp add: case_prod_unfold)
  next
    case (CachePut k d now)
    with Cons.prems have "short_name k" by (simp add: op_name_ok_def)
    then obtain c1 ps1 where "cache_put c k d now = Inr c1" "lru_rep c1 ps1"
      "lru_abs c1 ps1 = lru_list_put (lru_capacity c) k d (lru_abs c ps)" "lru_capacity c1 = lru_capacity c"
      using cache_put_refines [OF Cons.prems(1)] by blast
    with Cons.IH [OF this(2) ops] CachePut show ?thesis by simp
  next
    case (CacheRemove k)
    obtain c1 ps1 where "cache_remove c k = Inr c1" "lru_rep c1 ps1"
      "lru_abs c1 ps1 = lru_list_remove k (lru_abs c ps)" "lru_capacity c1 = lru_capacity c"
      using cache_remove_refines [OF Cons.prems(1)] by blast
    with Cons.IH [OF this(2) ops] CacheRemove show ?thesis by simp
  qed
qed auto

lemma cache_init_capacity: "lru_capacity (cache_init n) = (if n \<le> 0 then CACHE_CAPACITY else nat n)"
  by (simp add: cache_init_def Let_def)

section \<open>Histories of an access list\<close>

datatype acl_op = Grant string access_type | Revoke string

definition acl_call :: "file_metadata \<Rightarrow> acl_op \<Rightarrow> file_metadata \<times> int" where
  "acl_call m p = (case p of Grant u a \<Rightarrow> add_file_access m u a | Revoke u \<Rightarrow> remove_file_access m u)"

fun run_acl :: "file_metadata \<Rightarrow> acl_op list \<Rightarrow> file_metadata \<times> int list" where
  "run_acl m [] = (m, [])"
| "run_acl m (p # ops) =
     (case acl_call m p of (m1, r) \<Rightarrow> (case run_acl m1 ops of (m2, rs) \<Rightarrow> (m2, r # rs)))"

text \<open>
  The permissions as a map.  A successful grant raises a user to the given permission but
  never lowers WRITE; a successful revocation takes everything; a failed call changes nothing.
\<close>

definition acl_effect :: "(string \<Rightarrow> access_type) \<Rightarrow> acl_op \<times> int \<Rightarrow> string \<Rightarrow> access_type" where
  "acl_effect perms e =
     (case e of (p, r) \<Rightarrow>
        if r \<noteq> 0 then perms
        else (case p of
                Grant u a \<Rightarrow> (if perms u = ACCESS_WRITE then perms else perms(u := a))
              | Revoke u \<Rightarrow> perms(u := ACCESS_NONE)))"

definition acl_name_ok :: "acl_op \<Rightarrow> bool" where
  "acl_name_ok p \<longleftrightarrow> (case p of Grant u a \<Rightarrow> length u < MAX_USERNAME_LEN | Revoke u \<Rightarrow> True)"

lemma add_file_access_fails: "snd (add_file_access m u a) \<noteq> 0 \<Longrightarrow> fst (add_file_access m u a) = m"
  by (auto simp: add_file_access_def push_access_def split: option.splits if_splits)

lemma remove_file_access_result:
  "snd (remove_file_access m u) = (if u = fm_owner m \<or> access_idx m u = None then - 1 else 0)"
  by (auto simp: remove_file_access_def split: option.splits)

lemma remove_file_access_fails: "snd (remove_file_access m u) \<noteq> 0 \<Longrightarrow> fst (remove_file_access m u) = m"
  by (auto simp: remove_file_access_def split: option.splits if_splits)

lemma acl_call_ok:
  assumes "acl_ok m" "acl_name_ok p"
  shows "acl_ok (fst (acl_call m p))" "fm_owner (fst (acl_call m p)) = fm_owner m"
  using assms by (cases p; simp add: acl_call_def acl_name_ok_def add_file_access_ok remove_file_access_ok)+

lemma acl_call_effect:
  assumes m: "acl_ok m" "acl_name_ok p"
  shows "check_file_access (fst (acl_call m p)) = acl_effect (check_file_access m) (p, snd (acl_call m p))"
proof (cases "snd (acl_call m p) = 0")
  case False
  then have "fst (acl_call m p) = m"
    by (cases p) (auto simp: acl_call_def add_file_access_fails remove_file_access_fails)
  with False show ?thesis by (simp add: acl_effect_def)
next
  case True
  show ?thesis
  proof (cases p)
    case (Grant u a)
    with True m have "snd (add_file_access m u a) = 0" "length u < MAX_USERNAME_LEN"
      by (simp_all add: acl_call_def acl_name_ok_def)
    from add_file_access_check [OF m(1) this(2,1)] this Grant show ?thesis
      by (auto simp: acl_call_def acl_effect_def fun_eq_iff)
  next
    case (Revoke u)
    with True have "u \<noteq> fm_owner m" by (auto simp: acl_call_def remove_file_access_result split: if_splits)
    with Revoke True remove_file_access_check [OF m(1), of u] show ?thesis
      by (auto simp: acl_call_def acl_effect_def fun_eq_iff)
  qed
qed

lemma run_acl_length: "length (snd (run_acl m ops)) = length ops"
  by (induction ops arbitrary: m) (simp_all add: case_prod_unfold)

lemma run_acl_effect:
  assumes "acl_ok m" "list_all acl_name_ok ops"
  shows "check_file_access (fst (run_acl m ops))
       = foldl acl_effect (check_file_access m) (zip ops (snd (run_acl m ops)))
     \<and> acl_ok (fst (run_acl m ops)) \<and> fm_owner (fst (run_acl m ops)) = fm_owner m"
  using assms
proof (induction ops arbitrary: m)
  case (Cons p ops)
  from Cons.prems have p: "acl_name_ok p" "list_all acl_name_ok ops" by simp_all
  note ok = acl_call_ok [OF Cons.prems(1) p(1)]
  from Cons.IH [OF ok(1) p(2)] acl_call_effect [OF Cons.prems(1) p(1)] ok(2) show ?case
    by (simp add: case_prod_unfold)
qed simp

end
