(* ===== verification/Metadata_Disk.thy ===== *)
theory Metadata_Disk
  imports Metadata
begin

text \<open>
  Persistence of the metadata: \<open>trie_save_helper\<close>, \<open>trie_save_to_disk\<close> and
  \<open>trie_load_from_disk\<close> of \<^verbatim>\<open>naming_server/nm_storage.c\<close>.  One line per file holds
  fourteen fields separated by \<^verbatim>\<open>|\<close>; the last field is the access list.  The main
  lemma is the round trip: what is saved is loaded back, for metadata whose texts are
  non-empty and free of the separators and whose line fits the line buffer.
\<close>

section \<open>Saving\<close>

definition acl_pair :: "string \<times> access_type \<Rightarrow> string" where
  "acl_pair e = fst e @ CHR '':'' # show_int (int_of_access (snd e))"

definition acl_text :: "(string \<times> access_type) list \<Rightarrow> string" where
  "acl_text l = join_with (CHR '','') (map acl_pair l)"

definition metadata_fields :: "string \<Rightarrow> file_metadata \<Rightarrow> string list" where
  "metadata_fields prefix m =
     [prefix, fm_owner m, show_int (fm_ss_id m), fm_ss_ip m, show_int (fm_ss_client_port m),
      show_int (fm_created_at m), show_int (fm_last_modified m), show_int (fm_last_accessed m),
      fm_last_accessed_by m, show_nat (unat (fm_size_bytes m)), show_int (fm_word_count m),
      show_int (fm_char_count m), show_nat (length (fm_access_list m)), acl_text (fm_access_list m)]"

definition metadata_line :: "string \<Rightarrow> file_metadata \<Rightarrow> string" where
  "metadata_line prefix m = join_with (CHR ''|'') (metadata_fields prefix m)"

primrec trie_save_helper :: "nat trie \<Rightarrow> meta_heap \<Rightarrow> string \<Rightarrow> string result" where
  "trie_save_helper (TrieNode e d ch) = (\<lambda>H prefix.
     ebind (if e then (case d of
                         None \<Rightarrow> Inr []
                       | Some r \<Rightarrow> (case H r of
                                      None \<Rightarrow> Inl UseAfterFree
                                    | Some m \<Rightarrow> Inr (metadata_line prefix m @ [nl])))
            else Inr [])
       (\<lambda>out. foldl (\<lambda>acc i. ebind acc (\<lambda>s.
                       case map_option trie_save_helper (ch i) of
                         None \<Rightarrow> Inr s
                       | Some save \<Rightarrow> ebind (save H (prefix @ [i])) (\<lambda>t. Inr (s @ t))))
                (Inr out) all_bytes))"

text \<open>The text of the file, when it can be opened.\<close>

definition trie_save_to_disk :: "nat trie \<Rightarrow> meta_heap \<Rightarrow> string result" where
  "trie_save_to_disk root H = trie_save_helper root H []"

section \<open>Loading\<close>

text \<open>One \<open>user:access\<close> pair; a piece without a colon is skipped.\<close>

definition load_acl_pair :: "(string \<times> access_type) list \<Rightarrow> string \<Rightarrow> (string \<times> access_type) list" where
  "load_acl_pair l pair =
     (if MAX_USERS \<le> length l then l
      else (case find_idx (\<lambda>c. c = CHR '':'') pair of
              None \<Rightarrow> l
            | Some i \<Rightarrow> l @ [(strncpy_buf MAX_USERNAME_LEN (take i pair),
                              access_of_int (atoi (drop (Suc i) pair)))]))"

definition load_acl :: "string \<Rightarrow> (string \<times> access_type) list" where
  "load_acl s = foldl load_acl_pair [] (strtok {CHR '',''} (strncpy_buf 2048 s))"

definition ensure_owner :: "string \<Rightarrow> (string \<times> access_type) list \<Rightarrow> (string \<times> access_type) list" where
  "ensure_owner owner l =
     (case find_idx (\<lambda>e. fst e = owner) l of
        Some i \<Rightarrow> l[i := (owner, ACCESS_WRITE)]
      | None \<Rightarrow> if length l < MAX_USERS then l @ [(strncpy_buf MAX_USERNAME_LEN owner, ACCESS_WRITE)] else l)"

definition metadata_of_tokens :: "string list \<Rightarrow> file_metadata" where
  "metadata_of_tokens t =
     (let owner = strncpy_buf MAX_USERNAME_LEN (t ! 1)
      in \<lparr>fm_filename = strncpy_buf MAX_FILENAME_LEN (t ! 0), fm_owner = owner,
          fm_ss_id = atoi (t ! 2), fm_ss_ip = strncpy_buf MAX_IP_LEN (t ! 3),
          fm_ss_client_port = atoi (t ! 4),
          fm_access_list = ensure_owner owner (load_acl (t ! 13)),
          fm_created_at = atoi (t ! 5), fm_last_modified = atoi (t ! 6), fm_last_accessed = atoi (t ! 7),
          fm_last_accessed_by = strncpy_buf MAX_USERNAME_LEN (t ! 8),
          fm_size_bytes = word_of_int (atoi (t ! 9)),
          fm_word_count = atoi (t ! 10), fm_char_count = atoi (t ! 11)\<rparr>)"

type_synonym meta_state = "meta_heap \<times> nat \<times> nat trie"

definition strip_eol :: "string \<Rightarrow> string" where
  "strip_eol l = (if l \<noteq> [] \<and> (last l = nl \<or> last l = CHR 0x0D) then butlast l else l)"

definition load_line :: "int \<Rightarrow> meta_state \<Rightarrow> string \<Rightarrow> meta_state" where
  "load_line now st line =
     (case st of (H, n, root) \<Rightarrow>
       let t = take 14 (strtok {CHR ''|''} (strip_eol line)) in
       if 14 \<le> length t
       then (let m = metadata_of_tokens t in (H(n \<mapsto> m), Suc n, trie_insert root (fm_filename m) n))
       else if length t = 5
       then (H(n \<mapsto> create_file_metadata (t ! 0) (t ! 1) (atoi (t ! 2)) (t ! 3) (atoi (t ! 4)) now),
             Suc n, trie_insert root (t ! 0) n)
       else (H, n, root))"

definition trie_load_from_disk :: "int \<Rightarrow> string \<Rightarrow> meta_state" where
  "trie_load_from_disk now text = foldl (load_line now) (Map.empty, 0, trie_init) (fgets_lines 4096 text)"

section \<open>What is saved\<close>

definition meta_lookup :: "meta_heap \<Rightarrow> nat trie \<Rightarrow> string \<Rightarrow> file_metadata option" where
  "meta_lookup H t k = Option.bind (trie_search t k) H"

definition meta_live :: "meta_heap \<Rightarrow> nat trie \<Rightarrow> bool" where
  "meta_live H t \<longleftrightarrow> (\<forall>k r. trie_search t k = Some r \<longrightarrow> H r \<noteq> None)"

definition save_entry :: "meta_heap \<Rightarrow> nat trie \<Rightarrow> string \<Rightarrow> string \<Rightarrow> string" where
  "save_entry H t prefix k = metadata_line (prefix @ k) (the (meta_lookup H t k)) @ [nl]"

lemma concat_concat_map: "concat (concat xss) = concat (map concat xss)"
  by (induction xss) simp_all

lemma foldl_save_concat:
  assumes "\<And>i. i \<in> set cs \<Longrightarrow> (case f i of None \<Rightarrow> g i = [] | Some save \<Rightarrow> save H (p @ [i]) = Inr (g i))"
  shows "foldl (\<lambda>acc i. ebind acc (\<lambda>s. case f i of None \<Rightarrow> Inr s
                | Some save \<Rightarrow> ebind (save H (p @ [i])) (\<lambda>t. Inr (s @ t)))) (Inr out) cs
       = (Inr (out @ concat (map g cs)) :: string result)"
  using assms
proof (induction cs arbitrary: out)
  case (Cons c cs)
  from Cons.prems [of c] show ?case
    by (cases "f c") (simp_all add: Cons.IH Cons.prems)
qed simp

lemma trie_save_helper_eq:
  "meta_live H t \<Longrightarrow>
   trie_save_helper t H prefix = Inr (concat (map (save_entry H t prefix) (trie_names t)))"
proof (induction t arbitrary: prefix)
  case (TrieNode e d ch)
  let ?t = "TrieNode e d ch"
  let ?g = "\<lambda>i. concat (map (save_entry H ?t prefix)
                 (case map_option trie_names (ch i) of None \<Rightarrow> [] | Some ns \<Rightarrow> map ((#) i) ns))"
  have step: "case map_option trie_save_helper (ch i) of
                None \<Rightarrow> ?g i = [] | Some save \<Rightarrow> save H (prefix @ [i]) = Inr (?g i)" for i
  proof (cases "ch i")
    case (Some t)
    then have "Some t \<in> range ch" by (metis rangeI)
    moreover have "meta_live H t"
      using TrieNode.prems Some unfolding meta_live_def by (metis option.simps(5) trie_search.simps(2))
    ultimately have "trie_save_helper t H (prefix @ [i])
        = Inr (concat (map (save_entry H t (prefix @ [i])) (trie_names t)))"
      by (intro TrieNode.IH) auto
    moreover have "save_entry H t (prefix @ [i]) = (\<lambda>k. save_entry H ?t prefix (i # k))"
      using Some by (intro ext) (simp add: save_entry_def meta_lookup_def)
    ultimately show ?thesis using Some by (simp add: comp_def)
  qed simp
  have own: "(if e then (case d of None \<Rightarrow> Inr []
       | Some r \<Rightarrow> (case H r of None \<Rightarrow> Inl UseAfterFree | Some m \<Rightarrow> Inr (metadata_line prefix m @ [nl]))) else Inr [])
     = (Inr (concat (map (save_entry H ?t prefix) (if e \<and> d \<noteq> None then [[]] else []))) :: string result)"
  proof (cases "e \<and> d \<noteq> None")
    case True
    then obtain r where r: "d = Some r" by auto
    with True have "trie_search ?t [] = Some r" by simp
    then have "H r \<noteq> None" using TrieNode.prems unfolding meta_live_def by blast
    then obtain m where "H r = Some m" by blast
    with True r show ?thesis by (simp add: save_entry_def meta_lookup_def)
  qed (auto split: option.splits)
  show ?case
    using foldl_save_concat [where f = "\<lambda>i. map_option trie_save_helper (ch i)" and g = ?g and cs = all_bytes, OF step]
    by (simp add: own map_concat concat_concat_map comp_def)
qed

lemma trie_save_to_disk_eq:
  "meta_live H t \<Longrightarrow>
   trie_save_to_disk t H = Inr (concat (map (\<lambda>l. l @ [nl])
     (map (\<lambda>k. metadata_line k (the (meta_lookup H t k))) (trie_names t))))"
proof -
  have "save_entry H t [] = (\<lambda>k. metadata_line k (the (meta_lookup H t k)) @ [nl])"
    by (intro ext) (simp add: save_entry_def)
  then show "meta_live H t \<Longrightarrow> ?thesis"
    by (simp add: trie_save_to_disk_def trie_save_helper_eq comp_def)
qed

section \<open>Round trip\<close>

text \<open>
  Texts that survive: not empty and free of the separators and of line ends.
  (\<open>strtok\<close> merges separators, so an empty field would shift the fields after it.)
\<close>

definition field_ok :: "string \<Rightarrow> bool" where
  "field_ok s \<longleftrightarrow> s \<noteq> [] \<and> CHR ''|'' \<notin> set s \<and> nl \<notin> set s"

definition user_ok :: "string \<Rightarrow> bool" where
  "user_ok s \<longleftrightarrow> field_ok s \<and> CHR '','' \<notin> set s \<and> CHR '':'' \<notin> set s \<and> length s < MAX_USERNAME_LEN"

definition disk_ok :: "string \<Rightarrow> file_metadata \<Rightarrow> bool" where
  "disk_ok k m \<longleftrightarrow> fm_filename m = k \<and> field_ok k \<and> length k < MAX_FILENAME_LEN
     \<and> user_ok (fm_owner m) \<and> field_ok (fm_ss_ip m) \<and> length (fm_ss_ip m) < MAX_IP_LEN
     \<and> field_ok (fm_last_accessed_by m) \<and> length (fm_last_accessed_by m) < MAX_USERNAME_LEN
     \<and> acl_ok m \<and> (\<forall>e \<in> set (fm_access_list m). user_ok (fst e) \<and> access_code (snd e) < 2 ^ 32)
     \<and> length (acl_text (fm_access_list m)) < 2048 \<and> length (metadata_line k m) < 4095"

lemma load_acl_pair_acl_pair:
  assumes "length l < MAX_USERS" "user_ok (fst e)" "access_code (snd e) < 2 ^ 32"
  shows "load_acl_pair l (acl_pair e) = l @ [e]"
  using assms
  by (simp add: load_acl_pair_def acl_pair_def find_idx_colon user_ok_def access_of_int_of_access)

lemma load_acl_pairs:
  assumes "length l + length es \<le> MAX_USERS" "\<forall>e \<in> set es. user_ok (fst e) \<and> access_code (snd e) < 2 ^ 32"
  shows "foldl load_acl_pair l (map acl_pair es) = l @ es"
  using assms by (induction es arbitrary: l) (simp_all add: load_acl_pair_acl_pair)

lemma acl_pair_chars:
  assumes "user_ok (fst e)"
  shows "acl_pair e \<noteq> []" "CHR '','' \<notin> set (acl_pair e)" "CHR ''|'' \<notin> set (acl_pair e)" "nl \<notin> set (acl_pair e)"
  using assms show_int_free by (auto simp: acl_pair_def user_ok_def field_ok_def)

lemma load_acl_text:
  assumes "length es \<le> MAX_USERS" "\<forall>e \<in> set es. user_ok (fst e) \<and> access_code (snd e) < 2 ^ 32"
    "length (acl_text es) < 2048"
  shows "load_acl (acl_text es) = es"
proof -
  have "strtok {CHR '',''} (acl_text es) = map acl_pair es"
    unfolding acl_text_def
    by (rule strtok_join_with) (use assms(2) acl_pair_chars in auto)
  with assms show ?thesis by (simp add: load_acl_def load_acl_pairs)
qed

lemma ensure_owner_id:
  assumes "map_of l owner = Some ACCESS_WRITE"
  shows "ensure_owner owner l = l"
proof -
  obtain i where i: "find_idx (\<lambda>e. fst e = owner) l = Some i" "snd (l ! i) = ACCESS_WRITE"
    using assms by (auto simp: map_of_find_idx)
  moreover have "l ! i = (owner, ACCESS_WRITE)" using i find_idx_SomeD [OF i(1)] by (metis prod.collapse)
  ultimately show ?thesis by (simp add: ensure_owner_def) (metis list_update_id)
qed

lemma acl_text_field:
  assumes "es \<noteq> []" "\<forall>e \<in> set es. user_ok (fst e)"
  shows "field_ok (acl_text es)"
proof -
  have "set (acl_text es) \<subseteq> insert (CHR '','') (\<Union>w \<in> set (map acl_pair es). set w)"
    unfolding acl_text_def by (rule set_join_with)
  moreover have "acl_text es \<noteq> []"
    using assms acl_pair_chars(1) by (cases es rule: list.exhaust; cases "tl es") (auto simp: acl_text_def)
  ultimately show ?thesis using assms(2) acl_pair_chars(3,4) by (fastforce simp: field_ok_def)
qed

lemma show_fields: "field_ok (show_int i)" "field_ok (show_nat n)"
proof -
  show "field_ok (show_int i)" using show_int_free by (simp add: field_ok_def)
  show "field_ok (show_nat n)" using show_int_free [of "int n"] by (simp add: field_ok_def show_int_def)
qed

lemma metadata_fields_ok:
  assumes "disk_ok k m" "f \<in> set (metadata_fields k m)"
  shows "field_ok f"
proof -
  have "fm_access_list m \<noteq> []" using assms(1) by (auto simp: disk_ok_def acl_ok_def)
  then have "field_ok (acl_text (fm_access_list m))"
    using assms(1) by (intro acl_text_field) (auto simp: disk_ok_def)
  with assms show ?thesis by (auto simp: metadata_fields_def disk_ok_def user_ok_def show_fields)
qed

lemma metadata_line_no_nl: "disk_ok k m \<Longrightarrow> nl \<notin> set (metadata_line k m)"
  using set_join_with [of "CHR ''|''" "metadata_fields k m"] metadata_fields_ok [of k m]
  by (fastforce simp: metadata_line_def field_ok_def)

lemma load_line_metadata_line:
  assumes "disk_ok k m"
  shows "load_line now (H, n, root) (metadata_line k m @ [nl]) = (H(n \<mapsto> m), Suc n, trie_insert root k n)"
proof -
  let ?t = "metadata_fields k m"
  have "strtok {CHR ''|''} (metadata_line k m) = ?t"
    unfolding metadata_line_def using metadata_fields_ok [OF assms]
    by (intro strtok_join_with) (auto simp: field_ok_def)
  then have t: "take 14 (strtok {CHR ''|''} (strip_eol (metadata_line k m @ [nl]))) = ?t"
    by (simp add: strip_eol_def metadata_fields_def)
  have acl: "load_acl (acl_text (fm_access_list m)) = fm_access_list m"
    using assms by (intro load_acl_text) (auto simp: disk_ok_def acl_ok_def)
  have own: "ensure_owner (fm_owner m) (fm_access_list m) = fm_access_list m"
    using assms by (intro ensure_owner_id) (simp add: disk_ok_def acl_ok_def)
  have "metadata_of_tokens ?t = m"
    using assms acl own by (simp add: metadata_of_tokens_def metadata_fields_def disk_ok_def user_ok_def Let_def)
  moreover have "length ?t = 14" by (simp add: metadata_fields_def)
  ultimately show ?thesis using assms t by (simp add: load_line_def Let_def disk_ok_def)
qed

lemma load_lines_lookup:
  assumes "distinct ks" "\<forall>k \<in> set ks. disk_ok k (M k)" "\<forall>k r. trie_search root k = Some r \<longrightarrow> r < n"
  shows "case foldl (load_line now) (H, n, root) (map (\<lambda>k. metadata_line k (M k) @ [nl]) ks) of
           (H', n', root') \<Rightarrow> \<forall>k. meta_lookup H' root' k = (if k \<in> set ks then Some (M k) else meta_lookup H root k)"
  using assms
proof (induction ks arbitrary: H n root)
  case (Cons a ks)
  let ?H = "H(n \<mapsto> M a)" and ?root = "trie_insert root a n"
  have "\<forall>k r. trie_search ?root k = Some r \<longrightarrow> r < Suc n"
    using Cons.prems(3) by (auto simp: trie_search_insert less_Suc_eq)
  then have IH: "case foldl (load_line now) (?H, Suc n, ?root) (map (\<lambda>k. metadata_line k (M k) @ [nl]) ks) of
      (H', n', root') \<Rightarrow> \<forall>k. meta_lookup H' root' k = (if k \<in> set ks then Some (M k) else meta_lookup ?H ?root k)"
    using Cons.prems by (intro Cons.IH) auto
  have look: "meta_lookup ?H ?root k = (if k = a then Some (M a) else meta_lookup H root k)" for k
    using Cons.prems(3) by (cases "trie_search root k") (auto simp: meta_lookup_def trie_search_insert)
  from IH look Cons.prems(1,2) show ?case by (auto simp: load_line_metadata_line split: prod.splits)
qed simp

theorem metadata_round_trip:
  assumes live: "meta_live H t" and ok: "\<And>k m. meta_lookup H t k = Some m \<Longrightarrow> disk_ok k m"
  shows "\<exists>text H' n' t'. trie_save_to_disk t H = Inr text
           \<and> trie_load_from_disk now text = (H', n', t')
           \<and> (\<forall>k. meta_lookup H' t' k = meta_lookup H t k)"
proof -
  let ?M = "\<lambda>k. the (meta_lookup H t k)"
  let ?ls = "map (\<lambda>k. metadata_line k (?M k)) (trie_names t)"
  have dok: "disk_ok k (?M k)" "meta_lookup H t k = Some (?M k)" if "k \<in> set (trie_names t)" for k
  proof -
    from that obtain r where "trie_search t k = Some r" by (auto simp: trie_names_iff)
    with live obtain m where "meta_lookup H t k = Some m" by (auto simp: meta_lookup_def meta_live_def)
    with ok show "disk_ok k (?M k)" "meta_lookup H t k = Some (?M k)" by simp_all
  qed
  have "fgets_lines 4096 (concat (map (\<lambda>l. l @ [nl]) ?ls)) = map (\<lambda>l. l @ [nl]) ?ls"
  proof (rule fgets_lines_concat)
    fix l assume "l \<in> set ?ls"
    then obtain k where "k \<in> set (trie_names t)" "l = metadata_line k (?M k)" by auto
    with dok(1) [of k] metadata_line_no_nl [of k "?M k"] show "nl \<notin> set l \<and> length l + 1 < 4096"
      by (simp add: disk_ok_def)
  qed
  then have load: "trie_load_from_disk now (concat (map (\<lambda>l. l @ [nl]) ?ls))
      = foldl (load_line now) (Map.empty, 0, trie_init)
          (map (\<lambda>k. metadata_line k (?M k) @ [nl]) (trie_names t))"
    by (simp add: trie_load_from_disk_def comp_def)
  obtain H' n' t' where st: "trie_load_from_disk now (concat (map (\<lambda>l. l @ [nl]) ?ls)) = (H', n', t')"
    using prod_cases3 by blast
  from st load have st': "foldl (load_line now) (Map.empty, 0, trie_init)
      (map (\<lambda>k. metadata_line k (?M k) @ [nl]) (trie_names t)) = (H', n', t')"
    by (rule subst [rotated])
  have "\<forall>k. meta_lookup H' t' k = (if k \<in> set (trie_names t) then Some (?M k) else meta_lookup Map.empty trie_init k)"
    using load_lines_lookup [where ks = "trie_names t" and M = ?M and root = trie_init and n = 0
        and now = now and H = Map.empty] dok(1)
    unfolding st' by (simp add: trie_names_distinct)
  moreover have "meta_lookup Map.empty trie_init k = (None :: file_metadata option)" for k
    by (simp add: meta_lookup_def)
  moreover have "k \<notin> set (trie_names t) \<Longrightarrow> meta_lookup H t k = None" for k
    by (simp add: trie_names_iff meta_lookup_def)
  ultimately have "\<forall>k. meta_lookup H' t' k = meta_lookup H t k" using dok(2) by auto
  with st trie_save_to_disk_eq [OF live] show ?thesis by blast
qed

end
