(* ===== verification/Common_Properties.thy ===== *)
theory Common_Properties
  imports Histories Metadata_Disk Net_Stream
begin

text \<open>
  The properties of the modules that both servers share: message transport, command
  parsing, the name index, the cache, access lists and the metadata file.
\<close>

section \<open>Transport\<close>

text \<open>
  Messages of one size sent over a stream and received from it arrive as they were sent
  and in order, however the kernel cuts and interrupts the transfers on either side, and both
  sides return.
\<close>

theorem messages_round_trip:
  assumes "list_all2 exact send_scripts (map length ms)" "list_all2 exact recv_scripts (map length ms)"
    and "\<forall>m \<in> set ms. length m = len"
  shows "\<exists>stream. send_all (concat send_scripts) [] ms = Some stream
           \<and> recv_all len (length ms) (concat recv_scripts) stream = Some ms"
  using send_all_exact [OF assms(1), of "[]"] recv_all_exact [OF assms(2,3), of "[]"] by simp

theorem messages_round_trip_witness:
  "\<exists>stream. send_all (concat [[Transfer 1, Interrupted, Transfer 5], [Transfer 2]]) [] [''ab'', ''cd''] = Some stream
     \<and> recv_all 2 2 (concat [[Transfer 2], [Interrupted, Transfer 1, Transfer 1]]) stream = Some [''ab'', ''cd'']"
  using messages_round_trip [of "[[Transfer 1, Interrupted, Transfer 5], [Transfer 2]]" "[''ab'', ''cd'']"
      "[[Transfer 2], [Interrupted, Transfer 1, Transfer 1]]" 2]
  by (simp add: exact_def numeral_2_eq_2)

text \<open>
  \<open>recv_message\<close> gives up with \<open>-1\<close> when the receive timeout strikes inside a message, and
  the bytes it had already taken are gone from the stream: the next call starts in the middle
  of a frame.  (With two messages of two bytes on the stream and a timeout after the first
  byte, the next receive returns the second byte of the first message and the first byte of
  the second one.)
\<close>

theorem timeout_loses_frame:
  "recv_message 2 [Transfer 1, Would_block, Transfer 2] ''abcd'' = Some (- 1, ''a'', ''bcd'', [Transfer 2])
   \<and> recv_message 2 [Transfer 2] ''bcd'' = Some (2, ''bc'', ''d'', [])"
  by (simp add: recv_message_def)

section \<open>Commands\<close>

text \<open>
  Whatever the input line, \<open>parse_command\<close> fills at most the 10 slots of its argument array
  and every argument, like the command word, fits its buffer with its terminator.
\<close>

theorem parse_command_bounds:
  "length (args (parse_command stray input)) \<le> 10
   \<and> list_all (\<lambda>a. length a < MAX_FILENAME_LEN) (args (parse_command stray input))
   \<and> length (cmd (parse_command stray input)) < 32"
proof -
  have flags: "args (foldl parse_flag c fs) = args c" for c fs by simp
  have tok: "list_all (\<lambda>a. length a < MAX_FILENAME_LEN) (args (parse_token c t))"
    if "list_all (\<lambda>a. length a < MAX_FILENAME_LEN) (args c)" for c t
    using that strncpy_buf_length [of MAX_FILENAME_LEN t]
    by (auto simp: parse_token_def limit_defs split: list.split)
  have fold: "list_all (\<lambda>a. length a < MAX_FILENAME_LEN) (args (foldl parse_token c ts))"
    if "list_all (\<lambda>a. length a < MAX_FILENAME_LEN) (args c)" for c ts
    using that by (induction ts arbitrary: c) (simp_all add: tok)
  have "list_all (\<lambda>a. length a < MAX_FILENAME_LEN) (args (parse_command stray input))"
    unfolding parse_command_def by (auto simp: command_zero_def intro: fold split: list.split)
  moreover have "length (cmd (parse_command stray input)) < 32"
    using strncpy_buf_length [of 32] by (auto simp: parse_command_def command_zero_def split: list.split)
  ultimately show ?thesis using args_bounded by blast
qed

section \<open>The name index\<close>

text \<open>
  \<open>trie_get_all_files\<close> lists the names under which the trie finds something, in byte
  order, each once, and all of them when they fit the caller's array.
\<close>

theorem trie_enumeration:
  "sorted_wrt byte_less (trie_get_all_files t m) \<and> distinct (trie_get_all_files t m)
   \<and> length (trie_get_all_files t m) \<le> m
   \<and> trie_get_all_files t m = take m (trie_get_all_files t (length (trie_names t)))
   \<and> set (trie_get_all_files t (length (trie_names t))) = {k. trie_search t k \<noteq> None}"
  using trie_names_sorted [of t] trie_names_distinct [of t] trie_get_all_files_complete [of t "length (trie_names t)"]
  by (simp add: trie_get_all_files_eq sorted_wrt_take)

section \<open>The cache\<close>

text \<open>
  C12: starting empty, the cache answers every history of \<open>cache_get\<close>, \<open>cache_put\<close> and
  \<open>cache_remove\<close> with file names that fit their buffers exactly as the association list in
  order of use does that keeps the \<open>capacity\<close> most recently used entries; no call follows a
  null or freed pointer.
\<close>

theorem cache_history:
  assumes "n < 2 ^ 28" "list_all op_name_ok ops"
  shows "\<exists>c. run_cache (cache_init n) ops
           = Inr (c, snd (run_lru_list (if n \<le> 0 then CACHE_CAPACITY else nat n) [] ops))"
  using run_cache_refines [of "cache_init n" "[]" ops] cache_init_rep [OF assms(1)] assms(2)
  by (auto simp: cache_init_capacity)

theorem cache_history_witness:
  "\<exists>c. run_cache (cache_init 2) [CachePut ''a'' 7 0, CachePut ''b'' 8 1, CacheGet ''a'' 2,
          CachePut ''c'' 9 3, CacheGet ''b'' 4, CacheGet ''a'' 5] = Inr (c, [Some 7, None, Some 7])"
proof -
  let ?ops = "[CachePut ''a'' 7 0, CachePut ''b'' 8 1, CacheGet ''a'' 2,
          CachePut ''c'' 9 3, CacheGet ''b'' 4, CacheGet ''a'' 5]"
  have "list_all op_name_ok ?ops" by (simp add: op_name_ok_def short_name_def limit_defs)
  moreover have "snd (run_lru_list 2 [] ?ops) = [Some 7, None, Some 7]"
    by (simp add: lru_list_get_def lru_list_put_def lru_drop_def)
  ultimately show ?thesis using cache_history [of 2 ?ops] by simp
qed

section \<open>Access lists\<close>

text \<open>
  C23: over any history of grants and revocations on a new file the access list behaves as a
  map from users to permissions: a successful grant sets the permission of that user and of
  nobody else and never lowers WRITE, a successful revocation leaves the user without access,
  a failed call changes nothing, the owner keeps WRITE, and the array never exceeds
  \<open>MAX_USERS\<close> entries.
\<close>

theorem access_history:
  assumes "list_all acl_name_ok ops"
  shows "case run_acl (create_file_metadata f u ss ip port now) ops of (m, codes) \<Rightarrow>
           check_file_access m = foldl acl_effect ((\<lambda>_. ACCESS_NONE)(strncpy_buf MAX_USERNAME_LEN u := ACCESS_WRITE))
                                   (zip ops codes)
           \<and> check_file_access m (strncpy_buf MAX_USERNAME_LEN u) = ACCESS_WRITE
           \<and> length (fm_access_list m) \<le> MAX_USERS"
proof -
  let ?m = "create_file_metadata f u ss ip port now"
  have "check_file_access ?m = (\<lambda>_. ACCESS_NONE)(strncpy_buf MAX_USERNAME_LEN u := ACCESS_WRITE)"
    by (auto simp: check_file_access_map_of create_file_metadata_def fun_eq_iff)
  moreover have "fm_owner ?m = strncpy_buf MAX_USERNAME_LEN u" by (simp add: create_file_metadata_def)
  moreover note r = run_acl_effect [OF create_file_metadata_ok assms, of f u ss ip port now]
  moreover have "check_file_access (fst (run_acl ?m ops)) (fm_owner (fst (run_acl ?m ops))) = ACCESS_WRITE"
    by (rule acl_ok_owner) (use r in blast)
  moreover have "length (fm_access_list (fst (run_acl ?m ops))) \<le> MAX_USERS" using r by (simp add: acl_ok_def)
  ultimately show ?thesis by (simp add: case_prod_unfold)
qed

theorem access_history_witness:
  "case run_acl (create_file_metadata ''f'' ''ann'' 0 ''127.0.0.1'' 9000 5)
          [Grant ''bob'' ACCESS_READ, Revoke ''ann'', Grant ''cy'' ACCESS_WRITE, Revoke ''bob''] of (m, codes) \<Rightarrow>
     codes = [0, - 1, 0, 0] \<and> check_file_access m ''bob'' = ACCESS_NONE
     \<and> check_file_access m ''cy'' = ACCESS_WRITE \<and> check_file_access m ''ann'' = ACCESS_WRITE"
proof -
  let ?m = "create_file_metadata ''f'' ''ann'' 0 ''127.0.0.1'' 9000 5"
  let ?ops = "[Grant ''bob'' ACCESS_READ, Revoke ''ann'', Grant ''cy'' ACCESS_WRITE, Revoke ''bob'']"
  obtain m codes where r: "run_acl ?m ?ops = (m, codes)" by fastforce
  have "snd (run_acl ?m ?ops) = [0, - 1, 0, 0]" by code_simp
  then have codes: "codes = [0, - 1, 0, 0]" by (simp only: r snd_conv)
  have "list_all acl_name_ok ?ops" by (simp add: acl_name_ok_def limit_defs)
  from access_history [OF this, where f = "''f''" and u = "''ann''" and ss = 0 and ip = "''127.0.0.1''"
      and port = 9000 and now = 5]
  show ?thesis unfolding r by (simp add: codes strncpy_buf_def limit_defs acl_effect_def)
qed

section \<open>The metadata file\<close>

text \<open>
  Saving the index to disk and loading it again gives every file name the same metadata,
  for texts that are not empty, fit their fields and are free of the separators.
\<close>

theorem metadata_file_round_trip:
  assumes "meta_live H t" "\<And>k m. meta_lookup H t k = Some m \<Longrightarrow> disk_ok k m"
  shows "\<exists>disk H' n' t'. trie_save_to_disk t H = Inr disk \<and> trie_load_from_disk now disk = (H', n', t')
           \<and> (\<forall>k. meta_lookup H' t' k = meta_lookup H t k)"
  using metadata_round_trip [OF assms] by blast

definition demo_metadata :: file_metadata where
  "demo_metadata = create_file_metadata ''f'' ''ann'' 0 ''127.0.0.1'' 9000 5"

theorem metadata_file_round_trip_witness:
  "\<exists>disk H' n' t'. trie_save_to_disk (trie_insert trie_init ''f'' 0) [0 \<mapsto> demo_metadata] = Inr disk
     \<and> trie_load_from_disk 9 disk = (H', n', t') \<and> meta_lookup H' t' ''f'' = Some demo_metadata"
proof -
  let ?t = "trie_insert trie_init ''f'' 0" and ?H = "[0 \<mapsto> demo_metadata]"
  have look: "meta_lookup ?H ?t k = (if k = ''f'' then Some demo_metadata else None)" for k
    by (simp add: meta_lookup_def trie_search_insert)
  have live: "meta_live ?H ?t" by (auto simp: meta_live_def trie_search_insert split: if_splits)
  have m: "demo_metadata = \<lparr>fm_filename = ''f'', fm_owner = ''ann'', fm_ss_id = 0, fm_ss_ip = ''127.0.0.1'',
      fm_ss_client_port = 9000, fm_access_list = [(''ann'', ACCESS_WRITE)], fm_created_at = 5, fm_last_modified = 5,
      fm_last_accessed = 5, fm_last_accessed_by = ''ann'', fm_size_bytes = 0, fm_word_count = 0, fm_char_count = 0\<rparr>"
    by (simp add: demo_metadata_def create_file_metadata_def strncpy_buf_def limit_defs)
  have line: "length (metadata_line ''f'' demo_metadata) < 100" "length (acl_text (fm_access_list demo_metadata)) < 100"
    by (simp_all add: m metadata_line_def metadata_fields_def acl_text_def acl_pair_def show_int_def
        show_nat.simps digit_char_def)
  have ok: "disk_ok ''f'' demo_metadata"
    unfolding disk_ok_def using line
    by (simp add: m field_ok_def user_ok_def acl_ok_def limit_defs)
  have dok: "disk_ok k m" if "meta_lookup ?H ?t k = Some m" for k m
    using that ok by (simp add: look split: if_splits)
  from metadata_file_round_trip [OF live dok, of 9] obtain disk H' n' t' where
    "trie_save_to_disk ?t ?H = Inr disk" "trie_load_from_disk 9 disk = (H', n', t')"
    "\<forall>k. meta_lookup H' t' k = meta_lookup ?H ?t k" by blast
  moreover from this(3) have "meta_lookup H' t' ''f'' = Some demo_metadata" by (simp add: look)
  ultimately show ?thesis by blast
qed

end
