(* ===== verification/File_System.thy ===== *)
theory File_System
  imports C_Strings Protocol "HOL-Library.AList" "HOL-Library.Sublist"
begin

text \<open>
  The part of the POSIX file system that the servers use (paths, \<open>stat\<close>, \<open>fopen\<close>, \<open>mkdir\<close>,
  \<open>unlink\<close>, \<open>rename\<close>, \<open>readdir\<close>) and, over it, the file utilities of \<^verbatim>\<open>common/utils.c\<close>.
  A file system is an association list from absolute paths, written as component lists, to
  nodes, with a current directory; the order of the list is the order in which \<open>readdir\<close>
  returns the entries of a directory.  Permissions, links, full disks and name limits are
  not modelled.  The lemmas show that every operation keeps the tree well formed, what an
  operation changes and leaves alone, and that \<open>atomic_write_file\<close> replaces a file in one step
  as long as its path leaves room for the suffix of the temporary file.
\<close>

section \<open>Nodes and paths\<close>

datatype fs_node = RegularFile string | Directory

record fs =
  fs_cwd :: "string list"
  fs_nodes :: "(string list \<times> fs_node) list"

definition node_at :: "fs \<Rightarrow> string list \<Rightarrow> fs_node option" where
  "node_at F p = (if p = [] then Some Directory else map_of (fs_nodes F) p)"

text \<open>
  Path resolution.  Every component is looked up in a directory; \<open>None\<close> is \<open>ENOENT\<close> or
  \<open>ENOTDIR\<close>.  The result is the absolute place, which need not exist itself.
\<close>

fun path_walk :: "fs \<Rightarrow> string list \<Rightarrow> string list \<Rightarrow> string list option" where
  "path_walk F cur [] = Some cur"
| "path_walk F cur (c # cs) =
     (if node_at F cur \<noteq> Some Directory then None
      else path_walk F (if c = ''.'' then cur else if c = ''..'' then butlast cur else cur @ [c]) cs)"

definition resolve :: "fs \<Rightarrow> string \<Rightarrow> string list option" where
  "resolve F path =
     (if path = [] then None
      else path_walk F (if hd path = CHR ''/'' then [] else fs_cwd F) (strtok {CHR ''/''} path))"

definition node_of :: "fs \<Rightarrow> string \<Rightarrow> fs_node option" where
  "node_of F path = Option.bind (resolve F path) (node_at F)"

text \<open>A tree: no path twice, no entry for the root, and every entry lies in a directory.\<close>

definition fs_ok :: "fs \<Rightarrow> bool" where
  "fs_ok F \<longleftrightarrow> distinct (map fst (fs_nodes F)) \<and> node_at F (fs_cwd F) = Some Directory
     \<and> (\<forall>p \<in> set (map fst (fs_nodes F)). p \<noteq> [] \<and> node_at F (butlast p) = Some Directory)"

definition put_node :: "fs \<Rightarrow> string list \<Rightarrow> fs_node \<Rightarrow> fs" where
  "put_node F p n = F\<lparr>fs_nodes := AList.update p n (fs_nodes F)\<rparr>"

definition drop_node :: "fs \<Rightarrow> string list \<Rightarrow> fs" where
  "drop_node F p = F\<lparr>fs_nodes := AList.delete p (fs_nodes F)\<rparr>"

lemma node_at_root [simp]: "node_at F [] = Some Directory"
  by (simp add: node_at_def)

lemma node_at_put [simp]: "p \<noteq> [] \<Longrightarrow> node_at (put_node F p n) q = (if q = p then Some n else node_at F q)"
  by (simp add: node_at_def put_node_def update_conv')

lemma node_at_drop [simp]: "p \<noteq> [] \<Longrightarrow> node_at (drop_node F p) q = (if q = p then None else node_at F q)"
  by (simp add: node_at_def drop_node_def delete_conv')

lemma fs_cwd_put_drop [simp]: "fs_cwd (put_node F p n) = fs_cwd F" "fs_cwd (drop_node F p) = fs_cwd F"
  by (simp_all add: put_node_def drop_node_def)

section \<open>System calls\<close>

text \<open>\<open>stat\<close> succeeds, and says whether the entry is a directory.\<close>

definition file_exists :: "fs \<Rightarrow> string \<Rightarrow> bool" where
  "file_exists F path = (node_of F path \<noteq> None)"

definition is_directory :: "fs \<Rightarrow> string \<Rightarrow> bool" where
  "is_directory F path = (node_of F path = Some Directory)"

text \<open>\<open>fopen\<close> for writing creates or truncates a file; it fails on directories and without a parent.\<close>

definition fopen_write :: "fs \<Rightarrow> string \<Rightarrow> (string list \<times> fs) option" where
  "fopen_write F path =
     (case resolve F path of
        None \<Rightarrow> None
      | Some p \<Rightarrow> if node_at F p = Some Directory then None else Some (p, put_node F p (RegularFile [])))"

definition mkdir :: "fs \<Rightarrow> string \<Rightarrow> fs" where
  "mkdir F path =
     (case resolve F path of
        None \<Rightarrow> F
      | Some p \<Rightarrow> if node_at F p = None then put_node F p Directory else F)"

text \<open>\<^verbatim>\<open>mkdir(...) != 0 && errno != EEXIST\<close>: the parent is missing.\<close>

definition mkdir_fails :: "fs \<Rightarrow> string \<Rightarrow> bool" where
  "mkdir_fails F path = (resolve F path = None)"

definition unlink :: "fs \<Rightarrow> string \<Rightarrow> fs option" where
  "unlink F path =
     (case resolve F path of
        None \<Rightarrow> None
      | Some p \<Rightarrow> (case node_at F p of Some (RegularFile _) \<Rightarrow> Some (drop_node F p) | _ \<Rightarrow> None))"

fun is_regular_node :: "fs_node option \<Rightarrow> bool" where
  "is_regular_node (Some (RegularFile s)) = True"
| "is_regular_node _ = False"

definition is_regular :: "fs \<Rightarrow> string \<Rightarrow> bool" where
  "is_regular F path = is_regular_node (node_of F path)"

text \<open>
  \<open>rename\<close> replaces an existing file.  Moving a directory moves everything below it; a
  directory in use as the current one is busy.
\<close>

definition move_path :: "string list \<Rightarrow> string list \<Rightarrow> string list \<Rightarrow> string list" where
  "move_path p q r = (if prefix p r then q @ drop (length p) r else r)"

definition is_empty_dir :: "fs \<Rightarrow> string list \<Rightarrow> bool" where
  "is_empty_dir F p = (\<forall>q \<in> set (map fst (fs_nodes F)). \<not> strict_prefix p q)"

definition rename_file :: "fs \<Rightarrow> string \<Rightarrow> string \<Rightarrow> fs option" where
  "rename_file F old new =
     (case (resolve F old, resolve F new) of
        (Some p, Some q) \<Rightarrow>
          (case node_at F p of
             None \<Rightarrow> None
           | Some (RegularFile s) \<Rightarrow>
               if node_at F q = Some Directory then None
               else if p = q then Some F
               else Some (put_node (drop_node F p) q (RegularFile s))
           | Some Directory \<Rightarrow>
               if p = q then Some F
               else if prefix p q \<or> p = [] \<or> is_regular_node (node_at F q)
                  \<or> (node_at F q = Some Directory \<and> \<not> is_empty_dir F q) \<or> prefix p (fs_cwd F)
                  \<or> prefix q (fs_cwd F)
               then None
               else Some (F\<lparr>fs_nodes := map (\<lambda>(r, n). (move_path p q r, n)) (fs_nodes (drop_node F q))\<rparr>))
      | _ \<Rightarrow> None)"

definition readdir_entries :: "fs \<Rightarrow> string \<Rightarrow> string list option" where
  "readdir_entries F path =
     (case resolve F path of
        None \<Rightarrow> None
      | Some p \<Rightarrow> if node_at F p = Some Directory
                  then Some (''.'' # ''..'' # map last (filter (\<lambda>q. q \<noteq> [] \<and> butlast q = p) (map fst (fs_nodes F))))
                  else None)"

section \<open>File utilities\<close>

text \<open>The buffer that is read is used as a C string by every caller.\<close>

definition read_file_content :: "fs \<Rightarrow> string \<Rightarrow> string option" where
  "read_file_content F path =
     (case node_of F path of Some (RegularFile s) \<Rightarrow> Some (c_string s) | _ \<Rightarrow> None)"

text \<open>
  The functions that write a file give the file systems after each of their system calls, for
  the question what a crash in between leaves behind; the last one is the result.  The content
  reaches the file in pieces of any size: every part of it may be there for a while.
\<close>

definition write_file_run :: "fs \<Rightarrow> string \<Rightarrow> string \<Rightarrow> int \<times> fs list" where
  "write_file_run F path content =
     (case fopen_write F path of
        None \<Rightarrow> (- 1, [F])
      | Some (p, F') \<Rightarrow>
          (let s = c_string content
           in (0, map (\<lambda>k. put_node F' p (RegularFile (take k s))) [0..<Suc (length s)])))"

definition write_file_content :: "fs \<Rightarrow> string \<Rightarrow> string \<Rightarrow> int \<times> fs" where
  "write_file_content F path content = (case write_file_run F path content of (r, Fs) \<Rightarrow> (r, last Fs))"

definition temp_name :: "string \<Rightarrow> string" where
  "temp_name path = take (MAX_FILENAME_LEN + 10 - 1) (path @ ''.tmp'')"

definition atomic_write_run :: "fs \<Rightarrow> string \<Rightarrow> string \<Rightarrow> int \<times> fs list" where
  "atomic_write_run F path content =
     (case write_file_run F (temp_name path) content of
        (r, Fs) \<Rightarrow>
          if r \<noteq> 0 then (- 1, Fs)
          else (case rename_file (last Fs) (temp_name path) path of
                  Some G \<Rightarrow> (0, Fs @ [G])
                | None \<Rightarrow> (- 1, Fs @ (case unlink (last Fs) (temp_name path) of Some G \<Rightarrow> [G] | None \<Rightarrow> []))))"

definition atomic_write_file :: "fs \<Rightarrow> string \<Rightarrow> string \<Rightarrow> int \<times> fs" where
  "atomic_write_file F path content = (case atomic_write_run F path content of (r, Fs) \<Rightarrow> (r, last Fs))"

text \<open>Their results.\<close>

lemma write_file_content_eq [code]:
  "write_file_content F path content =
     (case fopen_write F path of
        None \<Rightarrow> (- 1, F)
      | Some (p, F') \<Rightarrow> (0, put_node F' p (RegularFile (c_string content))))"
  by (simp add: write_file_content_def write_file_run_def Let_def split: option.split)

lemma atomic_write_file_eq [code]:
  "atomic_write_file F path content =
     (case write_file_content F (temp_name path) content of
        (r, F1) \<Rightarrow>
          if r \<noteq> 0 then (- 1, F1)
          else (case rename_file F1 (temp_name path) path of
                  Some F2 \<Rightarrow> (0, F2)
                | None \<Rightarrow> (- 1, case unlink F1 (temp_name path) of Some F2 \<Rightarrow> F2 | None \<Rightarrow> F1)))"
  by (simp add: atomic_write_file_def atomic_write_run_def write_file_content_def split: prod.split option.split)

section \<open>Directory helpers of the storage server\<close>

text \<open>The prefixes that \<open>mkdir_p\<close> creates, in order, and the calls, up to the first that fails.\<close>

definition mkdir_prefixes :: "string \<Rightarrow> string list" where
  "mkdir_prefixes path =
     map (\<lambda>i. take i path) (filter (\<lambda>i. path ! i = CHR ''/'') [1..<length path]) @ [path]"

fun mkdir_all :: "fs \<Rightarrow> string list \<Rightarrow> int \<times> fs" where
  "mkdir_all F [] = (0, F)"
| "mkdir_all F (p # ps) = (if mkdir_fails F p then (- 1, F) else mkdir_all (mkdir F p) ps)"

definition mkdir_p :: "fs \<Rightarrow> string \<Rightarrow> int \<times> fs" where
  "mkdir_p F path =
     (if path = [] \<or> 1024 \<le> length path then (- 1, F)
      else mkdir_all F (mkdir_prefixes (if last path = CHR ''/'' then butlast path else path)))"

text \<open>\<^verbatim>\<open>strrchr(s, '/')\<close>, and the text before that slash.\<close>

definition dir_part :: "string \<Rightarrow> string option" where
  "dir_part s = (if CHR ''/'' \<in> set s
                 then Some (butlast (rev (dropWhile (\<lambda>c. c \<noteq> CHR ''/'') (rev s)))) else None)"

definition backup_root :: string where
  "backup_root = ''data/ss_storage/backup''"

definition update_backup_for_file :: "fs \<Rightarrow> string \<Rightarrow> string \<Rightarrow> fs" where
  "update_backup_for_file F filename content =
     (let F3 = mkdir (mkdir (mkdir F ''data'') ''data/ss_storage'') backup_root;
          backup_path = take 1023 (backup_root @ CHR ''/'' # filename);
          F4 = (case dir_part backup_path of Some d \<Rightarrow> snd (mkdir_p F3 d) | None \<Rightarrow> F3)
      in snd (atomic_write_file F4 backup_path content))"

definition get_filepath :: "string \<Rightarrow> string \<Rightarrow> string" where
  "get_filepath storage_dir filename = take 511 (storage_dir @ CHR ''/'' # filename)"

text \<open>The first folder of the storage directory that holds the file.\<close>

fun search_folders :: "fs \<Rightarrow> string \<Rightarrow> string \<Rightarrow> string list \<Rightarrow> string option" where
  "search_folders F storage_dir filename [] = None"
| "search_folders F storage_dir filename (d_name # ents) =
     (if d_name \<noteq> [] \<and> hd d_name = CHR ''.'' then search_folders F storage_dir filename ents
      else (let subpath = take 599 (storage_dir @ CHR ''/'' # d_name) in
        if \<not> is_directory F subpath then search_folders F storage_dir filename ents
        else (let inner = take 699 (subpath @ CHR ''/'' # filename) in
          if file_exists F inner then Some inner
          else search_folders F storage_dir filename ents)))"

definition resolve_existing_file_path :: "fs \<Rightarrow> string \<Rightarrow> string \<Rightarrow> nat \<Rightarrow> string option" where
  "resolve_existing_file_path F storage_dir filename out_sz =
     (let candidate = take 599 (storage_dir @ CHR ''/'' # filename) in
      if file_exists F candidate then Some (strncpy_buf out_sz candidate)
      else (case readdir_entries F storage_dir of
              None \<Rightarrow> None
            | Some ents \<Rightarrow> map_option (strncpy_buf out_sz) (search_folders F storage_dir filename ents)))"

definition build_checkpoint_dir_for_file :: "fs \<Rightarrow> string \<Rightarrow> string \<Rightarrow> nat \<Rightarrow> string" where
  "build_checkpoint_dir_for_file F storage_dir filename out_sz =
     (case resolve_existing_file_path F storage_dir filename 700 of
        Some fpath \<Rightarrow>
          (let parent = (case dir_part (strncpy_buf 700 fpath) of Some d \<Rightarrow> d | None \<Rightarrow> strncpy_buf 700 fpath)
           in take (out_sz - 1) (parent @ ''/checkpoints/'' @ filename))
      | None \<Rightarrow> take (out_sz - 1) (storage_dir @ ''/checkpoints/'' @ filename))"

section \<open>Path resolution\<close>

lemma strtok_cases:
  obtains (no_token) "set a \<subseteq> ds"
  | (token) p w s where "a = p @ w @ s" "set p \<subseteq> ds" "w \<noteq> []" "set w \<inter> ds = {}" "s = [] \<or> hd s \<in> ds"
proof (cases "set a \<subseteq> ds")
  case False
  let ?r = "dropWhile (\<lambda>c. c \<in> ds) a"
  have r: "?r \<noteq> []" using False by (auto simp: dropWhile_eq_Nil_conv)
  show thesis
  proof (rule token)
    show "a = takeWhile (\<lambda>c. c \<in> ds) a @ takeWhile (\<lambda>c. c \<notin> ds) ?r @ dropWhile (\<lambda>c. c \<notin> ds) ?r"
      by simp
    show "takeWhile (\<lambda>c. c \<notin> ds) ?r \<noteq> []"
      using r hd_dropWhile [of "\<lambda>c. c \<in> ds" a] by (simp add: takeWhile_eq_Nil_iff)
    show "dropWhile (\<lambda>c. c \<notin> ds) ?r = [] \<or> hd (dropWhile (\<lambda>c. c \<notin> ds) ?r) \<in> ds"
      using hd_dropWhile [of "\<lambda>c. c \<notin> ds"] by blast
  qed (auto dest: set_takeWhileD)
qed (rule no_token)

lemma strtok_split: "d \<in> ds \<Longrightarrow> strtok ds (a @ d # b) = strtok ds a @ strtok ds b"
proof (induction a rule: measure_induct_rule [where f = length])
  case (less a)
  show ?case
  proof (cases a ds rule: strtok_cases)
    case no_token
    then show ?thesis using less.prems by (simp add: strtok_none strtok_skip_all strtok_skip)
  next
    case (token p w s)
    have "strtok ds (s @ d # b) = strtok ds s @ strtok ds b"
      using token by (intro less.IH less.prems) auto
    moreover have "strtok ds (w @ (s @ d # b)) = w # strtok ds (s @ d # b)"
      using token less.prems by (intro strtok_token) (auto simp: hd_append)
    ultimately show ?thesis using token by (simp add: strtok_skip_all strtok_token)
  qed
qed

lemma path_walk_append:
  "path_walk F cur (cs @ ds) = Option.bind (path_walk F cur cs) (\<lambda>p. path_walk F p ds)"
  by (induction F cur cs rule: path_walk.induct) auto

text \<open>A name that a directory can list: one component, and not one of the two special ones.\<close>

definition plain_name :: "string \<Rightarrow> bool" where
  "plain_name c \<longleftrightarrow> c \<noteq> [] \<and> CHR ''/'' \<notin> set c \<and> c \<noteq> ''.'' \<and> c \<noteq> ''..''"

lemma resolve_slash:
  assumes "d \<noteq> []" "plain_name c"
  shows "resolve F (d @ CHR ''/'' # c)
       = (case resolve F d of
            Some p \<Rightarrow> if node_at F p = Some Directory then Some (p @ [c]) else None | None \<Rightarrow> None)"
proof -
  have "strtok {CHR ''/''} c = [c]"
    using assms(2) strtok_token [of c "{CHR ''/''}" "[]"] by (simp add: plain_name_def)
  then have "strtok {CHR ''/''} (d @ CHR ''/'' # c) = strtok {CHR ''/''} d @ [c]"
    by (simp add: strtok_split)
  with assms show ?thesis
    by (simp add: resolve_def path_walk_append plain_name_def hd_append split: bind_splits option.splits)
qed

text \<open>Only directories matter for resolution.\<close>

definition same_dirs :: "fs \<Rightarrow> fs \<Rightarrow> bool" where
  "same_dirs F G \<longleftrightarrow> fs_cwd F = fs_cwd G
     \<and> (\<forall>p. (node_at F p = Some Directory) = (node_at G p = Some Directory))"

lemma path_walk_same_dirs: "same_dirs F G \<Longrightarrow> path_walk F cur cs = path_walk G cur cs"
  by (induction F cur cs rule: path_walk.induct) (simp_all add: same_dirs_def)

lemma resolve_same_dirs: "same_dirs F G \<Longrightarrow> resolve F path = resolve G path"
  by (simp add: resolve_def path_walk_same_dirs) (simp add: same_dirs_def)

lemma path_walk_parent:
  assumes "fs_ok F" "node_at F cur = Some Directory \<or> cs = []" "path_walk F cur cs = Some p" "cs \<noteq> []"
  shows "node_at F (butlast p) = Some Directory"
  using assms
proof (induction F cur cs rule: path_walk.induct)
  case (2 F cur c cs)
  have dir: "node_at F cur = Some Directory" using 2 by (auto split: if_splits)
  have up: "node_at F (butlast cur) = Some Directory"
    using dir "2.prems"(1) by (cases "cur = []") (auto simp: node_at_def fs_ok_def dest!: map_of_SomeD)
  show ?case
  proof (cases "cs = []")
    case True
    with 2 dir up show ?thesis
      by (auto split: if_splits) (metis "2.prems"(1) fs_ok_def node_at_def butlast.simps(1) imageI map_of_SomeD fst_conv set_map)
  next
    case False
    then obtain c' cs' where cs: "cs = c' # cs'" by (cases cs) auto
    let ?n = "if c = ''.'' then cur else if c = ''..'' then butlast cur else cur @ [c]"
    have "path_walk F ?n cs = Some p" using "2.prems" dir by simp
    moreover from this cs have "node_at F ?n = Some Directory" by (simp split: if_split_asm)
    ultimately show ?thesis using "2.IH" dir "2.prems"(1) False by auto
  qed
qed simp

lemma resolve_parent:
  assumes "fs_ok F" "resolve F path = Some p"
  shows "node_at F (butlast p) = Some Directory"
proof (cases "strtok {CHR ''/''} path = []")
  case True
  have "set path \<subseteq> {CHR ''/''}" using True by (simp add: strtok_eq_Nil)
  moreover have "path \<noteq> []" using assms(2) by (auto simp: resolve_def)
  ultimately have "hd path = CHR ''/''" using hd_in_set by blast
  with True assms(2) \<open>path \<noteq> []\<close> show ?thesis by (simp add: resolve_def)
next
  case False
  with assms show ?thesis
    by (cases "hd path = CHR ''/''")
      (auto simp: resolve_def fs_ok_def split: if_splits
        intro: path_walk_parent [OF assms(1), of "[]"] path_walk_parent [OF assms(1), of "fs_cwd F"])
qed

section \<open>The tree stays well formed\<close>

lemma node_at_keys: "p \<noteq> [] \<Longrightarrow> (node_at F p \<noteq> None) = (p \<in> fst ` set (fs_nodes F))"
  by (simp add: node_at_def map_of_eq_None_iff)

lemma ball_not_Nil: "(\<forall>p \<in> S. p \<noteq> [] \<and> X p) = ([] \<notin> S \<and> (\<forall>p. p \<noteq> [] \<and> p \<in> S \<longrightarrow> X p))"
  by metis

lemma fs_ok_iff:
  "fs_ok F \<longleftrightarrow> distinct (map fst (fs_nodes F)) \<and> [] \<notin> fst ` set (fs_nodes F)
     \<and> node_at F (fs_cwd F) = Some Directory
     \<and> (\<forall>p. node_at F p \<noteq> None \<longrightarrow> node_at F (butlast p) = Some Directory)"
proof -
  have A: "(\<forall>p. node_at F p \<noteq> None \<longrightarrow> node_at F (butlast p) = Some Directory)
      = (\<forall>p. p \<noteq> [] \<and> p \<in> fst ` set (fs_nodes F) \<longrightarrow> node_at F (butlast p) = Some Directory)"
  proof (intro arg_cong [where f = All] ext)
    fix p
    show "(node_at F p \<noteq> None \<longrightarrow> node_at F (butlast p) = Some Directory)
        = (p \<noteq> [] \<and> p \<in> fst ` set (fs_nodes F) \<longrightarrow> node_at F (butlast p) = Some Directory)"
      using node_at_keys [of p F] by (cases "p = []") simp_all
  qed
  show ?thesis unfolding fs_ok_def set_map ball_not_Nil A by (simp only: conj_ac)
qed

lemma fs_ok_parent: "fs_ok F \<Longrightarrow> node_at F p \<noteq> None \<Longrightarrow> node_at F (butlast p) = Some Directory"
  by (simp add: fs_ok_iff)

lemma fs_ok_put:
  assumes "fs_ok F" "p \<noteq> []" "node_at F (butlast p) = Some Directory"
    "node_at F p = Some Directory \<longrightarrow> n = Directory"
  shows "fs_ok (put_node F p n)"
proof -
  have "distinct (map fst (AList.update p n (fs_nodes F)))"
    using assms(1) by (intro distinct_update) (simp add: fs_ok_def)
  moreover have "node_at (put_node F p n) q \<noteq> None \<Longrightarrow>
      node_at (put_node F p n) (butlast q) = Some Directory" for q
    using assms fs_ok_parent [OF assms(1), of q] by (cases "q = p") auto
  moreover have "node_at (put_node F p n) (fs_cwd F) = Some Directory"
    using assms by (auto simp: fs_ok_def)
  ultimately show ?thesis
    using assms(1,2) by (simp add: fs_ok_iff) (simp add: put_node_def dom_update)
qed

lemma fs_ok_drop:
  assumes "fs_ok F" "p \<noteq> []" "node_at F p \<noteq> Some Directory"
  shows "fs_ok (drop_node F p)"
proof -
  have "distinct (map fst (AList.delete p (fs_nodes F)))"
    using assms(1) by (intro distinct_delete) (simp add: fs_ok_def)
  moreover have "node_at (drop_node F p) q \<noteq> None \<Longrightarrow>
      node_at (drop_node F p) (butlast q) = Some Directory" for q
    using assms fs_ok_parent [OF assms(1), of q] by (auto split: if_splits)
  moreover have "node_at (drop_node F p) (fs_cwd F) = Some Directory"
    using assms by (auto simp: fs_ok_def)
  moreover have "[] \<notin> fst ` set (AList.delete p (fs_nodes F))"
    using assms(1) dom_delete_subset [of p "fs_nodes F"] by (auto simp: fs_ok_iff)
  ultimately show ?thesis
    using assms(1,2) by (simp add: fs_ok_iff) (simp add: drop_node_def)
qed

lemma resolve_ne: "resolve F path = Some p \<Longrightarrow> node_at F p \<noteq> Some Directory \<Longrightarrow> p \<noteq> []"
  by auto

lemma fs_ok_mkdir: "fs_ok F \<Longrightarrow> fs_ok (mkdir F path)"
  by (auto simp: mkdir_def split: option.splits intro!: fs_ok_put resolve_parent resolve_ne)

lemma fs_ok_unlink: "fs_ok F \<Longrightarrow> unlink F path = Some G \<Longrightarrow> fs_ok G"
  by (auto simp: unlink_def split: option.splits fs_node.splits intro!: fs_ok_drop resolve_ne)

lemma fs_ok_fopen: 
  assumes "fs_ok F" "fopen_write F path = Some (p, G)"
  shows "fs_ok G" "p \<noteq> []" "node_at G (butlast p) = Some Directory" "node_at G p = Some (RegularFile [])"
    "node_at F p \<noteq> Some Directory"
proof -
  from assms(2) have p: "resolve F path = Some p" "node_at F p \<noteq> Some Directory"
    and G: "G = put_node F p (RegularFile [])"
    by (auto simp: fopen_write_def split: option.splits if_splits)
  from p have ne: "p \<noteq> []" by (rule resolve_ne)
  from p(1) have par: "node_at F (butlast p) = Some Directory" by (rule resolve_parent [OF assms(1)])
  show "fs_ok G" unfolding G using assms(1) ne par p(2) by (intro fs_ok_put) auto
  show "p \<noteq> []" by (rule ne)
  show "node_at G (butlast p) = Some Directory" using ne par p(2) by (auto simp: G)
  show "node_at G p = Some (RegularFile [])" using ne by (simp add: G)
  show "node_at F p \<noteq> Some Directory" by (rule p(2))
qed

lemma fs_ok_write: "fs_ok F \<Longrightarrow> fs_ok (snd (write_file_content F path s))"
  using fs_ok_fopen [of F path]
  by (auto simp: write_file_content_eq split: option.splits intro!: fs_ok_put)

lemma fs_ok_prefix:
  assumes "fs_ok F" "node_at F (p @ r) \<noteq> None" "r \<noteq> []"
  shows "node_at F p = Some Directory"
  using assms(2,3)
proof (induction r rule: rev_induct)
  case (snoc c r)
  then have "node_at F (p @ r) = Some Directory"
    using fs_ok_parent [OF assms(1), of "p @ r @ [c]"] by (simp add: butlast_append)
  with snoc.IH show ?case by (cases "r = []") auto
qed simp

lemma map_of_map_inj_on:
  "inj_on f (fst ` set l \<union> {k}) \<Longrightarrow> map_of (map (\<lambda>(k, v). (f k, v)) l) (f k) = map_of l k"
  by (induction l) (auto simp: inj_on_def)

lemma rename_dir_ok:
  assumes F: "fs_ok F" and p: "node_at F p = Some Directory" "p \<noteq> []" and q: "node_at F (butlast q) = Some Directory"
    and nq: "node_at F q = None \<or> node_at F q = Some Directory \<and> is_empty_dir F q"
    and sep: "\<not> prefix p q" "\<not> prefix p (fs_cwd F)" "\<not> prefix q (fs_cwd F)"
  shows "fs_ok (F\<lparr>fs_nodes := map (\<lambda>(r, n). (move_path p q r, n)) (fs_nodes (drop_node F q))\<rparr>)" (is "fs_ok ?G")
proof -
  let ?D = "fs_nodes (drop_node F q)" and ?m = "move_path p q"
  have D: "set ?D = {e \<in> set (fs_nodes F). fst e \<noteq> q}"
    by (auto simp: drop_node_def AList.delete_eq)
  have below: "\<not> prefix q k" if "node_at F k \<noteq> None" "k \<noteq> q" "k \<noteq> []" for k
  proof
    assume "prefix q k"
    then obtain r where r: "k = q @ r" "r \<noteq> []" using \<open>k \<noteq> q\<close> by (auto elim: prefixE)
    then have "node_at F q = Some Directory" using \<open>node_at F k \<noteq> None\<close> fs_ok_prefix [OF F] by blast
    with nq have "is_empty_dir F q" by simp
    moreover have "k \<in> fst ` set (fs_nodes F)" using \<open>node_at F k \<noteq> None\<close> \<open>k \<noteq> []\<close> node_at_keys by blast
    ultimately show False using r unfolding is_empty_dir_def by (fastforce simp: strict_prefix_def)
  qed
  have q0: "q \<noteq> []"
  proof
    assume "q = []"
    with sep(3) show False by simp
  qed
  have inj: "inj_on ?m {k. node_at F k \<noteq> None \<and> k \<noteq> q}"
  proof (rule inj_onI)
    fix k l assume kl: "k \<in> {k. node_at F k \<noteq> None \<and> k \<noteq> q}" "l \<in> {k. node_at F k \<noteq> None \<and> k \<noteq> q}" "?m k = ?m l"
    then have "\<not> prefix q k" "\<not> prefix q l"
      using below [of k] below [of l] q0 by (cases "k = []"; cases "l = []"; auto)+
    with kl(3) show "k = l" by (auto simp: move_path_def prefix_def split: if_splits)
  qed
  have keys: "fst ` set ?D \<subseteq> {k. node_at F k \<noteq> None \<and> k \<noteq> q}"
  proof
    fix k assume "k \<in> fst ` set ?D"
    then have "k \<in> fst ` set (fs_nodes F)" "k \<noteq> q" using D by auto
    then show "k \<in> {k. node_at F k \<noteq> None \<and> k \<noteq> q}"
      using F node_at_keys [of k F] by (cases "k = []") (simp_all add: fs_ok_iff)
  qed
  have m_ne: "?m k \<noteq> []" if "k \<noteq> []" for k using that q0 by (auto simp: move_path_def)
  have look: "node_at ?G (?m k) = node_at F k" if "node_at F k \<noteq> None" "k \<noteq> q" for k
  proof (cases "k = []")
    case True
    have "\<not> prefix p []" using p(2) by simp
    with True show ?thesis by (simp add: move_path_def node_at_def)
  next
    case False
    have "map_of (map (\<lambda>(r, n). (?m r, n)) ?D) (?m k) = map_of ?D k"
      using keys that by (intro map_of_map_inj_on inj_on_subset [OF inj]) simp
    also have "\<dots> = map_of (fs_nodes F) k" using that(2) by (simp add: drop_node_def delete_conv')
    finally show ?thesis using False m_ne [OF False] by (simp add: node_at_def)
  qed
  have keep: "?m k = k" if "\<not> prefix p k" for k using that by (simp add: move_path_def)
  have dist: "distinct (map fst (fs_nodes ?G))"
  proof -
    have "map fst (fs_nodes ?G) = map ?m (map fst ?D)" by (simp add: split_beta' comp_def)
    moreover have "distinct (map fst ?D)"
      using F by (auto simp: drop_node_def fs_ok_def intro: distinct_delete)
    ultimately show ?thesis using inj keys by (simp only: distinct_map [of ?m]) (auto intro: inj_on_subset)
  qed
  have par: "r \<noteq> [] \<and> node_at ?G (butlast r) = Some Directory" if r: "r \<in> set (map fst (fs_nodes ?G))" for r
  proof -
    from r obtain k where k: "k \<in> fst ` set ?D" "r = ?m k" by force
    then have k': "node_at F k \<noteq> None" "k \<noteq> q" using subsetD [OF keys k(1)] by simp_all
    have "k \<in> fst ` set (fs_nodes F)" using k(1) D by auto
    moreover have "[] \<notin> fst ` set (fs_nodes F)" using F by (simp add: fs_ok_iff)
    ultimately have k0: "k \<noteq> []" by metis
    have kp: "node_at F (butlast k) = Some Directory" by (rule fs_ok_parent [OF F k'(1)])
    show ?thesis
    proof (cases "prefix p k")
      case False
      have "butlast k \<noteq> q"
      proof
        assume "butlast k = q"
        then have "prefix q k" by (metis prefixeq_butlast)
        with below k' k0 show False by blast
      qed
      moreover have "\<not> prefix p (butlast k)" using False by (metis prefixeq_butlast prefix_order.trans)
      ultimately show ?thesis using look [of "butlast k"] kp k0 keep [OF False] keep k(2) by simp
    next
      case True
      then obtain s where s: "k = p @ s" by (auto elim: prefixE)
      show ?thesis
      proof (cases "s = []")
        case True
        have "\<not> prefix p (butlast q)" using sep(1) by (metis prefixeq_butlast prefix_order.trans)
        moreover have "butlast q \<noteq> q" using q0 by (metis append_butlast_last_id append_self_conv not_Cons_self2)
        moreover have "r = q" using True s k(2) by (simp add: move_path_def)
        ultimately show ?thesis using look [of "butlast q"] q q0 keep by simp
      next
        case False
        then have bl: "butlast k = p @ butlast s" "butlast r = q @ butlast s"
          using s k(2) by (simp_all add: butlast_append move_path_def)
        moreover have "p @ butlast s \<noteq> q" using sep(1) by auto
        ultimately show ?thesis using look [of "butlast k"] kp m_ne [OF k0] k(2)
          by (simp add: move_path_def)
      qed
    qed
  qed
  have "node_at ?G (fs_cwd F) = Some Directory"
    using look [of "fs_cwd F"] keep [OF sep(2)] F sep(3) by (cases "fs_cwd F = q") (auto simp: fs_ok_def)
  with dist par show ?thesis unfolding fs_ok_def by simp
qed

lemma fs_ok_rename:
  assumes "fs_ok F" "rename_file F old new = Some G"
  shows "fs_ok G"
proof -
  from assms(2) obtain p q where p: "resolve F old = Some p" and q: "resolve F new = Some q"
    by (auto simp: rename_file_def split: option.splits)
  have qp: "node_at F (butlast q) = Some Directory" by (rule resolve_parent [OF assms(1) q])
  have "node_at F p \<noteq> None" using assms(2) p q by (cases "node_at F p") (auto simp: rename_file_def)
  then obtain n where n: "node_at F p = Some n" by blast
  show ?thesis
  proof (cases n)
    case (RegularFile s)
    with n have p0: "p \<noteq> []" by auto
    show ?thesis
    proof (cases "p = q")
      case True
      with assms p q n RegularFile show ?thesis by (simp add: rename_file_def split: if_splits)
    next
      case False
      with assms(2) p q n RegularFile have G: "G = put_node (drop_node F p) q (RegularFile s)"
        and nq: "node_at F q \<noteq> Some Directory"
        by (simp_all add: rename_file_def split: if_splits)
      have "butlast q \<noteq> p" using qp n RegularFile by auto
      then show ?thesis unfolding G
        using assms(1) p0 n RegularFile qp nq
        by (intro fs_ok_put fs_ok_drop) (auto split: if_splits)
    qed
  next
    case Directory
    show ?thesis
    proof (cases "p = q")
      case True
      with assms p q n Directory show ?thesis by (simp add: rename_file_def)
    next
      case False
      have "node_at F q = None \<or> node_at F q = Some Directory \<and> is_empty_dir F q"
        using assms(2) p q n Directory False
        by (cases "node_at F q"; cases "the (node_at F q)") (auto simp: rename_file_def split: if_splits)
      with assms p q n Directory False qp show ?thesis
        by (auto simp: rename_file_def split: if_splits intro!: rename_dir_ok)
    qed
  qed
qed

end
