(* ===== verification/File_Updates.thy ===== *)
theory File_Updates
  imports File_System
begin

text \<open>
  What the file utilities change: \<open>atomic_write_file\<close>, \<open>mkdir_p\<close>, \<open>update_backup_for_file\<close> and
  \<open>resolve_existing_file_path\<close> keep the tree well formed; a write changes the file and its
  temporary file only; the backup copy changes nothing outside the backup directory; and a
  path that is found names the file it was searched for.
\<close>

section \<open>Directories are kept\<close>

definition keeps_dirs :: "fs \<Rightarrow> fs \<Rightarrow> bool" where
  "keeps_dirs F G \<longleftrightarrow> fs_cwd G = fs_cwd F
     \<and> (\<forall>p. node_at F p = Some Directory \<longrightarrow> node_at G p = Some Directory)"

lemma keeps_dirs_refl [simp]: "keeps_dirs F F"
  by (simp add: keeps_dirs_def)

lemma keeps_dirs_trans: "keeps_dirs F G \<Longrightarrow> keeps_dirs G H \<Longrightarrow> keeps_dirs F H"
  by (simp add: keeps_dirs_def)

lemma path_walk_keeps: "keeps_dirs F G \<Longrightarrow> path_walk F cur cs = Some p \<Longrightarrow> path_walk G cur cs = Some p"
  by (induction F cur cs rule: path_walk.induct) (auto simp: keeps_dirs_def split: if_splits)

lemma resolve_keeps: "keeps_dirs F G \<Longrightarrow> resolve F path = Some p \<Longrightarrow> resolve G path = Some p"
  using path_walk_keeps [of F G] by (auto simp: resolve_def keeps_dirs_def split: if_splits)

section \<open>Writing a file\<close>

lemma write_file_content_cases [consumes 1, case_names fails writes]:
  assumes "fs_ok F"
  obtains (fails) "write_file_content F path s = (- 1, F)" "\<And>p. resolve F path = Some p \<Longrightarrow> node_at F p = Some Directory"
  | (writes) p G where "resolve F path = Some p" "node_at F p \<noteq> Some Directory"
      "p \<noteq> []" "node_at F (butlast p) = Some Directory"
      "write_file_content F path s = (0, G)" "fs_ok G" "same_dirs F G"
      "\<And>q. node_at G q = (if q = p then Some (RegularFile (c_string s)) else node_at F q)"
proof (cases "fopen_write F path")
  case None
  then have "write_file_content F path s = (- 1, F)" "\<And>p. resolve F path = Some p \<Longrightarrow> node_at F p = Some Directory"
    by (auto simp: write_file_content_eq fopen_write_def split: option.splits if_splits)
  then show thesis by (rule fails)
next
  case (Some pG)
  then obtain p G where pG: "fopen_write F path = Some (p, G)" by (cases pG) auto
  note open_ok = fs_ok_fopen [OF assms pG]
  from pG have p: "resolve F path = Some p" and G: "G = put_node F p (RegularFile [])"
    by (auto simp: fopen_write_def split: option.splits if_splits)
  let ?H = "put_node G p (RegularFile (c_string s))"
  have look: "node_at ?H q = (if q = p then Some (RegularFile (c_string s)) else node_at F q)" for q
    using open_ok(2) by (simp add: G)
  show thesis
  proof (rule writes [OF p])
    show "write_file_content F path s = (0, ?H)" by (simp add: write_file_content_eq pG)
    show "fs_ok ?H" using open_ok by (intro fs_ok_put) auto
    show "same_dirs F ?H" using open_ok(5) look by (auto simp: same_dirs_def G)
    show "node_at F (butlast p) = Some Directory" by (rule resolve_parent [OF assms p])
  qed (use open_ok look in auto)
qed

text \<open>
  \<open>atomic_write_file\<close> in every case: directories stay, and only the file and the temporary
  file can change.
\<close>

lemma atomic_write_frame:
  assumes F: "fs_ok F"
  shows "fs_ok (snd (atomic_write_file F path s))"
    "same_dirs F (snd (atomic_write_file F path s))"
    "resolve F path \<noteq> Some q \<Longrightarrow> resolve F (temp_name path) \<noteq> Some q \<Longrightarrow>
     node_at (snd (atomic_write_file F path s)) q = node_at F q"
proof -
  let ?P = "\<lambda>G. fs_ok G \<and> same_dirs F G
    \<and> (resolve F path \<noteq> Some q \<longrightarrow> resolve F (temp_name path) \<noteq> Some q \<longrightarrow> node_at G q = node_at F q)"
  have "?P (snd (atomic_write_file F path s))"
    using F
  proof (cases rule: write_file_content_cases [of F "temp_name path" s])
    case fails
    with F show ?thesis by (simp add: atomic_write_file_eq same_dirs_def)
  next
    case (writes t G)
    have rt: "resolve G (temp_name path) = Some t" "resolve G path = resolve F path"
      using writes(1) by (simp_all flip: resolve_same_dirs [OF writes(7)])
    have nt: "node_at G t = Some (RegularFile (c_string s))" using writes(8) by simp
    have P: "?P G" using writes by auto
    show ?thesis
    proof (cases "rename_file G (temp_name path) path")
      case None
      have "unlink G (temp_name path) = Some (drop_node G t)" using rt nt by (simp add: unlink_def)
      moreover have "fs_ok (drop_node G t)" using writes nt by (intro fs_ok_drop) auto
      moreover have "node_at (drop_node G t) q = (if q = t then None else node_at F q)" for q
        using writes(3,8) by simp
      then have "same_dirs F (drop_node G t)" using writes(2,7) by (simp add: same_dirs_def)
      moreover have "resolve F (temp_name path) \<noteq> Some q \<Longrightarrow> node_at (drop_node G t) q = node_at F q"
        using writes(1,3,8) by auto
      ultimately show ?thesis using None writes(5) by (simp add: atomic_write_file_eq)
    next
      case (Some H)
      then have ok: "fs_ok H" using fs_ok_rename writes(6) by blast
      from Some obtain p where p: "resolve F path = Some p" "node_at G p \<noteq> Some Directory"
        and H: "H = (if t = p then G else put_node (drop_node G t) p (RegularFile (c_string s)))"
        using rt nt by (auto simp: rename_file_def split: option.splits if_splits)
      from p(2) have p0: "p \<noteq> []" by auto
      have look: "node_at H q = (if q = p then Some (RegularFile (c_string s)) else if q = t then None else node_at F q)" for q
        using writes(3,8) p0 by (simp add: H)
      have "node_at F p \<noteq> Some Directory" using p(2) writes(2,8) by (cases "p = t") auto
      then have "same_dirs F H"
        using writes(2,7) look by (auto simp: same_dirs_def H)
      moreover have "resolve F path \<noteq> Some q \<Longrightarrow> resolve F (temp_name path) \<noteq> Some q \<Longrightarrow> node_at H q = node_at F q"
        using writes(1) p(1) look by auto
      ultimately show ?thesis using Some ok writes(5) by (simp add: atomic_write_file_eq)
    qed
  qed
  then show "fs_ok (snd (atomic_write_file F path s))" "same_dirs F (snd (atomic_write_file F path s))"
    "resolve F path \<noteq> Some q \<Longrightarrow> resolve F (temp_name path) \<noteq> Some q \<Longrightarrow>
     node_at (snd (atomic_write_file F path s)) q = node_at F q" by blast+
qed

lemma temp_name_short: "length path \<le> 261 \<Longrightarrow> temp_name path = path @ ''.tmp''"
  by (simp add: temp_name_def limit_defs)

lemma plain_name_tmp: "plain_name f \<Longrightarrow> plain_name (f @ ''.tmp'')"
  by (auto simp: plain_name_def append_eq_Cons_conv)

text \<open>The place of a file: a directory that exists, a plain name, room for the suffix.\<close>

definition writable_at :: "fs \<Rightarrow> string \<Rightarrow> string \<Rightarrow> string list \<Rightarrow> bool" where
  "writable_at F d f D \<longleftrightarrow> d \<noteq> [] \<and> plain_name f \<and> length d + length f \<le> 260
     \<and> resolve F d = Some D \<and> node_at F D = Some Directory
     \<and> node_at F (D @ [f]) \<noteq> Some Directory \<and> node_at F (D @ [f @ ''.tmp'']) \<noteq> Some Directory"

lemma writable_resolve:
  assumes "writable_at F d f D"
  shows "resolve F (d @ CHR ''/'' # f) = Some (D @ [f])"
    "resolve F (temp_name (d @ CHR ''/'' # f)) = Some (D @ [f @ ''.tmp''])"
    "temp_name (d @ CHR ''/'' # f) = d @ CHR ''/'' # (f @ ''.tmp'')"
  using assms plain_name_tmp [of f]
  by (simp_all add: writable_at_def resolve_slash temp_name_short del: append_Cons)
     (simp_all add: resolve_slash)

lemma atomic_write_spec:
  assumes F: "fs_ok F" and w: "writable_at F d f D"
  shows "fst (atomic_write_file F (d @ CHR ''/'' # f) s) = 0"
    "node_at (snd (atomic_write_file F (d @ CHR ''/'' # f) s)) q
     = (if q = D @ [f] then Some (RegularFile (c_string s))
        else if q = D @ [f @ ''.tmp''] then None else node_at F q)"
proof -
  let ?p = "d @ CHR ''/'' # f"
  note res = writable_resolve [OF w]
  have "fst (atomic_write_file F ?p s) = 0 \<and> node_at (snd (atomic_write_file F ?p s)) q
     = (if q = D @ [f] then Some (RegularFile (c_string s))
        else if q = D @ [f @ ''.tmp''] then None else node_at F q)"
    using F
  proof (cases rule: write_file_content_cases [of F "temp_name ?p" s])
    case fails
    with res(2) w show ?thesis by (auto simp: writable_at_def)
  next
    case (writes t G)
    have t: "t = D @ [f @ ''.tmp'']" using writes(1) res(2) by simp
    have "resolve G (temp_name ?p) = Some t" "resolve G ?p = Some (D @ [f])"
      using writes(1) res(1) t by (simp_all flip: resolve_same_dirs [OF writes(7)])
    moreover have "node_at G (D @ [f]) \<noteq> Some Directory" using writes(8) w by (simp add: writable_at_def t)
    ultimately show ?thesis using writes(5,8)
      by (simp add: atomic_write_file_eq rename_file_def t)
  qed
  then show "fst (atomic_write_file F ?p s) = 0"
    "node_at (snd (atomic_write_file F ?p s)) q
     = (if q = D @ [f] then Some (RegularFile (c_string s))
        else if q = D @ [f @ ''.tmp''] then None else node_at F q)" by blast+
qed

text \<open>
  A crash at any point leaves the old or the new content: the target is only ever changed by
  the final \<open>rename\<close>.
\<close>

lemma atomic_write_run_target:
  assumes F: "fs_ok F" and w: "writable_at F d f D"
    and G: "G \<in> set (snd (atomic_write_run F (d @ CHR ''/'' # f) s))"
  shows "node_at G (D @ [f]) \<in> {node_at F (D @ [f]), Some (RegularFile (c_string s))}"
proof -
  let ?p = "d @ CHR ''/'' # f" and ?q = "D @ [f @ ''.tmp'']"
  note res = writable_resolve [OF w]
  have "fopen_write F (temp_name ?p) = Some (?q, put_node F ?q (RegularFile []))"
    using res(2) w by (simp add: fopen_write_def writable_at_def)
  then have run: "write_file_run F (temp_name ?p) s
      = (0, map (\<lambda>k. put_node (put_node F ?q (RegularFile [])) ?q (RegularFile (take k (c_string s)))) [0..<Suc (length (c_string s))])"
    (is "_ = (0, ?Fs)") by (simp add: write_file_run_def Let_def)
  have temp: "node_at H (D @ [f]) = node_at F (D @ [f])" if "H \<in> set ?Fs" for H using that by auto
  have ok: "fst (atomic_write_run F ?p s) = 0" and last: "snd (atomic_write_file F ?p s) = last (snd (atomic_write_run F ?p s))"
    using atomic_write_spec(1) [OF F w, of s] by (simp_all add: atomic_write_file_def split: prod.splits)
  have "G \<in> set ?Fs \<or> G = snd (atomic_write_file F ?p s)"
    using G ok by (auto simp: last atomic_write_run_def run split: option.splits)
  with temp atomic_write_spec(2) [OF F w, of s "D @ [f]"] show ?thesis by auto
qed

section \<open>Directories\<close>

lemma node_at_mkdir:
  "node_at (mkdir F path) q = (if resolve F path = Some q \<and> node_at F q = None then Some Directory else node_at F q)"
proof -
  have "node_at F p = None \<Longrightarrow> node_at (put_node F p Directory) q = (if q = p then Some Directory else node_at F q)" for p
    by (cases "p = []") simp_all
  then show ?thesis by (auto simp: mkdir_def split: option.splits)
qed

lemma keeps_dirs_mkdir: "keeps_dirs F (mkdir F path)"
  by (auto simp: keeps_dirs_def node_at_mkdir) (auto simp: mkdir_def split: option.splits)

lemma resolve_mkdir_mono: "resolve F path = Some q \<Longrightarrow> resolve (mkdir F p) path = Some q"
  by (rule resolve_keeps [OF keeps_dirs_mkdir])

text \<open>\<open>G\<close> is \<open>F\<close> with directories added, all of them at or below \<open>B\<close> or above it.\<close>

definition adds_dirs :: "string list \<Rightarrow> fs \<Rightarrow> fs \<Rightarrow> bool" where
  "adds_dirs B F G \<longleftrightarrow> fs_ok G \<and> fs_cwd G = fs_cwd F
     \<and> (\<forall>q. node_at G q = node_at F q
            \<or> node_at F q = None \<and> node_at G q = Some Directory \<and> (prefix B q \<or> prefix q B))"

lemma adds_dirs_refl: "fs_ok F \<Longrightarrow> adds_dirs B F F"
  by (simp add: adds_dirs_def)

lemma adds_dirs_trans: "adds_dirs B F G \<Longrightarrow> adds_dirs B G H \<Longrightarrow> adds_dirs B F H"
  unfolding adds_dirs_def by (metis option.distinct(1))

lemma adds_dirs_keeps: "adds_dirs B F G \<Longrightarrow> keeps_dirs F G"
  by (auto simp: adds_dirs_def keeps_dirs_def) (metis option.distinct(1))

lemma adds_dirs_mkdir:
  assumes "fs_ok F" "\<And>q. resolve F path = Some q \<Longrightarrow> prefix B q \<or> prefix q B"
  shows "adds_dirs B F (mkdir F path)"
  using assms fs_ok_mkdir [OF assms(1)] keeps_dirs_mkdir [of F path]
  by (auto simp: adds_dirs_def node_at_mkdir keeps_dirs_def)

lemma adds_dirs_mkdir_all:
  assumes "fs_ok F" "\<And>path G q. path \<in> set paths \<Longrightarrow> fs_cwd G = fs_cwd F \<Longrightarrow> resolve G path = Some q
      \<Longrightarrow> prefix B q \<or> prefix q B"
  shows "adds_dirs B F (snd (mkdir_all F paths))"
  using assms
proof (induction paths arbitrary: F)
  case (Cons p ps)
  show ?case
  proof (cases "mkdir_fails F p")
    case False
    have "adds_dirs B F (mkdir F p)" using Cons.prems by (intro adds_dirs_mkdir) auto
    moreover from this have "adds_dirs B (mkdir F p) (snd (mkdir_all (mkdir F p) ps))"
      using Cons.prems by (intro Cons.IH) (auto simp: adds_dirs_def)
    ultimately show ?thesis using False adds_dirs_trans by auto
  qed (use Cons.prems(1) in \<open>simp add: adds_dirs_refl\<close>)
qed (simp add: adds_dirs_refl)

section \<open>The backup copy\<close>

definition backup_dir :: "fs \<Rightarrow> string list" where
  "backup_dir F = fs_cwd F @ [''data'', ''ss_storage'', ''backup'']"

lemma resolve_one: "plain_name c \<Longrightarrow> resolve F c = (if node_at F (fs_cwd F) = Some Directory then Some (fs_cwd F @ [c]) else None)"
  using strtok_token [of c "{CHR ''/''}" "[]"]
  by (auto simp: plain_name_def resolve_def dest: list.set_sel(1))

lemma plain_names [simp]: "plain_name ''data''" "plain_name ''ss_storage''" "plain_name ''backup''" "plain_name ''checkpoints''"
  by (simp_all add: plain_name_def)

lemma data_paths:
  "''data/ss_storage'' = ''data'' @ CHR ''/'' # ''ss_storage''"
  "backup_root = (''data'' @ CHR ''/'' # ''ss_storage'') @ CHR ''/'' # ''backup''"
  by (simp_all add: backup_root_def)

lemma resolve_data:
  "resolve F ''data'' = Some q \<Longrightarrow> q = fs_cwd F @ [''data'']"
  "resolve F ''data/ss_storage'' = Some q \<Longrightarrow> q = fs_cwd F @ [''data'', ''ss_storage'']"
  "resolve F backup_root = Some q \<Longrightarrow> q = backup_dir F"
proof -
  show a: "resolve F ''data'' = Some q \<Longrightarrow> q = fs_cwd F @ [''data'']" for q
    by (simp add: resolve_one split: if_splits)
  show b: "resolve F ''data/ss_storage'' = Some q \<Longrightarrow> q = fs_cwd F @ [''data'', ''ss_storage'']" for q
    unfolding data_paths(1) by (subst (asm) resolve_slash) (auto dest!: a split: option.splits if_splits)
  show "q = backup_dir F" if r: "resolve F backup_root = Some q"
  proof -
    have "resolve F (''data/ss_storage'' @ CHR ''/'' # ''backup'') = Some q"
      using r by (simp add: backup_root_def)
    then show ?thesis using resolve_slash [of "''data/ss_storage''" "''backup''" F] b
      by (auto simp: backup_dir_def split: option.splits if_splits)
  qed
qed

lemma mkdir_prefixes_backup: "mkdir_prefixes backup_root = [''data'', ''data/ss_storage'', backup_root]"
  by code_simp

lemma dir_part_slash: "CHR ''/'' \<notin> set b \<Longrightarrow> dir_part (a @ CHR ''/'' # b) = Some a"
proof -
  assume "CHR ''/'' \<notin> set b"
  then have "dropWhile (\<lambda>c. c \<noteq> CHR ''/'') (rev b @ CHR ''/'' # rev a) = CHR ''/'' # rev a"
    by (subst dropWhile_append2) auto
  then show ?thesis by (simp add: dir_part_def)
qed

lemma mkdir_p_backup: "mkdir_p F backup_root = mkdir_all F [''data'', ''data/ss_storage'', backup_root]"
  using mkdir_prefixes_backup by (simp add: mkdir_p_def backup_root_def)

text \<open>Nothing outside the backup directory changes but the directories that lead to it.\<close>

lemma backup_frame:
  assumes F: "fs_ok F" and f: "plain_name f" "length f \<le> 238"
  shows "fs_ok (update_backup_for_file F f s)"
    "fs_cwd (update_backup_for_file F f s) = fs_cwd F"
    "keeps_dirs F (update_backup_for_file F f s)"
    "node_at F q \<noteq> None \<Longrightarrow> \<not> prefix (backup_dir F) q \<Longrightarrow> node_at (update_backup_for_file F f s) q = node_at F q"
    "\<not> prefix (backup_dir F) q \<Longrightarrow> \<not> prefix q (backup_dir F) \<Longrightarrow> node_at (update_backup_for_file F f s) q = node_at F q"
proof -
  let ?B = "backup_dir F" and ?p = "backup_root @ CHR ''/'' # f"
  define F3 where "F3 = mkdir (mkdir (mkdir F ''data'') ''data/ss_storage'') backup_root"
  define F4 where "F4 = snd (mkdir_p F3 backup_root)"
  have cwd: "fs_cwd (mkdir G path) = fs_cwd G" for G path
    using keeps_dirs_mkdir [of G path] by (simp add: keeps_dirs_def)
  have res: "prefix ?B q \<or> prefix q ?B" if "path \<in> {''data'', ''data/ss_storage'', backup_root}"
    "fs_cwd G = fs_cwd F" "resolve G path = Some q" for path G q
    using that resolve_data [of G q] by (auto simp: backup_dir_def)
  have mk: "adds_dirs ?B G (mkdir G path)"
    if "fs_ok G" "fs_cwd G = fs_cwd F" "path \<in> {''data'', ''data/ss_storage'', backup_root}" for G path
    using that(1) res [OF that(3,2)] by (rule adds_dirs_mkdir)
  have "adds_dirs ?B F (mkdir F ''data'')" using F by (intro mk) simp_all
  moreover from this have "adds_dirs ?B (mkdir F ''data'') (mkdir (mkdir F ''data'') ''data/ss_storage'')"
    by (intro mk) (simp_all add: adds_dirs_def cwd)
  moreover from this have F3: "adds_dirs ?B (mkdir (mkdir F ''data'') ''data/ss_storage'') F3"
    unfolding F3_def by (intro mk) (simp_all add: adds_dirs_def cwd)
  moreover have "adds_dirs ?B F3 F4"
    unfolding F4_def mkdir_p_backup
  proof (rule adds_dirs_mkdir_all)
    show "fs_ok F3" using F3 by (simp add: adds_dirs_def)
    fix path G q
    assume "path \<in> set [''data'', ''data/ss_storage'', backup_root]" "fs_cwd G = fs_cwd F3" "resolve G path = Some q"
    then show "prefix ?B q \<or> prefix q ?B" using res [of path G q] by (simp add: F3_def cwd)
  qed
  ultimately have F4: "adds_dirs ?B F F4" using adds_dirs_trans by blast
  then have ok4: "fs_ok F4" and cwd4: "fs_cwd F4 = fs_cwd F" by (auto simp: adds_dirs_def)
  have p: "take 1023 ?p = ?p" "dir_part ?p = Some backup_root"
    using f by (simp add: backup_root_def) (simp add: f(1) [unfolded plain_name_def] dir_part_slash)
  then have up: "update_backup_for_file F f s = snd (atomic_write_file F4 ?p s)"
    by (simp add: update_backup_for_file_def Let_def F3_def F4_def)
  have tmp: "temp_name ?p = backup_root @ CHR ''/'' # (f @ ''.tmp'')"
    using f(2) by (simp add: temp_name_short backup_root_def)
  have inB: "prefix ?B q" if "resolve F4 ?p = Some q \<or> resolve F4 (temp_name ?p) = Some q" for q
  proof -
    from that obtain c where "resolve F4 (backup_root @ CHR ''/'' # c) = Some q" "plain_name c"
      using f(1) plain_name_tmp [OF f(1)] unfolding tmp by blast
    moreover have "backup_root \<noteq> []" by (simp add: backup_root_def)
    ultimately show ?thesis using cwd4 resolve_data(3) [of F4]
      by (auto simp: resolve_slash backup_dir_def split: option.splits if_splits)
  qed
  note fr = atomic_write_frame [OF ok4, where path = ?p and s = s]
  show "fs_ok (update_backup_for_file F f s)" unfolding up by (rule fr(1))
  show cwd5: "fs_cwd (update_backup_for_file F f s) = fs_cwd F"
    unfolding up using fr(2) cwd4 by (simp add: same_dirs_def)
  show "keeps_dirs F (update_backup_for_file F f s)"
    using adds_dirs_keeps [OF F4] fr(2) unfolding up keeps_dirs_def same_dirs_def by auto
  show "node_at (update_backup_for_file F f s) q = node_at F q"
    if "node_at F q \<noteq> None" "\<not> prefix ?B q"
  proof -
    have "node_at (update_backup_for_file F f s) q = node_at F4 q"
      unfolding up using inB that(2) by (intro fr(3)) auto
    also have "\<dots> = node_at F q" using F4 that(1) by (auto simp: adds_dirs_def)
    finally show ?thesis .
  qed
  show "node_at (update_backup_for_file F f s) q = node_at F q"
    if "\<not> prefix ?B q" "\<not> prefix q ?B"
  proof -
    have "node_at (update_backup_for_file F f s) q = node_at F4 q"
      unfolding up using inB that(1) by (intro fr(3)) auto
    also have "\<dots> = node_at F q" using F4 that by (auto simp: adds_dirs_def)
    finally show ?thesis .
  qed
qed

text \<open>No temporary file lies on the way to the backup directory.\<close>

lemma tmp_not_above_backup:
  assumes "fs_ok F" "node_at F (D @ [f @ ''.tmp'']) \<noteq> Some Directory"
  shows "\<not> prefix (D @ [f @ ''.tmp'']) (backup_dir F)"
proof
  let ?q = "D @ [f @ ''.tmp'']"
  assume "prefix ?q (backup_dir F)"
  then have "prefix ?q (fs_cwd F) \<or> (\<exists>us. ?q = fs_cwd F @ us \<and> prefix us [''data'', ''ss_storage'', ''backup''])"
    unfolding backup_dir_def prefix_append .
  moreover have "\<not> prefix ?q (fs_cwd F)"
  proof
    assume "prefix ?q (fs_cwd F)"
    then obtain r where r: "fs_cwd F = ?q @ r" by (auto elim: prefixE)
    have dir: "node_at F (?q @ r) = Some Directory" using assms(1) r by (simp add: fs_ok_def)
    then have "node_at F ?q = Some Directory"
      using fs_ok_prefix [OF assms(1), of ?q r] by (cases "r = []") simp_all
    with assms(2) show False by simp
  qed
  ultimately obtain us where us: "?q = fs_cwd F @ us" "prefix us [''data'', ''ss_storage'', ''backup'']" by blast
  with \<open>\<not> prefix ?q (fs_cwd F)\<close> have "us \<noteq> []" by auto
  with us(1) have "last us = f @ ''.tmp''" by (metis last_appendR last_snoc)
  moreover have "last us \<in> {''data'', ''ss_storage'', ''backup''}"
    using us(2) \<open>us \<noteq> []\<close> by (auto simp: prefix_Cons)
  ultimately have "rev (f @ ''.tmp'') \<in> rev ` {''data'', ''ss_storage'', ''backup''}" by auto
  then show False by simp
qed

text \<open>The copy itself, when the directories are there or can be made.\<close>

definition backup_ready :: "fs \<Rightarrow> string \<Rightarrow> bool" where
  "backup_ready F f \<longleftrightarrow> fs_ok F \<and> plain_name f \<and> length f \<le> 238
     \<and> (\<forall>p \<in> {fs_cwd F @ [''data''], fs_cwd F @ [''data'', ''ss_storage''], backup_dir F}.
          node_at F p = None \<or> node_at F p = Some Directory)
     \<and> node_at F (backup_dir F @ [f]) \<noteq> Some Directory \<and> node_at F (backup_dir F @ [f @ ''.tmp'']) \<noteq> Some Directory"

lemma backup_content:
  assumes "backup_ready F f"
  shows "node_at (update_backup_for_file F f s) (backup_dir F @ [f]) = Some (RegularFile (c_string s))"
proof -
  let ?p = "backup_root @ CHR ''/'' # f"
  let ?c = "fs_cwd F"
  have f: "plain_name f" "length f \<le> 238" and F: "fs_ok F" and
    free: "\<And>p. p \<in> {?c @ [''data''], ?c @ [''data'', ''ss_storage''], backup_dir F} \<Longrightarrow> node_at F p \<in> {None, Some Directory}"
    using assms by (auto simp: backup_ready_def)
  have cwd: "fs_cwd (mkdir G path) = fs_cwd G" for G path
    using keeps_dirs_mkdir [of G path] by (simp add: keeps_dirs_def)
  define F1 where "F1 = mkdir F ''data''"
  define F2 where "F2 = mkdir F1 ''data/ss_storage''"
  define F3 where "F3 = mkdir F2 backup_root"
  have root: "node_at G (fs_cwd G) = Some Directory" if "fs_ok G" for G using that by (simp add: fs_ok_def)
  have ok: "fs_ok F1" "fs_ok F2" "fs_ok F3" using F fs_ok_mkdir by (auto simp: F1_def F2_def F3_def)
  have cw: "fs_cwd F1 = ?c" "fs_cwd F2 = ?c" "fs_cwd F3 = ?c" by (simp_all add: F1_def F2_def F3_def cwd)
  have r1: "resolve F ''data'' = Some (?c @ [''data''])" using root [OF F] by (simp add: resolve_one)
  have n1: "node_at F1 q = (if q = ?c @ [''data''] then Some Directory else node_at F q)" for q
    using r1 free [of "?c @ [''data'']"] by (auto simp: F1_def node_at_mkdir)
  have r2: "resolve F1 ''data/ss_storage'' = Some (?c @ [''data'', ''ss_storage''])"
    using resolve_slash [of "''data''" "''ss_storage''" F1] resolve_mkdir_mono [OF r1, of "''data''"] n1
    by (simp add: F1_def [symmetric])
  have n2: "node_at F2 q = (if q \<in> {?c @ [''data''], ?c @ [''data'', ''ss_storage'']} then Some Directory else node_at F q)" for q
    using r2 free [of "?c @ [''data'', ''ss_storage'']"] n1 by (auto simp: F2_def node_at_mkdir)
  have r3: "resolve F2 backup_root = Some (backup_dir F)"
    using resolve_slash [of "''data/ss_storage''" "''backup''" F2] resolve_mkdir_mono [OF r2, of "''data/ss_storage''"] n2
    by (simp add: F2_def [symmetric] backup_root_def backup_dir_def)
  have n3: "node_at F3 q = (if q \<in> {?c @ [''data''], ?c @ [''data'', ''ss_storage''], backup_dir F} then Some Directory else node_at F q)" for q
    using r3 free [of "backup_dir F"] n2 by (auto simp: F3_def node_at_mkdir)
  have up: "resolve F3 ''data'' = Some (?c @ [''data''])" "resolve F3 ''data/ss_storage'' = Some (?c @ [''data'', ''ss_storage''])"
    "resolve F3 backup_root = Some (backup_dir F)"
    using r1 r2 r3 resolve_mkdir_mono by (auto simp: F1_def F2_def F3_def)
  have again: "mkdir F3 p = F3" if "resolve F3 p = Some q" "node_at F3 q \<noteq> None" for p q
    using that by (auto simp: mkdir_def)
  have "mkdir F3 ''data'' = F3" "mkdir F3 ''data/ss_storage'' = F3" "mkdir F3 backup_root = F3"
    by (rule again, rule up, simp add: n3)+
  with up have "snd (mkdir_p F3 backup_root) = F3"
    by (simp add: mkdir_p_backup mkdir_fails_def)
  moreover have "take 1023 ?p = ?p" "dir_part ?p = Some backup_root"
    using f by (simp add: backup_root_def) (simp add: f(1) [unfolded plain_name_def] dir_part_slash)
  ultimately have upd: "update_backup_for_file F f s = snd (atomic_write_file F3 ?p s)"
    by (simp add: update_backup_for_file_def Let_def F1_def F2_def F3_def)
  have "writable_at F3 backup_root f (backup_dir F)"
    using f up(3) assms n3 by (auto simp: writable_at_def backup_ready_def backup_root_def backup_dir_def)
  from atomic_write_spec(2) [OF ok(3) this] show ?thesis by (simp add: upd)
qed

section \<open>Finding a file\<close>

lemma take_short: "take n x = p \<Longrightarrow> length p < n \<Longrightarrow> x = p"
  by (metis length_take min_less_iff_conj nat_less_le take_all nat_le_linear)

lemma search_folders_found:
  "search_folders F sd f ents = Some p \<Longrightarrow> length p \<le> 698 \<Longrightarrow>
   \<exists>d. p = d @ CHR ''/'' # f \<and> d \<noteq> [] \<and> is_directory F d \<and> file_exists F p"
proof (induction ents)
  case (Cons e ents)
  let ?sub = "take 599 (sd @ CHR ''/'' # e)"
  let ?inner = "take 699 (?sub @ CHR ''/'' # f)"
  show ?case
  proof (cases "e \<noteq> [] \<and> hd e = CHR ''.'' \<or> \<not> is_directory F ?sub \<or> \<not> file_exists F ?inner")
    case True
    then show ?thesis using Cons by (auto simp: Let_def split: if_splits)
  next
    case False
    then have p: "p = ?inner" "is_directory F ?sub" "file_exists F p" using Cons.prems(1) by (auto simp: Let_def)
    moreover have "p = ?sub @ CHR ''/'' # f"
      using take_short [OF p(1) [symmetric]] Cons.prems(2) by simp
    ultimately show ?thesis by (intro exI [of _ ?sub]) auto
  qed
qed simp

lemma resolve_existing_found:
  assumes "resolve_existing_file_path F sd f 700 = Some p" "length p \<le> 261"
  shows "file_exists F p \<and> (\<exists>d. p = d @ CHR ''/'' # f \<and> (d = sd \<or> d \<noteq> [] \<and> is_directory F d))"
proof (cases "file_exists F (take 599 (sd @ CHR ''/'' # f))")
  case True
  have "length (take 599 (sd @ CHR ''/'' # f)) < 700" by simp
  then have p: "take 599 (sd @ CHR ''/'' # f) = p"
    using assms(1) True unfolding resolve_existing_file_path_def Let_def
    by (simp only: if_True strncpy_buf_id option.inject)
  have "sd @ CHR ''/'' # f = p" by (rule take_short [OF p]) (use assms(2) in simp)
  with True p show ?thesis by auto
next
  case False
  with assms obtain ents q where q: "search_folders F sd f ents = Some q" "p = strncpy_buf 700 q"
    by (auto simp: resolve_existing_file_path_def Let_def split: option.splits)
  have "q = p"
    by (rule take_short [OF q(2) [symmetric, unfolded strncpy_buf_def]]) (use assms(2) in simp)
  with q(1) have "search_folders F sd f ents = Some p" "length p \<le> 698" using assms(2) by simp_all
  from search_folders_found [OF this] show ?thesis by metis
qed

end
