(* ===== verification/Sentences.thy ===== *)
theory Sentences
  imports Utils
begin

text \<open>
  Files as sequences of sentences: \<open>parse_sentences\<close> of \<^verbatim>\<open>storage_server/storage_server.c\<close>
  and the loop of \<open>handle_write_file\<close> that rebuilds a file from its sentences.  The lemmas
  relate the loop with its array of \<open>MAX_SENTENCES\<close> entries to an unbounded splitting
  function, characterise the lists of sentences that parsing can return, and show that
  rebuilding and parsing are inverse on them.
\<close>

section \<open>Parsing\<close>

definition store_sentence :: "string list \<Rightarrow> string \<Rightarrow> string list result" where
  "store_sentence sentences s = (if length sentences < MAX_SENTENCES then Inr (sentences @ [s]) else Inl Overflow)"

text \<open>\<open>seg\<close> is the text from \<open>start\<close> to \<open>p\<close>.\<close>

function parse_loop :: "string \<Rightarrow> string list \<Rightarrow> string \<Rightarrow> string list result" where
  "parse_loop seg sentences [] = (if seg = [] then Inr sentences else store_sentence sentences seg)"
| "parse_loop seg sentences (c # s) =
     (if is_sentence_delimiter c
      then ebind (store_sentence sentences (seg @ [c]))
             (\<lambda>ss. parse_loop [] ss (dropWhile (\<lambda>c. c = CHR '' '') s))
      else parse_loop (seg @ [c]) sentences s)"
  by pat_completeness auto
termination
  by (relation "measure (\<lambda>(seg, ss, s). length s)") (auto simp: length_dropWhile_le less_Suc_eq_le)

definition parse_sentences :: "string \<Rightarrow> string list result" where
  "parse_sentences content = parse_loop [] [] content"

section \<open>Rebuilding\<close>

fun rebuild_loop :: "nat \<Rightarrow> string \<Rightarrow> string list \<Rightarrow> string result" where
  "rebuild_loop i buf [] = Inr buf"
| "rebuild_loop i buf (s # ss) =
     ebind (if 0 < i \<and> buf \<noteq> [] then strcat_buf (MAX_CONTENT_LEN * 10) buf '' '' else Inr buf)
       (\<lambda>b. ebind (strcat_buf (MAX_CONTENT_LEN * 10) b s) (\<lambda>b. rebuild_loop (Suc i) b ss))"

definition rebuild_content :: "string list \<Rightarrow> string result" where
  "rebuild_content sentences = rebuild_loop 0 [] sentences"

section \<open>The unbounded splitting\<close>

function split_sentences :: "string \<Rightarrow> string \<Rightarrow> string list" where
  "split_sentences seg [] = (if seg = [] then [] else [seg])"
| "split_sentences seg (c # s) =
     (if is_sentence_delimiter c then (seg @ [c]) # split_sentences [] (dropWhile (\<lambda>c. c = CHR '' '') s)
      else split_sentences (seg @ [c]) s)"
  by pat_completeness auto
termination
  by (relation "measure (\<lambda>(seg, s). length s)") (auto simp: length_dropWhile_le less_Suc_eq_le)

lemma parse_loop_eq:
  "length ss \<le> MAX_SENTENCES \<Longrightarrow>
   parse_loop seg ss s = (if length ss + length (split_sentences seg s) \<le> MAX_SENTENCES
                          then Inr (ss @ split_sentences seg s) else Inl Overflow)"
  by (induction seg ss s rule: parse_loop.induct) (auto simp: store_sentence_def)

lemma parse_sentences_eq:
  "parse_sentences content = (if length (split_sentences [] content) \<le> MAX_SENTENCES
                              then Inr (split_sentences [] content) else Inl Overflow)"
  by (simp add: parse_sentences_def parse_loop_eq)

section \<open>Well-formed sentence lists\<close>

definition no_delims :: "string \<Rightarrow> bool" where
  "no_delims s \<longleftrightarrow> (\<forall>c \<in> set s. \<not> is_sentence_delimiter c)"

text \<open>A sentence that ends in its only delimiter.\<close>

definition closed_sentence :: "string \<Rightarrow> bool" where
  "closed_sentence s \<longleftrightarrow> s \<noteq> [] \<and> no_delims (butlast s) \<and> is_sentence_delimiter (last s)"

definition open_sentence :: "string \<Rightarrow> bool" where
  "open_sentence s \<longleftrightarrow> s \<noteq> [] \<and> no_delims s"

fun tail_sentences :: "string list \<Rightarrow> bool" where
  "tail_sentences [] = True"
| "tail_sentences (s # ss) \<longleftrightarrow> s \<noteq> [] \<and> hd s \<noteq> CHR '' '' \<and> (closed_sentence s \<or> open_sentence s \<and> ss = []) \<and> tail_sentences ss"

text \<open>The first sentence may begin with blanks, every other one begins with another character.\<close>

definition sentences_ok :: "string list \<Rightarrow> bool" where
  "sentences_ok ss \<longleftrightarrow> (case ss of [] \<Rightarrow> True
     | s # ss' \<Rightarrow> (closed_sentence s \<or> open_sentence s \<and> ss' = []) \<and> tail_sentences ss')"

lemma no_delims_simps [simp]:
  "no_delims []" "no_delims (s @ t) \<longleftrightarrow> no_delims s \<and> no_delims t"
  "no_delims (c # s) \<longleftrightarrow> \<not> is_sentence_delimiter c \<and> no_delims s"
  by (auto simp: no_delims_def)

lemma blank_no_delim [simp]: "\<not> is_sentence_delimiter (CHR '' '')"
  by (simp add: is_sentence_delimiter_def)

lemma tail_sentences_ok: "tail_sentences ss \<Longrightarrow> sentences_ok ss"
  by (cases ss) (auto simp: sentences_ok_def)

lemma blanks_skipped: "dropWhile (\<lambda>c. c = CHR '' '') s = [] \<or> hd (dropWhile (\<lambda>c. c = CHR '' '') s) \<noteq> CHR '' ''"
  using hd_dropWhile [of "\<lambda>c. c = CHR '' ''" s] by blast

lemma split_tail_ok:
  "no_delims seg \<Longrightarrow> seg @ s = [] \<or> hd (seg @ s) \<noteq> CHR '' '' \<Longrightarrow> tail_sentences (split_sentences seg s)"
proof (induction seg s rule: split_sentences.induct)
  case (1 seg)
  then show ?case by (auto simp: open_sentence_def)
next
  case (2 seg c s)
  show ?case
  proof (cases "is_sentence_delimiter c")
    case True
    moreover have "hd (seg @ [c]) = hd (seg @ c # s)" by (cases seg) auto
    ultimately show ?thesis using 2 blanks_skipped [of s] by (simp add: closed_sentence_def)
  next
    case False
    with 2 show ?thesis by simp
  qed
qed

lemma split_sentences_ok: "no_delims seg \<Longrightarrow> sentences_ok (split_sentences seg s)"
proof (induction seg s rule: split_sentences.induct)
  case (1 seg)
  then show ?case by (simp add: sentences_ok_def open_sentence_def)
next
  case (2 seg c s)
  show ?case
  proof (cases "is_sentence_delimiter c")
    case True
    with "2.prems" blanks_skipped [of s] show ?thesis
      by (simp add: sentences_ok_def closed_sentence_def split_tail_ok)
  next
    case False
    with 2 show ?thesis by simp
  qed
qed

section \<open>Round trip\<close>

lemma split_closed:
  "no_delims (seg @ butlast s) \<Longrightarrow> s \<noteq> [] \<Longrightarrow> is_sentence_delimiter (last s) \<Longrightarrow>
   split_sentences seg (s @ t) = (seg @ s) # split_sentences [] (dropWhile (\<lambda>c. c = CHR '' '') t)"
  by (induction s arbitrary: seg) (auto split: if_splits)

lemma split_open: "no_delims (seg @ s) \<Longrightarrow> split_sentences seg s = (if seg @ s = [] then [] else [seg @ s])"
  by (induction s arbitrary: seg) auto

lemma join_no_blank:
  "tail_sentences ss \<Longrightarrow> ss \<noteq> [] \<Longrightarrow>
   dropWhile (\<lambda>c. c = CHR '' '') (CHR '' '' # join_with (CHR '' '') ss) = join_with (CHR '' '') ss"
  by (cases ss; cases "hd ss"; cases "tl ss") auto

lemma split_sentence_join:
  "closed_sentence s \<or> open_sentence s \<and> ss = [] \<Longrightarrow> tail_sentences ss \<Longrightarrow>
   split_sentences [] (join_with (CHR '' '') (s # ss)) = s # ss"
proof (induction ss arbitrary: s)
  case Nil
  then show ?case
    using split_closed [of "[]" s "[]"] by (auto simp: closed_sentence_def open_sentence_def split_open)
next
  case (Cons s' ss)
  then have "closed_sentence s" by simp
  then have "split_sentences [] (s @ CHR '' '' # join_with (CHR '' '') (s' # ss))
      = s # split_sentences [] (join_with (CHR '' '') (s' # ss))"
    using split_closed [of "[]" s] join_no_blank [OF Cons.prems(2)] by (simp add: closed_sentence_def)
  moreover have "split_sentences [] (join_with (CHR '' '') (s' # ss)) = s' # ss"
    using Cons by simp
  ultimately show ?case by (simp add: join_with_Cons)
qed

lemma split_join: "sentences_ok ss \<Longrightarrow> split_sentences [] (join_with (CHR '' '') ss) = ss"
  using split_sentence_join by (cases ss) (auto simp: sentences_ok_def)

section \<open>Rebuilding is joining\<close>

lemma rebuild_loop_eq:
  assumes "buf \<noteq> []" "\<forall>s \<in> set ss. s \<noteq> []" "0 < i" "length buf < MAX_CONTENT_LEN * 10"
  shows "rebuild_loop i buf ss
       = (if length (join_with (CHR '' '') (buf # ss)) < MAX_CONTENT_LEN * 10
          then Inr (join_with (CHR '' '') (buf # ss)) else Inl Overflow)"
  using assms
proof (induction ss arbitrary: i buf)
  case (Cons s ss)
  show ?case
  proof (cases "length (buf @ CHR '' '' # s) < MAX_CONTENT_LEN * 10")
    case True
    have "join_with (CHR '' '') ((buf @ CHR '' '' # s) # ss) = join_with (CHR '' '') (buf # s # ss)"
      by (cases ss) auto
    with True Cons.prems Cons.IH [of "buf @ CHR '' '' # s" "Suc i"] show ?thesis
      by (simp add: strcat_buf_def)
  next
    case False
    have "length (buf @ CHR '' '' # s) \<le> length (join_with (CHR '' '') (buf # s # ss))"
      by (cases ss) auto
    with False Cons.prems show ?thesis by (auto simp: strcat_buf_def)
  qed
qed simp

lemma sentences_nonempty: "sentences_ok ss \<Longrightarrow> s \<in> set ss \<Longrightarrow> s \<noteq> []"
proof -
  have "tail_sentences ss \<Longrightarrow> s \<in> set ss \<Longrightarrow> s \<noteq> []" for ss by (induction ss) auto
  then show "sentences_ok ss \<Longrightarrow> s \<in> set ss \<Longrightarrow> s \<noteq> []"
    by (cases ss) (auto simp: sentences_ok_def closed_sentence_def open_sentence_def)
qed

lemma rebuild_content_eq:
  assumes "\<forall>s \<in> set ss. s \<noteq> []"
  shows "rebuild_content ss
       = (if length (join_with (CHR '' '') ss) < MAX_CONTENT_LEN * 10
          then Inr (join_with (CHR '' '') ss) else Inl Overflow)"
proof (cases ss)
  case Nil
  then show ?thesis by (simp add: rebuild_content_def limit_defs)
next
  case (Cons s ss')
  have "length s \<le> length (join_with (CHR '' '') (s # ss'))" by (cases ss') auto
  with Cons assms show ?thesis
    by (auto simp: rebuild_content_def strcat_buf_def rebuild_loop_eq)
qed

lemma rebuild_content_Inr:
  "\<forall>s \<in> set ss. s \<noteq> [] \<Longrightarrow> rebuild_content ss = Inr c \<longleftrightarrow>
   c = join_with (CHR '' '') ss \<and> length c < MAX_CONTENT_LEN * 10"
  by (auto simp: rebuild_content_eq)

end
