(* ===== verification/Word_Edit.thy ===== *)
theory Word_Edit
  imports Sentences
begin

text \<open>
  The editing loop of \<open>handle_write_file\<close>: the words of one sentence, the insertion of a
  word with its punctuation rules, and the text of the edited sentence.  The lemmas give
  the effect of every branch of an insertion, show that the array never outgrows
  \<open>MAX_WORDS_PER_SENTENCE\<close>, that an insertion that merges keeps the closing delimiter in
  place, and that a sentence that is not edited keeps its text.
\<close>

section \<open>Insertion\<close>

definition ends_with_delimiter :: "string \<Rightarrow> bool" where
  "ends_with_delimiter w = (w \<noteq> [] \<and> is_sentence_delimiter (last w))"

text \<open>The merged word: the previous one without its last character, the content, that character.\<close>

definition merge_word :: "string \<Rightarrow> string \<Rightarrow> string" where
  "merge_word prev content = butlast prev @ content @ [last prev]"

text \<open>
  \<open>word_idx\<close> counts from 0 here.  Inserting before the end merges into the previous word
  when that one ends with a delimiter; appending merges into the last word unless the
  content brings its own delimiter; a last word that is nothing but a delimiter gets the
  new word after it (the loop that would shift it runs from the end to the end).
\<close>

definition insert_word :: "string list \<Rightarrow> nat \<Rightarrow> string \<Rightarrow> string list" where
  "insert_word words word_idx content =
     (if word_idx < length words then
        (if 0 < word_idx then
           (if ends_with_delimiter (words ! (word_idx - 1))
            then words[word_idx - 1 := merge_word (words ! (word_idx - 1)) content]
            else insert_at words word_idx content)
         else insert_at words word_idx content)
      else if 0 < length words then
        (let last = words ! (length words - 1) in
         if length last = 1 \<and> ends_with_delimiter last \<and> \<not> ends_with_delimiter content
         then insert_at words word_idx content
         else if ends_with_delimiter last \<and> \<not> ends_with_delimiter content
         then words[length words - 1 := merge_word last content]
         else insert_at words (length words) content)
      else insert_at words (length words) content)"

text \<open>One message of the loop: the error it is answered with, or the words after it.\<close>

definition update_words :: "string list \<Rightarrow> int \<Rightarrow> string \<Rightarrow> message + string list" where
  "update_words words arg1 content =
     (if arg1 \<le> 0
      then Inl (error_reply ERR_INVALID_WORD_INDEX ''ERROR: Invalid word index. Use 1-based indexing.'')
      else (let word_idx = arg1 - 1 in
        if word_idx < 0 \<or> int (length words) < word_idx \<or> MAX_WORDS_PER_SENTENCE \<le> length words
        then Inl (error_reply ERR_INVALID_WORD_INDEX ''ERROR: Invalid word index. Use 1..current_length+1.'')
        else Inr (insert_word words (nat word_idx) content)))"

section \<open>Words and text of a sentence\<close>

definition sentence_words :: "string \<Rightarrow> string list" where
  "sentence_words target =
     (if target = [] then [] else take MAX_WORDS_PER_SENTENCE (strtok {CHR '' ''} target))"

definition single_punct :: "string \<Rightarrow> bool" where
  "single_punct tok \<longleftrightarrow> length tok = 1 \<and> is_sentence_delimiter (hd tok)"

fun build_loop :: "nat \<Rightarrow> string \<Rightarrow> string list \<Rightarrow> string result" where
  "build_loop i buf [] = Inr buf"
| "build_loop i buf (tok # toks) =
     ebind (if i = 0 \<or> single_punct tok then strcat_buf MAX_CONTENT_LEN buf tok
            else ebind (strcat_buf MAX_CONTENT_LEN buf '' '') (\<lambda>b. strcat_buf MAX_CONTENT_LEN b tok))
       (\<lambda>b. build_loop (Suc i) b toks)"

definition build_sentence :: "string list \<Rightarrow> string result" where
  "build_sentence words = build_loop 0 [] words"

section \<open>Every branch of an insertion\<close>

lemma insert_word_plain:
  assumes "i \<le> length ws" "i = 0 \<or> \<not> ends_with_delimiter (ws ! (i - 1))"
  shows "insert_word ws i w = take i ws @ w # drop i ws"
  using assms by (cases "i < length ws") (auto simp: insert_word_def insert_at_eq Let_def)

lemma insert_word_merge:
  assumes "0 < i" "i \<le> length ws" "ends_with_delimiter (ws ! (i - 1))"
    "i < length ws \<or> length (ws ! (i - 1)) \<noteq> 1 \<and> \<not> ends_with_delimiter w"
  shows "insert_word ws i w = ws[i - 1 := merge_word (ws ! (i - 1)) w]"
proof (cases "i < length ws")
  case False
  with assms have "i = length ws" "ws \<noteq> []" by auto
  with assms False show ?thesis by (simp add: insert_word_def Let_def)
qed (use assms in \<open>simp add: insert_word_def\<close>)

lemma insert_word_after:
  assumes "ws \<noteq> []" "ends_with_delimiter w \<or> length (last ws) = 1"
  shows "insert_word ws (length ws) w = ws @ [w]"
  using assms by (auto simp: insert_word_def insert_at_eq Let_def last_conv_nth)

lemma length_insert_word:
  "i \<le> length ws \<Longrightarrow> length (insert_word ws i w) \<in> {length ws, Suc (length ws)}"
  by (auto simp: insert_word_def insert_at_eq Let_def)

lemma update_words_bound:
  "update_words ws a w = Inr ws' \<Longrightarrow> length ws' \<le> MAX_WORDS_PER_SENTENCE"
proof -
  assume u: "update_words ws a w = Inr ws'"
  then have "nat (a - 1) \<le> length ws" "length ws < MAX_WORDS_PER_SENTENCE" "ws' = insert_word ws (nat (a - 1)) w"
    by (auto simp: update_words_def Let_def split: if_splits)
  with length_insert_word [of "nat (a - 1)" ws w] show ?thesis by auto
qed

lemma update_words_iff:
  "(\<exists>ws'. update_words ws a w = Inr ws') \<longleftrightarrow>
   1 \<le> a \<and> a \<le> int (length ws) + 1 \<and> length ws < MAX_WORDS_PER_SENTENCE"
  by (auto simp: update_words_def Let_def)

text \<open>The closing delimiter of the word stays where it is.\<close>

lemma merge_word_ends: "ends_with_delimiter prev \<Longrightarrow> ends_with_delimiter (merge_word prev w)"
  by (simp add: ends_with_delimiter_def merge_word_def)

text \<open>No word is lost: an insertion keeps every word or extends one of them.\<close>

lemma insert_word_keeps:
  assumes "i \<le> length ws" "u \<in> set ws"
  shows "u \<in> set (insert_word ws i w) \<or> ends_with_delimiter u \<and> merge_word u w \<in> set (insert_word ws i w)"
proof -
  have "u \<in> set (ws[j := merge_word (ws ! j) w]) \<or> ends_with_delimiter u \<and> merge_word u w \<in> set (ws[j := merge_word (ws ! j) w])"
    if "j < length ws" "ends_with_delimiter (ws ! j)" for j
  proof -
    from assms(2) obtain k where k: "k < length ws" "ws ! k = u" by (auto simp: in_set_conv_nth)
    show ?thesis
    proof (cases "k = j")
      case True
      with that k show ?thesis by (auto simp: set_update_memI)
    next
      case False
      with k have "ws[j := merge_word (ws ! j) w] ! k = u" by simp
      with k(1) show ?thesis by (metis length_list_update nth_mem)
    qed
  qed
  moreover have "u \<in> set (insert_at ws j w)" if "j \<le> length ws" for j
    using assms(2) that by (simp add: insert_at_eq) (metis UnE append_take_drop_id set_append)
  ultimately show ?thesis using assms(1) by (auto simp: insert_word_def Let_def)
qed

section \<open>The text of a sentence\<close>

fun words_text :: "string list \<Rightarrow> string" where
  "words_text [] = []"
| "words_text (w # ws) = w @ concat (map (\<lambda>t. if single_punct t then t else CHR '' '' # t) ws)"

lemma build_loop_eq:
  "length buf < MAX_CONTENT_LEN \<Longrightarrow> 0 < i \<Longrightarrow>
   build_loop i buf ws =
     (let t = buf @ concat (map (\<lambda>t. if single_punct t then t else CHR '' '' # t) ws)
      in if length t < MAX_CONTENT_LEN then Inr t else Inl Overflow)"
proof (induction ws arbitrary: i buf)
  case (Cons w ws)
  show ?case
  proof (cases "length (buf @ (if single_punct w then w else CHR '' '' # w)) < MAX_CONTENT_LEN")
    case True
    with Cons.prems Cons.IH [of "buf @ (if single_punct w then w else CHR '' '' # w)" "Suc i"] show ?thesis
      by (auto simp: strcat_buf_def Let_def)
  next
    case False
    with Cons.prems show ?thesis by (auto simp: strcat_buf_def Let_def)
  qed
qed (simp add: Let_def)

lemma build_sentence_eq:
  "build_sentence ws = (if length (words_text ws) < MAX_CONTENT_LEN then Inr (words_text ws) else Inl Overflow)"
proof (cases ws)
  case Nil
  then show ?thesis by (simp add: build_sentence_def limit_defs)
next
  case (Cons w ws')
  then show ?thesis
    by (auto simp: build_sentence_def strcat_buf_def build_loop_eq Let_def)
qed

text \<open>
  A sentence in normal form: words separated by single blanks, no word but the first a
  delimiter on its own.  Splitting it into words and building it again gives it back.
\<close>

definition normal_words :: "string list \<Rightarrow> bool" where
  "normal_words ws \<longleftrightarrow> (\<forall>w \<in> set ws. w \<noteq> [] \<and> CHR '' '' \<notin> set w) \<and> (\<forall>w \<in> set (tl ws). \<not> single_punct w)
     \<and> length ws \<le> MAX_WORDS_PER_SENTENCE"

lemma words_text_normal:
  assumes "\<forall>w \<in> set (tl ws). \<not> single_punct w"
  shows "words_text ws = join_with (CHR '' '') ws"
proof (cases ws)
  case (Cons w ws')
  have "concat (map (\<lambda>t. if single_punct t then t else CHR '' '' # t) us) = concat (map ((#) (CHR '' '')) us)"
    if "\<forall>w \<in> set us. \<not> single_punct w" for us using that by (induction us) auto
  moreover have "w @ concat (map ((#) (CHR '' '')) us) = join_with (CHR '' '') (w # us)" for us
  proof (induction us arbitrary: w)
    case (Cons u us)
    then show ?case using Cons.IH [of u] by (cases us) auto
  qed simp
  ultimately show ?thesis using assms Cons by simp
qed simp

lemma sentence_words_join: "normal_words ws \<Longrightarrow> sentence_words (join_with (CHR '' '') ws) = ws"
proof -
  assume n: "normal_words ws"
  then have "strtok {CHR '' ''} (join_with (CHR '' '') ws) = ws"
    by (intro strtok_join_with) (auto simp: normal_words_def)
  moreover have "join_with (CHR '' '') ws = [] \<Longrightarrow> ws = []"
    using n by (cases ws; cases "tl ws") (auto simp: normal_words_def)
  ultimately show ?thesis using n by (auto simp: sentence_words_def normal_words_def)
qed

lemma build_sentence_words:
  assumes "normal_words ws" "length (join_with (CHR '' '') ws) < MAX_CONTENT_LEN"
  shows "build_sentence (sentence_words (join_with (CHR '' '') ws)) = Inr (join_with (CHR '' '') ws)"
  using assms words_text_normal [of ws]
  by (simp add: sentence_words_join build_sentence_eq normal_words_def)

end
