(* ===== verification/Write_Commit.thy ===== *)
theory Write_Commit
  imports Word_Edit
begin

text \<open>
  The commit of \<open>handle_write_file\<close>: the edited sentence is merged into the latest content
  of the file.  \<open>commit_target\<close> finds the place of the edited sentence in a file that other
  sessions may have changed, \<open>merge_sentences\<close> is the array code that replaces one sentence
  by several.  The lemmas show that the array code replaces exactly one sentence, that the
  target is always a valid index, that an unchanged sentence is found where it was, that a
  moved one is found at its new place, and that the rest of the file is untouched.
\<close>

section \<open>Which content ends in a delimiter\<close>

definition last_has_delim :: "string \<Rightarrow> bool" where
  "last_has_delim content =
     (case dropWhile (\<lambda>c. c = CHR '' '' \<or> c = nl \<or> c = CHR 0x0D \<or> c = CHR 0x09) (rev content) of
        [] \<Rightarrow> False
      | c # _ \<Rightarrow> is_sentence_delimiter c)"

text \<open>The test with which a session starts and which an append repeats at its commit.\<close>

definition index_allowed :: "int \<Rightarrow> nat \<Rightarrow> string \<Rightarrow> bool" where
  "index_allowed sentence_idx sentence_count content =
     (\<not> (sentence_idx < 0 \<or> int sentence_count < sentence_idx
          \<or> sentence_idx = int sentence_count \<and> 0 < sentence_count \<and> \<not> last_has_delim content))"

section \<open>The place of the edited sentence\<close>

definition sentences_equal_trimmed :: "string \<Rightarrow> string \<Rightarrow> bool" where
  "sentences_equal_trimmed a b = (trim_string a = trim_string b)"

definition anchor_after :: "string \<Rightarrow> string list \<Rightarrow> nat option" where
  "anchor_after prev_snapshot latest =
     (case find_idx (\<lambda>s. sentences_equal_trimmed s prev_snapshot) latest of
        Some anchor \<Rightarrow> if anchor + 1 < length latest then Some (anchor + 1) else None
      | None \<Rightarrow> None)"

text \<open>\<open>None\<close> is the answer \<^verbatim>\<open>ERROR: File changed; retry write.\<close>\<close>

definition commit_target :: "int \<Rightarrow> bool \<Rightarrow> string \<Rightarrow> string \<Rightarrow> string list \<Rightarrow> string \<Rightarrow> nat option" where
  "commit_target sentence_idx initial_append orig_snapshot prev_snapshot latest latest_content =
     (if initial_append
      then (if latest \<noteq> [] \<and> \<not> last_has_delim latest_content then None else Some (length latest))
      else if sentence_idx < 0 \<or> int (length latest) < sentence_idx then None
      else if orig_snapshot \<noteq> []
      then (if sentence_idx < int (length latest)
               \<and> sentences_equal_trimmed (latest ! nat sentence_idx) orig_snapshot
            then Some (nat sentence_idx)
            else (case find_idx (\<lambda>s. sentences_equal_trimmed s orig_snapshot) latest of
                    Some j \<Rightarrow> Some j
                  | None \<Rightarrow> if prev_snapshot \<noteq> [] then anchor_after prev_snapshot latest
                            else if sentence_idx < int (length latest) then Some (nat sentence_idx) else None))
      else if prev_snapshot \<noteq> [] then anchor_after prev_snapshot latest
      else if int (length latest) \<le> sentence_idx then None
      else Some (nat sentence_idx))"

section \<open>Merging\<close>

text \<open>
  \<^verbatim>\<open>for (i = n - 1; i > target; --i) a[i + extra] = a[i];\<close> and
  \<^verbatim>\<open>for (k = 1; k < split_cnt; ++k) a[target + k] = split_arr[k];\<close> over the reallocated array.
\<close>

fun move_up :: "nat \<Rightarrow> nat \<Rightarrow> 'a list \<Rightarrow> nat \<Rightarrow> 'a list" where
  "move_up target extra a 0 = a"
| "move_up target extra a (Suc i) = (if target < i then move_up target extra (a[i + extra := a ! i]) i else a)"

fun copy_split :: "nat \<Rightarrow> nat \<Rightarrow> 'a list \<Rightarrow> 'a list \<Rightarrow> 'a list" where
  "copy_split target k [] a = a"
| "copy_split target k (s # ss) a = copy_split target (Suc k) ss (a[target + k := s])"

definition merge_sentences :: "string list \<Rightarrow> nat \<Rightarrow> string \<Rightarrow> string list \<Rightarrow> string list" where
  "merge_sentences latest target new_sentence split_arr =
     (if length split_arr \<le> 1 then
        (if target < length latest then latest[target := new_sentence] else latest @ [new_sentence])
      else if target < length latest then
        (let extra = length split_arr - 1;
             a = latest[target := split_arr ! 0] @ replicate extra [];
             a = move_up target extra a (length latest)
         in copy_split target 1 (tl split_arr) a)
      else copy_split (length latest) 0 split_arr (latest @ replicate (length split_arr) []))"

lemma length_move_up [simp]: "length (move_up t e a n) = length a"
  by (induction t e a n rule: move_up.induct) auto

lemma move_up_nth:
  "n + e \<le> length a \<Longrightarrow> 0 < e \<Longrightarrow> m < length a \<Longrightarrow>
   move_up t e a n ! m = (if t + e < m \<and> m < n + e then a ! (m - e) else a ! m)"
proof (induction t e a n arbitrary: m rule: move_up.induct)
  case (2 t e a i)
  show ?case
  proof (cases "t < i")
    case True
    with 2 show ?thesis by (cases "m = i + e") (auto simp: nth_list_update)
  next
    case False
    then show ?thesis by auto
  qed
qed auto

lemma length_copy_split [simp]: "length (copy_split t k ss a) = length a"
  by (induction t k ss a rule: copy_split.induct) auto

lemma copy_split_nth:
  "t + k + length ss \<le> length a \<Longrightarrow> m < length a \<Longrightarrow>
   copy_split t k ss a ! m = (if t + k \<le> m \<and> m < t + k + length ss then ss ! (m - (t + k)) else a ! m)"
proof (induction t k ss a rule: copy_split.induct)
  case (2 t k s ss a)
  show ?case
  proof (cases "m = t + k")
    case True
    with 2 show ?thesis by simp
  next
    case False
    with 2 show ?thesis by (auto simp: nth_Cons' Suc_diff_Suc)
  qed
qed auto

text \<open>The array code replaces one sentence by the pieces of the new one, or appends them.\<close>

definition pieces :: "string \<Rightarrow> string list \<Rightarrow> string list" where
  "pieces new_sentence split_arr = (if length split_arr \<le> 1 then [new_sentence] else split_arr)"

lemma splice_array:
  assumes t: "t < length latest" and e: "ss \<noteq> []"
  shows "copy_split t 1 ss (move_up t (length ss) (latest[t := s] @ replicate (length ss) []) (length latest))
       = take t latest @ (s # ss) @ drop (Suc t) latest" (is "?l = ?r")
proof (rule nth_equalityI)
  let ?e = "length ss" and ?n = "length latest"
  let ?a = "latest[t := s] @ replicate ?e []"
  show "length ?l = length ?r" using t by simp
  fix m assume "m < length ?l"
  then have m: "m < ?n + ?e" by simp
  have up: "move_up t ?e ?a ?n ! m = (if t + ?e < m \<and> m < ?n + ?e then ?a ! (m - ?e) else ?a ! m)"
    using e m by (intro move_up_nth) auto
  have l: "?l ! m = (if t + 1 \<le> m \<and> m < t + 1 + ?e then ss ! (m - (t + 1)) else move_up t ?e ?a ?n ! m)"
    using t m by (intro copy_split_nth) auto
  consider "m < t" | "m = t" | "t < m" "m < t + 1 + ?e" | "t + ?e < m" by linarith
  then show "?l ! m = ?r ! m"
  proof cases
    case 3
    then have "m - t = Suc (m - (t + 1))" "m - (t + 1) < ?e" by simp_all
    with 3 t l show ?thesis by (simp add: nth_append min_def)
  next
    case 4
    then obtain d where d: "m = t + ?e + Suc d" by (metis less_imp_Suc_add add_Suc_right)
    with m have "d < ?n - Suc t" by linarith
    with 4 t l up d m show ?thesis
      by (simp add: nth_append min_def nth_Cons' add.commute add.left_commute)
  qed (use t l up e in \<open>auto simp: nth_append min_def\<close>)
qed

lemma merge_sentences_eq:
  "merge_sentences latest t new_sentence split_arr = take t latest @ pieces new_sentence split_arr @ drop (Suc t) latest"
proof (cases "length split_arr \<le> 1")
  case True
  then show ?thesis by (simp add: merge_sentences_def pieces_def upd_conv_take_nth_drop)
next
  case False
  then obtain s ss where split: "split_arr = s # ss" "ss \<noteq> []" by (cases split_arr; cases "tl split_arr") auto
  show ?thesis
  proof (cases "t < length latest")
    case True
    with split splice_array [OF True split(2), of s] show ?thesis
      by (simp add: merge_sentences_def pieces_def Let_def)
  next
    case outside: False
    have "copy_split (length latest) 0 split_arr (latest @ replicate (length split_arr) []) = latest @ split_arr"
      by (rule nth_equalityI) (auto simp: copy_split_nth nth_append)
    with outside False show ?thesis by (simp add: merge_sentences_def pieces_def)
  qed
qed

section \<open>The target\<close>

lemma anchor_after_bound: "anchor_after p latest = Some t \<Longrightarrow> 0 < t \<and> t < length latest"
  by (auto simp: anchor_after_def split: option.splits if_splits)

text \<open>An append goes to the end, everything else to a sentence that exists.\<close>

lemma commit_target_bound:
  assumes "commit_target i app orig prev latest content = Some t"
  shows "if app then t = length latest else t < length latest"
  using assms anchor_after_bound
  by (auto simp: commit_target_def dest: find_idx_lt split: if_splits option.splits)

lemma commit_target_append:
  "commit_target i True orig prev latest content
   = (if latest \<noteq> [] \<and> \<not> last_has_delim content then None else Some (length latest))"
  by (simp add: commit_target_def)

text \<open>A sentence that is still there, untouched, is found at its old index.\<close>

lemma commit_target_unmoved:
  assumes "0 \<le> i" "i < int (length latest)" "latest ! nat i = orig" "orig \<noteq> []"
  shows "commit_target i False orig prev latest content = Some (nat i)"
  using assms by (simp add: commit_target_def sentences_equal_trimmed_def)

text \<open>
  A sentence that other commits moved is found again, provided that no other sentence
  has the same text: the target holds the text that the session saw.
\<close>

lemma commit_target_moved:
  assumes "orig \<noteq> []" "0 \<le> i" "i \<le> int (length latest)" "s \<in> set latest" "sentences_equal_trimmed s orig"
    "commit_target i False orig prev latest content = Some t"
  shows "t < length latest \<and> sentences_equal_trimmed (latest ! t) orig"
proof (cases "i < int (length latest) \<and> sentences_equal_trimmed (latest ! nat i) orig")
  case True
  with assms show ?thesis by (auto simp: commit_target_def)
next
  case False
  from assms(4,5) have "find_idx (\<lambda>s. sentences_equal_trimmed s orig) latest \<noteq> None"
    by (auto simp: find_idx_None)
  with False assms have "find_idx (\<lambda>s. sentences_equal_trimmed s orig) latest = Some t"
    by (auto simp: commit_target_def split: if_splits option.splits)
  then show ?thesis by (auto dest: find_idx_SomeD)
qed

lemma commit_target_found:
  assumes "orig \<noteq> []" "0 \<le> i" "i \<le> int (length latest)" "s \<in> set latest" "sentences_equal_trimmed s orig"
  shows "\<exists>t. commit_target i False orig prev latest content = Some t"
proof -
  from assms(4,5) have "find_idx (\<lambda>s. sentences_equal_trimmed s orig) latest \<noteq> None"
    by (auto simp: find_idx_None)
  with assms show ?thesis by (auto simp: commit_target_def)
qed

section \<open>The content after a commit\<close>

text \<open>
  The commit as one function from the latest content to the new one, with the text of the
  edited sentence given: what the file holds afterwards.
\<close>

definition merged_content :: "int \<Rightarrow> bool \<Rightarrow> string \<Rightarrow> string \<Rightarrow> string \<Rightarrow> string \<Rightarrow> string option result" where
  "merged_content sentence_idx initial_append orig_snapshot prev_snapshot new_sentence latest_content =
     ebind (parse_sentences new_sentence) (\<lambda>split_arr.
     ebind (parse_sentences latest_content) (\<lambda>latest.
       (case commit_target sentence_idx initial_append orig_snapshot prev_snapshot latest latest_content of
          None \<Rightarrow> Inr None
        | Some t \<Rightarrow> ebind (rebuild_content (merge_sentences latest t new_sentence split_arr))
                      (\<lambda>c. Inr (Some c)))))"

lemma merged_content_cases:
  assumes "merged_content i app orig prev new content = Inr (Some c)"
  obtains t where
    "commit_target i app orig prev (split_sentences [] content) content = Some t"
    "rebuild_content (take t (split_sentences [] content) @ pieces new (split_sentences [] new)
        @ drop (Suc t) (split_sentences [] content)) = Inr c"
  using assms
  by (auto simp: merged_content_def parse_sentences_eq merge_sentences_eq fault_simps
      split: if_splits option.splits)

lemma tail_sentences_append:
  "tail_sentences (ss @ ts) \<longleftrightarrow>
   (if ts = [] then tail_sentences ss
    else (\<forall>s \<in> set ss. s \<noteq> [] \<and> hd s \<noteq> CHR '' '' \<and> closed_sentence s) \<and> tail_sentences ts)"
  by (induction ss) auto

text \<open>
  Reading the file after a commit gives the old sentences with the pieces of the edited one
  in its place, when the pieces are closed (or the edited sentence was the last).
\<close>

lemma commit_sentences:
  assumes "sentences_ok (take t latest @ ps @ drop (Suc t) latest)"
    and "rebuild_content (take t latest @ ps @ drop (Suc t) latest) = Inr c"
  shows "split_sentences [] c = take t latest @ ps @ drop (Suc t) latest"
proof -
  have "c = join_with (CHR '' '') (take t latest @ ps @ drop (Suc t) latest)"
    using assms(2) sentences_nonempty [OF assms(1)] by (subst (asm) rebuild_content_Inr) auto
  with split_join [OF assms(1)] show ?thesis by simp
qed

text \<open>An edited sentence that ends in a delimiter yields closed pieces only.\<close>

lemma split_eq_Nil: "split_sentences seg s = [] \<longleftrightarrow> seg = [] \<and> s = []"
  by (induction seg s rule: split_sentences.induct) auto

lemma last_dropWhile_blank:
  "s \<noteq> [] \<Longrightarrow> is_sentence_delimiter (last s) \<Longrightarrow>
   dropWhile (\<lambda>c. c = CHR '' '') s \<noteq> [] \<and> last (dropWhile (\<lambda>c. c = CHR '' '') s) = last s"
proof (induction s)
  case (Cons c s)
  show ?case
  proof (cases "c = CHR '' ''")
    case True
    with Cons.prems have "s \<noteq> []" by (cases s) simp_all
    with Cons True show ?thesis by simp
  qed simp
qed simp

lemma split_all_closed:
  "no_delims seg \<Longrightarrow> s \<noteq> [] \<Longrightarrow> is_sentence_delimiter (last s) \<Longrightarrow> p \<in> set (split_sentences seg s) \<Longrightarrow> closed_sentence p"
proof (induction seg s rule: split_sentences.induct)
  case (2 seg c s)
  show ?case
  proof (cases "is_sentence_delimiter c")
    case True
    show ?thesis
    proof (cases "s = []")
      case False
      with "2.prems"(3) last_dropWhile_blank [of s]
      have r: "dropWhile (\<lambda>c. c = CHR '' '') s \<noteq> []"
        "is_sentence_delimiter (last (dropWhile (\<lambda>c. c = CHR '' '') s))" by simp_all
      from "2.prems"(4) True consider "p = seg @ [c]" | "p \<in> set (split_sentences [] (dropWhile (\<lambda>c. c = CHR '' '') s))"
        by auto
      then show ?thesis
      proof cases
        case 1
        with "2.prems"(1) True show ?thesis by (simp add: closed_sentence_def)
      next
        case 2
        with "2.IH"(1) [OF True _ r] show ?thesis by simp
      qed
    qed (use 2 True in \<open>auto simp: closed_sentence_def\<close>)
  next
    case False
    with 2 show ?thesis by (cases "s = []") auto
  qed
qed simp

lemma split_single:
  "s \<noteq> [] \<Longrightarrow> is_sentence_delimiter (last s) \<Longrightarrow> split_sentences seg s = [x] \<Longrightarrow> x = seg @ s"
proof (induction seg s rule: split_sentences.induct)
  case (2 seg c s)
  show ?case
  proof (cases "is_sentence_delimiter c")
    case True
    with 2 have "dropWhile (\<lambda>c. c = CHR '' '') s = []" "x = seg @ [c]" by (auto simp: split_eq_Nil)
    moreover have "s = []" using calculation(1) 2 last_dropWhile_blank [of s] by (cases "s = []") auto
    ultimately show ?thesis by simp
  next
    case False
    with 2 show ?thesis by (cases "s = []") auto
  qed
qed simp

lemma pieces_closed:
  assumes "ends_with_delimiter new" "hd new \<noteq> CHR '' ''"
  shows "pieces new (split_sentences [] new) = split_sentences [] new"
    "tail_sentences (split_sentences [] new)"
    "\<forall>p \<in> set (split_sentences [] new). closed_sentence p"
proof -
  have new: "new \<noteq> []" "is_sentence_delimiter (last new)" using assms(1) by (auto simp: ends_with_delimiter_def)
  have "split_sentences [] new \<noteq> []" using new by (simp add: split_eq_Nil)
  then show "pieces new (split_sentences [] new) = split_sentences [] new"
    using split_single [OF new, of "[]"] by (cases "split_sentences [] new") (auto simp: pieces_def)
  show "tail_sentences (split_sentences [] new)" using assms(2) by (intro split_tail_ok) auto
  show "\<forall>p \<in> set (split_sentences [] new). closed_sentence p" using split_all_closed [of "[]", OF _ new] by simp
qed

lemma tail_sentences_drop: "tail_sentences ss \<Longrightarrow> tail_sentences (drop n ss)"
  by (induction ss arbitrary: n) (auto simp: drop_Cons split: nat.splits)

lemma tail_sentences_take:
  "tail_sentences ss \<Longrightarrow> n < length ss \<Longrightarrow> s \<in> set (take n ss) \<Longrightarrow> s \<noteq> [] \<and> hd s \<noteq> CHR '' '' \<and> closed_sentence s"
  by (induction ss arbitrary: n) (auto simp: take_Cons split: nat.splits)

lemma tail_sentences_all:
  "tail_sentences ss \<Longrightarrow> s \<in> set ss \<Longrightarrow> s \<noteq> [] \<and> hd s \<noteq> CHR '' ''"
  by (induction ss) auto

text \<open>Replacing one sentence of a well-formed list by closed ones keeps it well formed.\<close>

lemma sentences_ok_splice:
  assumes "sentences_ok latest" "t < length latest" "tail_sentences ps" "ps \<noteq> []" "\<forall>p \<in> set ps. closed_sentence p"
  shows "sentences_ok (take t latest @ ps @ drop (Suc t) latest)"
proof -
  have mid: "tail_sentences (ps @ drop n ss)" if "tail_sentences ss" for n ss
    using assms(3,5) tail_sentences_drop [OF that, of n] tail_sentences_all [OF assms(3)]
    by (auto simp: tail_sentences_append)
  obtain s ss where latest: "latest = s # ss" using assms(2) by (cases latest) auto
  with assms(1) have ss: "tail_sentences ss" "closed_sentence s \<or> open_sentence s \<and> ss = []"
    by (auto simp: sentences_ok_def)
  show ?thesis
  proof (cases t)
    case 0
    with mid [OF ss(1), of 0] latest show ?thesis by (simp add: tail_sentences_ok)
  next
    case (Suc n)
    with assms(2) latest have n: "n < length ss" by simp
    have "tail_sentences (take n ss @ ps @ drop (Suc n) ss)"
      using mid [OF ss(1), of "Suc n"] tail_sentences_take [OF ss(1) n] assms(4)
      by (subst tail_sentences_append) auto
    with ss(2) n Suc latest show ?thesis by (auto simp: sentences_ok_def)
  qed
qed

end
