(* ===== verification/Sentence_Locks.thy ===== *)
theory Sentence_Locks
  imports Protocol
begin

text \<open>
  The lock tables of \<^verbatim>\<open>storage_server/storage_server.c\<close>: \<open>get_or_create_lock\<close>,
  \<open>try_acquire_lock\<close>, \<open>release_lock\<close> and \<open>get_or_create_file_commit_lock\<close>.  The locale
  \<open>lock_service\<close> is what the write sessions rely on: a key has at most one holder, a busy
  key is refused, and only a release gives it back.
\<close>

section \<open>The interface\<close>

datatype ('k, 'u) lock_op = Acquire 'k 'u | Release 'k

text \<open>The table after a sequence of calls, with the keys and users of the successful acquisitions.\<close>

fun run_locks :: "('t \<Rightarrow> 'k \<Rightarrow> 'u \<Rightarrow> bool \<times> 't) \<Rightarrow> ('t \<Rightarrow> 'k \<Rightarrow> 't) \<Rightarrow> 't \<Rightarrow> ('k, 'u) lock_op list
    \<Rightarrow> bool list \<times> 't" where
  "run_locks acq rel t [] = ([], t)"
| "run_locks acq rel t (Acquire k u # ops) =
     (case acq t k u of (b, t') \<Rightarrow> case run_locks acq rel t' ops of (bs, t'') \<Rightarrow> (b # bs, t''))"
| "run_locks acq rel t (Release k # ops) =
     (case run_locks acq rel (rel t k) ops of (bs, t'') \<Rightarrow> (True # bs, t''))"

locale lock_service =
  fixes acquire :: "'t \<Rightarrow> 'k \<Rightarrow> 'u \<Rightarrow> bool \<times> 't"
    and release :: "'t \<Rightarrow> 'k \<Rightarrow> 't"
    and holder :: "'t \<Rightarrow> 'k \<Rightarrow> 'u option"
    and invar :: "'t \<Rightarrow> bool"
  assumes invar_acquire: "invar t \<Longrightarrow> invar (snd (acquire t k u))"
    and invar_release: "invar t \<Longrightarrow> invar (release t k)"
    and acquire_busy: "invar t \<Longrightarrow> holder t k = Some v \<Longrightarrow> fst (acquire t k u) = False"
    and acquire_ok: "invar t \<Longrightarrow> fst (acquire t k u) \<Longrightarrow> holder (snd (acquire t k u)) = (holder t)(k \<mapsto> u)"
    and acquire_refused: "invar t \<Longrightarrow> \<not> fst (acquire t k u) \<Longrightarrow> holder (snd (acquire t k u)) = holder t"
    and release_holder: "invar t \<Longrightarrow> holder (release t k) = (holder t)(k := None)"
begin

lemma run_keeps_holder:
  "invar t \<Longrightarrow> holder t k = Some u \<Longrightarrow> Release k \<notin> set ops \<Longrightarrow>
   holder (snd (run_locks acquire release t ops)) k = Some u"
proof (induction ops arbitrary: t)
  case (Cons op ops)
  show ?case
  proof (cases op)
    case (Acquire k' u')
    obtain b t' where bt: "acquire t k' u' = (b, t')" by fastforce
    have "invar t'" using invar_acquire [OF Cons.prems(1), of k' u'] bt by simp
    moreover have "holder t' k = Some u"
    proof (cases b)
      case True
      then have "k' \<noteq> k" using acquire_busy [OF Cons.prems(1), of k' u u'] Cons.prems(2) bt by auto
      with acquire_ok [OF Cons.prems(1), of k' u'] bt True Cons.prems(2) show ?thesis by simp
    next
      case False
      with acquire_refused [OF Cons.prems(1), of k' u'] bt Cons.prems(2) show ?thesis by simp
    qed
    ultimately have "holder (snd (run_locks acquire release t' ops)) k = Some u"
      using Cons.IH Cons.prems(3) by simp
    with bt Acquire show ?thesis by (simp add: case_prod_unfold)
  next
    case (Release k')
    with Cons.prems have "invar (release t k')" "holder (release t k') k = Some u"
      by (auto simp: release_holder invar_release)
    with Cons.IH [of "release t k'"] Cons.prems(3) Release show ?thesis by (simp add: case_prod_unfold)
  qed
qed simp

text \<open>Mutual exclusion over any sequence of calls.\<close>

lemma mutual_exclusion:
  assumes "invar t" "fst (acquire t k u)" "Release k \<notin> set ops"
  shows "\<not> fst (acquire (snd (run_locks acquire release (snd (acquire t k u)) ops)) k v)"
proof -
  let ?t = "snd (acquire t k u)"
  have inv: "invar (snd (run_locks acquire release t ops))" if "invar t" for t ops
    using that
  proof (induction ops arbitrary: t)
    case (Cons op ops)
    show ?case
    proof (cases op)
      case (Acquire k u)
      with Cons.IH [OF invar_acquire [OF Cons.prems]] show ?thesis by (simp add: case_prod_unfold)
    next
      case (Release k)
      with Cons.IH [OF invar_release [OF Cons.prems]] show ?thesis by (simp add: case_prod_unfold)
    qed
  qed simp
  have "holder ?t k = Some u" using acquire_ok assms(1,2) by simp
  with run_keeps_holder [OF invar_acquire [OF assms(1)] this assms(3)]
  have "holder (snd (run_locks acquire release ?t ops)) k = Some u" by simp
  with acquire_busy [OF inv [OF invar_acquire [OF assms(1)]]] show ?thesis by simp
qed

end

section \<open>Sentence locks\<close>

record lock_entry =
  le_filename :: string
  le_sentence_idx :: int
  le_locked_by :: string
  le_is_locked :: bool

type_synonym lock_table = "lock_entry list"

definition lock_index :: "lock_table \<Rightarrow> string \<Rightarrow> int \<Rightarrow> nat option" where
  "lock_index t filename sentence_idx =
     find_idx (\<lambda>e. le_filename e = filename \<and> le_sentence_idx e = sentence_idx) t"

text \<open>The entry, by its place in the table, and the table; \<open>None\<close> when the table is full.\<close>

definition get_or_create_lock :: "lock_table \<Rightarrow> string \<Rightarrow> int \<Rightarrow> nat option \<times> lock_table" where
  "get_or_create_lock t filename sentence_idx =
     (case lock_index t filename sentence_idx of
        Some i \<Rightarrow> (Some i, t)
      | None \<Rightarrow> if length t < 1000
                then (Some (length t), t @ [\<lparr>le_filename = filename, le_sentence_idx = sentence_idx,
                                             le_locked_by = [], le_is_locked = False\<rparr>])
                else (None, t))"

definition try_acquire_lock :: "lock_table \<Rightarrow> string \<times> int \<Rightarrow> string \<Rightarrow> bool \<times> lock_table" where
  "try_acquire_lock t key username =
     (case get_or_create_lock t (fst key) (snd key) of
        (None, t') \<Rightarrow> (False, t')
      | (Some i, t') \<Rightarrow>
          if le_is_locked (t' ! i) then (False, t')
          else (True, t'[i := (t' ! i)\<lparr>le_is_locked := True, le_locked_by := username\<rparr>]))"

definition release_lock :: "lock_table \<Rightarrow> string \<times> int \<Rightarrow> lock_table" where
  "release_lock t key =
     (case get_or_create_lock t (fst key) (snd key) of
        (None, t') \<Rightarrow> t'
      | (Some i, t') \<Rightarrow> t'[i := (t' ! i)\<lparr>le_is_locked := False, le_locked_by := []\<rparr>])"

definition lock_holder :: "lock_table \<Rightarrow> string \<times> int \<Rightarrow> string option" where
  "lock_holder t key =
     (case lock_index t (fst key) (snd key) of
        None \<Rightarrow> None
      | Some i \<Rightarrow> if le_is_locked (t ! i) then Some (le_locked_by (t ! i)) else None)"

definition entry_key :: "lock_entry \<Rightarrow> string \<times> int" where
  "entry_key e = (le_filename e, le_sentence_idx e)"

definition locks_ok :: "lock_table \<Rightarrow> bool" where
  "locks_ok t \<longleftrightarrow> distinct (map entry_key t) \<and> length t \<le> 1000"

lemma lock_index_eq: "lock_index t f i = find_idx (\<lambda>k. k = (f, i)) (map entry_key t)"
  by (simp add: lock_index_def find_idx_map comp_def entry_key_def)

lemma get_or_create_cases [consumes 1, case_names full entry]:
  assumes "locks_ok t"
  obtains (full) "get_or_create_lock t f i = (None, t)" "lock_index t f i = None" "length t = 1000"
  | (entry) n t' where "get_or_create_lock t f i = (Some n, t')" "locks_ok t'" "n < length t'"
      "lock_index t' f i = Some n" "lock_holder t' = lock_holder t" "entry_key (t' ! n) = (f, i)"
proof (cases "lock_index t f i")
  case (Some n)
  then have "n < length t \<and> entry_key (t ! n) = (f, i)"
    by (auto simp: lock_index_def entry_key_def dest: find_idx_SomeD)
  with Some assms show thesis by (intro entry [of n t]) (auto simp: get_or_create_lock_def)
next
  case None
  show thesis
  proof (cases "length t < 1000")
    case True
    let ?e = "\<lparr>le_filename = f, le_sentence_idx = i, le_locked_by = [], le_is_locked = False\<rparr>"
    let ?t = "t @ [?e]"
    have new: "(f, i) \<notin> set (map entry_key t)" using None by (auto simp: lock_index_eq find_idx_None)
    have "lock_holder ?t k = lock_holder t k" for k
      by (cases k) (auto simp: lock_holder_def lock_index_def find_idx_append nth_append
          dest: find_idx_lt split: option.splits)
    moreover have "lock_index ?t f i = Some (length t)"
      using None by (simp add: lock_index_def find_idx_append)
    moreover have "locks_ok ?t" using assms new True by (simp add: locks_ok_def entry_key_def)
    ultimately show thesis using None True
      by (intro entry [of "length t" ?t]) (auto simp: get_or_create_lock_def entry_key_def)
  next
    case False
    with None assms show thesis by (intro full) (auto simp: get_or_create_lock_def locks_ok_def)
  qed
qed

text \<open>Changing the state of the entry of a key.\<close>

lemma lock_update:
  assumes "locks_ok t" "lock_index t f i = Some n" "n < length t"
    "entry_key e = entry_key (t ! n)"
  shows "locks_ok (t[n := e])"
    "lock_holder (t[n := e]) = (lock_holder t)((f, i) := if le_is_locked e then Some (le_locked_by e) else None)"
proof -
  have keys: "map entry_key (t[n := e]) = map entry_key t"
    using assms(3,4) by (metis list_update_id map_update nth_map)
  then show "locks_ok (t[n := e])" using assms(1) by (simp add: locks_ok_def)
  have idx: "lock_index (t[n := e]) g j = lock_index t g j" for g j by (simp add: lock_index_eq keys)
  show "lock_holder (t[n := e]) = (lock_holder t)((f, i) := if le_is_locked e then Some (le_locked_by e) else None)"
  proof
    fix k :: "string \<times> int"
    obtain g j where k: "k = (g, j)" by (cases k)
    show "lock_holder (t[n := e]) k
        = ((lock_holder t)((f, i) := if le_is_locked e then Some (le_locked_by e) else None)) k"
    proof (cases "lock_index t g j = Some n")
      case True
      then have "entry_key (t ! n) = (g, j)" "entry_key (t ! n) = (f, i)"
        using assms(2) by (auto simp: lock_index_def entry_key_def dest!: find_idx_SomeD)
      with True assms(3) k idx show ?thesis by (simp add: lock_holder_def)
    next
      case False
      with assms(2) have "(g, j) \<noteq> (f, i)" by auto
      with False k idx show ?thesis by (auto simp: lock_holder_def split: option.split)
    qed
  qed
qed

interpretation sentence_lock: lock_service try_acquire_lock release_lock lock_holder locks_ok
proof
  fix t u v and k :: "string \<times> int"
  assume t: "locks_ok t"
  obtain f i where k: "k = (f, i)" by (cases k)
  show "locks_ok (snd (try_acquire_lock t k u))"
    using t
  proof (cases rule: get_or_create_cases [of t f i])
    case full
    with t k show ?thesis by (simp add: try_acquire_lock_def)
  next
    case (entry n t')
    with k lock_update(1) [of t' f i n] show ?thesis
      by (simp add: try_acquire_lock_def entry_key_def)
  qed
  show "locks_ok (release_lock t k)"
    using t
  proof (cases rule: get_or_create_cases [of t f i])
    case full
    with t k show ?thesis by (simp add: release_lock_def)
  next
    case (entry n t')
    with k lock_update(1) [of t' f i n] show ?thesis by (simp add: release_lock_def entry_key_def)
  qed
  show "lock_holder (release_lock t k) = (lock_holder t)(k := None)"
    using t
  proof (cases rule: get_or_create_cases [of t f i])
    case full
    with k show ?thesis by (auto simp: release_lock_def lock_holder_def)
  next
    case (entry n t')
    with k lock_update(2) [of t' f i n] show ?thesis by (simp add: release_lock_def entry_key_def)
  qed
  { assume "lock_holder t k = Some v"
    then show "fst (try_acquire_lock t k u) = False"
      using k by (auto simp: try_acquire_lock_def get_or_create_lock_def lock_holder_def
          split: option.splits if_splits) }
  { assume "fst (try_acquire_lock t k u)"
    with t show "lock_holder (snd (try_acquire_lock t k u)) = (lock_holder t)(k \<mapsto> u)"
    proof (cases rule: get_or_create_cases [of t f i])
      case full
      with k \<open>fst (try_acquire_lock t k u)\<close> show ?thesis by (simp add: try_acquire_lock_def)
    next
      case (entry n t')
      with k \<open>fst (try_acquire_lock t k u)\<close> lock_update(2) [of t' f i n] show ?thesis
        by (simp add: try_acquire_lock_def entry_key_def split: if_splits)
    qed }
  { assume "\<not> fst (try_acquire_lock t k u)"
    with t show "lock_holder (snd (try_acquire_lock t k u)) = lock_holder t"
    proof (cases rule: get_or_create_cases [of t f i])
      case full
      with k show ?thesis by (simp add: try_acquire_lock_def)
    next
      case (entry n t')
      with k \<open>\<not> fst (try_acquire_lock t k u)\<close> show ?thesis
        by (simp add: try_acquire_lock_def split: if_splits)
    qed }
qed

text \<open>A free key is granted as long as the table has room for it.\<close>

lemma try_acquire_free:
  assumes "lock_holder t k = None" "lock_index t (fst k) (snd k) \<noteq> None \<or> length t < 1000"
  shows "fst (try_acquire_lock t k u)"
  using assms by (auto simp: try_acquire_lock_def get_or_create_lock_def lock_holder_def split: option.splits if_splits)

section \<open>Commit locks\<close>

text \<open>The table of per-file commit locks; without an entry the commit runs unlocked.\<close>

definition get_or_create_file_commit_lock :: "string list \<Rightarrow> string \<Rightarrow> nat option \<times> string list" where
  "get_or_create_file_commit_lock t filename =
     (case find_idx (\<lambda>f. f = filename) t of
        Some i \<Rightarrow> (Some i, t)
      | None \<Rightarrow> if length t < 1000 then (Some (length t), t @ [strncpy_buf MAX_FILENAME_LEN filename]) else (None, t))"

lemma commit_lock_same:
  assumes "get_or_create_file_commit_lock t f = (Some i, t')" "length f < MAX_FILENAME_LEN"
  shows "get_or_create_file_commit_lock t' f = (Some i, t')"
  using assms by (auto simp: get_or_create_file_commit_lock_def find_idx_append split: option.splits if_splits)

end
