(* ===== verification/Undo_Store.thy ===== *)
theory Undo_Store
  imports Orion_Prelude
begin

text \<open>
  The undo storage of \<^verbatim>\<open>storage_server/storage_server.c\<close>: \<open>save_undo\<close> and \<open>get_undo\<close> over an
  array of 1000 entries whose slots are never given back.  The locale \<open>snapshot_store\<close> is
  what the write and undo handlers rely on: the last snapshot saved for a name is the one
  that is returned, once.
\<close>

section \<open>The interface\<close>

locale snapshot_store =
  fixes save :: "'t \<Rightarrow> 'k \<Rightarrow> 'v \<Rightarrow> 't"
    and take_out :: "'t \<Rightarrow> 'k \<Rightarrow> 'v option \<times> 't"
    and peek :: "'t \<Rightarrow> 'k \<Rightarrow> 'v option"
    and room :: "'t \<Rightarrow> 'k \<Rightarrow> bool"
    and invar :: "'t \<Rightarrow> bool"
  assumes invar_save: "invar t \<Longrightarrow> invar (save t k v)"
    and invar_take: "invar t \<Longrightarrow> invar (snd (take_out t k))"
    and save_peek: "invar t \<Longrightarrow> peek (save t k v) = (if room t k then (peek t)(k \<mapsto> v) else peek t)"
    and take_value: "invar t \<Longrightarrow> fst (take_out t k) = peek t k"
    and take_peek: "invar t \<Longrightarrow> peek (snd (take_out t k)) = (peek t)(k := None)"
    and room_save: "invar t \<Longrightarrow> room t k \<Longrightarrow> room (save t k v) k"
begin

lemma take_after_save:
  "invar t \<Longrightarrow> room t k \<Longrightarrow> fst (take_out (save t k v) k) = Some v"
  by (simp add: take_value invar_save save_peek)

lemma last_save_wins:
  "invar t \<Longrightarrow> room t k \<Longrightarrow> fst (take_out (save (save t k v) k w) k) = Some w"
  by (simp add: take_value invar_save save_peek room_save)

lemma take_once:
  "invar t \<Longrightarrow> fst (take_out (snd (take_out t k)) k) = None"
  by (simp add: take_value invar_take take_peek)

lemma take_other:
  "invar t \<Longrightarrow> k \<noteq> l \<Longrightarrow> fst (take_out (save t l v) k) = fst (take_out t k)"
  by (simp add: take_value invar_save save_peek)

end

section \<open>The array\<close>

type_synonym undo_storage = "(string \<times> string option) list"

definition undo_index :: "undo_storage \<Rightarrow> string \<Rightarrow> nat option" where
  "undo_index u filename = find_idx (\<lambda>e. fst e = filename) u"

definition save_undo :: "undo_storage \<Rightarrow> string \<Rightarrow> string \<Rightarrow> undo_storage" where
  "save_undo u filename content =
     (case undo_index u filename of
        Some idx \<Rightarrow> u[idx := (fst (u ! idx), Some content)]
      | None \<Rightarrow> if length u < 1000 then u @ [(filename, Some content)] else u)"

definition get_undo :: "undo_storage \<Rightarrow> string \<Rightarrow> string option \<times> undo_storage" where
  "get_undo u filename =
     (case undo_index u filename of
        Some i \<Rightarrow> (snd (u ! i), u[i := (fst (u ! i), None)])
      | None \<Rightarrow> (None, u))"

definition undo_peek :: "undo_storage \<Rightarrow> string \<Rightarrow> string option" where
  "undo_peek u filename = (case undo_index u filename of Some i \<Rightarrow> snd (u ! i) | None \<Rightarrow> None)"

definition undo_room :: "undo_storage \<Rightarrow> string \<Rightarrow> bool" where
  "undo_room u filename \<longleftrightarrow> undo_index u filename \<noteq> None \<or> length u < 1000"

definition undo_ok :: "undo_storage \<Rightarrow> bool" where
  "undo_ok u \<longleftrightarrow> distinct (map fst u) \<and> length u \<le> 1000"

lemma undo_index_keys: "undo_index u f = find_idx (\<lambda>k. k = f) (map fst u)"
  by (simp add: undo_index_def find_idx_map comp_def)

lemma map_fst_update [simp]: "map fst (u[i := (fst (u ! i), v)]) = map fst u"
  by (metis fst_conv list_update_id map_update)

lemma undo_peek_update:
  assumes "undo_index u f = Some i"
  shows "undo_peek (u[i := (fst (u ! i), v)]) = (undo_peek u)(f := v)"
proof
  fix g
  have i: "i < length u" "fst (u ! i) = f" using assms by (auto simp: undo_index_def dest!: find_idx_SomeD)
  have idx: "undo_index (u[i := (fst (u ! i), v)]) h = undo_index u h" for h
    by (simp only: undo_index_keys map_fst_update)
  show "undo_peek (u[i := (fst (u ! i), v)]) g = ((undo_peek u)(f := v)) g"
  proof (cases "undo_index u g = Some i")
    case True
    then have "g = f" using i by (auto simp: undo_index_def dest!: find_idx_SomeD)
    with True i(1) assms idx show ?thesis by (simp add: undo_peek_def)
  next
    case False
    with assms have "g \<noteq> f" by auto
    with False idx show ?thesis by (auto simp: undo_peek_def split: option.split)
  qed
qed

lemma undo_peek_snoc:
  assumes "undo_index u f = None"
  shows "undo_peek (u @ [(f, v)]) = (undo_peek u)(f := v)"
  using assms by (auto simp: fun_eq_iff undo_peek_def undo_index_def find_idx_append nth_append
      dest: find_idx_lt split: option.split)

interpretation undo: snapshot_store save_undo get_undo undo_peek undo_room undo_ok
proof
  fix t k v
  assume t: "undo_ok t"
  show "undo_ok (save_undo t k v)"
  proof (cases "undo_index t k")
    case None
    then have "k \<notin> fst ` set t" by (auto simp: undo_index_def find_idx_None)
    with t None show ?thesis by (auto simp: save_undo_def undo_ok_def)
  next
    case (Some i)
    with t show ?thesis by (simp add: save_undo_def undo_ok_def)
  qed
  show "undo_ok (snd (get_undo t k))"
    using t by (auto simp: get_undo_def undo_ok_def split: option.split)
  show "undo_peek (save_undo t k v) = (if undo_room t k then (undo_peek t)(k \<mapsto> v) else undo_peek t)"
    by (auto simp: save_undo_def undo_room_def undo_peek_update undo_peek_snoc split: option.split)
  show "fst (get_undo t k) = undo_peek t k"
    by (simp add: get_undo_def undo_peek_def split: option.split)
  show "undo_peek (snd (get_undo t k)) = (undo_peek t)(k := None)"
    by (auto simp: get_undo_def undo_peek_update split: option.split)
       (auto simp: undo_peek_def fun_eq_iff split: option.split)
  assume "undo_room t k"
  then show "undo_room (save_undo t k v) k"
    by (auto simp: undo_room_def save_undo_def undo_index_def find_idx_append split: option.splits)
       (metis undo_index_def undo_index_keys map_fst_update option.distinct(1))+
qed

end
