(* ===== verification/Storage_Server.thy ===== *)
theory Storage_Server
  imports File_Updates Write_Commit Sentence_Locks Undo_Store
begin

text \<open>
  The handlers of \<^verbatim>\<open>storage_server/storage_server.c\<close>: its state, one definition per handler,
  the write session cut into the steps between which other threads can run, and the two
  dispatchers.  A handler returns the messages it sends, with the connection they go to, and
  the new state.  Logging, the delay of the streaming loop and the acknowledgements of
  the naming server, which the code reads and drops, are left out.
\<close>

section \<open>State\<close>

record storage_server =
  ss_fs :: fs
  ss_dir :: string
  ss_locks :: lock_table
  ss_commit_locks :: "string list"
  ss_undo :: undo_storage

datatype peer = Client | Naming_Server

type_synonym ss_output = "(peer \<times> message) list"

definition locate :: "storage_server \<Rightarrow> string \<Rightarrow> string" where
  "locate S filename =
     (case resolve_existing_file_path (ss_fs S) (ss_dir S) filename 700 of
        Some p \<Rightarrow> p | None \<Rightarrow> get_filepath (ss_dir S) filename)"

text \<open>The two calls with which every handler replaces the content of a file.\<close>

definition write_back :: "storage_server \<Rightarrow> string \<Rightarrow> string \<Rightarrow> string \<Rightarrow> storage_server" where
  "write_back S filepath filename content =
     S\<lparr>ss_fs := update_backup_for_file (snd (atomic_write_file (ss_fs S) filepath content)) filename content\<rparr>"

definition metadata_message :: "string \<Rightarrow> string \<Rightarrow> message" where
  "metadata_message filename content =
     message_zero\<lparr>m_type := MSG_UPDATE_METADATA, m_filename := filename,
                  m_arg1 := int (length (strtok blanks content)), m_arg2 := int (length content)\<rparr>"

section \<open>Creating, deleting, reading\<close>

definition handle_create_file :: "storage_server \<Rightarrow> message \<Rightarrow> ss_output \<times> storage_server" where
  "handle_create_file S msg =
     (let filepath = get_filepath (ss_dir S) (m_filename msg) in
      if file_exists (ss_fs S) filepath
      then ([(Naming_Server, error_reply ERR_FILE_EXISTS ''File exists'')], S)
      else (case fopen_write (ss_fs S) filepath of
              None \<Rightarrow> ([(Naming_Server, error_reply ERR_UNKNOWN [])], S)
            | Some (p, F) \<Rightarrow>
                ([(Naming_Server, ack_reply ''File created'')],
                 S\<lparr>ss_fs := update_backup_for_file F (m_filename msg) []\<rparr>)))"

definition handle_delete_file :: "storage_server \<Rightarrow> message \<Rightarrow> ss_output \<times> storage_server" where
  "handle_delete_file S msg =
     (case unlink (ss_fs S) (get_filepath (ss_dir S) (m_filename msg)) of
        Some F \<Rightarrow> ([(Naming_Server, ack_reply ''File deleted'')], S\<lparr>ss_fs := F\<rparr>)
      | None \<Rightarrow> ([(Naming_Server, error_reply ERR_FILE_NOT_FOUND [])], S))"

definition handle_read_file :: "storage_server \<Rightarrow> message \<Rightarrow> ss_output \<times> storage_server" where
  "handle_read_file S msg =
     (case read_file_content (ss_fs S) (locate S (m_filename msg)) of
        None \<Rightarrow> ([(Client, error_reply ERR_FILE_NOT_FOUND ''File not found'')], S)
      | Some content \<Rightarrow> ([(Client, ack_reply (strncpy_buf MAX_CONTENT_LEN content))], S))"

text \<open>The words go out one by one; a word that does not fit a message overruns it.\<close>

fun stream_words :: "string list \<Rightarrow> ss_output result" where
  "stream_words [] = Inr []"
| "stream_words (w # ws) =
     ebind (strcpy_buf MAX_CONTENT_LEN w) (\<lambda>d. ebind (stream_words ws) (\<lambda>out. Inr ((Client, ack_reply d) # out)))"

definition handle_stream_file :: "storage_server \<Rightarrow> message \<Rightarrow> (ss_output \<times> storage_server) result" where
  "handle_stream_file S msg =
     (case read_file_content (ss_fs S) (locate S (m_filename msg)) of
        None \<Rightarrow> Inr ([(Client, error_reply ERR_FILE_NOT_FOUND ''ERROR: File not found.'')], S)
      | Some content \<Rightarrow>
          ebind (stream_words (take 10000 (strtok blanks content)))
            (\<lambda>out. Inr (out @ [(Client, ack_reply ''END_OF_FILE'')], S)))"

definition handle_undo_file :: "storage_server \<Rightarrow> message \<Rightarrow> ss_output \<times> storage_server" where
  "handle_undo_file S msg =
     (case get_undo (ss_undo S) (m_filename msg) of
        (None, u) \<Rightarrow> ([(Client, error_reply ERR_UNKNOWN ''No undo history'')], S\<lparr>ss_undo := u\<rparr>)
      | (Some undo_content, u) \<Rightarrow>
          ([(Client, ack_reply ''Undo Successful!'')],
           write_back (S\<lparr>ss_undo := u\<rparr>) (locate S (m_filename msg)) (m_filename msg) undo_content))"

section \<open>Write sessions\<close>

record write_session =
  ws_path :: string
  ws_filename :: string
  ws_idx :: int
  ws_append :: bool
  ws_words :: "string list"
  ws_orig :: string
  ws_prev :: string

text \<open>Opening: where the file is and what it holds, nothing if it cannot be read.\<close>

definition write_open :: "storage_server \<Rightarrow> message \<Rightarrow> string \<times> string" where
  "write_open S msg =
     (let filepath = locate S (m_filename msg)
      in (filepath, case read_file_content (ss_fs S) filepath of Some c \<Rightarrow> c | None \<Rightarrow> []))"

definition new_session :: "message \<Rightarrow> string \<Rightarrow> string list \<Rightarrow> write_session" where
  "new_session msg filepath sentences =
     (let idx = m_arg1 msg;
          target = (if idx < int (length sentences) then strncpy_buf MAX_CONTENT_LEN (sentences ! nat idx) else [])
      in \<lparr>ws_path = filepath, ws_filename = m_filename msg, ws_idx = idx,
          ws_append = (idx = int (length sentences)), ws_words = sentence_words target, ws_orig = target,
          ws_prev = (if 0 < idx \<and> idx - 1 < int (length sentences)
                     then strncpy_buf MAX_CONTENT_LEN (sentences ! nat (idx - 1)) else [])\<rparr>)"

text \<open>Checking the index, taking the lock, saving the undo snapshot.\<close>

definition write_begin :: "storage_server \<Rightarrow> message \<Rightarrow> string \<Rightarrow> string
    \<Rightarrow> (ss_output \<times> write_session option \<times> storage_server) result" where
  "write_begin S msg filepath current_content =
     ebind (parse_sentences current_content) (\<lambda>sentences.
       if \<not> index_allowed (m_arg1 msg) (length sentences) current_content
       then Inr ([(Client, error_reply ERR_INVALID_INDEX ''ERROR: Sentence index out of range.'')], None, S)
       else (case try_acquire_lock (ss_locks S) (m_filename msg, m_arg1 msg) (m_sender msg) of
               (False, t) \<Rightarrow> Inr ([(Client, error_reply ERR_SENTENCE_LOCKED ''Sentence is locked'')], None,
                                 S\<lparr>ss_locks := t\<rparr>)
             | (True, t) \<Rightarrow>
                 Inr ([(Client, ack_reply ''READY'')], Some (new_session msg filepath sentences),
                      S\<lparr>ss_locks := t, ss_undo := save_undo (ss_undo S) (m_filename msg) current_content\<rparr>)))"

text \<open>The receiving loop; the input ends where the connection does.\<close>

fun write_loop :: "write_session \<Rightarrow> message list \<Rightarrow> ss_output \<times> write_session \<times> bool" where
  "write_loop ws [] = ([], ws, False)"
| "write_loop ws (m # ms) =
     (if m_data m = ''ETIRW'' then ([], ws, True)
      else (case update_words (ws_words ws) (m_arg1 m) (m_data m) of
              Inl err \<Rightarrow> (case write_loop ws ms of (out, r) \<Rightarrow> ((Client, err) # out, r))
            | Inr words \<Rightarrow> write_loop (ws\<lparr>ws_words := words\<rparr>) ms))"

text \<open>The commit, under the commit lock of the file.\<close>

definition write_commit :: "storage_server \<Rightarrow> write_session \<Rightarrow> (ss_output \<times> storage_server) result" where
  "write_commit S ws =
     ebind (build_sentence (ws_words ws)) (\<lambda>new_sentence.
       let S1 = S\<lparr>ss_commit_locks := snd (get_or_create_file_commit_lock (ss_commit_locks S) (ws_filename ws))\<rparr>;
           latest_content = (case read_file_content (ss_fs S1) (ws_path ws) of Some c \<Rightarrow> c | None \<Rightarrow> [])
       in ebind (merged_content (ws_idx ws) (ws_append ws) (ws_orig ws) (ws_prev ws) new_sentence latest_content)
            (\<lambda>merged. case merged of
               None \<Rightarrow> Inr ([(Client, error_reply ERR_INVALID_INDEX ''ERROR: File changed; retry write.'')], S1)
             | Some final_content \<Rightarrow>
                 Inr ([(Naming_Server, metadata_message (ws_filename ws) final_content),
                       (Client, ack_reply ''Write Successful!'')],
                      write_back S1 (ws_path ws) (ws_filename ws) final_content)))"

definition write_release :: "storage_server \<Rightarrow> write_session \<Rightarrow> storage_server" where
  "write_release S ws = S\<lparr>ss_locks := release_lock (ss_locks S) (ws_filename ws, ws_idx ws)\<rparr>"

text \<open>The whole handler, when no other thread runs in between.\<close>

definition handle_write_file :: "storage_server \<Rightarrow> message \<Rightarrow> message list \<Rightarrow> (ss_output \<times> storage_server) result" where
  "handle_write_file S msg inputs =
     (case write_open S msg of (filepath, current_content) \<Rightarrow>
      ebind (write_begin S msg filepath current_content) (\<lambda>(out, session, S1).
        case session of
          None \<Rightarrow> Inr (out, S1)
        | Some ws \<Rightarrow>
            (case write_loop ws inputs of (errs, ws', committed) \<Rightarrow>
               if committed
               then ebind (write_commit S1 ws') (\<lambda>(out', S2). Inr (out @ errs @ out', write_release S2 ws'))
               else Inr (out @ errs, write_release S1 ws'))))"

section \<open>Checkpoints\<close>

definition snapshot_path :: "storage_server \<Rightarrow> message \<Rightarrow> string" where
  "snapshot_path S msg =
     take 899 (build_checkpoint_dir_for_file (ss_fs S) (ss_dir S) (m_filename msg) 800 @ CHR ''/'' # m_data msg @ ''.chk'')"

definition handle_cp_create :: "storage_server \<Rightarrow> message \<Rightarrow> ss_output \<times> storage_server" where
  "handle_cp_create S msg =
     (case read_file_content (ss_fs S) (locate S (m_filename msg)) of
        None \<Rightarrow> ([(Client, error_reply ERR_FILE_NOT_FOUND ''ERROR: File not found.'')], S)
      | Some content \<Rightarrow>
          (let cpdir = build_checkpoint_dir_for_file (ss_fs S) (ss_dir S) (m_filename msg) 800;
               F = snd (mkdir_p (ss_fs S) cpdir)
           in ([(Client, ack_reply ''Checkpoint created successfully!'')],
               S\<lparr>ss_fs := snd (atomic_write_file F (take 899 (cpdir @ CHR ''/'' # m_data msg @ ''.chk'')) content)\<rparr>)))"

definition handle_cp_view :: "storage_server \<Rightarrow> message \<Rightarrow> ss_output \<times> storage_server" where
  "handle_cp_view S msg =
     (case read_file_content (ss_fs S) (snapshot_path S msg) of
        None \<Rightarrow> ([(Client, error_reply ERR_FILE_NOT_FOUND ''ERROR: Checkpoint not found.'')], S)
      | Some snap \<Rightarrow> ([(Client, ack_reply (strncpy_buf MAX_CONTENT_LEN snap))], S))"

text \<open>The tags: the names that end in \<^verbatim>\<open>.chk\<close> and are longer than that.\<close>

definition checkpoint_lines :: "string list \<Rightarrow> string list" where
  "checkpoint_lines ents =
     map (\<lambda>d. ''--> '' @ take (length d - 4) d @ [nl])
       (filter (\<lambda>d. \<not> (d \<noteq> [] \<and> hd d = CHR ''.'') \<and> 4 < length d \<and> drop (length d - 4) d = ''.chk'') ents)"

definition handle_cp_list :: "storage_server \<Rightarrow> message \<Rightarrow> (ss_output \<times> storage_server) result" where
  "handle_cp_list S msg =
     (let cpdir = build_checkpoint_dir_for_file (ss_fs S) (ss_dir S) (m_filename msg) 800 in
      ebind (case readdir_entries (ss_fs S) cpdir of
               None \<Rightarrow> Inr []
             | Some ents \<Rightarrow> strcat_all MAX_CONTENT_LEN [] (checkpoint_lines ents))
        (\<lambda>d. Inr ([(Client, ack_reply d)], S)))"

definition handle_cp_revert :: "storage_server \<Rightarrow> message \<Rightarrow> ss_output \<times> storage_server" where
  "handle_cp_revert S msg =
     (case read_file_content (ss_fs S) (snapshot_path S msg) of
        None \<Rightarrow> ([(Client, error_reply ERR_FILE_NOT_FOUND ''ERROR: Checkpoint not found.'')], S)
      | Some snap \<Rightarrow>
          ([(Naming_Server, metadata_message (m_filename msg) snap), (Client, ack_reply ''Revert successful!'')],
           write_back S (locate S (m_filename msg)) (m_filename msg) snap))"

section \<open>Requests of the naming server\<close>

definition handle_create_folder_ss :: "storage_server \<Rightarrow> message \<Rightarrow> ss_output \<times> storage_server" where
  "handle_create_folder_ss S msg =
     ([(Naming_Server, ack_reply ''FOLDER_OK'')],
      S\<lparr>ss_fs := mkdir (ss_fs S) (take 599 (ss_dir S @ CHR ''/'' # m_data msg))\<rparr>)"

definition handle_move_file_ss :: "storage_server \<Rightarrow> message \<Rightarrow> ss_output \<times> storage_server" where
  "handle_move_file_ss S msg =
     (case resolve_existing_file_path (ss_fs S) (ss_dir S) (m_filename msg) 700 of
        None \<Rightarrow> ([(Naming_Server, error_reply ERR_SUCCESS ''MOVE_NOT_FOUND'')], S)
      | Some cur \<Rightarrow>
          (let dst_dir = take 599 (ss_dir S @ CHR ''/'' # m_data msg);
               F = mkdir (ss_fs S) dst_dir;
               dst = take 799 (dst_dir @ CHR ''/'' # m_filename msg)
           in ([(Naming_Server, ack_reply ''MOVE_OK'')],
               S\<lparr>ss_fs := (case rename_file F cur dst of Some F' \<Rightarrow> F' | None \<Rightarrow> F)\<rparr>)))"

definition handle_push_content :: "storage_server \<Rightarrow> message \<Rightarrow> ss_output \<times> storage_server" where
  "handle_push_content S msg =
     ([(Naming_Server, metadata_message (m_filename msg) (m_data msg)), (Naming_Server, ack_reply ''WRITE_OK'')],
      write_back S (locate S (m_filename msg)) (m_filename msg) (m_data msg))"

definition nm_request :: "storage_server \<Rightarrow> message \<Rightarrow> ss_output \<times> storage_server" where
  "nm_request S msg =
     (case m_type msg of
        MSG_CREATE_FILE_SS \<Rightarrow> handle_create_file S msg
      | MSG_DELETE_FILE_SS \<Rightarrow> handle_delete_file S msg
      | MSG_CREATE_FOLDER_SS \<Rightarrow> handle_create_folder_ss S msg
      | MSG_MOVE_FILE_SS \<Rightarrow> handle_move_file_ss S msg
      | MSG_WRITE_FILE_SS \<Rightarrow> handle_push_content S msg
      | MSG_SS_HEARTBEAT \<Rightarrow> ([(Naming_Server, ack_reply ''PONG'')], S)
      | _ \<Rightarrow> ([], S))"

section \<open>Connections of clients\<close>

text \<open>One connection: the request and the messages that follow it.\<close>

definition handle_client_connection :: "storage_server \<Rightarrow> message list \<Rightarrow> (ss_output \<times> storage_server) result" where
  "handle_client_connection S inputs =
     (case inputs of
        [] \<Rightarrow> Inr ([], S)
      | msg # rest \<Rightarrow>
          (case m_type msg of
             MSG_READ_REQUEST \<Rightarrow> Inr (handle_read_file S msg)
           | MSG_WRITE_REQUEST \<Rightarrow> handle_write_file S msg rest
           | MSG_STREAM_REQUEST \<Rightarrow> handle_stream_file S msg
           | MSG_EXEC_READ_REQUEST \<Rightarrow> Inr (handle_read_file S msg)
           | MSG_UNDO_FILE \<Rightarrow> Inr (handle_undo_file S msg)
           | MSG_CP_CREATE \<Rightarrow> Inr (handle_cp_create S msg)
           | MSG_CP_VIEW \<Rightarrow> Inr (handle_cp_view S msg)
           | MSG_CP_LIST \<Rightarrow> handle_cp_list S msg
           | MSG_CP_REVERT \<Rightarrow> Inr (handle_cp_revert S msg)
           | _ \<Rightarrow> Inr ([], S)))"

section \<open>Start\<close>

text \<open>The directories of \<open>main\<close>, and the message with which the server registers.\<close>

definition start_storage_server :: "fs \<Rightarrow> string \<Rightarrow> storage_server" where
  "start_storage_server F ss_id =
     (let dir = ''data/ss_storage/'' @ ss_id
      in \<lparr>ss_fs = mkdir (mkdir (mkdir F ''data'') ''data/ss_storage'') dir, ss_dir = dir,
          ss_locks = [], ss_commit_locks = [], ss_undo = []\<rparr>)"

fun list_files :: "fs \<Rightarrow> string \<Rightarrow> bool \<Rightarrow> string \<Rightarrow> string list \<Rightarrow> string" where
  "list_files F dir first listbuf [] = listbuf"
| "list_files F dir first listbuf (d_name # ents) =
     (if d_name \<noteq> [] \<and> hd d_name = CHR ''.'' then list_files F dir first listbuf ents
      else if \<not> is_regular F (dir @ CHR ''/'' # d_name) then list_files F dir first listbuf ents
      else (let b = (if first then listbuf else listbuf @ take (MAX_CONTENT_LEN - length listbuf - 1) '','')
            in list_files F dir False (b @ take (MAX_CONTENT_LEN - length b - 1) d_name) ents))"

definition register_message :: "storage_server \<Rightarrow> string \<Rightarrow> int \<Rightarrow> int \<Rightarrow> message" where
  "register_message S ss_id ss_nm_port ss_client_port =
     message_zero\<lparr>m_type := MSG_SS_REGISTER, m_sender := ss_id, m_arg1 := ss_nm_port, m_arg2 := ss_client_port,
       m_data := (case readdir_entries (ss_fs S) (ss_dir S) of
                    None \<Rightarrow> [] | Some ents \<Rightarrow> list_files (ss_fs S) (ss_dir S) True [] ents)\<rparr>"

end
