(* ===== verification/Storage_Facts.thy ===== *)
theory Storage_Facts
  imports Storage_Server
begin

text \<open>
  What the handlers of the storage server do to the files: replacing a file and its backup
  copy, the effect of write sessions that commit and of those that do not, undo and
  checkpoints as inverses of the changes after them, and the parts of the state each
  handler leaves alone.
\<close>

section \<open>Files with a place\<close>

text \<open>
  The file \<open>f\<close> is found at \<open>d/f\<close>, in the directory \<open>D\<close>; the place can be written, lies outside the
  backup directory, and the name leaves room for the backup path.
\<close>

definition placed :: "storage_server \<Rightarrow> string \<Rightarrow> string \<Rightarrow> string list \<Rightarrow> bool" where
  "placed S f d D \<longleftrightarrow> fs_ok (ss_fs S) \<and> locate S f = d @ CHR ''/'' # f \<and> writable_at (ss_fs S) d f D
     \<and> \<not> prefix (backup_dir (ss_fs S)) (D @ [f]) \<and> length f \<le> 238"

text \<open>A path by its directory and name, whether or not anything is there.\<close>

lemma node_of_place: "writable_at F d f D \<Longrightarrow> node_of F (d @ CHR ''/'' # f) = node_at F (D @ [f])"
  by (simp add: node_of_def writable_resolve)

lemma read_place:
  "writable_at F d f D \<Longrightarrow> node_at F (D @ [f]) = Some (RegularFile c) \<Longrightarrow>
   read_file_content F (d @ CHR ''/'' # f) = Some (c_string c)"
  by (simp add: read_file_content_def node_of_place)

text \<open>Writing back: the file has the new content, its surroundings and the directories stay.\<close>

lemma write_back_fs:
  assumes p: "placed S f d D"
  shows "node_at (ss_fs (write_back S (d @ CHR ''/'' # f) f s)) (D @ [f]) = Some (RegularFile (c_string s))"
    "fs_ok (ss_fs (write_back S (d @ CHR ''/'' # f) f s))" "keeps_dirs (ss_fs S) (ss_fs (write_back S (d @ CHR ''/'' # f) f s))"
    "read_file_content (ss_fs (write_back S (d @ CHR ''/'' # f) f s)) (d @ CHR ''/'' # f) = Some (c_string s)"
    "node_at (ss_fs S) q \<noteq> None \<Longrightarrow> q \<noteq> D @ [f] \<Longrightarrow> q \<noteq> D @ [f @ ''.tmp''] \<Longrightarrow>
     \<not> prefix (backup_dir (ss_fs S)) q \<Longrightarrow> node_at (ss_fs (write_back S (d @ CHR ''/'' # f) f s)) q = node_at (ss_fs S) q"
proof -
  let ?F = "ss_fs S" and ?F' = "ss_fs (write_back S (d @ CHR ''/'' # f) f s)" and ?p = "d @ CHR ''/'' # f"
  let ?G = "snd (atomic_write_file ?F ?p s)"
  have F: "fs_ok ?F" and w: "writable_at ?F d f D" and f: "plain_name f" "length f \<le> 238"
    and out: "\<not> prefix (backup_dir ?F) (D @ [f])"
    using p by (auto simp: placed_def writable_at_def)
  note spec = atomic_write_spec [OF F w, of s]
  note fr = atomic_write_frame [OF F, where path = ?p and s = s]
  have G: "fs_ok ?G" by (rule fr(1))
  have bd: "backup_dir ?G = backup_dir ?F" using fr(2) by (simp add: backup_dir_def same_dirs_def)
  note bf = backup_frame [OF G f, where s = s, unfolded bd]
  have F': "?F' = update_backup_for_file ?G f s" by (simp add: write_back_def)
  have kG: "keeps_dirs ?F ?G" using fr(2) by (auto simp: keeps_dirs_def same_dirs_def)
  show n: "node_at ?F' (D @ [f]) = Some (RegularFile (c_string s))"
    unfolding F' using bf(4) [of "D @ [f]"] out spec(2) by simp
  show "fs_ok ?F'" unfolding F' by (rule bf(1))
  show k: "keeps_dirs ?F ?F'" unfolding F' by (rule keeps_dirs_trans [OF kG bf(3)])
  have "resolve ?F ?p = Some (D @ [f])" by (rule writable_resolve(1) [OF w])
  then have "resolve ?F' ?p = Some (D @ [f])" by (rule resolve_keeps [OF k])
  with n show "read_file_content ?F' ?p = Some (c_string s)"
    by (simp add: read_file_content_def node_of_def)
  show "node_at ?F' q = node_at ?F q"
    if "node_at ?F q \<noteq> None" "q \<noteq> D @ [f]" "q \<noteq> D @ [f @ ''.tmp'']" "\<not> prefix (backup_dir ?F) q"
    unfolding F' using bf(4) [of q] that spec(2) [of q] by simp
qed

lemma write_back_tmp:
  assumes p: "placed S f d D" and t: "\<not> prefix (backup_dir (ss_fs S)) (D @ [f @ ''.tmp''])"
  shows "node_at (ss_fs (write_back S (d @ CHR ''/'' # f) f s)) (D @ [f @ ''.tmp'']) = None"
proof -
  let ?F = "ss_fs S" and ?q = "D @ [f @ ''.tmp'']"
  let ?G = "snd (atomic_write_file ?F (d @ CHR ''/'' # f) s)"
  have F: "fs_ok ?F" and w: "writable_at ?F d f D" and f: "plain_name f" "length f \<le> 238"
    using p by (auto simp: placed_def writable_at_def)
  note fr = atomic_write_frame [OF F, where path = "d @ CHR ''/'' # f" and s = s]
  have bd: "backup_dir ?G = backup_dir ?F" using fr(2) by (simp add: backup_dir_def same_dirs_def)
  have n: "node_at ?G ?q = None" using atomic_write_spec(2) [OF F w, of s ?q] by simp
  then have "\<not> prefix ?q (backup_dir ?G)" by (intro tmp_not_above_backup fr(1)) simp
  with backup_frame(5) [OF fr(1) f, where q = ?q and s = s] t n bd show ?thesis
    by (simp add: write_back_def)
qed

text \<open>A file in the root of the storage directory is found there, and stays placed.\<close>

definition in_root :: "storage_server \<Rightarrow> string \<Rightarrow> string list \<Rightarrow> bool" where
  "in_root S f D \<longleftrightarrow> fs_ok (ss_fs S) \<and> writable_at (ss_fs S) (ss_dir S) f D \<and> node_at (ss_fs S) (D @ [f]) \<noteq> None
     \<and> \<not> prefix (backup_dir (ss_fs S)) (D @ [f]) \<and> \<not> prefix (backup_dir (ss_fs S)) (D @ [f @ ''.tmp''])
     \<and> length f \<le> 238"

lemma locate_root:
  assumes "writable_at (ss_fs S) (ss_dir S) f D" "node_at (ss_fs S) (D @ [f]) \<noteq> None"
  shows "locate S f = ss_dir S @ CHR ''/'' # f"
    "resolve_existing_file_path (ss_fs S) (ss_dir S) f 700 = Some (ss_dir S @ CHR ''/'' # f)"
proof -
  have l: "length (ss_dir S @ CHR ''/'' # f) \<le> 261" using assms(1) by (simp add: writable_at_def)
  then have t: "take 599 (ss_dir S @ CHR ''/'' # f) = ss_dir S @ CHR ''/'' # f" by simp
  have "file_exists (ss_fs S) (ss_dir S @ CHR ''/'' # f)"
    using assms by (simp add: file_exists_def node_of_place)
  with l t show "resolve_existing_file_path (ss_fs S) (ss_dir S) f 700 = Some (ss_dir S @ CHR ''/'' # f)"
    by (simp only: resolve_existing_file_path_def Let_def if_True) simp
  then show "locate S f = ss_dir S @ CHR ''/'' # f" by (simp add: locate_def)
qed

lemma in_root_placed: "in_root S f D \<Longrightarrow> placed S f (ss_dir S) D"
  using locate_root(1) [of S f D] by (simp add: in_root_def placed_def)

lemma in_root_write_back:
  assumes r: "in_root S f D"
  shows "in_root (write_back S (ss_dir S @ CHR ''/'' # f) f s) f D"
proof -
  let ?F = "ss_fs S" and ?S = "write_back S (ss_dir S @ CHR ''/'' # f) f s"
  note wb = write_back_fs [OF in_root_placed [OF r], where s = s]
  have w: "writable_at ?F (ss_dir S) f D" using r by (simp add: in_root_def)
  have dir: "ss_dir ?S = ss_dir S" by (simp add: write_back_def)
  have cwd: "backup_dir (ss_fs ?S) = backup_dir ?F" using wb(3) by (simp add: keeps_dirs_def backup_dir_def)
  have tmp: "node_at (ss_fs ?S) (D @ [f @ ''.tmp'']) \<noteq> Some Directory"
    using write_back_tmp [OF in_root_placed [OF r], where s = s] r by (simp add: in_root_def)
  from w wb(1,3) tmp have "writable_at (ss_fs ?S) (ss_dir ?S) f D"
    by (auto simp: writable_at_def dir intro: resolve_keeps simp: keeps_dirs_def)
  with r wb cwd show ?thesis by (simp add: in_root_def)
qed

lemma placed_cong:
  "ss_fs S' = ss_fs S \<Longrightarrow> ss_dir S' = ss_dir S \<Longrightarrow> placed S' f d D = placed S f d D"
  "ss_fs S' = ss_fs S \<Longrightarrow> ss_dir S' = ss_dir S \<Longrightarrow> in_root S' f D = in_root S f D"
  "ss_fs S' = ss_fs S \<Longrightarrow> ss_dir S' = ss_dir S \<Longrightarrow> locate S' f = locate S f"
  by (simp_all add: placed_def in_root_def locate_def cong: option.case_cong)

lemma write_back_fields [simp]:
  "ss_dir (write_back S p f s) = ss_dir S" "ss_locks (write_back S p f s) = ss_locks S"
  "ss_undo (write_back S p f s) = ss_undo S" "ss_commit_locks (write_back S p f s) = ss_commit_locks S"
  by (simp_all add: write_back_def)

section \<open>Write sessions\<close>

text \<open>The session after the loop differs from the one before in its words only.\<close>

lemma write_loop_session:
  "write_loop ws ms = (out, ws', b) \<Longrightarrow>
   ws_path ws' = ws_path ws \<and> ws_filename ws' = ws_filename ws \<and> ws_idx ws' = ws_idx ws
   \<and> ws_append ws' = ws_append ws \<and> ws_orig ws' = ws_orig ws \<and> ws_prev ws' = ws_prev ws"
  by (induction ws ms arbitrary: out rule: write_loop.induct)
     (auto split: if_splits sum.splits prod.splits)

lemma write_loop_end:
  "write_loop ws ms = (out, ws', b) \<Longrightarrow> b \<longleftrightarrow> (\<exists>m \<in> set ms. m_data m = ''ETIRW'')"
  by (induction ws ms arbitrary: out rule: write_loop.induct)
     (auto split: if_splits sum.splits prod.splits)

lemma write_loop_out:
  "write_loop ws ms = (out, ws', b) \<Longrightarrow> \<forall>(q, m) \<in> set out. q = Client \<and> m_error m = ERR_INVALID_WORD_INDEX"
  by (induction ws ms arbitrary: out rule: write_loop.induct)
     (auto simp: update_words_def Let_def split: if_splits sum.splits prod.splits)

lemma write_loop_short:
  "write_loop ws ms = (out, ws', b) \<Longrightarrow> \<forall>(q, m) \<in> set out. length (m_data m) < MAX_CONTENT_LEN"
  by (induction ws ms arbitrary: out rule: write_loop.induct)
     (auto simp: update_words_def Let_def limit_defs split: if_splits sum.splits prod.splits)

lemma new_session_fields [simp]:
  "ws_path (new_session msg p ss) = p" "ws_filename (new_session msg p ss) = m_filename msg"
  "ws_idx (new_session msg p ss) = m_arg1 msg" "ws_append (new_session msg p ss) = (m_arg1 msg = int (length ss))"
  by (simp_all add: new_session_def Let_def)

text \<open>How a session begins: refused without a trace but a lock table entry, or ready.\<close>

lemma write_begin_cases:
  assumes "write_begin S msg p content = Inr (out, sess, S1)"
  obtains (refused) err where "sess = None" "out = [(Client, err)]" "m_type err = MSG_ERROR"
      "S1 = S\<lparr>ss_locks := ss_locks S1\<rparr>"
      "locks_ok (ss_locks S) \<Longrightarrow> locks_ok (ss_locks S1) \<and> lock_holder (ss_locks S1) = lock_holder (ss_locks S)"
  | (ready) ss t where "parse_sentences content = Inr ss" "sess = Some (new_session msg p ss)"
      "out = [(Client, ack_reply ''READY'')]" "index_allowed (m_arg1 msg) (length ss) content"
      "try_acquire_lock (ss_locks S) (m_filename msg, m_arg1 msg) (m_sender msg) = (True, t)"
      "S1 = S\<lparr>ss_locks := t, ss_undo := save_undo (ss_undo S) (m_filename msg) content\<rparr>"
proof -
  from assms obtain ss where ss: "parse_sentences content = Inr ss"
    by (auto simp: write_begin_def fault_simps)
  show thesis
  proof (cases "index_allowed (m_arg1 msg) (length ss) content")
    case False
    with assms ss have r: "sess = None" "out = [(Client, error_reply ERR_INVALID_INDEX ''ERROR: Sentence index out of range.'')]"
      "S1 = S" by (simp_all add: write_begin_def)
    show thesis by (rule refused [OF r(1,2)]) (simp_all add: r(3))
  next
    case allowed: True
    let ?k = "(m_filename msg, m_arg1 msg)"
    obtain b t where t: "try_acquire_lock (ss_locks S) ?k (m_sender msg) = (b, t)" by fastforce
    show thesis
    proof (cases b)
      case True
      with assms ss allowed t show thesis by (intro ready [of ss t]) (simp_all add: write_begin_def)
    next
      case False
      with assms ss allowed t have r: "sess = None" "out = [(Client, error_reply ERR_SENTENCE_LOCKED ''Sentence is locked'')]"
        "S1 = S\<lparr>ss_locks := t\<rparr>" by (simp_all add: write_begin_def)
      show thesis
      proof (rule refused [OF r(1,2)])
        show "locks_ok (ss_locks S) \<Longrightarrow> locks_ok (ss_locks S1) \<and> lock_holder (ss_locks S1) = lock_holder (ss_locks S)"
          using sentence_lock.acquire_refused [of "ss_locks S" ?k "m_sender msg"]
            sentence_lock.invar_acquire [of "ss_locks S" ?k "m_sender msg"] t False r(3) by simp
      qed (use r(3) in simp_all)
    qed
  qed
qed

text \<open>A commit writes the merged content back, or reports that the file changed.\<close>

lemma write_commit_cases:
  assumes "write_commit S ws = Inr (out, S2)"
  obtains (changed) c where "out = [(Client, error_reply ERR_INVALID_INDEX ''ERROR: File changed; retry write.'')]"
      "S2 = S\<lparr>ss_commit_locks := c\<rparr>"
  | (written) c new latest final where "build_sentence (ws_words ws) = Inr new"
      "latest = (case read_file_content (ss_fs S) (ws_path ws) of Some c \<Rightarrow> c | None \<Rightarrow> [])"
      "merged_content (ws_idx ws) (ws_append ws) (ws_orig ws) (ws_prev ws) new latest = Inr (Some final)"
      "out = [(Naming_Server, metadata_message (ws_filename ws) final), (Client, ack_reply ''Write Successful!'')]"
      "S2 = write_back (S\<lparr>ss_commit_locks := c\<rparr>) (ws_path ws) (ws_filename ws) final"
  using assms
  by (auto simp: write_commit_def Let_def fault_simps split: option.splits)

text \<open>
  The whole handler.  Either it was refused, or it saved the undo snapshot and gave the lock
  back; the file system changed only by writing back a merged content.
\<close>

lemma handle_write_cases:
  assumes "handle_write_file S msg inputs = Inr (out, S')"
  obtains (refused) err where "out = [(Client, err)]" "m_type err = MSG_ERROR" "S' = S\<lparr>ss_locks := ss_locks S'\<rparr>"
      "locks_ok (ss_locks S) \<Longrightarrow> lock_holder (ss_locks S') = lock_holder (ss_locks S)"
  | (session) ss t ws out' S2 where
      "parse_sentences (snd (write_open S msg)) = Inr ss"
      "index_allowed (m_arg1 msg) (length ss) (snd (write_open S msg))"
      "try_acquire_lock (ss_locks S) (m_filename msg, m_arg1 msg) (m_sender msg) = (True, t)"
      "out = (Client, ack_reply ''READY'') # out'"
      "\<exists>errs b. write_loop (new_session msg (fst (write_open S msg)) ss) inputs = (errs, ws, b)
         \<and> (if b then \<exists>outc. write_commit (S\<lparr>ss_locks := t,
                    ss_undo := save_undo (ss_undo S) (m_filename msg) (snd (write_open S msg))\<rparr>) ws = Inr (outc, S2)
                \<and> out' = errs @ outc
            else out' = errs \<and> S2 = S\<lparr>ss_locks := t,
                    ss_undo := save_undo (ss_undo S) (m_filename msg) (snd (write_open S msg))\<rparr>)"
      "S' = write_release S2 ws" "ws_filename ws = m_filename msg" "ws_idx ws = m_arg1 msg"
      "ws_path ws = fst (write_open S msg)"
proof -
  obtain p content where op: "write_open S msg = (p, content)" by fastforce
  from assms op obtain out1 sess S1 where b: "write_begin S msg p content = Inr (out1, sess, S1)"
    by (auto simp: handle_write_file_def fault_simps)
  from b show thesis
  proof (cases rule: write_begin_cases)
    case (refused err)
    with assms op b have "out = [(Client, err)]" "S' = S1" by (simp_all add: handle_write_file_def)
    with refused show thesis by (intro that(1)) auto
  next
    case (ready ss t)
    let ?ws = "new_session msg p ss"
    obtain errs ws c where loop: "write_loop ?ws inputs = (errs, ws, c)" by (metis prod_cases3)
    note ws = write_loop_session [OF loop]
    show thesis
    proof (cases c)
      case True
      with assms op b ready loop obtain outc S2 where c: "write_commit S1 ws = Inr (outc, S2)"
        "out = (Client, ack_reply ''READY'') # errs @ outc" "S' = write_release S2 ws"
        by (auto simp: handle_write_file_def fault_simps)
      with ready op loop ws True show thesis
        by (intro that(2) [of ss t "errs @ outc" ws S2]) auto
    next
      case False
      with assms op b ready loop have "out = (Client, ack_reply ''READY'') # errs" "S' = write_release S1 ws"
        by (auto simp: handle_write_file_def)
      with ready op loop ws False show thesis
        by (intro that(2) [of ss t errs ws S1]) auto
    qed
  qed
qed

text \<open>Every way out of the handler gives the lock back.\<close>

lemma write_commit_locks:
  assumes "write_commit S ws = Inr (out, S2)"
  shows "ss_locks S2 = ss_locks S" "ss_undo S2 = ss_undo S" "ss_dir S2 = ss_dir S"
  using assms by (cases rule: write_commit_cases; simp)+

lemma acquire_free:
  "locks_ok t \<Longrightarrow> try_acquire_lock t k u = (True, t') \<Longrightarrow> lock_holder t k = None \<and> lock_holder t' = (lock_holder t)(k \<mapsto> u) \<and> locks_ok t'"
  using sentence_lock.acquire_busy [of t k _ u] sentence_lock.acquire_ok [of t k u] sentence_lock.invar_acquire [of t k u]
  by (cases "lock_holder t k") auto

lemma write_keeps_holders:
  assumes "handle_write_file S msg inputs = Inr (out, S')" "locks_ok (ss_locks S)"
  shows "lock_holder (ss_locks S') = lock_holder (ss_locks S)"
  using assms(1)
proof (cases rule: handle_write_cases)
  case refused
  with assms(2) show ?thesis by simp
next
  case (session ss t ws out' S2)
  let ?k = "(m_filename msg, m_arg1 msg)"
  note f = acquire_free [OF assms(2) session(3)]
  have "ss_locks S2 = t" using session(5) write_commit_locks by (fastforce split: if_splits)
  with session f have "lock_holder (ss_locks S') = ((lock_holder (ss_locks S))(?k \<mapsto> m_sender msg))(?k := None)"
    by (simp add: write_release_def sentence_lock.release_holder)
  with f show ?thesis by (simp add: fun_upd_idem)
qed

text \<open>Without \<^verbatim>\<open>ETIRW\<close> the files are what they were.\<close>

lemma write_abort_fs:
  assumes "handle_write_file S msg inputs = Inr (out, S')" "\<forall>m \<in> set inputs. m_data m \<noteq> ''ETIRW''"
  shows "ss_fs S' = ss_fs S"
  using assms(1)
proof (cases rule: handle_write_cases)
  case refused
  then show ?thesis by (metis storage_server.select_convs(1) storage_server.surjective storage_server.update_convs(3))
next
  case (session ss t ws out' S2)
  from session(5) obtain errs b where "write_loop (new_session msg (fst (write_open S msg)) ss) inputs = (errs, ws, b)"
    "\<not> b \<longrightarrow> ss_fs S2 = ss_fs S" by (auto split: if_splits)
  moreover from this assms(2) have "\<not> b" using write_loop_end by blast
  ultimately show ?thesis using session(6) by (simp add: write_release_def)
qed

text \<open>
  Every session that began has saved the content it read, and a session on a file in the
  root of the storage directory leaves that file in place.
\<close>

definition outside_file :: "storage_server \<Rightarrow> string \<Rightarrow> string list \<Rightarrow> string list \<Rightarrow> bool" where
  "outside_file S f D q \<longleftrightarrow> node_at (ss_fs S) q \<noteq> None \<and> q \<noteq> D @ [f] \<and> q \<noteq> D @ [f @ ''.tmp'']
     \<and> \<not> prefix (backup_dir (ss_fs S)) q"

lemma write_session_undo:
  assumes "handle_write_file S msg inputs = Inr ((Client, ack_reply ''READY'') # rest, S')"
    "in_root S (m_filename msg) D"
  shows "ss_undo S' = save_undo (ss_undo S) (m_filename msg) (snd (write_open S msg))"
    "in_root S' (m_filename msg) D" "ss_dir S' = ss_dir S"
    "outside_file S (m_filename msg) D q \<Longrightarrow> node_at (ss_fs S') q = node_at (ss_fs S) q"
proof -
  let ?f = "m_filename msg" and ?p = "ss_dir S @ CHR ''/'' # m_filename msg"
  let ?P = "ss_undo S' = save_undo (ss_undo S) ?f (snd (write_open S msg)) \<and> in_root S' ?f D \<and> ss_dir S' = ss_dir S
    \<and> (outside_file S ?f D q \<longrightarrow> node_at (ss_fs S') q = node_at (ss_fs S) q)"
  have path: "fst (write_open S msg) = ?p"
    using in_root_placed [OF assms(2)] by (simp add: write_open_def placed_def Let_def)
  have ?P
    using assms(1)
  proof (cases rule: handle_write_cases)
    case (refused err)
    then show ?thesis by auto
  next
    case (session ss t ws out' S2)
    let ?S1 = "S\<lparr>ss_locks := t, ss_undo := save_undo (ss_undo S) ?f (snd (write_open S msg))\<rparr>"
    have r1: "in_root ?S1 ?f D" using assms(2) by (subst placed_cong(2) [of _ S]) simp_all
    have "in_root S2 ?f D \<and> ss_dir S2 = ss_dir S \<and> ss_undo S2 = ss_undo ?S1
        \<and> (outside_file S ?f D q \<longrightarrow> node_at (ss_fs S2) q = node_at (ss_fs S) q)"
    proof (cases "S2 = ?S1")
      case True
      with r1 show ?thesis by simp
    next
      case False
      with session(5) obtain outc where c: "write_commit ?S1 ws = Inr (outc, S2)"
        by (auto split: if_splits)
      from c show ?thesis
      proof (cases rule: write_commit_cases)
        case (changed c)
        with r1 show ?thesis using placed_cong(2) [of S2 ?S1] by simp
      next
        case (written c new latest final)
        have r2: "in_root (?S1\<lparr>ss_commit_locks := c\<rparr>) ?f D" using r1 by (subst placed_cong(2) [of _ ?S1]) simp_all
        from in_root_write_back [OF r2, of final] written session(7,9) path
          write_back_fs(5) [OF in_root_placed [OF r2], where s = final and q = q]
        show ?thesis by (simp add: outside_file_def)
      qed
    qed
    then show ?thesis using session(6) placed_cong(2) [of S' S2] by (simp add: write_release_def)
  qed
  then show "ss_undo S' = save_undo (ss_undo S) ?f (snd (write_open S msg))" "in_root S' ?f D" "ss_dir S' = ss_dir S"
    "outside_file S ?f D q \<Longrightarrow> node_at (ss_fs S') q = node_at (ss_fs S) q"
    by simp_all
qed

section \<open>Undo\<close>

lemma undo_restores:
  assumes "undo_peek (ss_undo S) f = Some c" "undo_ok (ss_undo S)" "in_root S f D" "m_filename msg = f"
  shows "fst (handle_undo_file S msg) = [(Client, ack_reply ''Undo Successful!'')]"
    "read_file_content (ss_fs (snd (handle_undo_file S msg))) (ss_dir S @ CHR ''/'' # f) = Some (c_string c)"
    "node_at (ss_fs (snd (handle_undo_file S msg))) (D @ [f]) = Some (RegularFile (c_string c))"
proof -
  obtain u where u: "get_undo (ss_undo S) f = (Some c, u)"
    using undo.take_value [OF assms(2), of f] assms(1) by (cases "get_undo (ss_undo S) f") auto
  let ?S = "S\<lparr>ss_undo := u\<rparr>"
  have p: "placed ?S f (ss_dir S) D"
    using in_root_placed [OF assms(3)] by (subst placed_cong(1) [of _ S]) simp_all
  have "locate S f = ss_dir S @ CHR ''/'' # f" using in_root_placed [OF assms(3)] by (simp add: placed_def)
  then have h: "handle_undo_file S msg = ([(Client, ack_reply ''Undo Successful!'')],
      write_back ?S (ss_dir S @ CHR ''/'' # f) f c)"
    using u assms(4) by (simp add: handle_undo_file_def)
  show "fst (handle_undo_file S msg) = [(Client, ack_reply ''Undo Successful!'')]" by (simp add: h)
  show "read_file_content (ss_fs (snd (handle_undo_file S msg))) (ss_dir S @ CHR ''/'' # f) = Some (c_string c)"
    using write_back_fs(4) [OF p, where s = c] by (simp add: h)
  show "node_at (ss_fs (snd (handle_undo_file S msg))) (D @ [f]) = Some (RegularFile (c_string c))"
    using write_back_fs(1) [OF p, where s = c] by (simp add: h)
qed

section \<open>What a committed session writes\<close>

lemma split_chars: "p \<in> set (split_sentences seg s) \<Longrightarrow> set p \<subseteq> set seg \<union> set s"
proof (induction seg s rule: split_sentences.induct)
  case (2 seg c s)
  have "set (dropWhile (\<lambda>c. c = CHR '' '') s) \<subseteq> set s" by (auto dest: set_dropWhileD)
  with 2 show ?case by (cases "is_sentence_delimiter c") fastforce+
qed (auto split: if_splits)

lemma c_string_join:
  assumes "\<forall>s \<in> set ss. CHR 0x00 \<notin> set s"
  shows "c_string (join_with (CHR '' '') ss) = join_with (CHR '' '') ss"
  using assms set_join_with [of "CHR '' ''" ss] by (intro c_string_id) fastforce

lemma read_no_nul: "read_file_content F p = Some c \<Longrightarrow> CHR 0x00 \<notin> set c"
  by (auto simp: read_file_content_def c_string_no_nul split: option.splits fs_node.splits)

lemma write_commit_content:
  assumes h: "handle_write_file S msg inputs = Inr ((Client, ack_reply ''READY'') # rest, S')"
    and p: "placed S (m_filename msg) d D"
    and c: "read_file_content (ss_fs S) (d @ CHR ''/'' # m_filename msg) = Some c"
    and ss: "ss = split_sentences [] c"
    and i: "0 \<le> m_arg1 msg" "m_arg1 msg < int (length ss)" "length (ss ! nat (m_arg1 msg)) < MAX_CONTENT_LEN"
    and loop: "write_loop (new_session msg (d @ CHR ''/'' # m_filename msg) ss) inputs = (errs, ws, True)"
  shows "\<exists>final. rebuild_content (take (nat (m_arg1 msg)) ss
            @ pieces (words_text (ws_words ws)) (split_sentences [] (words_text (ws_words ws)))
            @ drop (Suc (nat (m_arg1 msg))) ss) = Inr final
         \<and> rest = errs @ [(Naming_Server, metadata_message (m_filename msg) final), (Client, ack_reply ''Write Successful!'')]
         \<and> read_file_content (ss_fs S') (d @ CHR ''/'' # m_filename msg) = Some (c_string final)"
proof -
  let ?f = "m_filename msg" and ?i = "m_arg1 msg" and ?p = "d @ CHR ''/'' # m_filename msg"
  have op: "write_open S msg = (?p, c)" using p c by (simp add: write_open_def placed_def Let_def)
  from h show ?thesis
  proof (cases rule: handle_write_cases)
    case (refused err)
    then show ?thesis by auto
  next
    case (session ss' t ws' out' S2)
    have ss': "ss' = ss" using session(1) op ss by (auto simp: parse_sentences_eq split: if_splits)
    let ?S1 = "S\<lparr>ss_locks := t, ss_undo := save_undo (ss_undo S) ?f c\<rparr>"
    from session(4) have rest: "rest = out'" by simp
    from session(5) loop op ss' have ws': "ws' = ws"
      and cm: "\<exists>outc. write_commit ?S1 ws = Inr (outc, S2) \<and> out' = errs @ outc" by auto
    from cm obtain outc where cmt: "write_commit ?S1 ws = Inr (outc, S2)" "out' = errs @ outc" by blast
    note fields = write_loop_session [OF loop]
    have sess: "ws_idx ws = ?i" "ws_append ws = False" "ws_path ws = ?p" "ws_filename ws = ?f"
      "ws_orig ws = ss ! nat ?i"
      using fields i by (auto simp: new_session_def Let_def)
    have "sentences_ok ss" unfolding ss by (rule split_sentences_ok) simp
    then have ne: "ss ! nat ?i \<noteq> []" using i by (intro sentences_nonempty) auto
    have target: "commit_target ?i False (ss ! nat ?i) pv ss c = Some (nat ?i)" for pv
      using i ne by (intro commit_target_unmoved) simp_all
    from cmt(1) show ?thesis
    proof (cases rule: write_commit_cases)
      case (changed cl)
      have "ss_fs ?S1 = ss_fs S" by simp
      with cmt(1) changed target sess c show ?thesis
        by (auto simp: write_commit_def Let_def fault_simps merged_content_def parse_sentences_eq ss
            split: if_splits option.splits)
    next
      case (written cl new latest final)
      have new: "new = words_text (ws_words ws)"
        using written(1) by (simp add: build_sentence_eq split: if_splits)
      have latest: "latest = c" using written(2) sess c by simp
      from written(3) obtain tt where
        tt: "commit_target ?i False (ss ! nat ?i) (ws_prev ws) ss c = Some tt"
        and fin: "rebuild_content (take tt ss @ pieces new (split_sentences [] new) @ drop (Suc tt) ss) = Inr final"
        unfolding latest sess ss by (rule merged_content_cases)
      have "tt = nat ?i" using tt target by simp
      moreover have "placed (?S1\<lparr>ss_commit_locks := cl\<rparr>) ?f d D"
        using p by (subst placed_cong(1) [of _ S]) simp_all
      then have "read_file_content (ss_fs S2) ?p = Some (c_string final)"
        using write_back_fs(4) [where s = final] written(5) sess by simp
      ultimately show ?thesis
        using fin new rest cmt(2) written(4) session(6) sess by (simp add: write_release_def)
    qed
  qed
qed

text \<open>
  Reading the file again gives the old sentences with the edited one replaced by its pieces,
  when the edited sentence still ends in a delimiter.
\<close>

lemma committed_sentences:
  assumes ok: "sentences_ok ss" "t < length ss" "\<forall>s \<in> set ss. CHR 0x00 \<notin> set s"
    and new: "ends_with_delimiter new" "hd new \<noteq> CHR '' ''" "CHR 0x00 \<notin> set new"
    and r: "rebuild_content (take t ss @ pieces new (split_sentences [] new) @ drop (Suc t) ss) = Inr final"
  shows "split_sentences [] (c_string final) = take t ss @ split_sentences [] new @ drop (Suc t) ss"
proof -
  note pc = pieces_closed [OF new(1,2)]
  let ?l = "take t ss @ split_sentences [] new @ drop (Suc t) ss"
  have "split_sentences [] new \<noteq> []" using new(1) by (simp add: split_eq_Nil ends_with_delimiter_def)
  then have l: "sentences_ok ?l" using ok pc(2,3) by (intro sentences_ok_splice) auto
  have r': "rebuild_content ?l = Inr final" using r pc(1) by simp
  then have "final = join_with (CHR '' '') ?l"
    using sentences_nonempty [OF l] by (subst (asm) rebuild_content_Inr) auto
  moreover have "\<forall>s \<in> set ?l. CHR 0x00 \<notin> set s"
    using ok(3) new(3) split_chars [of _ "[]" new] by (auto dest: in_set_takeD in_set_dropD)
  ultimately have "c_string final = final" using c_string_join by simp
  with commit_sentences [OF l r'] show ?thesis by simp
qed

end
