(* ===== verification/Write_Effects.thy ===== *)
theory Write_Effects
  imports Storage_Facts
begin

text \<open>
  When a write session goes through: the resources it needs (a free lock entry, texts that
  fit the fixed buffers) are enough for the handler to return, and then the file holds the
  old sentences with the edited one replaced.
\<close>

section \<open>Enough room\<close>

text \<open>The lock of the sentence is free and the table has an entry for it, or room for one.\<close>

definition lock_available :: "storage_server \<Rightarrow> string \<times> int \<Rightarrow> bool" where
  "lock_available S k \<longleftrightarrow> lock_holder (ss_locks S) k = None
     \<and> (lock_index (ss_locks S) (fst k) (snd k) \<noteq> None \<or> length (ss_locks S) < 1000)"

text \<open>The sentences of the file after the edit, and that all texts on the way fit their buffers.\<close>

definition edited_sentences :: "string list \<Rightarrow> nat \<Rightarrow> string \<Rightarrow> string list" where
  "edited_sentences ss i new = take i ss @ split_sentences [] new @ drop (Suc i) ss"

definition edit_fits :: "string list \<Rightarrow> nat \<Rightarrow> string \<Rightarrow> bool" where
  "edit_fits ss i new \<longleftrightarrow> i < length ss \<and> length ss \<le> MAX_SENTENCES \<and> length (ss ! i) < MAX_CONTENT_LEN
     \<and> length new < MAX_CONTENT_LEN \<and> length (split_sentences [] new) \<le> MAX_SENTENCES
     \<and> length (join_with (CHR '' '') (edited_sentences ss i new)) < MAX_CONTENT_LEN * 10"

text \<open>A sentence that is closed, does not begin with a blank and holds no NUL.\<close>

definition closed_edit :: "string \<Rightarrow> bool" where
  "closed_edit new \<longleftrightarrow> ends_with_delimiter new \<and> hd new \<noteq> CHR '' '' \<and> CHR 0x00 \<notin> set new"

section \<open>The steps\<close>

lemma write_begin_ready:
  assumes "length (split_sentences [] c) \<le> MAX_SENTENCES" "0 \<le> m_arg1 msg" "m_arg1 msg < int (length (split_sentences [] c))"
    "lock_available S (m_filename msg, m_arg1 msg)"
  obtains t where "try_acquire_lock (ss_locks S) (m_filename msg, m_arg1 msg) (m_sender msg) = (True, t)"
    "write_begin S msg p c = Inr ([(Client, ack_reply ''READY'')], Some (new_session msg p (split_sentences [] c)),
        S\<lparr>ss_locks := t, ss_undo := save_undo (ss_undo S) (m_filename msg) c\<rparr>)"
proof -
  obtain b t where bt: "try_acquire_lock (ss_locks S) (m_filename msg, m_arg1 msg) (m_sender msg) = (b, t)" by fastforce
  have "b" using try_acquire_free [of "ss_locks S" "(m_filename msg, m_arg1 msg)" "m_sender msg"] assms(4) bt
    by (auto simp: lock_available_def)
  with assms bt show thesis
    by (intro that [of t]) (simp_all add: write_begin_def parse_sentences_eq index_allowed_def)
qed

lemma edited_sentences_ok:
  assumes "i < length (split_sentences [] c)" "closed_edit new"
  shows "sentences_ok (edited_sentences (split_sentences [] c) i new)"
    "pieces new (split_sentences [] new) = split_sentences [] new"
proof -
  note pc = pieces_closed [of new]
  have new: "ends_with_delimiter new" "hd new \<noteq> CHR '' ''" using assms(2) by (simp_all add: closed_edit_def)
  show "pieces new (split_sentences [] new) = split_sentences [] new" by (rule pc(1) [OF new])
  have "split_sentences [] new \<noteq> []" using new(1) by (simp add: split_eq_Nil ends_with_delimiter_def)
  moreover have "sentences_ok (split_sentences [] c)" by (rule split_sentences_ok) simp
  ultimately show "sentences_ok (edited_sentences (split_sentences [] c) i new)"
    using assms(1) pc(2,3) [OF new] unfolding edited_sentences_def by (intro sentences_ok_splice) auto
qed

lemma merged_edit:
  assumes ss: "ss = split_sentences [] c" and i: "0 \<le> i" and fits: "edit_fits ss (nat i) new" and e: "closed_edit new"
  shows "merged_content i False (ss ! nat i) prev new c = Inr (Some (join_with (CHR '' '') (edited_sentences ss (nat i) new)))"
proof -
  have n: "nat i < length ss" "i < int (length ss)" using fits i by (auto simp: edit_fits_def)
  note ok = edited_sentences_ok [OF n(1) [unfolded ss] e, folded ss]
  have "sentences_ok ss" unfolding ss by (rule split_sentences_ok) simp
  then have "ss ! nat i \<noteq> []" using n by (intro sentences_nonempty) auto
  then have "commit_target i False (ss ! nat i) prev ss c = Some (nat i)"
    using n i by (intro commit_target_unmoved) simp_all
  moreover have "rebuild_content (edited_sentences ss (nat i) new)
      = Inr (join_with (CHR '' '') (edited_sentences ss (nat i) new))"
    using sentences_nonempty [OF ok(1)] fits by (subst rebuild_content_Inr) (auto simp: edit_fits_def)
  ultimately show ?thesis
    using fits ok(2) by (simp add: merged_content_def parse_sentences_eq ss [symmetric] edit_fits_def
        merge_sentences_eq edited_sentences_def)
qed

lemma edited_no_nul:
  assumes "CHR 0x00 \<notin> set c" "closed_edit new"
  shows "c_string (join_with (CHR '' '') (edited_sentences (split_sentences [] c) i new))
       = join_with (CHR '' '') (edited_sentences (split_sentences [] c) i new)"
  using assms split_chars [of _ "[]" c] split_chars [of _ "[]" new]
  by (intro c_string_join) (fastforce simp: edited_sentences_def closed_edit_def dest: in_set_takeD in_set_dropD)

section \<open>The whole session\<close>

lemma write_session_commits:
  assumes p: "placed S (m_filename msg) d D" and l: "locks_ok (ss_locks S)"
    and c: "read_file_content (ss_fs S) (d @ CHR ''/'' # m_filename msg) = Some c"
    and i: "0 \<le> m_arg1 msg" and av: "lock_available S (m_filename msg, m_arg1 msg)"
    and loop: "write_loop (new_session msg (d @ CHR ''/'' # m_filename msg) (split_sentences [] c)) inputs = (errs, ws, True)"
    and new: "new = words_text (ws_words ws)"
    and fits: "edit_fits (split_sentences [] c) (nat (m_arg1 msg)) new" and e: "closed_edit new"
    and final: "final = join_with (CHR '' '') (edited_sentences (split_sentences [] c) (nat (m_arg1 msg)) new)"
  shows "\<exists>S'. handle_write_file S msg inputs =
           Inr ((Client, ack_reply ''READY'') # errs
                @ [(Naming_Server, metadata_message (m_filename msg) final), (Client, ack_reply ''Write Successful!'')], S')
       \<and> read_file_content (ss_fs S') (d @ CHR ''/'' # m_filename msg) = Some final
       \<and> lock_holder (ss_locks S') = lock_holder (ss_locks S)
       \<and> ss_undo S' = save_undo (ss_undo S) (m_filename msg) c"
proof -
  let ?f = "m_filename msg" and ?p = "d @ CHR ''/'' # m_filename msg" and ?ss = "split_sentences [] c"
  have op: "write_open S msg = (?p, c)" using p c by (simp add: write_open_def placed_def Let_def)
  have n: "nat (m_arg1 msg) < length ?ss" "m_arg1 msg < int (length ?ss)" "length ?ss \<le> MAX_SENTENCES"
    using fits i by (auto simp: edit_fits_def)
  obtain t where b: "write_begin S msg ?p c = Inr ([(Client, ack_reply ''READY'')], Some (new_session msg ?p ?ss),
        S\<lparr>ss_locks := t, ss_undo := save_undo (ss_undo S) ?f c\<rparr>)"
    using write_begin_ready [OF n(3) i n(2) av, where p = ?p] by blast
  define S1 where "S1 = S\<lparr>ss_locks := t, ss_undo := save_undo (ss_undo S) ?f c\<rparr>"
  note w = write_loop_session [OF loop]
  have ws: "ws_idx ws = m_arg1 msg" "ws_append ws = False" "ws_path ws = ?p" "ws_filename ws = ?f"
      "ws_orig ws = ?ss ! nat (m_arg1 msg)"
    using w n fits by (auto simp: new_session_def Let_def edit_fits_def)
  have "build_sentence (ws_words ws) = Inr new" using fits new by (simp add: build_sentence_eq edit_fits_def)
  moreover have "merged_content (m_arg1 msg) False (?ss ! nat (m_arg1 msg)) (ws_prev ws) new c = Inr (Some final)"
    unfolding final by (rule merged_edit [OF refl i fits e])
  ultimately obtain cl where cm: "write_commit S1 ws = Inr ([(Naming_Server, metadata_message ?f final),
      (Client, ack_reply ''Write Successful!'')], write_back (S1\<lparr>ss_commit_locks := cl\<rparr>) ?p ?f final)"
    using c ws by (simp add: write_commit_def Let_def S1_def)
  let ?S' = "write_release (write_back (S1\<lparr>ss_commit_locks := cl\<rparr>) ?p ?f final) ws"
  have h: "handle_write_file S msg inputs = Inr ((Client, ack_reply ''READY'') # errs
      @ [(Naming_Server, metadata_message ?f final), (Client, ack_reply ''Write Successful!'')], ?S')"
    using op b loop cm by (simp add: handle_write_file_def S1_def)
  have "placed (S1\<lparr>ss_commit_locks := cl\<rparr>) ?f d D"
    using p by (subst placed_cong(1) [of _ S]) (simp_all add: S1_def)
  from write_back_fs(4) [OF this, where s = final] edited_no_nul [OF read_no_nul [OF c] e]
  have "read_file_content (ss_fs ?S') ?p = Some final" by (simp add: write_release_def final)
  moreover have "ss_undo ?S' = save_undo (ss_undo S) ?f c" by (simp add: write_release_def S1_def)
  moreover have "lock_holder (ss_locks ?S') = lock_holder (ss_locks S)" by (rule write_keeps_holders [OF h l])
  ultimately show ?thesis using h by blast
qed

end
