(* ===== verification/Checkpoints.thy ===== *)
theory Checkpoints
  imports Storage_Facts
begin

text \<open>
  The checkpoint handlers of the storage server as inverses: a checkpoint made with
  \<open>handle_cp_create\<close> is shown by \<open>handle_cp_view\<close>, and \<open>handle_cp_revert\<close> brings the content
  back after the file has been written.
\<close>

section \<open>Making the directories of a path\<close>

text \<open>What \<open>mkdir_p\<close> does to a directory that exists, and to a new one below it.\<close>

lemma resolve_string_prefix:
  assumes "resolve F (a @ CHR ''/'' # b) = Some q" "a \<noteq> []"
  shows "\<exists>p. resolve F a = Some p"
proof -
  have "strtok {CHR ''/''} (a @ CHR ''/'' # b) = strtok {CHR ''/''} a @ strtok {CHR ''/''} b"
    by (simp add: strtok_split)
  with assms show ?thesis
    by (auto simp: resolve_def path_walk_append hd_append split: if_splits bind_splits)
qed

lemma path_walk_dirs:
  "path_walk F cur (c # cs) = Some q \<Longrightarrow> node_at F cur = Some Directory"
  by (simp split: if_splits)

lemma resolve_prefix_dir:
  assumes "fs_ok F" "resolve F (a @ CHR ''/'' # b) = Some q" "a \<noteq> []" "strtok {CHR ''/''} b \<noteq> []"
  shows "\<exists>p. resolve F a = Some p \<and> node_at F p = Some Directory"
proof -
  have "strtok {CHR ''/''} (a @ CHR ''/'' # b) = strtok {CHR ''/''} a @ strtok {CHR ''/''} b"
    by (simp add: strtok_split)
  with assms(2-4) obtain p where "resolve F a = Some p" "path_walk F p (strtok {CHR ''/''} b) = Some q"
    by (auto simp: resolve_def path_walk_append hd_append split: if_splits bind_splits)
  with assms(4) show ?thesis by (cases "strtok {CHR ''/''} b") (auto split: if_splits)
qed

text \<open>Directories that exist are left as they are.\<close>

lemma mkdir_existing: "resolve F p = Some q \<Longrightarrow> node_at F q \<noteq> None \<Longrightarrow> mkdir F p = F \<and> \<not> mkdir_fails F p"
  by (auto simp: mkdir_def mkdir_fails_def)

lemma mkdir_all_existing:
  "\<forall>p \<in> set ps. \<exists>q. resolve F p = Some q \<and> node_at F q \<noteq> None \<Longrightarrow>
   mkdir_all F (ps @ rest) = mkdir_all F rest"
proof (induction ps)
  case (Cons p ps)
  then obtain q where "resolve F p = Some q" "node_at F q \<noteq> None" by auto
  with mkdir_existing [of F p q] Cons show ?case by simp
qed simp

text \<open>The prefixes of a path in two parts.\<close>

lemma mkdir_prefixes_append:
  "mkdir_prefixes (a @ CHR ''/'' # b) =
     (if a = [] then [] else butlast (mkdir_prefixes a) @ [a])
     @ map (\<lambda>p. a @ CHR ''/'' # p) (butlast (mkdir_prefixes b)) @ [a @ CHR ''/'' # b]"
  if "b \<noteq> []" "hd b \<noteq> CHR ''/''"
proof -
  let ?s = "a @ CHR ''/'' # b"
  have split: "[1..<length ?s] = [1..<length a] @ (if a = [] then [] else [length a]) @ map (\<lambda>i. i + Suc (length a)) [0..<length b]"
  proof -
    have "[1..<length ?s] = [1..<Suc (length a)] @ [Suc (length a)..<length ?s]"
      using upt_add_eq_append [of 1 "Suc (length a)" "length b"] by simp
    moreover have "[1..<Suc (length a)] = [1..<length a] @ (if a = [] then [] else [length a])"
      by (cases a) auto
    moreover have "[Suc (length a)..<length ?s] = map (\<lambda>i. i + Suc (length a)) [0..<length b]"
      using map_add_upt [of "Suc (length a)" "length b"] by (simp add: add.commute)
    ultimately show ?thesis by simp
  qed
  have zero: "[0..<length b] = 0 # [1..<length b]" using that(1) by (simp add: upt_conv_Cons)
  have b0: "b ! 0 \<noteq> CHR ''/''" using that by (simp add: hd_conv_nth)
  have one: "map (\<lambda>i. take i ?s) (filter (\<lambda>i. ?s ! i = CHR ''/'') [1..<length a])
      = map (\<lambda>i. take i a) (filter (\<lambda>i. a ! i = CHR ''/'') [1..<length a])"
    by (intro map_cong filter_cong) (auto simp: nth_append)
  have three: "map (\<lambda>i. take i ?s) (filter (\<lambda>i. ?s ! i = CHR ''/'') (map (\<lambda>i. i + Suc (length a)) [0..<length b]))
      = map (\<lambda>p. a @ CHR ''/'' # p) (map (\<lambda>i. take i b) (filter (\<lambda>i. b ! i = CHR ''/'') [1..<length b]))"
    using b0 by (simp add: zero filter_map comp_def nth_append)
  show ?thesis unfolding mkdir_prefixes_def split filter_append map_append one three by simp
qed

lemma mkdir_prefix_exists:
  assumes "fs_ok F" "resolve F d = Some D" "node_at F D = Some Directory" "hd d \<noteq> CHR ''/''" "last d \<noteq> CHR ''/''"
    "p \<in> set (mkdir_prefixes d)"
  shows "\<exists>q. resolve F p = Some q \<and> node_at F q \<noteq> None"
proof (cases "p = d")
  case False
  then obtain i where i: "1 \<le> i" "i < length d" "d ! i = CHR ''/''" "p = take i d"
    using assms(6) by (auto simp: mkdir_prefixes_def)
  have d: "d = take i d @ CHR ''/'' # drop (Suc i) d" using i id_take_nth_drop [of i d] by simp
  have "drop (Suc i) d \<noteq> []"
  proof
    assume "drop (Suc i) d = []"
    then have "length d = Suc i" using i(2) by simp
    then have "last d = d ! i" using i by (cases d rule: rev_cases) (auto simp: nth_append)
    with assms(5) i(3) show False by simp
  qed
  moreover from this have "last d \<in> set (drop (Suc i) d)"
    using last_in_set [of "drop (Suc i) d"] by simp
  with assms(5) have "\<not> set (drop (Suc i) d) \<subseteq> {CHR ''/''}" by auto
  then have "strtok {CHR ''/''} (drop (Suc i) d) \<noteq> []" by (simp add: strtok_eq_Nil)
  moreover have "resolve F (take i d @ CHR ''/'' # drop (Suc i) d) = Some D"
    using assms(2) by (simp flip: d)
  moreover have "take i d \<noteq> []" using i by auto
  ultimately obtain q where "resolve F (take i d) = Some q \<and> node_at F q = Some Directory"
    using resolve_prefix_dir [OF assms(1)] by blast
  with i(4) show ?thesis by simp
qed (use assms in simp)

text \<open>A new directory \<open>c/f\<close> below an existing one.\<close>

lemma mkdir_p_below:
  assumes F: "fs_ok F" and d: "resolve F d = Some D" "node_at F D = Some Directory" "d \<noteq> []" "hd d \<noteq> CHR ''/''" "last d \<noteq> CHR ''/''"
    and n: "plain_name c" "plain_name f" and len: "length d + length c + length f < 1000"
    and free: "node_at F (D @ [c]) \<in> {None, Some Directory}" "node_at F (D @ [c, f]) \<in> {None, Some Directory}"
  defines "G \<equiv> snd (mkdir_p F (d @ CHR ''/'' # c @ CHR ''/'' # f))"
  shows "fs_ok G" "fs_cwd G = fs_cwd F"
    "node_at G q = (if q = D @ [c] \<or> q = D @ [c, f] then Some Directory else node_at F q)"
    "resolve G (d @ CHR ''/'' # c @ CHR ''/'' # f) = Some (D @ [c, f])"
    "keeps_dirs F G"
proof -
  let ?dc = "d @ CHR ''/'' # c" and ?p = "d @ CHR ''/'' # c @ CHR ''/'' # f"
  have c: "c \<noteq> []" "hd c \<noteq> CHR ''/''" "f \<noteq> []" "hd f \<noteq> CHR ''/''" "last f \<noteq> CHR ''/''"
    using n hd_in_set last_in_set unfolding plain_name_def by metis+
  have plain: "mkdir_prefixes x = [x]" if "plain_name x" for x
  proof -
    have "\<forall>i < length x. x ! i \<noteq> CHR ''/''" using that nth_mem unfolding plain_name_def by metis
    then show ?thesis by (auto simp: mkdir_prefixes_def filter_empty_conv)
  qed
  have "mkdir_prefixes (c @ CHR ''/'' # f) = [c, c @ CHR ''/'' # f]"
    using c plain n by (subst mkdir_prefixes_append) simp_all
  then have pre: "mkdir_prefixes ?p = (butlast (mkdir_prefixes d) @ [d]) @ [?dc, ?p]"
    using c d(3) by (subst mkdir_prefixes_append) simp_all
  have "\<forall>p \<in> set (butlast (mkdir_prefixes d) @ [d]). \<exists>q. resolve F p = Some q \<and> node_at F q \<noteq> None"
    using mkdir_prefix_exists [OF F d(1,2,4,5)] d(1,2) by (auto dest: in_set_butlastD)
  then have all: "mkdir_all F (mkdir_prefixes ?p) = mkdir_all F [?dc, ?p]"
    unfolding pre by (rule mkdir_all_existing)
  have r1: "resolve F ?dc = Some (D @ [c])" using d n(1) by (simp add: resolve_slash)
  let ?F1 = "mkdir F ?dc"
  have n1: "node_at ?F1 q = (if q = D @ [c] then Some Directory else node_at F q)" for q
    using r1 free(1) by (auto simp: node_at_mkdir)
  have "resolve ?F1 ?dc = Some (D @ [c])" by (rule resolve_mkdir_mono [OF r1])
  then have r2: "resolve ?F1 ?p = Some (D @ [c, f])"
    using n(2) n1 resolve_slash [of ?dc f ?F1] by simp
  let ?F2 = "mkdir ?F1 ?p"
  have n2: "node_at ?F2 q = (if q = D @ [c] \<or> q = D @ [c, f] then Some Directory else node_at F q)" for q
    using r2 n1 free(2) by (auto simp: node_at_mkdir)
  have "length ?p < 1024" "last ?p = last f" using len c by simp_all
  then have G: "G = ?F2"
    using all r1 r2 c(5) by (simp add: G_def mkdir_p_def mkdir_fails_def)
  show "fs_ok G" unfolding G using F by (intro fs_ok_mkdir)
  show "keeps_dirs F G" unfolding G by (rule keeps_dirs_trans [OF keeps_dirs_mkdir keeps_dirs_mkdir])
  then show "fs_cwd G = fs_cwd F" by (simp add: keeps_dirs_def)
  show "node_at G q = (if q = D @ [c] \<or> q = D @ [c, f] then Some Directory else node_at F q)" unfolding G by (rule n2)
  show "resolve G ?p = Some (D @ [c, f])" unfolding G by (rule resolve_mkdir_mono [OF r2])
qed

section \<open>Creating, viewing, reverting\<close>

text \<open>A file in the root with room for its checkpoints and the checkpoint \<open>tag\<close>.\<close>

definition checkpoint_ready :: "storage_server \<Rightarrow> string \<Rightarrow> string \<Rightarrow> string list \<Rightarrow> bool" where
  "checkpoint_ready S f tag D \<longleftrightarrow> in_root S f D \<and> hd (ss_dir S) \<noteq> CHR ''/'' \<and> last (ss_dir S) \<noteq> CHR ''/''
     \<and> plain_name (tag @ ''.chk'') \<and> length (ss_dir S) + length f + length tag \<le> 240
     \<and> f \<noteq> ''checkpoints'' \<and> \<not> prefix (backup_dir (ss_fs S)) D
     \<and> node_at (ss_fs S) (D @ [''checkpoints'']) \<in> {None, Some Directory}
     \<and> node_at (ss_fs S) (D @ [''checkpoints'', f]) \<in> {None, Some Directory}
     \<and> node_at (ss_fs S) (D @ [''checkpoints'', f, tag @ ''.chk'']) \<noteq> Some Directory
     \<and> node_at (ss_fs S) (D @ [''checkpoints'', f, (tag @ ''.chk'') @ ''.tmp'']) \<noteq> Some Directory"

definition checkpoint_node :: "string \<Rightarrow> string \<Rightarrow> string list \<Rightarrow> string list" where
  "checkpoint_node f tag D = D @ [''checkpoints'', f, tag @ ''.chk'']"

lemma checkpoint_dir_root:
  assumes "in_root S f D" "length (ss_dir S) + length f \<le> 240"
  shows "build_checkpoint_dir_for_file (ss_fs S) (ss_dir S) f 800 = ss_dir S @ CHR ''/'' # ''checkpoints'' @ CHR ''/'' # f"
proof -
  have w: "writable_at (ss_fs S) (ss_dir S) f D" and e: "node_at (ss_fs S) (D @ [f]) \<noteq> None"
    and f: "CHR ''/'' \<notin> set f" using assms(1) by (auto simp: in_root_def writable_at_def plain_name_def)
  have "length (ss_dir S @ CHR ''/'' # f) < 700" using assms(2) by simp
  then have "dir_part (strncpy_buf 700 (ss_dir S @ CHR ''/'' # f)) = Some (ss_dir S)"
    by (simp add: dir_part_slash [OF f])
  then show ?thesis using locate_root(2) [OF w e] assms(2)
    by (simp add: build_checkpoint_dir_for_file_def Let_def)
qed

lemma snapshot_path_root:
  assumes "checkpoint_ready S f tag D" "m_filename msg = f" "m_data msg = tag"
  shows "snapshot_path S msg = (ss_dir S @ CHR ''/'' # ''checkpoints'' @ CHR ''/'' # f) @ CHR ''/'' # tag @ ''.chk''"
proof -
  let ?p = "(ss_dir S @ CHR ''/'' # ''checkpoints'' @ CHR ''/'' # f) @ CHR ''/'' # tag @ ''.chk''"
  have r: "in_root S f D" "length (ss_dir S) + length f + length tag \<le> 240"
    using assms(1) by (auto simp: checkpoint_ready_def)
  then have "length ?p \<le> 899" by simp
  then have "take 899 ?p = ?p" by (rule take_all)
  moreover have "build_checkpoint_dir_for_file (ss_fs S) (ss_dir S) f 800
      = ss_dir S @ CHR ''/'' # ''checkpoints'' @ CHR ''/'' # f"
    using r by (intro checkpoint_dir_root) auto
  ultimately show ?thesis unfolding snapshot_path_def assms(2,3) by simp
qed

lemma checkpoint_outside:
  "\<not> prefix (backup_dir F) D \<Longrightarrow> \<not> prefix (backup_dir F) (checkpoint_node f tag D)"
proof
  assume b: "\<not> prefix (backup_dir F) D" "prefix (backup_dir F) (checkpoint_node f tag D)"
  then obtain us where us: "backup_dir F = D @ us" "prefix us [''checkpoints'', f, tag @ ''.chk'']"
    by (auto simp: checkpoint_node_def prefix_append)
  have ne: "us \<noteq> []" using b(1) us(1) by auto
  then obtain v vs where vs: "us = v # vs" "v = ''checkpoints''" using us(2) by (cases us) auto
  have len: "length us \<le> 3" using us(2) prefix_length_le by fastforce
  have "\<exists>k < 3. v = [''data'', ''ss_storage'', ''backup''] ! k"
  proof -
    have "us = drop (length D) (fs_cwd F @ [''data'', ''ss_storage'', ''backup''])"
      using us(1) unfolding backup_dir_def by (metis append_eq_conv_conj)
    moreover have "length D + length us = length (fs_cwd F) + 3"
      using arg_cong [OF us(1), of length] by (simp add: backup_dir_def)
    then have "length (fs_cwd F) \<le> length D" using len by simp
    ultimately have "us = drop (length D - length (fs_cwd F)) [''data'', ''ss_storage'', ''backup'']" by simp
    then have "v \<in> set [''data'', ''ss_storage'', ''backup'']"
      using vs(1) by (metis in_set_dropD list.set_intros(1))
    then show ?thesis by (metis in_set_conv_nth length_Cons list.size(3) numeral_3_eq_3)
  qed
  with vs(2) show False by (auto simp: less_Suc_eq numeral_3_eq_3)
qed

text \<open>The checkpoint holds the content of the file, the file itself is untouched.\<close>

lemma cp_create_effect:
  assumes r: "checkpoint_ready S f tag D" and m: "m_filename msg = f" "m_data msg = tag"
    and c: "read_file_content (ss_fs S) (ss_dir S @ CHR ''/'' # f) = Some c"
  defines "T \<equiv> snd (handle_cp_create S msg)"
  shows "fst (handle_cp_create S msg) = [(Client, ack_reply ''Checkpoint created successfully!'')]"
    "node_at (ss_fs T) (checkpoint_node f tag D) = Some (RegularFile c)"
    "ss_dir T = ss_dir S" "ss_undo T = ss_undo S" "ss_locks T = ss_locks S"
    "checkpoint_ready T f tag D"
    "node_at (ss_fs T) (D @ [f]) = node_at (ss_fs S) (D @ [f])"
proof -
  let ?F = "ss_fs S" and ?d = "ss_dir S" and ?cp = "ss_dir S @ CHR ''/'' # ''checkpoints'' @ CHR ''/'' # f"
  have root: "in_root S f D" and len: "length ?d + length f + length tag \<le> 240"
    using r by (auto simp: checkpoint_ready_def)
  then have F: "fs_ok ?F" and w: "writable_at ?F ?d f D" by (auto simp: in_root_def)
  then have d: "resolve ?F ?d = Some D" "node_at ?F D = Some Directory" "?d \<noteq> []" and f: "plain_name f"
    by (auto simp: writable_at_def)
  let ?G = "snd (mkdir_p ?F ?cp)"
  have "hd ?d \<noteq> CHR ''/''" "last ?d \<noteq> CHR ''/''" using r by (auto simp: checkpoint_ready_def)
  note mk = mkdir_p_below [OF F d this plain_names(4) f]
  have G: "fs_ok ?G" "fs_cwd ?G = fs_cwd ?F" "keeps_dirs ?F ?G"
    "resolve ?G ?cp = Some (D @ [''checkpoints'', f])"
    and Gn: "node_at ?G q = (if q = D @ [''checkpoints''] \<or> q = D @ [''checkpoints'', f] then Some Directory else node_at ?F q)" for q
    using mk len r by (auto simp: checkpoint_ready_def)
  have cpw: "writable_at ?G ?cp (tag @ ''.chk'') (D @ [''checkpoints'', f])"
    using G(4) Gn r len by (auto simp: writable_at_def checkpoint_ready_def)
  have cpd: "build_checkpoint_dir_for_file ?F ?d f 800 = ?cp"
    using checkpoint_dir_root [OF root] len by simp
  let ?path = "?cp @ CHR ''/'' # (tag @ ''.chk'')"
  have "length ?path \<le> 899" using len by simp
  then have "take 899 ?path = ?path" by (rule take_all)
  moreover have "locate S f = ?d @ CHR ''/'' # f" using in_root_placed [OF root] by (simp add: placed_def)
  ultimately have T: "handle_cp_create S msg = ([(Client, ack_reply ''Checkpoint created successfully!'')],
      S\<lparr>ss_fs := snd (atomic_write_file ?G ?path c)\<rparr>)"
    using c m cpd by (simp add: handle_cp_create_def Let_def del: take_append)
  note spec = atomic_write_spec(2) [OF G(1) cpw, where s = c]
  note fr = atomic_write_frame [OF G(1), where path = ?path and s = c]
  have cs: "c_string c = c" using read_no_nul [OF c] by (rule c_string_id)
  show "fst (handle_cp_create S msg) = [(Client, ack_reply ''Checkpoint created successfully!'')]" by (simp add: T)
  show n: "node_at (ss_fs T) (checkpoint_node f tag D) = Some (RegularFile c)"
    using spec [of "checkpoint_node f tag D"] by (simp add: T_def T checkpoint_node_def cs)
  show fields: "ss_dir T = ?d" "ss_undo T = ss_undo S" "ss_locks T = ss_locks S" by (simp_all add: T_def T)
  have fs: "ss_fs T = snd (atomic_write_file ?G ?path c)" by (simp add: T_def T)
  have other: "node_at (ss_fs T) q = node_at ?F q"
    if "q \<notin> {D @ [''checkpoints''], D @ [''checkpoints'', f], D @ [''checkpoints'', f, tag @ ''.chk''],
        D @ [''checkpoints'', f, (tag @ ''.chk'') @ ''.tmp'']}" for q
    using spec [of q] Gn [of q] that by (simp add: fs)
  show own: "node_at (ss_fs T) (D @ [f]) = node_at ?F (D @ [f])"
    using other [of "D @ [f]"] r by (simp add: checkpoint_ready_def)
  have k: "keeps_dirs ?F (ss_fs T)"
    using G(3) fr(2) unfolding fs keeps_dirs_def same_dirs_def by auto
  have "f @ ''.tmp'' \<noteq> ''checkpoints''"
  proof
    assume "f @ ''.tmp'' = ''checkpoints''"
    then have "rev (f @ ''.tmp'') = rev ''checkpoints''" by simp
    then show False by simp
  qed
  then have tmp: "node_at (ss_fs T) (D @ [f @ ''.tmp'']) = node_at ?F (D @ [f @ ''.tmp''])" by (intro other) simp
  have bd: "backup_dir (ss_fs T) = backup_dir ?F" using k by (simp add: keeps_dirs_def backup_dir_def)
  have "writable_at (ss_fs T) ?d f D"
    using w own tmp k resolve_keeps [OF k d(1)] by (simp add: writable_at_def keeps_dirs_def)
  then have rootT: "in_root T f D"
    using root own bd fr(1) fields by (simp add: in_root_def fs)
  have dirs: "node_at (ss_fs T) (D @ [''checkpoints'']) = Some Directory"
    "node_at (ss_fs T) (D @ [''checkpoints'', f]) = Some Directory"
    using Gn fr(2) by (auto simp: fs same_dirs_def)
  show "checkpoint_ready T f tag D"
    using r rootT dirs n spec [of "D @ [''checkpoints'', f, (tag @ ''.chk'') @ ''.tmp'']"] bd fields
    by (simp add: checkpoint_ready_def checkpoint_node_def fs)
qed

text \<open>Reverting needs the checkpoint and the file, wherever the state came from.\<close>

lemma cp_revert_effect:
  assumes r: "in_root S f D" "length (ss_dir S) + length f + length tag \<le> 240"
    and cp: "resolve (ss_fs S) (ss_dir S @ CHR ''/'' # ''checkpoints'' @ CHR ''/'' # f) = Some (D @ [''checkpoints'', f])"
      "node_at (ss_fs S) (D @ [''checkpoints'', f]) = Some Directory" "plain_name (tag @ ''.chk'')"
      "node_at (ss_fs S) (checkpoint_node f tag D) = Some (RegularFile c)"
    and m: "m_filename msg = f" "m_data msg = tag"
  shows "fst (handle_cp_revert S msg) = [(Naming_Server, metadata_message f (c_string c)), (Client, ack_reply ''Revert successful!'')]"
    "read_file_content (ss_fs (snd (handle_cp_revert S msg))) (ss_dir S @ CHR ''/'' # f) = Some (c_string c)"
proof -
  let ?cp = "ss_dir S @ CHR ''/'' # ''checkpoints'' @ CHR ''/'' # f"
  let ?p = "?cp @ CHR ''/'' # (tag @ ''.chk'')"
  have "length ?p \<le> 899" using r(2) by simp
  then have "take 899 ?p = ?p" by (rule take_all)
  moreover have "build_checkpoint_dir_for_file (ss_fs S) (ss_dir S) f 800 = ?cp"
    using r by (intro checkpoint_dir_root) auto
  ultimately have sp: "snapshot_path S msg = ?p" unfolding snapshot_path_def m by simp
  have "?cp \<noteq> []" by simp
  then have "resolve (ss_fs S) ?p = Some (checkpoint_node f tag D)"
    using cp(1-3) resolve_slash [of ?cp "tag @ ''.chk''" "ss_fs S"] by (simp add: checkpoint_node_def)
  then have rd: "read_file_content (ss_fs S) (snapshot_path S msg) = Some (c_string c)"
    using cp(4) by (simp add: sp read_file_content_def node_of_def)
  have loc: "locate S f = ss_dir S @ CHR ''/'' # f" using in_root_placed [OF r(1)] by (simp add: placed_def)
  show "fst (handle_cp_revert S msg) = [(Naming_Server, metadata_message f (c_string c)), (Client, ack_reply ''Revert successful!'')]"
    using rd m by (simp add: handle_cp_revert_def)
  show "read_file_content (ss_fs (snd (handle_cp_revert S msg))) (ss_dir S @ CHR ''/'' # f) = Some (c_string c)"
    using rd m loc write_back_fs(4) [OF in_root_placed [OF r(1)], where s = "c_string c"]
    by (simp add: handle_cp_revert_def)
qed

text \<open>A write session between the checkpoint and the revert does not matter.\<close>

lemma checkpoint_survives:
  assumes T: "checkpoint_ready T f tag D" and n: "node_at (ss_fs T) (checkpoint_node f tag D) = Some (RegularFile c)"
    and w: "handle_write_file T m2 inputs = Inr ((Client, ack_reply ''READY'') # rest, U)" "m_filename m2 = f"
    and m: "m_filename m3 = f" "m_data m3 = tag"
  shows "read_file_content (ss_fs (snd (handle_cp_revert U m3))) (ss_dir T @ CHR ''/'' # f) = Some (c_string c)"
proof -
  have r: "in_root T f D" and len: "length (ss_dir T) + length f + length tag \<le> 240"
    and pn: "plain_name (tag @ ''.chk'')" and out: "\<not> prefix (backup_dir (ss_fs T)) D"
    and fc: "f \<noteq> ''checkpoints''"
    using T by (auto simp: checkpoint_ready_def)
  have U: "in_root U f D" "ss_dir U = ss_dir T"
    using write_session_undo(2,3) [OF w(1)] r w(2) by auto
  have keep: "node_at (ss_fs U) q = node_at (ss_fs T) q" if "outside_file T f D q" for q
    using write_session_undo(4) [OF w(1)] r that w(2) by auto
  have F: "fs_ok (ss_fs T)" and d: "resolve (ss_fs T) (ss_dir T) = Some D" "ss_dir T \<noteq> []" and f: "plain_name f"
    using r by (auto simp: in_root_def writable_at_def)
  have dirs: "node_at (ss_fs T) (D @ [''checkpoints'', f]) = Some Directory"
    "node_at (ss_fs T) (D @ [''checkpoints'']) = Some Directory" "node_at (ss_fs T) D = Some Directory"
    using n fs_ok_prefix [OF F, of "D @ [''checkpoints'', f]" "[tag @ ''.chk'']"]
      fs_ok_prefix [OF F, of "D @ [''checkpoints'']" "[f, tag @ ''.chk'']"]
      fs_ok_prefix [OF F, of D "[''checkpoints'', f, tag @ ''.chk'']"]
    by (simp_all add: checkpoint_node_def)
  have ne: "f @ ''.tmp'' \<noteq> ''checkpoints''"
  proof
    assume "f @ ''.tmp'' = ''checkpoints''"
    then have "rev (f @ ''.tmp'') = rev ''checkpoints''" by simp
    then show False by simp
  qed
  have outn: "\<not> prefix (backup_dir (ss_fs T)) (checkpoint_node f tag D)" by (rule checkpoint_outside [OF out])
  moreover have "prefix (D @ [''checkpoints'']) (checkpoint_node f tag D)" "prefix (D @ [''checkpoints'', f]) (checkpoint_node f tag D)"
    by (simp_all add: checkpoint_node_def)
  ultimately have outs: "\<not> prefix (backup_dir (ss_fs T)) (D @ [''checkpoints''])" "\<not> prefix (backup_dir (ss_fs T)) (D @ [''checkpoints'', f])"
    using prefix_order.order_trans by blast+
  have kept: "node_at (ss_fs U) (D @ [''checkpoints'', f]) = Some Directory"
    "node_at (ss_fs U) (D @ [''checkpoints'']) = Some Directory"
    "node_at (ss_fs U) (checkpoint_node f tag D) = Some (RegularFile c)"
    using keep [of "D @ [''checkpoints'', f]"] keep [of "D @ [''checkpoints'']"] keep [of "checkpoint_node f tag D"]
      dirs n outn outs fc ne by (simp_all add: outside_file_def checkpoint_node_def)
  have dU: "resolve (ss_fs U) (ss_dir U) = Some D" "node_at (ss_fs U) D = Some Directory"
    using U(1) by (auto simp: in_root_def writable_at_def)
  have "resolve (ss_fs U) (ss_dir U @ CHR ''/'' # ''checkpoints'') = Some (D @ [''checkpoints''])"
    using dU d(2) U(2) by (simp add: resolve_slash)
  then have "resolve (ss_fs U) ((ss_dir U @ CHR ''/'' # ''checkpoints'') @ CHR ''/'' # f) = Some (D @ [''checkpoints'', f])"
    using kept(2) f by (subst resolve_slash) simp_all
  with cp_revert_effect(2) [OF U(1), of tag c m3] kept pn len U(2) m show ?thesis by simp
qed

end
