(* ===== verification/Storage_Demo.thy ===== *)
theory Storage_Demo
  imports Write_Effects Checkpoints
begin

text \<open>
  A concrete storage server with one file, \<^verbatim>\<open>One. Two.\<close>, and a concrete write session on
  it.  The theorems about storage servers are applied to it.
\<close>

definition demo_dir :: "string list" where
  "demo_dir = [''srv'', ''data'', ''ss_storage'', ''s'']"

definition demo_fs :: fs where
  "demo_fs = \<lparr>fs_cwd = [''srv''], fs_nodes =
     [([''srv''], Directory), ([''srv'', ''data''], Directory), ([''srv'', ''data'', ''ss_storage''], Directory),
      ([''srv'', ''data'', ''ss_storage'', ''s''], Directory),
      ([''srv'', ''data'', ''ss_storage'', ''s'', ''f''], RegularFile ''One. Two.'')]\<rparr>"

definition demo_server :: storage_server where
  "demo_server = start_storage_server demo_fs ''s''"

text \<open>Ann inserts \<^verbatim>\<open>Number\<close> before the first word of sentence 0.\<close>

definition demo_write :: message where
  "demo_write = message_zero\<lparr>m_type := MSG_WRITE_REQUEST, m_sender := ''ann'', m_filename := ''f''\<rparr>"

definition demo_inputs :: "message list" where
  "demo_inputs = [message_zero\<lparr>m_arg1 := 1, m_data := ''Number''\<rparr>, message_zero\<lparr>m_arg1 := 7, m_data := ''x''\<rparr>,
                  message_zero\<lparr>m_data := ''ETIRW''\<rparr>]"

definition demo_session :: write_session where
  "demo_session = (new_session demo_write ''data/ss_storage/s/f'' [''One.'', ''Two.''])\<lparr>ws_words := [''Number'', ''One.'']\<rparr>"

lemma demo_write_fields [simp]:
  "m_filename demo_write = ''f''" "m_sender demo_write = ''ann''" "m_arg1 demo_write = 0" "m_type demo_write = MSG_WRITE_REQUEST"
  by (simp_all add: demo_write_def message_zero_def)

lemma demo_dir_name: "ss_dir demo_server = ''data/ss_storage/s''"
  by code_simp

lemma demo_in_root: "in_root demo_server ''f'' demo_dir"
  by code_simp

lemma demo_locks: "ss_locks demo_server = []" "ss_undo demo_server = []" "locks_ok (ss_locks demo_server)" "undo_ok (ss_undo demo_server)"
  by (simp_all add: demo_server_def start_storage_server_def Let_def locks_ok_def undo_ok_def)

lemma demo_placed: "placed demo_server ''f'' ''data/ss_storage/s'' demo_dir"
  using in_root_placed [OF demo_in_root] by (simp add: demo_dir_name)

lemma demo_read: "read_file_content (ss_fs demo_server) (''data/ss_storage/s'' @ CHR ''/'' # ''f'') = Some ''One. Two.''"
  by code_simp

lemma demo_split: "split_sentences [] ''One. Two.'' = [''One.'', ''Two.'']"
  by code_simp

lemma demo_available: "lock_available demo_server (''f'', 0)"
  by (simp add: lock_available_def demo_locks lock_holder_def lock_index_def)

lemma demo_text: "words_text (ws_words demo_session) = ''Number One.''"
  by code_simp

lemma demo_loop:
  "write_loop (new_session demo_write (''data/ss_storage/s'' @ CHR ''/'' # ''f'') [''One.'', ''Two.'']) demo_inputs
   = ([(Client, error_reply ERR_INVALID_WORD_INDEX ''ERROR: Invalid word index. Use 1..current_length+1.'')],
      demo_session, True)"
proof -
  have words: "ws_words (new_session demo_write p [''One.'', ''Two.'']) = [''One.'']" for p
  proof -
    have "strtok {CHR '' ''} ''One.'' = [''One.'']" by code_simp
    then show ?thesis by (simp add: new_session_def sentence_words_def limit_defs strncpy_buf_def Let_def)
  qed
  show ?thesis
    by (simp add: demo_inputs_def message_zero_def words demo_session_def update_words_def limit_defs
        insert_word_def insert_at_def Let_def)
qed

lemma demo_edit:
  "edit_fits [''One.'', ''Two.''] 0 ''Number One.''" "closed_edit ''Number One.''"
  "join_with (CHR '' '') (edited_sentences [''One.'', ''Two.''] 0 ''Number One.'') = ''Number One. Two.''"
proof -
  have s: "split_sentences [] ''Number One.'' = [''Number One.'']" by code_simp
  show "edit_fits [''One.'', ''Two.''] 0 ''Number One.''"
    by (simp add: edit_fits_def edited_sentences_def s limit_defs del: split_sentences.simps)
  show "closed_edit ''Number One.''" by code_simp
  show "join_with (CHR '' '') (edited_sentences [''One.'', ''Two.''] 0 ''Number One.'') = ''Number One. Two.''"
    by (simp add: edited_sentences_def s del: split_sentences.simps)
qed

lemma demo_session_commits:
  "\<exists>S'. handle_write_file demo_server demo_write demo_inputs =
     Inr ([(Client, ack_reply ''READY''),
           (Client, error_reply ERR_INVALID_WORD_INDEX ''ERROR: Invalid word index. Use 1..current_length+1.''),
           (Naming_Server, metadata_message ''f'' ''Number One. Two.''), (Client, ack_reply ''Write Successful!'')], S')
   \<and> read_file_content (ss_fs S') (''data/ss_storage/s'' @ CHR ''/'' # ''f'') = Some ''Number One. Two.''
   \<and> lock_holder (ss_locks S') = lock_holder (ss_locks demo_server)
   \<and> ss_undo S' = save_undo (ss_undo demo_server) ''f'' ''One. Two.''"
  using write_session_commits [of demo_server demo_write "''data/ss_storage/s''" demo_dir "''One. Two.''" demo_inputs,
      unfolded demo_write_fields demo_split, OF demo_placed demo_locks(3) demo_read order_refl demo_available demo_loop refl _ _ refl,
      unfolded demo_text nat_0, OF demo_edit(1,2), unfolded demo_edit(3)]
  by simp

end
