(* ===== verification/Storage_Invariant.thy ===== *)
theory Storage_Invariant
  imports Storage_Facts
begin

text \<open>
  The state invariant of a storage server: the file system is a tree of directories and
  files, the lock table and the undo table have one entry per key and fit their arrays.
  Every request of the naming server and every client connection keeps it.
\<close>

definition storage_ok :: "storage_server \<Rightarrow> bool" where
  "storage_ok S \<longleftrightarrow> fs_ok (ss_fs S) \<and> locks_ok (ss_locks S) \<and> undo_ok (ss_undo S)
     \<and> length (ss_commit_locks S) \<le> 1000"

section \<open>File system calls\<close>

lemma fs_ok_mkdir_all: "fs_ok F \<Longrightarrow> fs_ok (snd (mkdir_all F ps))"
  by (induction F ps rule: mkdir_all.induct) (simp_all add: fs_ok_mkdir)

lemma fs_ok_mkdir_p: "fs_ok F \<Longrightarrow> fs_ok (snd (mkdir_p F path))"
  by (simp add: mkdir_p_def fs_ok_mkdir_all)

lemma fs_ok_backup: "fs_ok F \<Longrightarrow> fs_ok (update_backup_for_file F f s)"
  by (auto simp: update_backup_for_file_def Let_def intro!: atomic_write_frame(1) fs_ok_mkdir fs_ok_mkdir_p
      split: option.split)

lemma storage_ok_fs: "storage_ok S \<Longrightarrow> fs_ok G \<Longrightarrow> storage_ok (S\<lparr>ss_fs := G\<rparr>)"
  by (simp add: storage_ok_def)

lemma storage_ok_write_back: "storage_ok S \<Longrightarrow> storage_ok (write_back S p f s)"
  by (simp add: storage_ok_def write_back_def fs_ok_backup atomic_write_frame(1))

section \<open>Handlers\<close>

lemma handle_create_file_ok: "storage_ok S \<Longrightarrow> storage_ok (snd (handle_create_file S msg))"
  by (auto simp: handle_create_file_def Let_def storage_ok_def
      intro!: fs_ok_backup dest: fs_ok_fopen(1) split: option.split)

lemma handle_delete_file_ok: "storage_ok S \<Longrightarrow> storage_ok (snd (handle_delete_file S msg))"
  by (auto simp: handle_delete_file_def storage_ok_def dest: fs_ok_unlink split: option.split)

lemma handle_read_file_ok: "storage_ok S \<Longrightarrow> storage_ok (snd (handle_read_file S msg))"
  by (simp add: handle_read_file_def split: option.split)

lemma handle_stream_file_ok:
  "storage_ok S \<Longrightarrow> handle_stream_file S msg = Inr (out, S') \<Longrightarrow> storage_ok S'"
  by (auto simp: handle_stream_file_def fault_simps split: option.splits)

lemma handle_undo_file_ok: "storage_ok S \<Longrightarrow> storage_ok (snd (handle_undo_file S msg))"
  using undo.invar_take [of "ss_undo S" "m_filename msg"]
  by (auto simp: handle_undo_file_def intro!: storage_ok_write_back split: prod.splits option.splits)
     (simp_all add: storage_ok_def)

lemma handle_cp_create_ok: "storage_ok S \<Longrightarrow> storage_ok (snd (handle_cp_create S msg))"
  by (auto simp: handle_cp_create_def Let_def storage_ok_def
      intro!: atomic_write_frame(1) fs_ok_mkdir_p split: option.split)

lemma handle_cp_view_ok: "storage_ok S \<Longrightarrow> storage_ok (snd (handle_cp_view S msg))"
  by (simp add: handle_cp_view_def split: option.split)

lemma handle_cp_list_ok: "storage_ok S \<Longrightarrow> handle_cp_list S msg = Inr (out, S') \<Longrightarrow> storage_ok S'"
  by (auto simp: handle_cp_list_def Let_def fault_simps)

lemma handle_cp_revert_ok: "storage_ok S \<Longrightarrow> storage_ok (snd (handle_cp_revert S msg))"
  by (simp add: handle_cp_revert_def storage_ok_write_back split: option.split)

lemma handle_move_file_ss_ok: "storage_ok S \<Longrightarrow> storage_ok (snd (handle_move_file_ss S msg))"
  by (auto simp: handle_move_file_ss_def Let_def storage_ok_def fs_ok_mkdir
      intro: fs_ok_rename [OF fs_ok_mkdir] split: option.split)

lemma handle_push_content_ok: "storage_ok S \<Longrightarrow> storage_ok (snd (handle_push_content S msg))"
  by (simp add: handle_push_content_def storage_ok_write_back)

lemma handle_create_folder_ss_ok: "storage_ok S \<Longrightarrow> storage_ok (snd (handle_create_folder_ss S msg))"
  by (simp add: handle_create_folder_ss_def storage_ok_def fs_ok_mkdir)

lemmas handlers_ok = handle_create_file_ok handle_delete_file_ok handle_read_file_ok handle_undo_file_ok
  handle_cp_create_ok handle_cp_view_ok handle_cp_revert_ok handle_move_file_ss_ok handle_push_content_ok
  handle_create_folder_ss_ok

lemma nm_request_ok: "storage_ok S \<Longrightarrow> storage_ok (snd (nm_request S msg))"
  by (simp add: nm_request_def handlers_ok split: message_type.split)

section \<open>Write sessions\<close>

lemma commit_locks_bound:
  "length t \<le> 1000 \<Longrightarrow> length (snd (get_or_create_file_commit_lock t f)) \<le> 1000"
  by (auto simp: get_or_create_file_commit_lock_def split: option.split)

lemma write_commit_ok:
  assumes "storage_ok S" "write_commit S ws = Inr (out, S')"
  shows "storage_ok S'"
proof -
  let ?S1 = "S\<lparr>ss_commit_locks := snd (get_or_create_file_commit_lock (ss_commit_locks S) (ws_filename ws))\<rparr>"
  have 1: "storage_ok ?S1" using assms(1) by (simp add: storage_ok_def commit_locks_bound)
  with assms(2) storage_ok_write_back [OF 1] show ?thesis
    by (auto simp: write_commit_def Let_def fault_simps split: option.splits)
qed

lemma write_begin_ok:
  assumes "storage_ok S" "write_begin S msg p c = Inr (out, sess, S')"
  shows "storage_ok S'"
  using assms(2)
proof (cases rule: write_begin_cases)
  case (refused err)
  from refused(4) assms(1) refused(5) show ?thesis by (metis (no_types, lifting) storage_ok_def storage_server.surjective
      storage_server.update_convs(3) storage_server.select_convs)
next
  case (ready ss t)
  have "locks_ok t" using sentence_lock.invar_acquire [of "ss_locks S"] assms(1) ready(5)
    by (metis snd_conv storage_ok_def)
  with ready(6) assms(1) show ?thesis by (simp add: storage_ok_def undo.invar_save)
qed

lemma write_release_ok: "storage_ok S \<Longrightarrow> storage_ok (write_release S ws)"
  by (simp add: storage_ok_def write_release_def sentence_lock.invar_release)

lemma handle_write_file_ok:
  assumes "storage_ok S" "handle_write_file S msg inputs = Inr (out, S')"
  shows "storage_ok S'"
proof -
  obtain p c where op: "write_open S msg = (p, c)" by fastforce
  from assms(2) op obtain out1 sess S1 where b: "write_begin S msg p c = Inr (out1, sess, S1)"
    by (auto simp: handle_write_file_def fault_simps)
  have 1: "storage_ok S1" by (rule write_begin_ok [OF assms(1) b])
  with assms(2) op b show ?thesis
    by (auto simp: handle_write_file_def fault_simps dest: write_commit_ok [OF 1] intro: write_release_ok
        split: option.splits prod.splits if_splits)
qed

lemma handle_client_connection_ok:
  assumes "storage_ok S" "handle_client_connection S inputs = Inr (out, S')"
  shows "storage_ok S'"
proof (cases inputs)
  case Nil
  with assms show ?thesis by (simp add: handle_client_connection_def)
next
  case (Cons msg rest)
  have other: "storage_ok S'" if "Inr (h S msg) = (Inr (out, S') :: (ss_output \<times> storage_server) result)"
    "storage_ok (snd (h S msg))" for h
    using that by (cases "h S msg") auto
  show ?thesis
    using assms handlers_ok [OF assms(1), of msg] handle_write_file_ok [OF assms(1), of msg rest out S']
      handle_stream_file_ok [OF assms(1), of msg out S'] handle_cp_list_ok [OF assms(1), of msg out S']
    by (cases "m_type msg") (auto simp: handle_client_connection_def Cons intro: other)
qed

lemma start_storage_server_ok: "fs_ok F \<Longrightarrow> storage_ok (start_storage_server F ss_id)"
  by (simp add: start_storage_server_def Let_def storage_ok_def locks_ok_def undo_ok_def fs_ok_mkdir)

end
