(* ===== verification/Write_Sessions.thy ===== *)
theory Write_Sessions
  imports Storage_Facts
begin

text \<open>
  Concurrent write sessions of the storage server.  A connection thread runs
  \<open>handle_write_file\<close> in steps: it opens the file, takes the sentence lock, edits, commits or
  aborts, and releases; any thread may run between two steps, and the other handlers run in
  between as well.  The invariant says that the sentence locks held are exactly those of the
  running sessions, so that no two sessions work on one sentence index of a file and no lock
  is left behind.
\<close>

section \<open>Threads and steps\<close>

datatype phase =
    Idle
  | Opened message string string            \<comment> \<open>request, path, content read\<close>
  | Editing message write_session
  | Closing message write_session           \<comment> \<open>committed or aborted, lock still held\<close>

type_synonym threads = "nat \<Rightarrow> phase"

inductive session_step :: "storage_server \<times> threads \<Rightarrow> storage_server \<times> threads \<Rightarrow> bool" where
  step_open: "P t = Idle \<Longrightarrow> write_open S msg = (path, content) \<Longrightarrow>
     session_step (S, P) (S, P(t := Opened msg path content))"
| step_refused: "P t = Opened msg path content \<Longrightarrow> write_begin S msg path content = Inr (out, None, S') \<Longrightarrow>
     session_step (S, P) (S', P(t := Idle))"
| step_begin: "P t = Opened msg path content \<Longrightarrow> write_begin S msg path content = Inr (out, Some ws, S') \<Longrightarrow>
     session_step (S, P) (S', P(t := Editing msg ws))"
| step_update: "P t = Editing msg ws \<Longrightarrow> update_words (ws_words ws) (m_arg1 (m :: message)) (m_data m) = Inr words \<Longrightarrow>
     session_step (S, P) (S, P(t := Editing msg (ws\<lparr>ws_words := words\<rparr>)))"
| step_commit: "P t = Editing msg ws \<Longrightarrow> write_commit S ws = Inr (out, S') \<Longrightarrow>
     session_step (S, P) (S', P(t := Closing msg ws))"
| step_abort: "P t = Editing msg ws \<Longrightarrow> session_step (S, P) (S, P(t := Closing msg ws))"
| step_release: "P t = Closing msg ws \<Longrightarrow> session_step (S, P) (write_release S ws, P(t := Idle))"
| step_undo: "handle_undo_file S msg = (out, S') \<Longrightarrow> session_step (S, P) (S', P)"
| step_checkpoint: "handle_cp_create S msg = (out, S') \<Longrightarrow> session_step (S, P) (S', P)"
| step_revert: "handle_cp_revert S msg = (out, S') \<Longrightarrow> session_step (S, P) (S', P)"
| step_nm: "nm_request S msg = (out, S') \<Longrightarrow> session_step (S, P) (S', P)"

definition sessions_idle :: "storage_server \<Rightarrow> storage_server \<times> threads" where
  "sessions_idle S = (S, \<lambda>_. Idle)"

section \<open>The invariant\<close>

text \<open>The lock a thread holds, and for whom.\<close>

fun phase_lock :: "phase \<Rightarrow> ((string \<times> int) \<times> string) option" where
  "phase_lock (Editing msg ws) = Some ((ws_filename ws, ws_idx ws), m_sender msg)"
| "phase_lock (Closing msg ws) = Some ((ws_filename ws, ws_idx ws), m_sender msg)"
| "phase_lock _ = None"

definition session_inv :: "storage_server \<times> threads \<Rightarrow> bool" where
  "session_inv c \<longleftrightarrow> locks_ok (ss_locks (fst c))
     \<and> (\<forall>t k u. phase_lock (snd c t) = Some (k, u) \<longrightarrow> lock_holder (ss_locks (fst c)) k = Some u)
     \<and> (\<forall>t t' k u v. phase_lock (snd c t) = Some (k, u) \<longrightarrow> phase_lock (snd c t') = Some (k, v) \<longrightarrow> t = t')
     \<and> (\<forall>k u. lock_holder (ss_locks (fst c)) k = Some u \<longrightarrow> (\<exists>t. phase_lock (snd c t) = Some (k, u)))"

lemma session_invI:
  assumes "locks_ok L"
    "\<And>t k u. phase_lock (P t) = Some (k, u) \<Longrightarrow> lock_holder L k = Some u"
    "\<And>t t' k u v. phase_lock (P t) = Some (k, u) \<Longrightarrow> phase_lock (P t') = Some (k, v) \<Longrightarrow> t = t'"
    "\<And>k u. lock_holder L k = Some u \<Longrightarrow> \<exists>t. phase_lock (P t) = Some (k, u)"
    "ss_locks S = L"
  shows "session_inv (S, P)"
  unfolding session_inv_def using assms by auto

text \<open>A step that leaves the locks and what each thread holds alone.\<close>

lemma session_inv_same:
  assumes "session_inv (S, P)" "locks_ok (ss_locks S')" "lock_holder (ss_locks S') = lock_holder (ss_locks S)"
    "\<And>t. phase_lock (P' t) = phase_lock (P t)"
  shows "session_inv (S', P')"
  using assms unfolding session_inv_def by simp

lemma handler_locks:
  "handle_undo_file S msg = (out, S') \<Longrightarrow> ss_locks S' = ss_locks S"
  "handle_cp_create S msg = (out, S') \<Longrightarrow> ss_locks S' = ss_locks S"
  "handle_cp_revert S msg = (out, S') \<Longrightarrow> ss_locks S' = ss_locks S"
  "nm_request S msg = (out, S') \<Longrightarrow> ss_locks S' = ss_locks S"
proof -
  show "handle_undo_file S msg = (out, S') \<Longrightarrow> ss_locks S' = ss_locks S"
    by (auto simp: handle_undo_file_def split: prod.splits option.splits)
  show "handle_cp_create S msg = (out, S') \<Longrightarrow> ss_locks S' = ss_locks S"
    by (auto simp: handle_cp_create_def Let_def split: option.splits)
  show "handle_cp_revert S msg = (out, S') \<Longrightarrow> ss_locks S' = ss_locks S"
    by (auto simp: handle_cp_revert_def split: option.splits)
  show "nm_request S msg = (out, S') \<Longrightarrow> ss_locks S' = ss_locks S"
    by (auto simp: nm_request_def handle_create_file_def handle_delete_file_def handle_create_folder_ss_def
        handle_move_file_ss_def handle_push_content_def Let_def
        split: message_type.splits option.splits prod.splits if_splits)
qed

lemma session_inv_step:
  assumes "session_step c c'" "session_inv c"
  shows "session_inv c'"
  using assms
proof (induction rule: session_step.induct)
  case (step_open P t S msg path content)
  then show ?case by (intro session_inv_same [OF step_open.prems]) (auto simp: session_inv_def)
next
  case (step_refused P t msg path content S out S')
  have "locks_ok (ss_locks S)" using step_refused.prems by (simp add: session_inv_def)
  with write_begin_cases [OF step_refused.hyps(2)]
  have "locks_ok (ss_locks S')" "lock_holder (ss_locks S') = lock_holder (ss_locks S)" by auto
  then show ?case using step_refused.hyps(1) by (intro session_inv_same [OF step_refused.prems]) auto
next
  case (step_begin P t msg path content S out ws S')
  let ?k = "(m_filename msg, m_arg1 msg)"
  from step_begin.prems have inv: "locks_ok (ss_locks S)"
    "\<And>t k u. phase_lock (P t) = Some (k, u) \<Longrightarrow> lock_holder (ss_locks S) k = Some u"
    "\<And>t t' k u v. phase_lock (P t) = Some (k, u) \<Longrightarrow> phase_lock (P t') = Some (k, v) \<Longrightarrow> t = t'"
    "\<And>k u. lock_holder (ss_locks S) k = Some u \<Longrightarrow> \<exists>t. phase_lock (P t) = Some (k, u)"
    unfolding session_inv_def fst_conv snd_conv by blast+
  from write_begin_cases [OF step_begin.hyps(2)] obtain ss L where
    L: "try_acquire_lock (ss_locks S) ?k (m_sender msg) = (True, L)"
    and ws: "ws = new_session msg path ss" and S': "ss_locks S' = L"
    by (metis (no_types, lifting) option.distinct(1) option.inject storage_server.select_convs(3)
        storage_server.surjective storage_server.update_convs(3) storage_server.update_convs(5))
  note f = acquire_free [OF inv(1) L]
  have pl: "phase_lock (Editing msg ws) = Some (?k, m_sender msg)" by (simp add: ws)
  have old: "phase_lock (P t) = None" using step_begin.hyps(1) by simp
  have fresh: "k \<noteq> ?k" if "phase_lock (P t') = Some (k, u)" for t' k u
    using inv(2) [OF that] f by auto
  show ?case
  proof (rule session_invI [OF _ _ _ _ S'])
    show "locks_ok L" using f by simp
    show "lock_holder L k = Some u" if "phase_lock ((P(t := Editing msg ws)) t') = Some (k, u)" for t' k u
      using that inv(2) fresh f pl by (cases "t' = t") auto
    show "t1 = t2" if "phase_lock ((P(t := Editing msg ws)) t1) = Some (k, u)"
      "phase_lock ((P(t := Editing msg ws)) t2) = Some (k, v)" for t1 t2 k u v
      using that inv(3) fresh pl by (cases "t1 = t"; cases "t2 = t") auto
    show "\<exists>t'. phase_lock ((P(t := Editing msg ws)) t') = Some (k, u)" if "lock_holder L k = Some u" for k u
    proof (cases "k = ?k")
      case True
      with that f pl show ?thesis by (intro exI [of _ t]) simp
    next
      case False
      with that f inv(4) [of k u] obtain t' where "phase_lock (P t') = Some (k, u)" by auto
      with old show ?thesis by (intro exI [of _ t']) auto
    qed
  qed
next
  case (step_update P t msg ws m words S)
  then show ?case by (intro session_inv_same [OF step_update.prems]) (auto simp: session_inv_def)
next
  case (step_commit P t msg ws S out S')
  then have "ss_locks S' = ss_locks S" using write_commit_locks by blast
  with step_commit show ?case by (intro session_inv_same [OF step_commit.prems]) (auto simp: session_inv_def)
next
  case (step_abort P t msg ws S)
  then show ?case by (intro session_inv_same [OF step_abort.prems]) (auto simp: session_inv_def)
next
  case (step_release P t msg ws S)
  let ?k = "(ws_filename ws, ws_idx ws)" and ?L = "release_lock (ss_locks S) (ws_filename ws, ws_idx ws)"
  from step_release.prems have inv: "locks_ok (ss_locks S)"
    "\<And>t k u. phase_lock (P t) = Some (k, u) \<Longrightarrow> lock_holder (ss_locks S) k = Some u"
    "\<And>t t' k u v. phase_lock (P t) = Some (k, u) \<Longrightarrow> phase_lock (P t') = Some (k, v) \<Longrightarrow> t = t'"
    "\<And>k u. lock_holder (ss_locks S) k = Some u \<Longrightarrow> \<exists>t. phase_lock (P t) = Some (k, u)"
    unfolding session_inv_def fst_conv snd_conv by blast+
  have L: "lock_holder ?L = (lock_holder (ss_locks S))(?k := None)" by (rule sentence_lock.release_holder [OF inv(1)])
  have own: "phase_lock (P t) = Some (?k, m_sender msg)" using step_release.hyps by simp
  show ?case
  proof (rule session_invI)
    show "locks_ok ?L" by (rule sentence_lock.invar_release [OF inv(1)])
    show "ss_locks (write_release S ws) = ?L" by (simp add: write_release_def)
    show "lock_holder ?L k = Some u" if "phase_lock ((P(t := Idle)) t') = Some (k, u)" for t' k u
    proof -
      have t': "t' \<noteq> t" "phase_lock (P t') = Some (k, u)" using that by (auto split: if_splits)
      with inv(3) own have "k \<noteq> ?k" by blast
      with t'(2) inv(2) L show ?thesis by simp
    qed
    show "t1 = t2" if "phase_lock ((P(t := Idle)) t1) = Some (k, u)" "phase_lock ((P(t := Idle)) t2) = Some (k, v)" for t1 t2 k u v
      using that inv(3) by (auto split: if_splits)
    show "\<exists>t'. phase_lock ((P(t := Idle)) t') = Some (k, u)" if "lock_holder ?L k = Some u" for k u
    proof -
      from that L have k: "k \<noteq> ?k" "lock_holder (ss_locks S) k = Some u" by (auto split: if_splits)
      then obtain t' where t': "phase_lock (P t') = Some (k, u)" using inv(4) by blast
      with own k(1) have "t' \<noteq> t" by auto
      with t' show ?thesis by (intro exI [of _ t']) simp
    qed
  qed
next
  case (step_undo S msg out S' P)
  with handler_locks(1) show ?case by (intro session_inv_same [OF step_undo.prems]) (auto simp: session_inv_def)
next
  case (step_checkpoint S msg out S' P)
  with handler_locks(2) show ?case by (intro session_inv_same [OF step_checkpoint.prems]) (auto simp: session_inv_def)
next
  case (step_revert S msg out S' P)
  with handler_locks(3) show ?case by (intro session_inv_same [OF step_revert.prems]) (auto simp: session_inv_def)
next
  case (step_nm S msg out S' P)
  with handler_locks(4) show ?case by (intro session_inv_same [OF step_nm.prems]) (auto simp: session_inv_def)
qed

lemma session_inv_init: "ss_locks S = [] \<Longrightarrow> session_inv (sessions_idle S)"
  by (simp add: session_inv_def sessions_idle_def locks_ok_def lock_holder_def lock_index_def)

lemma session_inv_reachable:
  "session_step\<^sup>*\<^sup>* c c' \<Longrightarrow> session_inv c \<Longrightarrow> session_inv c'"
  by (induction rule: rtranclp_induct) (auto intro: session_inv_step)

end
