(* ===== verification/Storage_Properties.thy ===== *)
theory Storage_Properties
  imports Storage_Demo Storage_Invariant Write_Sessions
begin

text \<open>
  The properties of the storage server, each with its application to the concrete server of
  \<open>Storage_Demo\<close>.
\<close>

section \<open>Write sessions\<close>

text \<open>
  C1: a write session on an existing sentence that ends with \<^verbatim>\<open>ETIRW\<close> returns, tells the client so,
  releases its lock, keeps the old content for UNDO, and the file then consists of the old
  sentences with the edited one replaced by the sentences of the new text; rejected
  updates only add their error messages.  (The file is in place, its lock is free, the texts
  fit their buffers, and the new text still ends in a delimiter.)
\<close>

theorem write_session_replaces_sentence:
  assumes "placed S (m_filename msg) d D" "locks_ok (ss_locks S)"
    and "read_file_content (ss_fs S) (d @ CHR ''/'' # m_filename msg) = Some c"
    and "0 \<le> m_arg1 msg" "lock_available S (m_filename msg, m_arg1 msg)"
    and "write_loop (new_session msg (d @ CHR ''/'' # m_filename msg) (split_sentences [] c)) inputs = (errs, ws, True)"
    and "edit_fits (split_sentences [] c) (nat (m_arg1 msg)) (words_text (ws_words ws))"
    and "closed_edit (words_text (ws_words ws))"
  shows "\<exists>final S'. handle_write_file S msg inputs =
           Inr ((Client, ack_reply ''READY'') # errs
                @ [(Naming_Server, metadata_message (m_filename msg) final), (Client, ack_reply ''Write Successful!'')], S')
       \<and> read_file_content (ss_fs S') (d @ CHR ''/'' # m_filename msg) = Some final
       \<and> parse_sentences final = (if length (edited_sentences (split_sentences [] c) (nat (m_arg1 msg)) (words_text (ws_words ws)))
             \<le> MAX_SENTENCES
           then Inr (edited_sentences (split_sentences [] c) (nat (m_arg1 msg)) (words_text (ws_words ws)))
           else Inl Overflow)
       \<and> lock_holder (ss_locks S') = lock_holder (ss_locks S)
       \<and> ss_undo S' = save_undo (ss_undo S) (m_filename msg) c"
proof -
  let ?es = "edited_sentences (split_sentences [] c) (nat (m_arg1 msg)) (words_text (ws_words ws))"
  have "nat (m_arg1 msg) < length (split_sentences [] c)" using assms(7) by (simp add: edit_fits_def)
  then have "split_sentences [] (join_with (CHR '' '') ?es) = ?es"
    using edited_sentences_ok(1) assms(8) split_join by blast
  then have "parse_sentences (join_with (CHR '' '') ?es) = (if length ?es \<le> MAX_SENTENCES then Inr ?es else Inl Overflow)"
    by (simp only: parse_sentences_eq)
  with write_session_commits [OF assms(1-6) refl assms(7,8) refl] show ?thesis by blast
qed

theorem write_session_replaces_sentence_witness:
  "\<exists>final S'. handle_write_file demo_server demo_write demo_inputs =
     Inr ([(Client, ack_reply ''READY''),
           (Client, error_reply ERR_INVALID_WORD_INDEX ''ERROR: Invalid word index. Use 1..current_length+1.''),
           (Naming_Server, metadata_message ''f'' final), (Client, ack_reply ''Write Successful!'')], S')
   \<and> read_file_content (ss_fs S') (''data/ss_storage/s'' @ CHR ''/'' # ''f'') = Some final"
  using write_session_replaces_sentence [of demo_server demo_write "''data/ss_storage/s''" demo_dir "''One. Two.''" demo_inputs,
      unfolded demo_write_fields demo_split, OF demo_placed demo_locks(3) demo_read order_refl demo_available demo_loop,
      unfolded demo_text nat_0, OF demo_edit(1,2)]
  by auto

text \<open>
  C2: however the threads of a storage server interleave the steps of their write sessions,
  undo, checkpoint and revert requests and the naming server's requests, no two write
  sessions ever hold the lock of the same sentence index of the same file, every session
  holds the lock it works under, and no lock is held without a session.
\<close>

theorem sessions_exclusive:
  assumes "session_step\<^sup>*\<^sup>* (sessions_idle S) (S', P)" "ss_locks S = []"
  shows "(\<forall>t t' k u v. phase_lock (P t) = Some (k, u) \<longrightarrow> phase_lock (P t') = Some (k, v) \<longrightarrow> t = t')
       \<and> (\<forall>t k u. phase_lock (P t) = Some (k, u) \<longrightarrow> lock_holder (ss_locks S') k = Some u)
       \<and> (\<forall>k u. lock_holder (ss_locks S') k = Some u \<longrightarrow> (\<exists>t. phase_lock (P t) = Some (k, u)))"
proof -
  have "session_inv (sessions_idle S)"
    unfolding sessions_idle_def
    by (rule session_invI [where L = "[]"])
       (use assms(2) in \<open>auto simp: locks_ok_def lock_holder_def lock_index_def\<close>)
  from session_inv_reachable [OF assms(1) this] show ?thesis unfolding session_inv_def fst_conv snd_conv by blast
qed

theorem sessions_exclusive_witness:
  "\<exists>S' P ws. session_step\<^sup>*\<^sup>* (sessions_idle demo_server) (S', P) \<and> P 3 = Editing demo_write ws
     \<and> lock_holder (ss_locks S') (''f'', 0) = Some ''ann''"
proof -
  let ?p = "''data/ss_storage/s/f''"
  have op: "write_open demo_server demo_write = (?p, ''One. Two.'')" by code_simp
  have n: "length (split_sentences [] ''One. Two.'') \<le> MAX_SENTENCES" "m_arg1 demo_write < int (length (split_sentences [] ''One. Two.''))"
    unfolding demo_split by (simp_all add: limit_defs)
  obtain t where b: "write_begin demo_server demo_write ?p ''One. Two.'' =
      Inr ([(Client, ack_reply ''READY'')], Some (new_session demo_write ?p (split_sentences [] ''One. Two.'')),
           demo_server\<lparr>ss_locks := t, ss_undo := save_undo (ss_undo demo_server) (m_filename demo_write) ''One. Two.''\<rparr>)"
    using write_begin_ready [OF n(1) _ n(2), of demo_server ?p] demo_available by auto
  let ?ws = "new_session demo_write ?p (split_sentences [] ''One. Two.'')"
  let ?S = "demo_server\<lparr>ss_locks := t, ss_undo := save_undo (ss_undo demo_server) (m_filename demo_write) ''One. Two.''\<rparr>"
  let ?P1 = "(\<lambda>_. Idle)(3 := Opened demo_write ?p ''One. Two.'')"
  let ?P = "?P1(3 := Editing demo_write ?ws)"
  have "session_step (sessions_idle demo_server) (demo_server, ?P1)"
    unfolding sessions_idle_def by (rule step_open [OF _ op]) simp
  moreover have "session_step (demo_server, ?P1) (?S, ?P)"
    by (rule step_begin [OF _ b]) simp
  ultimately have reach: "session_step\<^sup>*\<^sup>* (sessions_idle demo_server) (?S, ?P)" by simp
  moreover have "phase_lock (?P 3) = Some ((''f'', 0), ''ann'')" by simp
  then have "lock_holder (ss_locks ?S) (''f'', 0) = Some ''ann''"
    using sessions_exclusive [OF reach demo_locks(1)] by blast
  moreover have "?P 3 = Editing demo_write ?ws" by simp
  ultimately show ?thesis by blast
qed

text \<open>
  C28: whichever way a WRITE request ends - refused, aborted, rejected because the file changed,
  or committed - afterwards the same sentence locks are held by the same users as before.
\<close>

theorem write_returns_lock:
  assumes "handle_write_file S msg inputs = Inr (out, S')" "locks_ok (ss_locks S)"
  shows "lock_holder (ss_locks S') = lock_holder (ss_locks S)"
  by (rule write_keeps_holders [OF assms])

theorem write_returns_lock_witness:
  "\<exists>out S'. handle_write_file demo_server demo_write demo_inputs = Inr (out, S')
     \<and> lock_holder (ss_locks S') (''f'', 0) = None"
proof -
  obtain out S' where h: "handle_write_file demo_server demo_write demo_inputs = Inr (out, S')"
    using demo_session_commits by blast
  have "lock_holder (ss_locks demo_server) (''f'', 0) = None"
    using demo_available by (simp add: lock_available_def)
  with h write_returns_lock [OF h demo_locks(3)] show ?thesis by auto
qed

text \<open>
  A write session whose client disconnects before \<^verbatim>\<open>ETIRW\<close> changes no file.
\<close>

theorem aborted_session_keeps_files:
  assumes "handle_write_file S msg inputs = Inr (out, S')" "\<forall>m \<in> set inputs. m_data m \<noteq> ''ETIRW''"
  shows "ss_fs S' = ss_fs S"
  by (rule write_abort_fs [OF assms])

lemma demo_abort:
  "\<exists>out S'. handle_write_file demo_server demo_write [message_zero\<lparr>m_arg1 := 1, m_data := ''Number''\<rparr>] = Inr (out, S')"
proof -
  have op: "write_open demo_server demo_write = (''data/ss_storage/s/f'', ''One. Two.'')" by code_simp
  have n: "length (split_sentences [] ''One. Two.'') \<le> MAX_SENTENCES" "m_arg1 demo_write < int (length (split_sentences [] ''One. Two.''))"
    unfolding demo_split by (simp_all add: limit_defs)
  obtain t where b: "write_begin demo_server demo_write ''data/ss_storage/s/f'' ''One. Two.'' =
      Inr ([(Client, ack_reply ''READY'')], Some (new_session demo_write ''data/ss_storage/s/f'' (split_sentences [] ''One. Two.'')),
           demo_server\<lparr>ss_locks := t, ss_undo := save_undo (ss_undo demo_server) (m_filename demo_write) ''One. Two.''\<rparr>)"
    using write_begin_ready [OF n(1) _ n(2), of demo_server "''data/ss_storage/s/f''"] demo_available by auto
  let ?ws = "new_session demo_write ''data/ss_storage/s/f'' (split_sentences [] ''One. Two.'')"
  let ?in = "[message_zero\<lparr>m_arg1 := 1, m_data := ''Number''\<rparr>]"
  obtain errs ws c where l: "write_loop ?ws ?in = (errs, ws, c)" by (metis prod_cases3)
  have "\<not> c" using write_loop_end [OF l] by simp
  with op b l show ?thesis by (simp add: handle_write_file_def)
qed

theorem aborted_session_keeps_files_witness:
  "\<exists>out S'. handle_write_file demo_server demo_write [message_zero\<lparr>m_arg1 := 1, m_data := ''Number''\<rparr>] = Inr (out, S')
     \<and> ss_fs S' = ss_fs demo_server"
  using demo_abort aborted_session_keeps_files [of demo_server demo_write "[message_zero\<lparr>m_arg1 := 1, m_data := ''Number''\<rparr>]"]
  by fastforce

end
