(* ===== verification/Recovery_Properties.thy ===== *)
theory Recovery_Properties
  imports Storage_Demo Storage_Invariant
begin

text \<open>
  Properties of the storage server's files: undo, checkpoints, crash safety of a write, the
  backup copies, and the text format of a file as a sequence of sentences.
\<close>

section \<open>Undo and checkpoints\<close>

lemma write_open_reads:
  assumes "in_root S (m_filename msg) D" "read_file_content (ss_fs S) (ss_dir S @ CHR ''/'' # m_filename msg) = Some c"
  shows "snd (write_open S msg) = c" "c_string c = c"
  using assms in_root_placed [OF assms(1)] c_string_id [OF read_no_nul [OF assms(2)]]
  by (simp_all add: write_open_def placed_def Let_def)

text \<open>What UNDO does after a session that was let in, however that session ended.\<close>

lemma undo_after_session:
  assumes "in_root S (m_filename msg) D" "undo_ok (ss_undo S)" "undo_room (ss_undo S) (m_filename msg)"
    and "read_file_content (ss_fs S) (ss_dir S @ CHR ''/'' # m_filename msg) = Some c"
    and "handle_write_file S msg inputs = Inr ((Client, ack_reply ''READY'') # rest, S')"
    and "m_filename undo_msg = m_filename msg"
  shows "fst (handle_undo_file S' undo_msg) = [(Client, ack_reply ''Undo Successful!'')]"
    "read_file_content (ss_fs (snd (handle_undo_file S' undo_msg))) (ss_dir S @ CHR ''/'' # m_filename msg) = Some c"
    "fst (handle_undo_file (snd (handle_undo_file S' undo_msg)) undo_msg) = [(Client, error_reply ERR_UNKNOWN ''No undo history'')]"
proof -
  note w = write_session_undo [OF assms(5,1)]
  note op = write_open_reads [OF assms(1,4)]
  have peek: "undo_peek (ss_undo S') (m_filename msg) = Some c"
    unfolding w(1) op using undo.save_peek [OF assms(2), of "m_filename msg"] assms(3) by simp
  have ok: "undo_ok (ss_undo S')" unfolding w(1) by (rule undo.invar_save [OF assms(2)])
  from undo_restores(1,2) [OF peek ok w(2) assms(6)] w(3) op(2)
  show "fst (handle_undo_file S' undo_msg) = [(Client, ack_reply ''Undo Successful!'')]"
    "read_file_content (ss_fs (snd (handle_undo_file S' undo_msg))) (ss_dir S @ CHR ''/'' # m_filename msg) = Some c"
    by simp_all
  obtain u where u: "get_undo (ss_undo S') (m_filename msg) = (Some c, u)"
    using undo.take_value [OF ok, of "m_filename msg"] peek by (cases "get_undo (ss_undo S') (m_filename msg)") auto
  then have "ss_undo (snd (handle_undo_file S' undo_msg)) = u" by (simp add: handle_undo_file_def assms(6) write_back_def)
  moreover have "fst (get_undo u (m_filename msg)) = None" using undo.take_once [OF ok, of "m_filename msg"] u by simp
  ultimately show "fst (handle_undo_file (snd (handle_undo_file S' undo_msg)) undo_msg) = [(Client, error_reply ERR_UNKNOWN ''No undo history'')]"
    by (auto simp: handle_undo_file_def [of "snd (handle_undo_file S' undo_msg)"] assms(6) split: prod.split)
qed

text \<open>
  C7: UNDO takes back the change of a session that committed, once: it succeeds and gives the file
  the content that it had when the session began, and a second UNDO finds no history.  The table
  of snapshots must have an entry or room for the file (\<open>undo_room\<close>); when it is full,
  \<open>save_undo\<close> keeps nothing and does not say so.
\<close>

theorem undo_reverts_session:
  assumes "in_root S (m_filename msg) D" "undo_ok (ss_undo S)" "undo_room (ss_undo S) (m_filename msg)"
    and "read_file_content (ss_fs S) (ss_dir S @ CHR ''/'' # m_filename msg) = Some c"
    and "handle_write_file S msg inputs = Inr ((Client, ack_reply ''READY'') # rest, S')"
    and "(Client, ack_reply ''Write Successful!'') \<in> set rest" "m_filename undo_msg = m_filename msg"
  shows "fst (handle_undo_file S' undo_msg) = [(Client, ack_reply ''Undo Successful!'')]
       \<and> read_file_content (ss_fs (snd (handle_undo_file S' undo_msg))) (ss_dir S @ CHR ''/'' # m_filename msg) = Some c
       \<and> fst (handle_undo_file (snd (handle_undo_file S' undo_msg)) undo_msg) = [(Client, error_reply ERR_UNKNOWN ''No undo history'')]"
  using undo_after_session [OF assms(1-5,7)] by simp

theorem undo_reverts_session_witness:
  "\<exists>out S'. handle_write_file demo_server demo_write demo_inputs = Inr (out, S')
     \<and> read_file_content (ss_fs S') ''data/ss_storage/s/f'' = Some ''Number One. Two.''
     \<and> read_file_content (ss_fs (snd (handle_undo_file S' demo_write))) ''data/ss_storage/s/f'' = Some ''One. Two.''"
proof -
  obtain out S' where h: "handle_write_file demo_server demo_write demo_inputs = Inr ((Client, ack_reply ''READY'') # out, S')"
    and o: "(Client, ack_reply ''Write Successful!'') \<in> set out"
    and r: "read_file_content (ss_fs S') (''data/ss_storage/s'' @ CHR ''/'' # ''f'') = Some ''Number One. Two.''"
    using demo_session_commits by fastforce
  have "undo_room (ss_undo demo_server) ''f''" by (simp add: demo_locks undo_room_def)
  with undo_reverts_session [of demo_server demo_write demo_dir, unfolded demo_write_fields demo_dir_name,
      OF demo_in_root demo_locks(4) _ demo_read h o, of demo_write] h r
  show ?thesis by auto
qed

text \<open>
  C37: a session that is given up uses up the undo of the change before it: the snapshot is taken
  when a session begins.  After a session that changed the file, UNDO would have brought back the
  old content; when another session on the file has begun since and its client has gone without
  ETIRW, UNDO still reports success and leaves the file as it is.
\<close>

theorem aborted_session_spoils_undo:
  assumes "in_root S (m_filename msg) D" "undo_ok (ss_undo S)" "undo_room (ss_undo S) (m_filename msg)"
    and "read_file_content (ss_fs S) (ss_dir S @ CHR ''/'' # m_filename msg) = Some c"
    and "handle_write_file S msg inputs = Inr ((Client, ack_reply ''READY'') # rest, S1)"
    and "read_file_content (ss_fs S1) (ss_dir S @ CHR ''/'' # m_filename msg) = Some c1"
    and "handle_write_file S1 msg' inputs' = Inr ((Client, ack_reply ''READY'') # rest', S2)"
    and "m_filename msg' = m_filename msg" "\<forall>m \<in> set inputs'. m_data m \<noteq> ''ETIRW''" "m_filename undo_msg = m_filename msg"
  shows "read_file_content (ss_fs (snd (handle_undo_file S1 undo_msg))) (ss_dir S @ CHR ''/'' # m_filename msg) = Some c
       \<and> read_file_content (ss_fs S2) (ss_dir S @ CHR ''/'' # m_filename msg) = Some c1
       \<and> fst (handle_undo_file S2 undo_msg) = [(Client, ack_reply ''Undo Successful!'')]
       \<and> read_file_content (ss_fs (snd (handle_undo_file S2 undo_msg))) (ss_dir S @ CHR ''/'' # m_filename msg) = Some c1"
proof -
  note w = write_session_undo [OF assms(5,1)]
  have room: "undo_ok (ss_undo S1)" "undo_room (ss_undo S1) (m_filename msg)"
    unfolding w(1) using undo.invar_save [OF assms(2)] undo.room_save [OF assms(2,3)] by simp_all
  note after = undo_after_session [of S1 msg' D c1 inputs' rest' S2 undo_msg, unfolded assms(8) w(3), OF w(2) room assms(6,7,10)]
  from after(1,2) undo_after_session(2) [OF assms(1-5,10)] write_abort_fs [OF assms(7,9)] assms(6) show ?thesis by simp
qed

text \<open>On the demonstration: Ann's session commits, and her next one, on the same sentence, is given up at once.\<close>

lemma demo_second_session:
  assumes h: "handle_write_file demo_server demo_write demo_inputs = Inr (out, S1)"
    and r: "read_file_content (ss_fs S1) (''data/ss_storage/s'' @ CHR ''/'' # ''f'') = Some ''Number One. Two.''"
    and dir: "ss_dir S1 = ''data/ss_storage/s''" "in_root S1 ''f'' demo_dir"
    and ready: "out = (Client, ack_reply ''READY'') # rest"
  shows "\<exists>S2. handle_write_file S1 demo_write [] = Inr ([(Client, ack_reply ''READY'')], S2)"
proof -
  have "ss_locks S1 = release_lock (snd (try_acquire_lock [] (''f'', 0) ''ann'')) (''f'', 0)"
    using h
  proof (cases rule: handle_write_cases)
    case (session ss t ws out' S2)
    have "ss_locks S2 = t" using session(5) write_commit_locks by (fastforce split: if_splits)
    with session(3,6-8) show ?thesis by (simp add: write_release_def demo_locks)
  qed (use ready in auto)
  then have "ss_locks S1 = release_lock (snd (try_acquire_lock [] (''f'', 0) ''ann'')) (''f'', 0)" .
  moreover have "lock_holder (release_lock (snd (try_acquire_lock [] (''f'', 0) ''ann'')) (''f'', 0)) (''f'', 0) = None"
    "length (release_lock (snd (try_acquire_lock [] (''f'', 0) ''ann'')) (''f'', 0)) = 1" by code_simp+
  ultimately have av: "lock_available S1 (m_filename demo_write, m_arg1 demo_write)" by (simp add: lock_available_def)
  have split: "split_sentences [] ''Number One. Two.'' = [''Number One.'', ''Two.'']" by code_simp
  have op: "write_open S1 demo_write = (''data/ss_storage/s'' @ CHR ''/'' # ''f'', ''Number One. Two.'')"
    using in_root_placed [OF dir(2)] r dir(1) by (simp add: write_open_def placed_def Let_def)
  show ?thesis
    by (rule write_begin_ready [of "''Number One. Two.''" demo_write S1 "''data/ss_storage/s'' @ CHR ''/'' # ''f''"])
       (use av in \<open>simp_all add: handle_write_file_def op split limit_defs del: split_sentences.simps\<close>)
qed

theorem aborted_session_spoils_undo_witness:
  "\<exists>out S1 out' S2. handle_write_file demo_server demo_write demo_inputs = Inr (out, S1)
     \<and> handle_write_file S1 demo_write [] = Inr (out', S2)
     \<and> read_file_content (ss_fs (snd (handle_undo_file S1 demo_write))) ''data/ss_storage/s/f'' = Some ''One. Two.''
     \<and> read_file_content (ss_fs (snd (handle_undo_file S2 demo_write))) ''data/ss_storage/s/f'' = Some ''Number One. Two.''"
proof -
  obtain out S1 where h: "handle_write_file demo_server demo_write demo_inputs = Inr ((Client, ack_reply ''READY'') # out, S1)"
    and r: "read_file_content (ss_fs S1) (''data/ss_storage/s'' @ CHR ''/'' # ''f'') = Some ''Number One. Two.''"
    using demo_session_commits by fastforce
  note w = write_session_undo(2,3) [OF h, unfolded demo_write_fields demo_dir_name, OF demo_in_root]
  obtain S2 where h2: "handle_write_file S1 demo_write [] = Inr ([(Client, ack_reply ''READY'')], S2)"
    using demo_second_session [OF h r w(2,1) refl] by blast
  have "undo_room (ss_undo demo_server) ''f''" by (simp add: demo_locks undo_room_def)
  from aborted_session_spoils_undo [of demo_server demo_write demo_dir, unfolded demo_write_fields demo_dir_name,
      OF demo_in_root demo_locks(4) this demo_read h r h2 _ _ demo_write_fields(1)] h h2
  show ?thesis by auto
qed

text \<open>
  C9: a checkpoint outlives write sessions: after CREATE with a tag, and then any write
  session on the file, REVERT to that tag gives the file the content it had when the
  checkpoint was taken.
\<close>

theorem checkpoint_restores:
  assumes "checkpoint_ready S f tag D" "read_file_content (ss_fs S) (ss_dir S @ CHR ''/'' # f) = Some c"
    and "m_filename create = f" "m_data create = tag" "handle_cp_create S create = (out1, T)"
    and "handle_write_file T msg inputs = Inr ((Client, ack_reply ''READY'') # rest, U)" "m_filename msg = f"
    and "m_filename revert = f" "m_data revert = tag"
  shows "out1 = [(Client, ack_reply ''Checkpoint created successfully!'')]
       \<and> read_file_content (ss_fs (snd (handle_cp_revert U revert))) (ss_dir S @ CHR ''/'' # f) = Some c"
proof -
  note e = cp_create_effect [OF assms(1,3,4,2)]
  have T: "snd (handle_cp_create S create) = T" using assms(5) by simp
  have c: "c_string c = c" by (rule c_string_id [OF read_no_nul [OF assms(2)]])
  have "read_file_content (ss_fs (snd (handle_cp_revert U revert))) (ss_dir T @ CHR ''/'' # f) = Some (c_string c)"
    by (rule checkpoint_survives [OF e(6) [unfolded T] e(2) [unfolded T] assms(6-9)])
  moreover have "ss_dir T = ss_dir S" "out1 = [(Client, ack_reply ''Checkpoint created successfully!'')]"
    using e(1,3) T assms(5) by simp_all
  ultimately show ?thesis by (simp add: c)
qed

definition demo_cp :: message where
  "demo_cp = message_zero\<lparr>m_type := MSG_CP_CREATE, m_filename := ''f'', m_data := ''v1''\<rparr>"

definition demo_cp_server :: storage_server where
  "demo_cp_server = snd (handle_cp_create demo_server demo_cp)"

lemma demo_cp_ready: "checkpoint_ready demo_server ''f'' ''v1'' demo_dir"
  by code_simp

lemma demo_cp_fields [simp]: "m_filename demo_cp = ''f''" "m_data demo_cp = ''v1''"
  by (simp_all add: demo_cp_def)

lemma demo_cp_session:
  "\<exists>out S'. handle_write_file demo_cp_server demo_write demo_inputs = Inr ((Client, ack_reply ''READY'') # out, S')
     \<and> read_file_content (ss_fs S') (''data/ss_storage/s'' @ CHR ''/'' # ''f'') = Some ''Number One. Two.''"
proof -
  have root: "in_root demo_cp_server ''f'' demo_dir" by code_simp
  have dir: "ss_dir demo_cp_server = ''data/ss_storage/s''" by code_simp
  have read: "read_file_content (ss_fs demo_cp_server) (''data/ss_storage/s'' @ CHR ''/'' # ''f'') = Some ''One. Two.''"
    by code_simp
  have locks: "ss_locks demo_cp_server = []" by code_simp
  have ok: "locks_ok (ss_locks demo_cp_server)" by (simp add: locks locks_ok_def)
  have av: "lock_available demo_cp_server (''f'', 0)"
    by (simp add: lock_available_def locks lock_holder_def lock_index_def)
  show ?thesis
    using write_session_commits [of demo_cp_server demo_write "''data/ss_storage/s''" demo_dir "''One. Two.''" demo_inputs,
      unfolded demo_write_fields demo_split, OF in_root_placed [OF root, unfolded dir] ok read order_refl av demo_loop refl _ _ refl,
      unfolded demo_text nat_0, OF demo_edit(1,2), unfolded demo_edit(3)]
    by auto
qed

theorem checkpoint_restores_witness:
  "\<exists>out S'. handle_write_file demo_cp_server demo_write demo_inputs = Inr (out, S')
     \<and> read_file_content (ss_fs S') ''data/ss_storage/s/f'' = Some ''Number One. Two.''
     \<and> read_file_content (ss_fs (snd (handle_cp_revert S' demo_cp))) ''data/ss_storage/s/f'' = Some ''One. Two.''"
proof -
  obtain out S' where h: "handle_write_file demo_cp_server demo_write demo_inputs = Inr ((Client, ack_reply ''READY'') # out, S')"
    and r: "read_file_content (ss_fs S') (''data/ss_storage/s'' @ CHR ''/'' # ''f'') = Some ''Number One. Two.''"
    using demo_cp_session by blast
  obtain out1 where cp: "handle_cp_create demo_server demo_cp = (out1, demo_cp_server)"
    by (metis demo_cp_server_def prod.collapse)
  from checkpoint_restores [OF demo_cp_ready _ demo_cp_fields cp h _ demo_cp_fields, of "''One. Two.''"] demo_read h r
  show ?thesis by (auto simp: demo_dir_name)
qed

section \<open>Crash safety\<close>

text \<open>
  C27: \<open>atomic_write_file\<close> replaces a file as a whole: when the process ends after any of its
  system calls, or in the middle of writing the content, the file holds its old content (or is
  absent as before) or the complete new content, never a part of it.
\<close>

theorem atomic_write_crash_safe:
  assumes "fs_ok F" "writable_at F d f D" "G \<in> set (snd (atomic_write_run F (d @ CHR ''/'' # f) s))"
  shows "node_at G (D @ [f]) \<in> {node_at F (D @ [f]), Some (RegularFile (c_string s))}"
  by (rule atomic_write_run_target [OF assms])

theorem atomic_write_crash_safe_witness:
  "length (snd (atomic_write_run (ss_fs demo_server) (''data/ss_storage/s'' @ CHR ''/'' # ''f'') ''New.'')) = 6
     \<and> node_at (snd (atomic_write_run (ss_fs demo_server) (''data/ss_storage/s'' @ CHR ''/'' # ''f'') ''New.'') ! 2) (demo_dir @ [''f''])
        \<in> {node_at (ss_fs demo_server) (demo_dir @ [''f'']), Some (RegularFile (c_string ''New.''))}"
proof -
  let ?run = "atomic_write_run (ss_fs demo_server) (''data/ss_storage/s'' @ CHR ''/'' # ''f'') ''New.''"
  have ok: "fs_ok (ss_fs demo_server)" "writable_at (ss_fs demo_server) ''data/ss_storage/s'' ''f'' demo_dir"
    using demo_placed by (simp_all add: placed_def)
  have "length (snd ?run) = 6" by code_simp
  then show ?thesis using atomic_write_crash_safe [OF ok, of "snd ?run ! 2" "''New.''"] by simp
qed

text \<open>
  Every request of the naming server keeps the invariant of a storage server's state: the
  directory tree stays a tree with distinct paths in which every entry lies in a directory,
  and the tables stay within their arrays with one entry per key.
\<close>

theorem naming_requests_keep_state:
  assumes "storage_ok S"
  shows "storage_ok (snd (nm_request S msg))"
  by (rule nm_request_ok [OF assms])

lemma demo_ok: "storage_ok demo_server"
  unfolding demo_server_def by (rule start_storage_server_ok) code_simp

theorem naming_requests_keep_state_witness:
  "storage_ok (snd (nm_request demo_server
     (message_zero\<lparr>m_type := MSG_MOVE_FILE_SS, m_filename := ''f'', m_data := ''docs''\<rparr>)))"
  by (rule naming_requests_keep_state [OF demo_ok])

text \<open>
  C34: every client connection, whatever messages it carries, keeps the same invariant whenever
  it runs to its end.
\<close>

theorem client_connections_keep_state:
  assumes "storage_ok S" "handle_client_connection S inputs = Inr (out, S')"
  shows "storage_ok S'"
  by (rule handle_client_connection_ok [OF assms])

theorem client_connections_keep_state_witness:
  "\<exists>out S'. handle_client_connection demo_server (demo_write # demo_inputs) = Inr (out, S') \<and> storage_ok S'"
proof -
  obtain out S' where "handle_write_file demo_server demo_write demo_inputs = Inr (out, S')"
    using demo_session_commits by blast
  then have h: "handle_client_connection demo_server (demo_write # demo_inputs) = Inr (out, S')"
    by (simp add: handle_client_connection_def)
  with client_connections_keep_state [OF demo_ok h] show ?thesis by blast
qed

section \<open>Backup copies\<close>

text \<open>
  Deleting a file leaves its backup copy: after DELETE the file is gone from the storage
  directory, everything else, the backup directory included, is as before.
\<close>

theorem delete_keeps_backup:
  assumes "writable_at (ss_fs S) (ss_dir S) (m_filename msg) D"
    and "node_at (ss_fs S) (D @ [m_filename msg]) = Some (RegularFile c)"
  shows "fst (handle_delete_file S msg) = [(Naming_Server, ack_reply ''File deleted'')]
       \<and> node_at (ss_fs (snd (handle_delete_file S msg))) q
         = (if q = D @ [m_filename msg] then None else node_at (ss_fs S) q)"
proof -
  have "resolve (ss_fs S) (get_filepath (ss_dir S) (m_filename msg)) = Some (D @ [m_filename msg])"
  proof -
    have "take 511 (ss_dir S @ CHR ''/'' # m_filename msg) = ss_dir S @ CHR ''/'' # m_filename msg"
      by (rule take_all) (use assms(1) in \<open>simp add: writable_at_def\<close>)
    then show ?thesis using writable_resolve(1) [OF assms(1)] by (simp only: get_filepath_def)
  qed
  with assms(2) show ?thesis
    by (simp add: handle_delete_file_def unlink_def node_at_drop)
qed

theorem delete_keeps_backup_witness:
  "node_at (ss_fs (snd (handle_delete_file demo_server demo_write))) (demo_dir @ [''f'']) = None"
proof -
  have w: "writable_at (ss_fs demo_server) (ss_dir demo_server) (m_filename demo_write) demo_dir"
    using demo_in_root by (simp add: in_root_def)
  have n: "node_at (ss_fs demo_server) (demo_dir @ [m_filename demo_write]) = Some (RegularFile ''One. Two.'')"
    by code_simp
  from delete_keeps_backup [OF w n, of "demo_dir @ [''f'']"] show ?thesis by simp
qed

end
