(* ===== verification/Text_Properties.thy ===== *)
theory Text_Properties
  imports Storage_Demo
begin

text \<open>
  Properties of the text side of the storage server: sentences, words, and the merge of an
  edited sentence into a file that others may have changed.
\<close>

text \<open>
  Parsing and rebuilding agree: when a content parses into sentences that fit the commit's
  buffer, rebuilding succeeds, and the rebuilt content parses into the same sentences again,
  whatever the content was.
\<close>

theorem rebuild_then_parse:
  assumes "parse_sentences content = Inr ss" "length (join_with (CHR '' '') ss) < MAX_CONTENT_LEN * 10"
  shows "\<exists>content'. rebuild_content ss = Inr content' \<and> parse_sentences content' = Inr ss"
proof -
  have ss: "ss = split_sentences [] content" "length ss \<le> MAX_SENTENCES"
    using assms(1) by (auto simp: parse_sentences_eq split: if_splits)
  then have ok: "sentences_ok ss" using split_sentences_ok by simp
  then have "rebuild_content ss = Inr (join_with (CHR '' '') ss)"
    using assms(2) sentences_nonempty by (subst rebuild_content_eq) auto
  with split_join [OF ok] ss(2) show ?thesis by (simp add: parse_sentences_eq)
qed

theorem rebuild_then_parse_witness:
  "\<exists>content'. rebuild_content [''One.'', ''Two!'', ''Three''] = Inr content'
     \<and> parse_sentences content' = Inr [''One.'', ''Two!'', ''Three'']"
proof (rule rebuild_then_parse)
  show "parse_sentences ''One.   Two!Three'' = Inr [''One.'', ''Two!'', ''Three'']" by code_simp
qed (simp add: limit_defs)

text \<open>
  C13: the array code of the commit - reallocating, shifting the tail up from its end, copying
  the new sentences in, or appending them - puts the pieces of the edited sentence in place of
  one sentence and moves nothing else, for every target and every number of pieces.
\<close>

theorem merge_is_splice:
  "merge_sentences latest target new_sentence split_arr
   = take target latest @ (if length split_arr \<le> 1 then [new_sentence] else split_arr) @ drop (Suc target) latest"
  by (simp add: merge_sentences_eq pieces_def)

text \<open>
  C22: the place found for an edited sentence is always inside the latest sentences, or right
  behind them for an append; and when the sentence the session started from is still in the
  file, at its old index or moved by other commits, the place holds a sentence with that text.
\<close>

theorem commit_target_sound:
  assumes "commit_target i app orig prev latest content = Some t"
  shows "(if app then t = length latest else t < length latest)
       \<and> (\<not> app \<and> orig \<noteq> [] \<and> list_ex (\<lambda>s. sentences_equal_trimmed s orig) latest
          \<longrightarrow> sentences_equal_trimmed (latest ! t) orig)"
proof -
  have i: "0 \<le> i \<and> i \<le> int (length latest)" if "\<not> app"
    using assms that by (auto simp: commit_target_def split: if_splits)
  show ?thesis
    using commit_target_bound [OF assms] commit_target_moved [of orig i latest _ prev content t] i assms
    by (auto simp: list_ex_iff)
qed

theorem commit_target_sound_witness:
  "commit_target 0 False ''A.'' [] [''X.'', ''A.'', ''B.''] ''X. A. B.'' = Some 1
   \<and> sentences_equal_trimmed ([''X.'', ''A.'', ''B.''] ! 1) ''A.''"
proof -
  have t: "commit_target 0 False ''A.'' [] [''X.'', ''A.'', ''B.''] ''X. A. B.'' = Some 1" by code_simp
  have e: "list_ex (\<lambda>s. sentences_equal_trimmed s ''A.'') [''X.'', ''A.'', ''B.'']"
    by (simp add: sentences_equal_trimmed_def)
  from commit_target_sound [OF t] t e show ?thesis by blast
qed

text \<open>
  One update message of a session is accepted exactly for the word indices 1 to the
  number of words plus one while the array has room; then no word is lost - each is kept or
  got the new text merged in before its delimiter - the number of words grows by at most one
  and stays within the array; a rejected update leaves the words alone and is answered with
  \<open>ERR_INVALID_WORD_INDEX\<close>.
\<close>

theorem word_update:
  "(case update_words ws arg w of
      Inr ws' \<Rightarrow> 1 \<le> arg \<and> arg \<le> int (length ws) + 1 \<and> length ws < MAX_WORDS_PER_SENTENCE
        \<and> length ws' \<le> MAX_WORDS_PER_SENTENCE \<and> length ws' \<in> {length ws, length ws + 1}
        \<and> list_all (\<lambda>u. u \<in> set ws' \<or> ends_with_delimiter u \<and> merge_word u w \<in> set ws') ws
    | Inl err \<Rightarrow> \<not> (1 \<le> arg \<and> arg \<le> int (length ws) + 1 \<and> length ws < MAX_WORDS_PER_SENTENCE)
        \<and> m_type err = MSG_ERROR \<and> m_error err = ERR_INVALID_WORD_INDEX)"
proof (cases "update_words ws arg w")
  case (Inl err)
  have "\<not> (1 \<le> arg \<and> arg \<le> int (length ws) + 1 \<and> length ws < MAX_WORDS_PER_SENTENCE)"
    using update_words_iff [of ws arg w] Inl by auto
  with Inl show ?thesis by (auto simp: update_words_def Let_def split: if_splits)
next
  case (Inr ws')
  then have ok: "1 \<le> arg \<and> arg \<le> int (length ws) + 1 \<and> length ws < MAX_WORDS_PER_SENTENCE"
    using update_words_iff [of ws arg w] by blast
  with Inr have ws': "ws' = insert_word ws (nat (arg - 1)) w" by (simp add: update_words_def Let_def)
  have i: "nat (arg - 1) \<le> length ws" using ok by (simp add: nat_le_iff)
  show ?thesis
    using Inr ok update_words_bound [OF Inr] length_insert_word [OF i, of w] insert_word_keeps [OF i]
    by (auto simp: ws' list_all_iff)
qed

end
