(* ===== verification/Registries.thy ===== *)
theory Registries
  imports Protocol C_Strings "HOL-Library.Multiset"
begin

text \<open>
  The registries of the naming server in \<^verbatim>\<open>naming_server/nm_storage.c\<close>: storage servers,
  clients, the persistent list of user names, and the replicas of each file.  The lemmas give
  the invariant of each table, what a lookup returns after an update, the fairness of the
  round robin over storage servers, and that a server chosen for access is alive.
\<close>

section \<open>Storage servers\<close>

record ss_info =
  si_id :: int
  si_ip :: string
  si_nm_port :: int
  si_client_port :: int
  si_alive :: bool
  si_heartbeat :: int
  si_socket :: int

text \<open>
  A server is known by its address and client port, so that one that comes back keeps its
  number.  The result is the number, \<open>-1\<close> when the table is full.
\<close>

definition register_storage_server :: "ss_info list \<Rightarrow> ss_info \<Rightarrow> int \<Rightarrow> int \<times> ss_info list" where
  "register_storage_server reg info now =
     (case find_idx (\<lambda>s. si_ip s = si_ip info \<and> si_client_port s = si_client_port info) reg of
        Some i \<Rightarrow>
          (si_id (reg ! i),
           reg[i := (reg ! i)\<lparr>si_nm_port := si_nm_port info, si_alive := si_alive info,
                              si_heartbeat := now, si_socket := si_socket info\<rparr>])
      | None \<Rightarrow>
          if MAX_STORAGE_SERVERS \<le> length reg then (- 1, reg)
          else (int (length reg), reg @ [info\<lparr>si_id := int (length reg), si_heartbeat := now\<rparr>]))"

definition get_storage_server :: "ss_info list \<Rightarrow> int \<Rightarrow> ss_info option" where
  "get_storage_server reg ss_id =
     (if ss_id < 0 \<or> int (length reg) \<le> ss_id then None else Some (reg ! nat ss_id))"

text \<open>The static counter of the round robin is passed along; it starts at \<open>-1\<close>.\<close>

definition select_storage_server_for_new_file :: "ss_info list \<Rightarrow> int \<Rightarrow> ss_info option \<times> int" where
  "select_storage_server_for_new_file reg last_selected =
     (if reg = [] then (None, last_selected)
      else (let l = (last_selected + 1) mod int (length reg) in (Some (reg ! nat l), l)))"

definition set_storage_server_status :: "ss_info list \<Rightarrow> int \<Rightarrow> bool \<Rightarrow> int \<Rightarrow> ss_info list" where
  "set_storage_server_status reg ss_id is_alive now =
     (if 0 \<le> ss_id \<and> ss_id < int (length reg)
      then (let s = (reg ! nat ss_id)\<lparr>si_alive := is_alive\<rparr>
            in reg[nat ss_id := (if is_alive then s\<lparr>si_heartbeat := now\<rparr> else s)])
      else reg)"

definition get_storage_server_status :: "ss_info list \<Rightarrow> int \<Rightarrow> bool" where
  "get_storage_server_status reg ss_id =
     (if 0 \<le> ss_id \<and> ss_id < int (length reg) then si_alive (reg ! nat ss_id) else False)"

section \<open>Users and clients\<close>

record client_info =
  ci_socket :: int
  ci_username :: string
  ci_ip :: string
  ci_nm_port :: int
  ci_ss_port :: int
  ci_conn_port :: int
  ci_connected_at :: int

fun users_add_lines :: "string list \<Rightarrow> string list \<Rightarrow> string list" where
  "users_add_lines users [] = users"
| "users_add_lines users (l # ls) =
     (let line = chomp l in
      if line = [] then users_add_lines users ls
      else if length users < MAX_CLIENTS then users_add_lines (users @ [strncpy_buf MAX_USERNAME_LEN line]) ls
      else users_add_lines users ls)"

definition users_load_from_disk :: "string list \<Rightarrow> string \<Rightarrow> string list" where
  "users_load_from_disk users users_dat = users_add_lines users (fgets_lines 256 users_dat)"

text \<open>The list of users and the file \<^verbatim>\<open>users.dat\<close> that new names are appended to.\<close>

definition users_save_append :: "string list \<Rightarrow> string \<Rightarrow> string \<Rightarrow> string list \<times> string" where
  "users_save_append users users_dat username =
     (if find_idx (\<lambda>u. u = username) users \<noteq> None then (users, users_dat)
      else if length users < MAX_CLIENTS
      then (users @ [strncpy_buf MAX_USERNAME_LEN username], users_dat @ username @ [nl])
      else (users, users_dat))"

definition register_client ::
  "client_info list \<Rightarrow> string list \<Rightarrow> string \<Rightarrow> client_info \<Rightarrow> int \<times> client_info list \<times> string list \<times> string" where
  "register_client clients users users_dat info =
     (if MAX_CLIENTS \<le> length clients then (- 1, clients, users, users_dat)
      else (case users_save_append users users_dat (ci_username info) of
              (us, dat) \<Rightarrow> (int (length clients), clients @ [info], us, dat)))"

definition get_client_by_socket :: "client_info list \<Rightarrow> int \<Rightarrow> client_info option" where
  "get_client_by_socket clients socket =
     map_option (\<lambda>i. clients ! i) (find_idx (\<lambda>c. ci_socket c = socket) clients)"

definition get_client_by_username :: "client_info list \<Rightarrow> string \<Rightarrow> client_info option" where
  "get_client_by_username clients username =
     map_option (\<lambda>i. clients ! i) (find_idx (\<lambda>c. ci_username c = username) clients)"

definition remove_client :: "client_info list \<Rightarrow> int \<Rightarrow> client_info list" where
  "remove_client clients socket =
     (case find_idx (\<lambda>c. ci_socket c = socket) clients of
        Some i \<Rightarrow> delete_at clients i | None \<Rightarrow> clients)"

fun collect_names :: "nat \<Rightarrow> string list \<Rightarrow> string list \<Rightarrow> string list" where
  "collect_names max_count out [] = out"
| "collect_names max_count out (u # us) =
     (if max_count \<le> length out then out
      else collect_names max_count (if u \<in> set out then out else out @ [u]) us)"

definition get_all_usernames :: "string list \<Rightarrow> client_info list \<Rightarrow> nat \<Rightarrow> string list" where
  "get_all_usernames users clients max_count =
     collect_names max_count (collect_names max_count [] users) (map ci_username clients)"

section \<open>Replicas\<close>

record replica_entry =
  re_filename :: string
  re_primary :: int
  re_ids :: "int list"

definition find_replica_idx :: "replica_entry list \<Rightarrow> string \<Rightarrow> nat option" where
  "find_replica_idx reps filename = find_idx (\<lambda>e. re_filename e = filename) reps"

definition replica_list :: "int \<Rightarrow> int list \<Rightarrow> int list" where
  "replica_list primary ids = filter (\<lambda>i. i \<noteq> primary) (take MAX_STORAGE_SERVERS ids)"

definition replicas_set :: "replica_entry list \<Rightarrow> string \<Rightarrow> int \<Rightarrow> int list \<Rightarrow> int \<times> replica_entry list" where
  "replicas_set reps filename primary ids =
     (case find_replica_idx reps filename of
        Some i \<Rightarrow> (0, reps[i := (reps ! i)\<lparr>re_primary := primary, re_ids := replica_list primary ids\<rparr>])
      | None \<Rightarrow>
          if length reps < 4096
          then (0, reps @ [\<lparr>re_filename = strncpy_buf MAX_FILENAME_LEN filename, re_primary = primary,
                            re_ids = replica_list primary ids\<rparr>])
          else (- 1, reps))"

definition replicas_get :: "replica_entry list \<Rightarrow> string \<Rightarrow> nat \<Rightarrow> int list" where
  "replicas_get reps filename max_ids =
     (case find_replica_idx reps filename of
        Some i \<Rightarrow> take max_ids (re_ids (reps ! i)) | None \<Rightarrow> [])"

text \<open>The first living server other than the primary, else any other, else \<open>-1\<close>.\<close>

definition replicas_pick_alternate :: "ss_info list \<Rightarrow> int \<Rightarrow> int" where
  "replicas_pick_alternate reg primary =
     (case find_idx (\<lambda>s. si_id s \<noteq> primary \<and> si_alive s) reg of
        Some i \<Rightarrow> si_id (reg ! i)
      | None \<Rightarrow> (case find_idx (\<lambda>s. si_id s \<noteq> primary) reg of Some i \<Rightarrow> si_id (reg ! i) | None \<Rightarrow> - 1))"

definition replicas_pick_alive_for_access ::
  "ss_info list \<Rightarrow> replica_entry list \<Rightarrow> string \<Rightarrow> int \<Rightarrow> int" where
  "replicas_pick_alive_for_access reg reps filename primary =
     (if get_storage_server_status reg primary then primary
      else (let ids = replicas_get reps filename MAX_STORAGE_SERVERS in
            case find_idx (\<lambda>i. get_storage_server_status reg i) ids of
              Some j \<Rightarrow> ids ! j | None \<Rightarrow> - 1))"

section \<open>The table of storage servers\<close>

text \<open>Numbers are places, and no two entries have the same address.\<close>

definition ss_registry_ok :: "ss_info list \<Rightarrow> bool" where
  "ss_registry_ok reg \<longleftrightarrow> length reg \<le> MAX_STORAGE_SERVERS
     \<and> map si_id reg = map int [0..<length reg]
     \<and> distinct (map (\<lambda>s. (si_ip s, si_client_port s)) reg)"

lemma ss_registry_id:
  assumes "ss_registry_ok reg" "i < length reg"
  shows "si_id (reg ! i) = int i"
proof -
  have "map si_id reg = map int [0..<length reg]" using assms(1) by (simp add: ss_registry_ok_def)
  then have "map si_id reg ! i = map int [0..<length reg] ! i" by (rule arg_cong)
  with assms(2) show ?thesis by simp
qed

lemma map_update_same: "i < length xs \<Longrightarrow> f y = f (xs ! i) \<Longrightarrow> map f (xs[i := y]) = map f xs"
  by (metis list_update_id map_update)

lemma register_storage_server_ok:
  assumes "ss_registry_ok reg"
  shows "ss_registry_ok (snd (register_storage_server reg info now))"
proof (cases "find_idx (\<lambda>s. si_ip s = si_ip info \<and> si_client_port s = si_client_port info) reg")
  case None
  then have "(si_ip info, si_client_port info) \<notin> (\<lambda>s. (si_ip s, si_client_port s)) ` set reg"
    by (auto simp: find_idx_None)
  with assms None show ?thesis by (simp add: register_storage_server_def ss_registry_ok_def)
next
  case (Some i)
  then have "i < length reg" by (rule find_idx_lt)
  with assms Some show ?thesis
    by (simp add: register_storage_server_def ss_registry_ok_def map_update_same)
qed

text \<open>The number that a registration answers leads to that server from then on.\<close>

lemma register_storage_server_get:
  assumes "ss_registry_ok reg" "register_storage_server reg info now = (n, reg')" "n \<noteq> - 1"
  shows "\<exists>s. get_storage_server reg' n = Some s \<and> si_ip s = si_ip info \<and> si_client_port s = si_client_port info
           \<and> si_socket s = si_socket info \<and> si_alive s = si_alive info \<and> si_id s = n"
proof (cases "find_idx (\<lambda>s. si_ip s = si_ip info \<and> si_client_port s = si_client_port info) reg")
  case None
  with assms(2,3) show ?thesis
    by (auto simp: register_storage_server_def get_storage_server_def split: if_splits)
next
  case (Some i)
  from find_idx_SomeD [OF this] have i: "i < length reg" "si_ip (reg ! i) = si_ip info" "si_client_port (reg ! i) = si_client_port info"
    by auto
  note id = ss_registry_id [OF assms(1) i(1)]
  with assms(2) Some have "n = int i"
    "reg' = reg[i := (reg ! i)\<lparr>si_nm_port := si_nm_port info, si_alive := si_alive info,
                              si_heartbeat := now, si_socket := si_socket info\<rparr>]"
    by (auto simp: register_storage_server_def)
  with i id show ?thesis by (simp add: get_storage_server_def)
qed

text \<open>A server that comes back from the same address keeps its number.\<close>

lemma register_twice:
  assumes "ss_registry_ok reg" "register_storage_server reg info now = (n, reg')" "n \<noteq> - 1"
    "si_ip info' = si_ip info" "si_client_port info' = si_client_port info"
  shows "fst (register_storage_server reg' info' now') = n"
proof -
  have ok: "ss_registry_ok reg'" using register_storage_server_ok [OF assms(1), of info now] assms(2) by simp
  obtain s where s: "get_storage_server reg' n = Some s" "si_ip s = si_ip info'" "si_client_port s = si_client_port info'" "si_id s = n"
    using register_storage_server_get [OF assms(1-3)] assms(4,5) by auto
  then have n: "nat n < length reg'" "reg' ! nat n = s" by (auto simp: get_storage_server_def split: if_splits)
  let ?P = "\<lambda>t. si_ip t = si_ip info' \<and> si_client_port t = si_client_port info'"
  have "find_idx ?P reg' \<noteq> None" using n s by (auto simp: find_idx_None)
  then obtain i where i: "find_idx ?P reg' = Some i" by blast
  from find_idx_SomeD [OF this] have "i < length reg'" "?P (reg' ! i)" by auto
  moreover have "distinct (map (\<lambda>s. (si_ip s, si_client_port s)) reg')" using ok by (simp add: ss_registry_ok_def)
  ultimately have "i = nat n"
    using nth_eq_iff_index_eq [of "map (\<lambda>s. (si_ip s, si_client_port s)) reg'" i "nat n"] n s by simp
  with i n s show ?thesis by (simp add: register_storage_server_def)
qed

lemma set_status_ok: "ss_registry_ok reg \<Longrightarrow> ss_registry_ok (set_storage_server_status reg i b now)"
  by (simp add: set_storage_server_status_def Let_def ss_registry_ok_def map_update_same nat_less_iff)

lemma set_get_status:
  "get_storage_server_status (set_storage_server_status reg i b now) j
   = (if j = i \<and> 0 \<le> i \<and> i < int (length reg) then b else get_storage_server_status reg j)"
  by (auto simp: set_storage_server_status_def get_storage_server_status_def Let_def nth_list_update nat_eq_iff)

section \<open>Round robin\<close>

text \<open>The servers chosen by \<open>n\<close> calls in a row.\<close>

fun select_many :: "nat \<Rightarrow> ss_info list \<Rightarrow> int \<Rightarrow> ss_info option list \<times> int" where
  "select_many 0 reg l = ([], l)"
| "select_many (Suc n) reg l =
     (case select_storage_server_for_new_file reg l of
        (s, l') \<Rightarrow> (case select_many n reg l' of (ss, l'') \<Rightarrow> (s # ss, l'')))"

lemma select_many_eq:
  assumes "reg \<noteq> []"
  shows "fst (select_many n reg l)
       = map (\<lambda>k. Some (reg ! nat ((l + 1 + int k) mod int (length reg)))) [0..<n]"
proof (induction n arbitrary: l)
  case (Suc n)
  let ?N = "int (length reg)"
  have "fst (select_many (Suc n) reg l)
      = Some (reg ! nat ((l + 1) mod ?N)) # fst (select_many n reg ((l + 1) mod ?N))"
    using assms by (simp add: select_storage_server_for_new_file_def Let_def case_prod_unfold)
  also have "fst (select_many n reg ((l + 1) mod ?N))
      = map (\<lambda>k. Some (reg ! nat ((l + 1 + int (Suc k)) mod ?N))) [0..<n]"
  proof -
    have "((l + 1) mod ?N + 1 + int k) mod ?N = (l + 1 + int (Suc k)) mod ?N" for k
      using mod_add_left_eq [of "l + 1" ?N "1 + int k"] by (simp add: ac_simps)
    then show ?thesis unfolding Suc.IH by simp
  qed
  also have "Some (reg ! nat ((l + 1) mod ?N)) # \<dots>
      = map (\<lambda>k. Some (reg ! nat ((l + 1 + int k) mod ?N))) (0 # map Suc [0..<n])"
    by simp
  finally show ?case by (simp only: upt_conv_Cons [symmetric] map_Suc_upt zero_less_Suc)
qed simp

text \<open>Any window of as many calls as there are servers chooses every server exactly once.\<close>

lemma round_robin_fair:
  "mset (fst (select_many (length reg) reg l)) = mset (map Some reg)"
proof (cases "reg = []")
  case False
  let ?N = "int (length reg)" and ?f = "\<lambda>k. nat ((l + 1 + int k) mod int (length reg))"
  have N: "0 < ?N" using False by simp
  have inj: "inj_on ?f {0..<length reg}"
  proof (rule inj_onI)
    fix j k assume jk: "j \<in> {0..<length reg}" "k \<in> {0..<length reg}" "?f j = ?f k"
    then have "(l + 1 + int j) mod ?N = (l + 1 + int k) mod ?N"
      using N pos_mod_sign [OF N] by (simp add: eq_nat_nat_iff)
    then have "?N dvd int j - int k" by (simp add: mod_eq_dvd_iff)
    show "j = k"
    proof (rule ccontr)
      assume "j \<noteq> k"
      with \<open>?N dvd int j - int k\<close> have "\<bar>?N\<bar> \<le> \<bar>int j - int k\<bar>" by (intro dvd_imp_le_int) auto
      with jk(1,2) show False by auto
    qed
  qed
  have "?f ` {0..<length reg} \<subseteq> {0..<length reg}"
    using N pos_mod_bound [OF N] by (auto simp: nat_less_iff)
  with inj have "?f ` {0..<length reg} = {0..<length reg}"
    by (intro card_subset_eq) (simp_all add: card_image)
  with inj have "mset (map ?f [0..<length reg]) = mset [0..<length reg]"
    by (subst set_eq_iff_mset_eq_distinct [symmetric]) (simp_all add: distinct_map)
  then have "image_mset (\<lambda>k. Some (reg ! k)) (mset (map ?f [0..<length reg]))
           = image_mset (\<lambda>k. Some (reg ! k)) (mset [0..<length reg])" by simp
  then have "mset (map (\<lambda>k. Some (reg ! ?f k)) [0..<length reg]) = mset (map Some (map ((!) reg) [0..<length reg]))"
    by (simp add: multiset.map_comp comp_def)
  then show ?thesis by (simp add: select_many_eq [OF False] map_nth)
qed simp

section \<open>The tables of users, clients and replicas\<close>

text \<open>\<open>collect_names\<close> adds new names up to the size of the array.\<close>

lemma collect_names_distinct:
  "distinct out \<Longrightarrow> distinct (collect_names m out us)"
  by (induction m out us rule: collect_names.induct) auto

lemma collect_names_length:
  "length out \<le> m \<Longrightarrow> length (collect_names m out us) \<le> m"
  by (induction m out us rule: collect_names.induct) auto

lemma collect_names_subset: "set (collect_names m out us) \<subseteq> set out \<union> set us"
  by (induction m out us rule: collect_names.induct) (auto split: if_splits)

lemma collect_names_all:
  "length out + length us \<le> m \<Longrightarrow> set (collect_names m out us) = set out \<union> set us"
  by (induction m out us rule: collect_names.induct) auto

lemma collect_names_room:
  "length (collect_names m out us) < m \<Longrightarrow> set (collect_names m out us) = set out \<union> set us"
  by (induction m out us rule: collect_names.induct) (auto split: if_splits)

text \<open>Writing the user list as \<open>users_save_append\<close> does and loading it again.\<close>

definition user_line_ok :: "string \<Rightarrow> bool" where
  "user_line_ok u \<longleftrightarrow> u \<noteq> [] \<and> length u < MAX_USERNAME_LEN \<and> nl \<notin> set u \<and> CHR 0x0D \<notin> set u"

definition users_text :: "string list \<Rightarrow> string" where
  "users_text us = concat (map (\<lambda>u. u @ [nl]) us)"

lemma users_add_lines_eq:
  "\<forall>u \<in> set us. user_line_ok u \<Longrightarrow>
   users_add_lines users (map (\<lambda>u. u @ [nl]) us) = users @ take (MAX_CLIENTS - length users) us"
proof (induction us arbitrary: users)
  case (Cons u us)
  then have u: "u \<noteq> []" "length u < MAX_USERNAME_LEN" "chomp (u @ [nl]) = u"
    by (simp_all add: user_line_ok_def chomp_line)
  show ?case
  proof (cases "length users < MAX_CLIENTS")
    case True
    then have "MAX_CLIENTS - length users = Suc (MAX_CLIENTS - length (users @ [u]))" by simp
    with True u Cons show ?thesis by simp
  next
    case False
    with u Cons show ?thesis by simp
  qed
qed simp

lemma users_load_text:
  assumes "\<forall>u \<in> set us. user_line_ok u" "length us \<le> MAX_CLIENTS"
  shows "users_load_from_disk [] (users_text us) = us"
proof -
  have "fgets_lines 256 (users_text us) = map (\<lambda>u. u @ [nl]) us"
    unfolding users_text_def
    by (rule fgets_lines_concat) (use assms(1) in \<open>auto simp: user_line_ok_def limit_defs\<close>)
  with assms users_add_lines_eq [OF assms(1), of "[]"] show ?thesis by (simp add: users_load_from_disk_def)
qed

text \<open>The table of users and its file stay in step.\<close>

lemma users_save_append_text:
  assumes "users_dat = users_text users" "users_save_append users users_dat u = (us, dat)" "user_line_ok u"
    "\<forall>u \<in> set users. user_line_ok u" "length users \<le> MAX_CLIENTS"
  shows "dat = users_text us \<and> (\<forall>u \<in> set us. user_line_ok u) \<and> length us \<le> MAX_CLIENTS"
proof -
  have "strncpy_buf MAX_USERNAME_LEN u = u" using assms(3) by (simp add: user_line_ok_def)
  moreover have "(us, dat) = (users, users_dat) \<or>
      (us, dat) = (users @ [strncpy_buf MAX_USERNAME_LEN u], users_dat @ u @ [nl]) \<and> length users < MAX_CLIENTS"
    using assms(2) by (simp add: users_save_append_def split: if_splits)
  ultimately show ?thesis using assms(1,3-5) by (elim disjE) (simp_all add: users_text_def)
qed

section \<open>Choosing a server for access\<close>

lemma find_replica_set:
  assumes "length filename < MAX_FILENAME_LEN" "fst (replicas_set reps filename primary ids) = 0"
  shows "replicas_get (snd (replicas_set reps filename primary ids)) filename n = take n (replica_list primary ids)"
proof (cases "find_replica_idx reps filename")
  case None
  with assms show ?thesis
    by (auto simp: replicas_set_def replicas_get_def find_replica_idx_def find_idx_append nth_append split: if_splits)
next
  case (Some i)
  then have i: "i < length reps" "re_filename (reps ! i) = filename" "\<forall>j < i. re_filename (reps ! j) \<noteq> filename"
    by (auto simp: find_replica_idx_def dest!: find_idx_SomeD)
  let ?e = "(reps ! i)\<lparr>re_primary := primary, re_ids := replica_list primary ids\<rparr>"
  have "find_replica_idx (reps[i := ?e]) filename = Some i"
    unfolding find_replica_idx_def find_idx_Some_iff using i by (auto simp: nth_list_update)
  with Some i show ?thesis by (simp add: replicas_set_def replicas_get_def)
qed

lemma pick_alive:
  "replicas_pick_alive_for_access reg reps f p = i \<Longrightarrow> i \<noteq> - 1 \<Longrightarrow>
   get_storage_server_status reg i \<and> (i = p \<or> i \<in> set (replicas_get reps f MAX_STORAGE_SERVERS))"
  by (auto simp: replicas_pick_alive_for_access_def Let_def split: if_splits option.splits dest!: find_idx_SomeD)

lemma pick_none:
  assumes "replicas_pick_alive_for_access reg reps f p = - 1" "- 1 \<notin> set (replicas_get reps f MAX_STORAGE_SERVERS)" "p \<noteq> - 1"
  shows "\<not> get_storage_server_status reg p
       \<and> (\<forall>i \<in> set (replicas_get reps f MAX_STORAGE_SERVERS). \<not> get_storage_server_status reg i)"
proof -
  let ?ids = "replicas_get reps f MAX_STORAGE_SERVERS"
  have "find_idx (\<lambda>i. get_storage_server_status reg i) ?ids \<noteq> Some j" for j
  proof
    assume j: "find_idx (\<lambda>i. get_storage_server_status reg i) ?ids = Some j"
    then have "?ids ! j = - 1" using assms(1,3) by (auto simp: replicas_pick_alive_for_access_def Let_def split: if_splits)
    moreover have "?ids ! j \<in> set ?ids" using find_idx_lt [OF j] by simp
    ultimately show False using assms(2) by simp
  qed
  then have "find_idx (\<lambda>i. get_storage_server_status reg i) ?ids = None" by (cases "find_idx (\<lambda>i. get_storage_server_status reg i) ?ids") auto
  with assms(1,3) show ?thesis
    by (auto simp: replicas_pick_alive_for_access_def find_idx_None split: if_splits)
qed

lemma pick_alternate:
  assumes "ss_registry_ok reg" "replicas_pick_alternate reg p = i" "i \<noteq> - 1"
  shows "i \<noteq> p \<and> (\<exists>s. get_storage_server reg i = Some s)
       \<and> ((\<exists>s \<in> set reg. si_id s \<noteq> p \<and> si_alive s) \<longrightarrow> get_storage_server_status reg i)"
proof -
  have place: "get_storage_server reg (si_id (reg ! j)) = Some (reg ! j)
      \<and> get_storage_server_status reg (si_id (reg ! j)) = si_alive (reg ! j)" if "j < length reg" for j
    using ss_registry_id [OF assms(1) that] that by (simp add: get_storage_server_def get_storage_server_status_def)
  show ?thesis
  proof (cases "find_idx (\<lambda>s. si_id s \<noteq> p \<and> si_alive s) reg")
    case (Some j)
    with assms(2) place [of j] show ?thesis
      by (auto simp: replicas_pick_alternate_def dest!: find_idx_SomeD)
  next
    case None
    then have none: "\<forall>s \<in> set reg. si_id s = p \<or> \<not> si_alive s" by (auto simp: find_idx_None)
    from None assms(2,3) obtain j where "find_idx (\<lambda>s. si_id s \<noteq> p) reg = Some j" "i = si_id (reg ! j)"
      by (auto simp: replicas_pick_alternate_def split: option.splits)
    with place [of j] none show ?thesis by (auto dest!: find_idx_SomeD)
  qed
qed

end
