(* ===== verification/Folders.thy ===== *)
theory Folders
  imports Protocol C_Strings
begin

text \<open>
  The folders of the naming server in \<^verbatim>\<open>naming_server/nm_storage.c\<close>: an array of folders with
  the names of their files, moving a file between folders, and the file \<^verbatim>\<open>folders.dat\<close>.
  The operations take the state of \<open>folders_mutex\<close> and give it back.  The lemmas show that a
  file is in one folder at most, that a move ends in the target, that every call that returns
  leaves the mutex free, that moving to a folder that does not exist blocks the thread on the
  mutex it holds, and that saving and loading are inverse.
\<close>

section \<open>Operations\<close>

record folder =
  fd_name :: string
  fd_files :: "string list"

definition find_folder_index :: "folder list \<Rightarrow> string \<Rightarrow> nat option" where
  "find_folder_index folders foldername = find_idx (\<lambda>f. fd_name f = foldername) folders"

text \<open>
  \<open>folders_mutex\<close> as the thread that runs sees it: held by it, or not.  Locking a mutex that the
  thread holds already never returns.  Another thread that holds it is waited for: between two
  steps of a thread nobody holds it.  \<open>list_folder_files\<close> and \<open>folders_save_to_disk\<close> lock it for
  as long as they read, and have no other effect on it.
\<close>

definition mutex_lock :: "bool \<Rightarrow> bool result" where
  "mutex_lock held = (if held then Inl Deadlock else Inr True)"

definition mutex_unlock :: "bool \<Rightarrow> bool" where
  "mutex_unlock held = False"

definition create_folder :: "bool \<Rightarrow> folder list \<Rightarrow> string \<Rightarrow> (int \<times> bool \<times> folder list) result" where
  "create_folder held folders foldername =
     (if foldername = [] then Inr (- 1, held, folders)
      else ebind (mutex_lock held) (\<lambda>held.
        case find_folder_index folders foldername of
          Some i \<Rightarrow> Inr (0, mutex_unlock held, folders)
        | None \<Rightarrow>
            if 100 \<le> length folders then Inr (- 1, mutex_unlock held, folders)
            else Inr (0, mutex_unlock held,
                      folders @ [\<lparr>fd_name = strncpy_buf MAX_FILENAME_LEN foldername, fd_files = []\<rparr>])))"

definition drop_file :: "string \<Rightarrow> folder \<Rightarrow> folder" where
  "drop_file filename f =
     (case find_idx (\<lambda>g. g = filename) (fd_files f) of
        Some j \<Rightarrow> f\<lparr>fd_files := delete_at (fd_files f) j\<rparr> | None \<Rightarrow> f)"

text \<open>
  A missing folder is created by \<open>create_folder\<close>, which is called with the mutex held.  An index
  that is still missing afterwards would be \<open>folders[-1]\<close>.
\<close>

definition move_file_to_folder ::
  "bool \<Rightarrow> folder list \<Rightarrow> string \<Rightarrow> string \<Rightarrow> (int \<times> bool \<times> folder list) result" where
  "move_file_to_folder held folders filename foldername =
     (if filename = [] \<or> foldername = [] then Inr (- 1, held, folders)
      else ebind (mutex_lock held) (\<lambda>held.
        let fs = map (drop_file filename) folders in
        ebind (case find_folder_index fs foldername of
                 Some i \<Rightarrow> Inr (0, held, fs)
               | None \<Rightarrow> create_folder held fs foldername) (\<lambda>(rc, held, fs).
          if rc \<noteq> 0 then Inr (- 1, mutex_unlock held, fs)
          else (case find_folder_index fs foldername of
                  None \<Rightarrow> Inl Overflow
                | Some idx \<Rightarrow>
                    if filename \<in> set (fd_files (fs ! idx)) then Inr (0, mutex_unlock held, fs)
                    else if length (fd_files (fs ! idx)) < 1000
                    then Inr (0, mutex_unlock held,
                              fs[idx := (fs ! idx)\<lparr>fd_files := fd_files (fs ! idx) @ [strncpy_buf MAX_FILENAME_LEN filename]\<rparr>])
                    else Inr (- 1, mutex_unlock held, fs)))))"

definition list_folder_files :: "folder list \<Rightarrow> string \<Rightarrow> nat \<Rightarrow> string list" where
  "list_folder_files folders foldername max_count =
     (case find_folder_index folders foldername of
        Some i \<Rightarrow> take max_count (fd_files (folders ! i)) | None \<Rightarrow> [])"

text \<open>A name without the blanks around it, as the loaders of comma separated lists cut it out.\<close>

definition trim_item :: "string \<Rightarrow> string" where
  "trim_item tok =
     rev (dropWhile (\<lambda>c. c = CHR '' '' \<or> c = nl \<or> c = CHR 0x0D \<or> c = CHR 0x09)
           (rev (dropWhile (\<lambda>c. c = CHR '' '') tok)))"

fun add_items :: "string list \<Rightarrow> string list \<Rightarrow> string list" where
  "add_items files [] = files"
| "add_items files (tok # toks) =
     (if 1000 \<le> length files then files
      else (let t = trim_item tok in
            add_items (if t = [] then files else files @ [strncpy_buf MAX_FILENAME_LEN t]) toks))"

text \<open>The loader runs at the start, with the mutex free; \<open>create_folder\<close> returns it free (\<open>create_folder_free\<close>).\<close>

definition load_folder_line :: "folder list \<Rightarrow> string \<Rightarrow> folder list" where
  "load_folder_line folders l =
     (let line = chomp l in
      if line = [] then folders
      else (case find_idx (\<lambda>c. c = CHR ''|'') line of
              None \<Rightarrow> folders
            | Some k \<Rightarrow>
                (let fname = take k line; flist = drop (Suc k) line;
                     fs = (case create_folder False folders fname of Inl _ \<Rightarrow> folders | Inr (_, _, fs) \<Rightarrow> fs)
                 in case find_folder_index fs fname of
                      None \<Rightarrow> fs
                    | Some idx \<Rightarrow>
                        if flist = [] then fs
                        else fs[idx := (fs ! idx)\<lparr>fd_files :=
                               add_items (fd_files (fs ! idx)) (strtok {CHR '',''} (strncpy_buf 4096 flist))\<rparr>])))"

definition folders_load_from_disk :: "folder list \<Rightarrow> string \<Rightarrow> folder list" where
  "folders_load_from_disk folders folders_dat = foldl load_folder_line folders (fgets_lines 4096 folders_dat)"

definition folder_line :: "folder \<Rightarrow> string" where
  "folder_line f = fd_name f @ CHR ''|'' # join_with (CHR '','') (fd_files f)"

definition folders_save_to_disk :: "folder list \<Rightarrow> string" where
  "folders_save_to_disk folders = concat (map (\<lambda>f. folder_line f @ [nl]) folders)"

section \<open>One folder per file\<close>

lemmas mutex_defs = mutex_lock_def mutex_unlock_def

definition folders_ok :: "folder list \<Rightarrow> bool" where
  "folders_ok fs \<longleftrightarrow> length fs \<le> 100 \<and> distinct (map fd_name fs)
     \<and> (\<forall>f \<in> set fs. length (fd_name f) < MAX_FILENAME_LEN \<and> distinct (fd_files f) \<and> length (fd_files f) \<le> 1000)
     \<and> (\<forall>i < length fs. \<forall>j < length fs. i \<noteq> j \<longrightarrow> set (fd_files (fs ! i)) \<inter> set (fd_files (fs ! j)) = {})"

definition in_folder :: "folder list \<Rightarrow> string \<Rightarrow> string \<Rightarrow> bool" where
  "in_folder fs d f \<longleftrightarrow> (\<exists>e \<in> set fs. fd_name e = d \<and> f \<in> set (fd_files e))"

lemma in_folder_nth:
  "in_folder fs d f \<longleftrightarrow> (\<exists>j < length fs. fd_name (fs ! j) = d \<and> f \<in> set (fd_files (fs ! j)))"
  by (auto simp: in_folder_def set_conv_nth [of fs])

lemma drop_file_name [simp]: "fd_name (drop_file f e) = fd_name e"
  by (simp add: drop_file_def split: option.split)

lemma drop_file_files:
  assumes "distinct (fd_files e)"
  shows "set (fd_files (drop_file f e)) = set (fd_files e) - {f}" "distinct (fd_files (drop_file f e))"
    "length (fd_files (drop_file f e)) \<le> length (fd_files e)"
proof -
  have "set (fd_files (drop_file f e)) = set (fd_files e) - {f} \<and> distinct (fd_files (drop_file f e))
      \<and> length (fd_files (drop_file f e)) \<le> length (fd_files e)"
  proof (cases "find_idx (\<lambda>g. g = f) (fd_files e)")
    case None
    then have "f \<notin> set (fd_files e)" by (auto simp: find_idx_None)
    with assms show ?thesis by (simp add: drop_file_def None)
  next
    case (Some j)
    then have "j < length (fd_files e)" "fd_files e ! j = f" by (auto dest: find_idx_SomeD)
    with Some assms show ?thesis
      by (simp add: drop_file_def set_delete_at_distinct distinct_delete_at)
  qed
  then show "set (fd_files (drop_file f e)) = set (fd_files e) - {f}" "distinct (fd_files (drop_file f e))"
    "length (fd_files (drop_file f e)) \<le> length (fd_files e)" by blast+
qed

lemma find_folder_index_map: "find_folder_index (map (drop_file f) fs) d = find_folder_index fs d"
  by (simp add: find_folder_index_def find_idx_map comp_def)

lemma find_folder_None: "find_folder_index fs d = None \<longleftrightarrow> d \<notin> fd_name ` set fs"
  by (auto simp: find_folder_index_def find_idx_None)

lemma find_folder_SomeD:
  "find_folder_index fs d = Some i \<Longrightarrow> i < length fs \<and> fd_name (fs ! i) = d"
  by (auto simp: find_folder_index_def dest: find_idx_SomeD)

lemma folders_ok_drop:
  assumes "folders_ok fs"
  shows "folders_ok (map (drop_file f) fs)" "\<forall>e \<in> set (map (drop_file f) fs). f \<notin> set (fd_files e)"
proof -
  have d: "distinct (fd_files e)" if "e \<in> set fs" for e using assms that by (simp add: folders_ok_def)
  have names: "map fd_name (map (drop_file f) fs) = map fd_name fs" by simp
  show "\<forall>e \<in> set (map (drop_file f) fs). f \<notin> set (fd_files e)" using drop_file_files(1) [OF d] by auto
  have "\<forall>e \<in> set fs. length (fd_files (drop_file f e)) \<le> 1000"
    using assms drop_file_files(3) [OF d, of _ f] by (auto simp: folders_ok_def intro: le_trans)
  moreover have "set (fd_files (map (drop_file f) fs ! i)) \<inter> set (fd_files (map (drop_file f) fs ! j)) = {}"
    if "i < length fs" "j < length fs" "i \<noteq> j" for i j
  proof -
    have "set (fd_files (fs ! i)) \<inter> set (fd_files (fs ! j)) = {}" using assms that by (simp add: folders_ok_def)
    with that show ?thesis using drop_file_files(1) [OF d, OF nth_mem] by auto
  qed
  ultimately show "folders_ok (map (drop_file f) fs)"
    using assms drop_file_files(2) [OF d] unfolding folders_ok_def names by simp
qed

text \<open>A move that returns 0: the file is in the target folder and nowhere else.\<close>

lemma move_file_result:
  assumes ok: "folders_ok fs" and f: "length f < MAX_FILENAME_LEN" "f \<noteq> []" "d \<noteq> []"
    and d: "find_folder_index fs d = Some i"
  shows "\<exists>r fs'. move_file_to_folder False fs f d = Inr (r, False, fs') \<and> folders_ok fs' \<and> map fd_name fs' = map fd_name fs
    \<and> (r = 0 \<longrightarrow> (\<forall>d'. in_folder fs' d' f \<longleftrightarrow> d' = d))
    \<and> (\<forall>d' g. g \<noteq> f \<longrightarrow> in_folder fs' d' g = in_folder fs d' g)
    \<and> (r \<noteq> 0 \<longrightarrow> length (fd_files (fs ! i)) = 1000 \<and> f \<notin> set (fd_files (fs ! i)))"
proof -
  let ?fs = "map (drop_file f) fs"
  have i: "i < length fs" "fd_name (fs ! i) = d" using find_folder_SomeD [OF d] by auto
  have dist: "distinct (fd_files e)" if "e \<in> set fs" for e using ok that by (simp add: folders_ok_def)
  note okd = folders_ok_drop [OF ok, of f]
  have "length (fd_name (fs ! i)) < MAX_FILENAME_LEN" using ok i(1) by (simp add: folders_ok_def)
  then have len: "length d < MAX_FILENAME_LEN" by (simp add: i(2))
  have idx: "find_folder_index ?fs d = Some i" using d by (simp add: find_folder_index_map)
  have nf: "f \<notin> set (fd_files (?fs ! i))" using okd(2) i(1) by simp
  have keep: "in_folder ?fs d' g = in_folder fs d' g" if "g \<noteq> f" for d' g
    using that drop_file_files(1) [OF dist] by (auto simp: in_folder_def)
  show ?thesis
  proof (cases "length (fd_files (?fs ! i)) < 1000")
    case True
    define e where "e = (?fs ! i)\<lparr>fd_files := fd_files (?fs ! i) @ [f]\<rparr>"
    let ?fs' = "?fs[i := e]"
    have mv: "move_file_to_folder False fs f d = Inr (0, False, ?fs')"
      using True f idx nf by (simp add: move_file_to_folder_def mutex_defs Let_def e_def)
    have e: "fd_name e = d" "set (fd_files e) = insert f (set (fd_files (?fs ! i)))"
      "distinct (fd_files e)" "length (fd_files e) \<le> 1000" "length (fd_name e) < MAX_FILENAME_LEN"
      using i len nf True okd(1) drop_file_files(2) [OF dist, of "fs ! i" f] by (simp_all add: e_def)
    have names: "map fd_name ?fs' = map fd_name fs"
      using i e(1) by (simp add: map_update list_update_same_conv comp_def)
    have nth: "?fs' ! j = (if j = i then e else ?fs ! j)" if "j < length fs" for j
      using that i by simp
    have disj: "set (fd_files (?fs' ! j)) \<inter> set (fd_files (?fs' ! k)) = {}"
      if "j < length fs" "k < length fs" "j \<noteq> k" for j k
    proof -
      have "f \<notin> set (fd_files (?fs ! j))" "f \<notin> set (fd_files (?fs ! k))" using okd(2) that by simp_all
      moreover have "set (fd_files (?fs ! j)) \<inter> set (fd_files (?fs ! k)) = {}"
        using okd(1) that by (simp add: folders_ok_def)
      ultimately show ?thesis
        unfolding nth [OF that(1)] nth [OF that(2)] using that e(2) by auto
    qed
    have "\<forall>x \<in> set ?fs'. length (fd_name x) < MAX_FILENAME_LEN \<and> distinct (fd_files x) \<and> length (fd_files x) \<le> 1000"
      using okd(1) e i ok nth_mem [OF i(1)] by (auto simp: folders_ok_def dest!: set_update_subset_insert [THEN subsetD])
    then have "folders_ok ?fs'"
      using disj ok names unfolding folders_ok_def by simp
    moreover have "in_folder ?fs' d' g \<longleftrightarrow> (if g = f then d' = d else in_folder ?fs d' g)" for d' g
    proof -
      have pt: "fd_name (?fs' ! j) = d' \<and> g \<in> set (fd_files (?fs' ! j)) \<longleftrightarrow> fd_name (fs ! j) = d'
          \<and> (if j = i then g = f \<or> g \<in> set (fd_files (?fs ! i)) else g \<in> set (fd_files (?fs ! j)))"
        if "j < length fs" for j
        unfolding nth [OF that] using that e(1,2) i by auto
      have A: "in_folder ?fs' d' g \<longleftrightarrow> (\<exists>j < length fs. fd_name (fs ! j) = d'
          \<and> (if j = i then g = f \<or> g \<in> set (fd_files (?fs ! i)) else g \<in> set (fd_files (?fs ! j))))"
        using pt by (simp only: in_folder_nth length_list_update length_map) blast
      have B: "in_folder ?fs d' g \<longleftrightarrow> (\<exists>j < length fs. fd_name (fs ! j) = d' \<and> g \<in> set (fd_files (?fs ! j)))"
        by (auto simp: in_folder_nth)
      have C: "f \<notin> set (fd_files (?fs ! j))" if "j < length fs" for j using okd(2) that by simp
      show ?thesis
      proof (cases "g = f")
        case True
        with C i show ?thesis unfolding A by auto
      next
        case False
        then show ?thesis unfolding A B by auto
      qed
    qed
    ultimately show ?thesis using mv names keep by auto
  next
    case False
    moreover have "length (fd_files (?fs ! i)) \<le> 1000" using okd(1) i(1) nth_mem [of i ?fs] by (simp add: folders_ok_def)
    ultimately have full: "length (fd_files (?fs ! i)) = 1000" by simp
    have mv: "move_file_to_folder False fs f d = Inr (- 1, False, ?fs)"
      using False f idx nf by (simp add: move_file_to_folder_def mutex_defs Let_def)
    have "length (fd_files (fs ! i)) \<le> 1000" using ok i by (simp add: folders_ok_def)
    moreover have "f \<notin> set (fd_files (fs ! i))"
    proof
      assume "f \<in> set (fd_files (fs ! i))"
      then have "fd_files (?fs ! i) \<noteq> fd_files (fs ! i)" using nf by auto
      with full i \<open>length (fd_files (fs ! i)) \<le> 1000\<close> show False
        by (auto simp: drop_file_def dest: find_idx_lt split: option.splits)
    qed
    moreover have "length (fd_files (fs ! i)) = 1000"
      using full i drop_file_files(3) [OF dist, of "fs ! i" f] \<open>length (fd_files (fs ! i)) \<le> 1000\<close> by simp
    moreover have "map fd_name ?fs = map fd_name fs" by simp
    ultimately show ?thesis using mv okd(1) keep by auto
  qed
qed

text \<open>The second lock of the same thread.\<close>

lemma create_folder_held: "d \<noteq> [] \<Longrightarrow> create_folder True fs d = Inl Deadlock"
  by (simp add: create_folder_def mutex_defs)

lemma move_to_missing_folder:
  assumes "find_folder_index fs d = None" "f \<noteq> []" "d \<noteq> []"
  shows "move_file_to_folder False fs f d = Inl Deadlock"
  using assms by (simp add: move_file_to_folder_def mutex_defs Let_def find_folder_index_map create_folder_held)

lemma create_folder_free:
  "create_folder False fs d =
     (if d = [] \<or> find_folder_index fs d = None \<and> 100 \<le> length fs then Inr (- 1, False, fs)
      else if find_folder_index fs d \<noteq> None then Inr (0, False, fs)
      else Inr (0, False, fs @ [\<lparr>fd_name = strncpy_buf MAX_FILENAME_LEN d, fd_files = []\<rparr>]))"
  by (auto simp: create_folder_def mutex_defs split: option.split)

lemma create_folder_ok:
  assumes "folders_ok fs" "length d < MAX_FILENAME_LEN" "create_folder False fs d = Inr (rc, held, fs')"
  shows "\<not> held" "folders_ok fs'"
proof -
  show "\<not> held" using assms(3) by (auto simp: create_folder_free split: if_splits)
  show "folders_ok fs'"
  proof (cases "d = [] \<or> find_folder_index fs d \<noteq> None \<or> 100 \<le> length fs")
    case True
    with assms(1,3) show ?thesis by (auto simp: create_folder_free split: if_splits)
  next
    case False
    then have new: "d \<notin> fd_name ` set fs" "length fs < 100" by (simp_all add: find_folder_None)
    have fs': "fs' = fs @ [\<lparr>fd_name = d, fd_files = []\<rparr>]"
      using False assms by (auto simp: create_folder_free split: if_splits)
    have "set (fd_files (fs' ! i)) \<inter> set (fd_files (fs' ! j)) = {}" if "i < length fs'" "j < length fs'" "i \<noteq> j" for i j
      using that assms(1) by (cases "i < length fs"; cases "j < length fs") (simp_all add: fs' folders_ok_def nth_append)
    with new assms(1,2) show ?thesis by (simp add: fs' folders_ok_def)
  qed
qed

lemma create_folder_found:
  assumes "create_folder False fs d = Inr (0, held, fs')" "length d < MAX_FILENAME_LEN"
  shows "\<exists>i. find_folder_index fs' d = Some i"
  using assms by (auto simp: create_folder_free find_folder_index_def find_idx_append split: if_splits)

lemma create_folder_keeps:
  "create_folder False fs d = Inr (rc, held, fs') \<Longrightarrow> in_folder fs' d' g = in_folder fs d' g"
  by (auto simp: create_folder_free in_folder_def split: if_splits)

section \<open>The file of folders\<close>

text \<open>Names that survive: not empty, no separators or line ends, no blanks around a file name.\<close>

definition item_ok :: "string \<Rightarrow> bool" where
  "item_ok s \<longleftrightarrow> trim_item s = s \<and> s \<noteq> [] \<and> length s < MAX_FILENAME_LEN
     \<and> CHR '','' \<notin> set s \<and> nl \<notin> set s \<and> CHR 0x0D \<notin> set s"

definition folder_disk_ok :: "folder \<Rightarrow> bool" where
  "folder_disk_ok e \<longleftrightarrow> fd_name e \<noteq> [] \<and> length (fd_name e) < MAX_FILENAME_LEN
     \<and> CHR ''|'' \<notin> set (fd_name e) \<and> nl \<notin> set (fd_name e) \<and> CHR 0x0D \<notin> set (fd_name e)
     \<and> (\<forall>f \<in> set (fd_files e). item_ok f) \<and> length (fd_files e) \<le> 1000 \<and> length (folder_line e) < 4095"

lemma add_items_eq:
  "\<forall>f \<in> set fs. item_ok f \<Longrightarrow> length files + length fs \<le> 1000 \<Longrightarrow> add_items files fs = files @ fs"
  by (induction files fs rule: add_items.induct) (auto simp: item_ok_def Let_def)

lemma folder_line_chars:
  assumes "folder_disk_ok e"
  shows "nl \<notin> set (folder_line e)" "CHR 0x0D \<notin> set (folder_line e)"
  using assms set_join_with [of "CHR '',''" "fd_files e"]
  by (fastforce simp: folder_line_def folder_disk_ok_def item_ok_def)+

lemma load_folder_line_eq:
  assumes e: "folder_disk_ok e" and new: "fd_name e \<notin> fd_name ` set fs" and room: "length fs < 100"
  shows "load_folder_line fs (folder_line e @ [nl]) = fs @ [e]"
proof -
  have name: "fd_name e \<noteq> []" "strncpy_buf MAX_FILENAME_LEN (fd_name e) = fd_name e" "CHR ''|'' \<notin> set (fd_name e)"
    using e by (simp_all add: folder_disk_ok_def)
  have files: "\<forall>f \<in> set (fd_files e). item_ok f" "length (fd_files e) \<le> 1000" using e by (simp_all add: folder_disk_ok_def)
  let ?l = "join_with (CHR '','') (fd_files e)"
  have chomp: "chomp (folder_line e @ [nl]) = folder_line e"
    by (rule chomp_line) (rule folder_line_chars [OF e])+
  have bar: "find_idx (\<lambda>c. c = CHR ''|'') (folder_line e) = Some (length (fd_name e))"
    unfolding folder_line_def by (rule find_idx_colon [OF name(3)])
  have mk: "create_folder False fs (fd_name e) = Inr (0, False, fs @ [\<lparr>fd_name = fd_name e, fd_files = []\<rparr>])"
    "find_folder_index (fs @ [\<lparr>fd_name = fd_name e, fd_files = []\<rparr>]) (fd_name e) = Some (length fs)"
  proof -
    have none: "find_folder_index fs (fd_name e) = None" using new by (simp add: find_folder_None)
    then show "create_folder False fs (fd_name e) = Inr (0, False, fs @ [\<lparr>fd_name = fd_name e, fd_files = []\<rparr>])"
      using name room by (simp add: create_folder_free)
    show "find_folder_index (fs @ [\<lparr>fd_name = fd_name e, fd_files = []\<rparr>]) (fd_name e) = Some (length fs)"
      using none by (simp add: find_folder_index_def find_idx_append)
  qed
  have "length ?l < 4096" using e by (simp add: folder_disk_ok_def folder_line_def)
  moreover have "strtok {CHR '',''} ?l = fd_files e"
    by (rule strtok_join_with) (use files(1) in \<open>auto simp: item_ok_def\<close>)
  moreover have "?l = [] \<Longrightarrow> fd_files e = []"
    using files(1) by (cases "fd_files e"; cases "tl (fd_files e)") (auto simp: item_ok_def)
  moreover have "folder_line e \<noteq> []" by (simp add: folder_line_def)
  moreover have "take (length (fd_name e)) (folder_line e) = fd_name e" "drop (Suc (length (fd_name e))) (folder_line e) = ?l"
    by (simp_all add: folder_line_def)
  ultimately show ?thesis
    unfolding load_folder_line_def chomp using bar mk add_items_eq [OF files(1), of "[]"] files(2)
    by (cases "?l = []") (simp_all add: Let_def)
qed

lemma load_folder_lines:
  "\<forall>e \<in> set es. folder_disk_ok e \<Longrightarrow> distinct (map fd_name (fs @ es)) \<Longrightarrow> length fs + length es \<le> 100 \<Longrightarrow>
   foldl load_folder_line fs (map (\<lambda>e. folder_line e @ [nl]) es) = fs @ es"
  by (induction es arbitrary: fs) (simp_all add: load_folder_line_eq)

lemma folders_disk_round_trip:
  assumes "\<forall>e \<in> set es. folder_disk_ok e" "distinct (map fd_name es)" "length es \<le> 100"
  shows "folders_load_from_disk [] (folders_save_to_disk es) = es"
proof -
  have "fgets_lines 4096 (concat (map (\<lambda>l. l @ [nl]) (map folder_line es))) = map (\<lambda>l. l @ [nl]) (map folder_line es)"
    by (rule fgets_lines_concat) (use assms(1) folder_line_chars in \<open>auto simp: folder_disk_ok_def\<close>)
  then show ?thesis
    using load_folder_lines [of es "[]"] assms
    by (simp add: folders_load_from_disk_def folders_save_to_disk_def comp_def)
qed

end
