(* ===== verification/Access_Requests.thy ===== *)
theory Access_Requests
  imports Metadata_Disk
begin

text \<open>
  The queue of access requests in \<^verbatim>\<open>naming_server/nm_storage.c\<close>: appending, listing for an
  owner, resolving, and the file \<^verbatim>\<open>access_requests.dat\<close>.  The lemmas show that a file never
  has two pending requests of one user, what each return code means, and that saving and
  loading are inverse.
\<close>

section \<open>Operations\<close>

record access_request =
  ar_filename :: string
  ar_requester :: string
  ar_access :: access_type
  ar_pending :: bool
  ar_time :: int

definition load_request_line :: "access_request list \<Rightarrow> string \<Rightarrow> access_request list" where
  "load_request_line reqs l =
     (let line = chomp l; t = strtok {CHR ''|''} line in
      if line = [] then reqs
      else if 5 \<le> length t \<and> length reqs < 1000
      then reqs @ [\<lparr>ar_filename = strncpy_buf MAX_FILENAME_LEN (t ! 0), ar_requester = strncpy_buf MAX_USERNAME_LEN (t ! 1),
                    ar_access = access_of_int (atoi (t ! 2)), ar_pending = (atoi (t ! 3) \<noteq> 0), ar_time = atoi (t ! 4)\<rparr>]
      else reqs)"

definition access_requests_load_from_disk :: "access_request list \<Rightarrow> string \<Rightarrow> access_request list" where
  "access_requests_load_from_disk reqs requests_dat = foldl load_request_line reqs (fgets_lines 512 requests_dat)"

definition request_line :: "access_request \<Rightarrow> string" where
  "request_line e =
     join_with (CHR ''|'') [ar_filename e, ar_requester e, show_int (int_of_access (ar_access e)),
                            show_int (if ar_pending e then 1 else 0), show_int (ar_time e)]"

definition access_requests_flush_all :: "access_request list \<Rightarrow> string" where
  "access_requests_flush_all reqs = concat (map (\<lambda>e. request_line e @ [nl]) reqs)"

definition pending_for :: "string \<Rightarrow> string \<Rightarrow> access_request \<Rightarrow> bool" where
  "pending_for filename requester e = (ar_pending e \<and> ar_filename e = filename \<and> ar_requester e = requester)"

text \<open>Success is 0; the table is then written to its file.\<close>

definition access_requests_append ::
  "access_request list \<Rightarrow> string \<Rightarrow> string \<Rightarrow> string \<Rightarrow> access_type \<Rightarrow> int \<Rightarrow> int \<times> access_request list \<times> string" where
  "access_requests_append reqs requests_dat filename requester requested now =
     (if filename = [] \<or> requester = [] then (- 1, reqs, requests_dat)
      else if find_idx (pending_for filename requester) reqs \<noteq> None then (- 2, reqs, requests_dat)
      else if 1000 \<le> length reqs then (- 3, reqs, requests_dat)
      else (let reqs' = reqs @ [\<lparr>ar_filename = strncpy_buf MAX_FILENAME_LEN filename,
                                 ar_requester = strncpy_buf MAX_USERNAME_LEN requester,
                                 ar_access = requested, ar_pending = True, ar_time = now\<rparr>]
            in (0, reqs', access_requests_flush_all reqs')))"

text \<open>
  \<open>fmt\<close> is \<open>timestamp_to_string\<close>, which depends on the time zone.  A line that does not fit is
  counted and not shown.
\<close>

definition request_view_line :: "(int \<Rightarrow> string) \<Rightarrow> access_request \<Rightarrow> string" where
  "request_view_line fmt e =
     strncpy_buf 256 (''--> '' @ ar_filename e @ '' | '' @ ar_requester e @ '' | ''
       @ (if ar_access e = ACCESS_WRITE then ''WRITE'' else ''READ'') @ '' | '' @ fmt (ar_time e) @ [nl])"

fun list_requests_loop :: "(int \<Rightarrow> string) \<Rightarrow> meta_heap \<Rightarrow> nat trie \<Rightarrow> string \<Rightarrow> nat \<Rightarrow> access_request list
    \<Rightarrow> string \<Rightarrow> nat \<Rightarrow> (nat \<times> string) result" where
  "list_requests_loop fmt H root owner out_sz [] out count = Inr (count, out)"
| "list_requests_loop fmt H root owner out_sz (e # es) out count =
     (if \<not> ar_pending e then list_requests_loop fmt H root owner out_sz es out count
      else (case trie_search root (ar_filename e) of
              None \<Rightarrow> list_requests_loop fmt H root owner out_sz es out count
            | Some r \<Rightarrow>
                (case H r of
                   None \<Rightarrow> Inl UseAfterFree
                 | Some m \<Rightarrow>
                     if fm_owner m \<noteq> owner then list_requests_loop fmt H root owner out_sz es out count
                     else (let line = request_view_line fmt e
                           in list_requests_loop fmt H root owner out_sz es
                                (if length out + length line < out_sz - 1 then out @ line else out) (count + 1)))))"

definition access_requests_list_for_owner ::
  "(int \<Rightarrow> string) \<Rightarrow> meta_heap \<Rightarrow> nat trie \<Rightarrow> access_request list \<Rightarrow> string \<Rightarrow> nat \<Rightarrow> (nat \<times> string) result" where
  "access_requests_list_for_owner fmt H root reqs owner out_sz = list_requests_loop fmt H root owner out_sz reqs [] 0"

text \<open>The part of \<open>access_requests_resolve\<close> that works on the table; the grant is in the caller's file index.\<close>

definition take_request :: "access_request list \<Rightarrow> string \<Rightarrow> string \<Rightarrow> string \<Rightarrow> int \<times> access_request list \<times> string" where
  "take_request reqs requests_dat filename requester =
     (case find_idx (pending_for filename requester) reqs of
        None \<Rightarrow> (- 1, reqs, requests_dat)
      | Some i \<Rightarrow> (let reqs' = reqs[i := (reqs ! i)\<lparr>ar_pending := False\<rparr>]
                   in (0, reqs', access_requests_flush_all reqs')))"

section \<open>One pending request per user and file\<close>

definition pending_keys :: "access_request list \<Rightarrow> (string \<times> string) list" where
  "pending_keys reqs = map (\<lambda>e. (ar_filename e, ar_requester e)) (filter ar_pending reqs)"

definition requests_ok :: "access_request list \<Rightarrow> bool" where
  "requests_ok reqs \<longleftrightarrow> length reqs \<le> 1000 \<and> distinct (pending_keys reqs)"

lemma pending_keys_iff: "(f, u) \<in> set (pending_keys reqs) \<longleftrightarrow> find_idx (pending_for f u) reqs \<noteq> None"
  by (auto simp: pending_keys_def find_idx_None pending_for_def image_iff)

text \<open>The index found is the only pending entry for the pair.\<close>

lemma resolve_keys:
  assumes "find_idx (pending_for f u) reqs = Some i" "distinct (pending_keys reqs)"
  shows "set (pending_keys (reqs[i := (reqs ! i)\<lparr>ar_pending := False\<rparr>])) = set (pending_keys reqs) - {(f, u)}"
    "distinct (pending_keys (reqs[i := (reqs ! i)\<lparr>ar_pending := False\<rparr>]))"
proof -
  from find_idx_SomeD [OF assms(1)] have i: "i < length reqs" "pending_for f u (reqs ! i)" by auto
  let ?e = "reqs ! i"
  have old: "reqs = take i reqs @ ?e # drop (Suc i) reqs" using i(1) by (rule id_take_nth_drop)
  have new: "reqs[i := ?e\<lparr>ar_pending := False\<rparr>] = take i reqs @ ?e\<lparr>ar_pending := False\<rparr> # drop (Suc i) reqs"
    using i(1) by (rule upd_conv_take_nth_drop)
  have k1: "pending_keys reqs = pending_keys (take i reqs) @ (f, u) # pending_keys (drop (Suc i) reqs)"
    by (subst old) (use i(2) in \<open>simp add: pending_keys_def pending_for_def\<close>)
  have k2: "pending_keys (reqs[i := ?e\<lparr>ar_pending := False\<rparr>])
      = pending_keys (take i reqs) @ pending_keys (drop (Suc i) reqs)"
    unfolding new by (simp add: pending_keys_def)
  show "set (pending_keys (reqs[i := ?e\<lparr>ar_pending := False\<rparr>])) = set (pending_keys reqs) - {(f, u)}"
    "distinct (pending_keys (reqs[i := ?e\<lparr>ar_pending := False\<rparr>]))"
    using assms(2) unfolding k1 k2 by auto
qed

text \<open>What the return codes of an append say, and what it does.\<close>

lemma append_request:
  assumes ok: "requests_ok reqs" and f: "f \<noteq> []" "length f < MAX_FILENAME_LEN" and u: "u \<noteq> []" "length u < MAX_USERNAME_LEN"
    and a: "access_requests_append reqs dat f u acc now = (r, reqs', dat')"
  shows "requests_ok reqs'"
    "r = 0 \<longleftrightarrow> (f, u) \<notin> set (pending_keys reqs) \<and> length reqs < 1000"
    "r = - 2 \<longleftrightarrow> (f, u) \<in> set (pending_keys reqs)"
    "r = 0 \<Longrightarrow> set (pending_keys reqs') = insert (f, u) (set (pending_keys reqs)) \<and> dat' = access_requests_flush_all reqs'"
    "r \<noteq> 0 \<Longrightarrow> reqs' = reqs \<and> dat' = dat"
proof -
  have key: "pending_keys (reqs @ [\<lparr>ar_filename = f, ar_requester = u, ar_access = acc, ar_pending = True, ar_time = now\<rparr>])
      = pending_keys reqs @ [(f, u)]" by (simp add: pending_keys_def)
  consider (dup) "(f, u) \<in> set (pending_keys reqs)" "r = - 2" "reqs' = reqs" "dat' = dat"
    | (full) "(f, u) \<notin> set (pending_keys reqs)" "1000 \<le> length reqs" "r = - 3" "reqs' = reqs" "dat' = dat"
    | (new) "(f, u) \<notin> set (pending_keys reqs)" "length reqs < 1000" "r = 0"
        "reqs' = reqs @ [\<lparr>ar_filename = f, ar_requester = u, ar_access = acc, ar_pending = True, ar_time = now\<rparr>]"
        "dat' = access_requests_flush_all reqs'"
    using a f u by (auto simp: access_requests_append_def pending_keys_iff Let_def split: if_splits)
  then have "requests_ok reqs' \<and> (r = 0 \<longleftrightarrow> (f, u) \<notin> set (pending_keys reqs) \<and> length reqs < 1000)
      \<and> (r = - 2 \<longleftrightarrow> (f, u) \<in> set (pending_keys reqs))
      \<and> (r = 0 \<longrightarrow> set (pending_keys reqs') = insert (f, u) (set (pending_keys reqs)) \<and> dat' = access_requests_flush_all reqs')
      \<and> (r \<noteq> 0 \<longrightarrow> reqs' = reqs \<and> dat' = dat)"
  proof cases
    case dup
    with ok show ?thesis by simp
  next
    case full
    with ok show ?thesis by simp
  next
    case new
    have "requests_ok reqs'" using ok new(1,2) unfolding new(4) requests_ok_def key by simp
    moreover have "set (pending_keys reqs') = insert (f, u) (set (pending_keys reqs))" unfolding new(4) key by simp
    ultimately show ?thesis using new by simp
  qed
  then show "requests_ok reqs'"
    "r = 0 \<longleftrightarrow> (f, u) \<notin> set (pending_keys reqs) \<and> length reqs < 1000"
    "r = - 2 \<longleftrightarrow> (f, u) \<in> set (pending_keys reqs)"
    "r = 0 \<Longrightarrow> set (pending_keys reqs') = insert (f, u) (set (pending_keys reqs)) \<and> dat' = access_requests_flush_all reqs'"
    "r \<noteq> 0 \<Longrightarrow> reqs' = reqs \<and> dat' = dat" by blast+
qed

lemma take_request_cases:
  assumes "requests_ok reqs" "take_request reqs dat f u = (r, reqs', dat')"
  shows "requests_ok reqs'" "r = 0 \<or> r = - 1" "r = 0 \<longleftrightarrow> (f, u) \<in> set (pending_keys reqs)"
    "set (pending_keys reqs') = set (pending_keys reqs) - {(f, u)}"
    "r = 0 \<Longrightarrow> dat' = access_requests_flush_all reqs'" "r \<noteq> 0 \<Longrightarrow> reqs' = reqs \<and> dat' = dat"
proof -
  have "requests_ok reqs' \<and> (r = 0 \<or> r = - 1) \<and> (r = 0 \<longleftrightarrow> (f, u) \<in> set (pending_keys reqs))
      \<and> set (pending_keys reqs') = set (pending_keys reqs) - {(f, u)}
      \<and> (r = 0 \<longrightarrow> dat' = access_requests_flush_all reqs') \<and> (r \<noteq> 0 \<longrightarrow> reqs' = reqs \<and> dat' = dat)"
  proof (cases "find_idx (pending_for f u) reqs")
    case None
    then have "(f, u) \<notin> set (pending_keys reqs)" by (simp add: pending_keys_iff)
    with assms None show ?thesis by (auto simp: take_request_def)
  next
    case (Some i)
    then have "(f, u) \<in> set (pending_keys reqs)" by (simp add: pending_keys_iff)
    moreover have "r = 0" "reqs' = reqs[i := (reqs ! i)\<lparr>ar_pending := False\<rparr>]" "dat' = access_requests_flush_all reqs'"
      using assms(2) Some by (auto simp: take_request_def Let_def)
    moreover have "distinct (pending_keys reqs)" "length reqs \<le> 1000" using assms(1) by (simp_all add: requests_ok_def)
    ultimately show ?thesis using resolve_keys [OF Some] by (simp add: requests_ok_def)
  qed
  then show "requests_ok reqs'" "r = 0 \<or> r = - 1" "r = 0 \<longleftrightarrow> (f, u) \<in> set (pending_keys reqs)"
    "set (pending_keys reqs') = set (pending_keys reqs) - {(f, u)}"
    "r = 0 \<Longrightarrow> dat' = access_requests_flush_all reqs'" "r \<noteq> 0 \<Longrightarrow> reqs' = reqs \<and> dat' = dat" by blast+
qed

section \<open>The file of requests\<close>

definition request_disk_ok :: "access_request \<Rightarrow> bool" where
  "request_disk_ok e \<longleftrightarrow> field_ok (ar_filename e) \<and> length (ar_filename e) < MAX_FILENAME_LEN
     \<and> field_ok (ar_requester e) \<and> length (ar_requester e) < MAX_USERNAME_LEN
     \<and> CHR 0x0D \<notin> set (ar_filename e) \<and> CHR 0x0D \<notin> set (ar_requester e)
     \<and> access_code (ar_access e) < 2 ^ 32 \<and> length (request_line e) < 511"

lemma request_line_chars:
  assumes "request_disk_ok e"
  shows "nl \<notin> set (request_line e)" "CHR 0x0D \<notin> set (request_line e)"
  unfolding request_line_def
  by (rule contra_subsetD [OF set_join_with], use assms in \<open>auto simp: request_disk_ok_def field_ok_def show_int_free\<close>)+

lemma load_request_line_eq:
  assumes e: "request_disk_ok e" and room: "length reqs < 1000"
  shows "load_request_line reqs (request_line e @ [nl]) = reqs @ [e]"
proof -
  have chomp: "chomp (request_line e @ [nl]) = request_line e"
    by (rule chomp_line) (rule request_line_chars [OF e])+
  let ?t = "[ar_filename e, ar_requester e, show_int (int_of_access (ar_access e)),
             show_int (if ar_pending e then 1 else 0), show_int (ar_time e)]"
  have tok: "strtok {CHR ''|''} (request_line e) = ?t"
    unfolding request_line_def
    by (rule strtok_join_with) (use e in \<open>auto simp: request_disk_ok_def field_ok_def show_int_free\<close>)
  then have ne: "request_line e \<noteq> []" by auto
  show ?thesis
    unfolding load_request_line_def chomp tok Let_def
    using e room ne by (cases e) (auto simp: request_disk_ok_def access_of_int_of_access)
qed

lemma requests_disk_round_trip:
  assumes "\<forall>e \<in> set reqs. request_disk_ok e" "length reqs \<le> 1000"
  shows "access_requests_load_from_disk [] (access_requests_flush_all reqs) = reqs"
proof -
  have "fgets_lines 512 (concat (map (\<lambda>l. l @ [nl]) (map request_line reqs))) = map (\<lambda>l. l @ [nl]) (map request_line reqs)"
    by (rule fgets_lines_concat) (use assms(1) request_line_chars in \<open>auto simp: request_disk_ok_def\<close>)
  moreover have "foldl load_request_line rs (map (\<lambda>e. request_line e @ [nl]) es) = rs @ es"
    if "\<forall>e \<in> set es. request_disk_ok e" "length rs + length es \<le> 1000" for rs es
    using that by (induction es arbitrary: rs) (simp_all add: load_request_line_eq)
  ultimately show ?thesis
    using assms by (simp add: access_requests_load_from_disk_def access_requests_flush_all_def comp_def)
qed

section \<open>Listing\<close>

text \<open>The count is the number of pending requests for files of the owner, shown or not.\<close>

definition owned_pending :: "meta_heap \<Rightarrow> nat trie \<Rightarrow> string \<Rightarrow> access_request \<Rightarrow> bool" where
  "owned_pending H root owner e \<longleftrightarrow>
     ar_pending e \<and> (\<exists>m. meta_lookup H root (ar_filename e) = Some m \<and> fm_owner m = owner)"

lemma list_requests_count:
  assumes "meta_live H root" "0 < out_sz" "length out < out_sz"
  shows "\<exists>out'. list_requests_loop fmt H root owner out_sz es out n
           = Inr (n + length (filter (owned_pending H root owner) es), out') \<and> length out' < out_sz"
  using assms(3)
proof (induction es arbitrary: out n)
  case (Cons e es)
  show ?case
  proof (cases "ar_pending e")
    case False
    with Cons.IH [OF Cons.prems] show ?thesis by (simp add: owned_pending_def)
  next
    case pending: True
    show ?thesis
    proof (cases "trie_search root (ar_filename e)")
      case None
      with Cons.IH [OF Cons.prems] pending show ?thesis by (simp add: owned_pending_def meta_lookup_def)
    next
      case (Some r)
      with assms(1) obtain m where m: "H r = Some m" by (auto simp: meta_live_def)
      show ?thesis
      proof (cases "fm_owner m = owner")
        case False
        with Cons.IH [OF Cons.prems] pending Some m show ?thesis by (simp add: owned_pending_def meta_lookup_def)
      next
        case True
        let ?line = "request_view_line fmt e"
        let ?out = "if length out + length ?line < out_sz - 1 then out @ ?line else out"
        have "length ?out < out_sz" using Cons.prems by (auto split: if_splits)
        from Cons.IH [OF this, of "n + 1"] pending Some m True show ?thesis
          by (simp add: owned_pending_def meta_lookup_def Let_def)
      qed
    qed
  qed
qed simp

end
