(* ===== verification/Naming_Server.thy ===== *)
theory Naming_Server
  imports Lru_Cache Registries Folders Access_Requests
begin

text \<open>
  The handlers of \<^verbatim>\<open>naming_server/naming_server.c\<close> for the requests of clients.  The state
  holds the metadata objects in a heap, the trie and the cache that refer to them, the
  registries, and the texts of the four files on disk.  A handler takes the environment of
  the call, the state, the number of the socket and the message; it returns the messages
  sent and the state, or a fault.

  A handler begins with \<open>get_client_by_socket\<close>, which returns a pointer into
  \<open>client_registry\<close>, and takes \<open>trie_mutex\<close> only then.  What it does from there on is its body,
  a function of the entry that the pointer refers to at that time: the handler run without a
  break is \<open>with_client\<close> of the body, and a run that interleaves threads calls the body with the
  entry as it is when the thread goes on.  A body holds the mutex while it works on the index, so
  it is one step here.  A handler that releases the mutex before it is done (CREATE, EXEC, MOVE)
  has a body for each piece; what it carries from one piece to the next is a task.
\<close>

section \<open>State and environment\<close>

text \<open>
  \<open>nm_clients\<close> are the places of \<open>client_registry\<close> below \<open>client_count\<close>, \<open>nm_stale\<close> what the places
  from there on still hold of clients that have left; the rest of the array is zero.
\<close>

record naming_server =
  nm_heap :: meta_heap
  nm_fresh :: nat
  nm_trie :: "nat trie"
  nm_cache :: lru_cache
  nm_servers :: "ss_info list"
  nm_last_selected :: int
  nm_clients :: "client_info list"
  nm_stale :: "client_info list"
  nm_users :: "string list"
  nm_replicas :: "replica_entry list"
  nm_folders_mutex :: bool
  nm_folders :: "folder list"
  nm_requests :: "access_request list"
  nm_metadata_dat :: string
  nm_users_dat :: string
  nm_folders_dat :: string
  nm_requests_dat :: string

text \<open>
  What a handler gets from outside: the clock, \<open>timestamp_to_string\<close> (which depends on the
  time zone), the reply of a storage server on its control connection, the reply on a new
  connection to an address, and the output of a shell command.  \<open>None\<close> is a connection or a
  receive that fails, or a pipe that cannot be opened.
\<close>

record nm_env =
  env_now :: int
  env_time :: "int \<Rightarrow> string"
  env_reply :: "int \<Rightarrow> message \<Rightarrow> message option"
  env_fetch :: "string \<Rightarrow> int \<Rightarrow> message \<Rightarrow> message option"
  env_exec :: "string \<Rightarrow> string option"

type_synonym nm_output = "(int \<times> message) list"
type_synonym nm_result = "(nm_output \<times> naming_server) result"

text \<open>
  What a thread carries over a break.  \<open>Handling\<close> is a handler of which only the call of
  \<open>get_client_by_socket\<close> has been done: the place in \<open>client_registry\<close> that it points to.
\<close>

datatype nm_task =
    Handling int message nat
  | Creating_Replica int int message
  | Executing int nat
  | Moving int message
  | Announcing_Move int message "nat option"
  | Queueing int message
  | Resolving int message bool access_type string
  | Granting int message access_type string
  | Replicating string
  | Copying nat

type_synonym nm_piece_result = "(nm_output \<times> naming_server \<times> nm_task option) result"

definition no_task :: "nm_result \<Rightarrow> nm_piece_result" where
  "no_task r = ebind r (\<lambda>(out, S). Inr (out, S, None))"

section \<open>The table of clients\<close>

definition client_zero :: client_info where
  "client_zero = \<lparr>ci_socket = 0, ci_username = [], ci_ip = [], ci_nm_port = 0, ci_ss_port = 0, ci_conn_port = 0,
                  ci_connected_at = 0\<rparr>"

text \<open>What a pointer to place \<open>i\<close> of the array reads.\<close>

definition client_slot :: "naming_server \<Rightarrow> nat \<Rightarrow> client_info" where
  "client_slot S i = (let slots = nm_clients S @ nm_stale S in if i < length slots then slots ! i else client_zero)"

definition client_index :: "naming_server \<Rightarrow> int \<Rightarrow> nat option" where
  "client_index S sock = find_idx (\<lambda>c. ci_socket c = sock) (nm_clients S)"

text \<open>The entries above the one that leaves move down, and the last one stays behind as it was.\<close>

definition leave_client :: "naming_server \<Rightarrow> int \<Rightarrow> naming_server" where
  "leave_client S sock =
     (let cs = remove_client (nm_clients S) sock
      in S\<lparr>nm_clients := cs, nm_stale := drop (length cs) (nm_clients S) @ nm_stale S\<rparr>)"

section \<open>Access to the index\<close>

definition meta_at :: "naming_server \<Rightarrow> nat \<Rightarrow> file_metadata result" where
  "meta_at S r = (case nm_heap S r of None \<Rightarrow> Inl UseAfterFree | Some m \<Rightarrow> Inr m)"

definition put_meta :: "naming_server \<Rightarrow> nat \<Rightarrow> file_metadata \<Rightarrow> naming_server" where
  "put_meta S r m = S\<lparr>nm_heap := (nm_heap S)(r \<mapsto> m)\<rparr>"

text \<open>\<^verbatim>\<open>trie_save_to_disk(file_trie, "metadata.dat")\<close>\<close>

definition save_metadata :: "naming_server \<Rightarrow> naming_server result" where
  "save_metadata S =
     ebind (trie_save_to_disk (nm_trie S) (nm_heap S)) (\<lambda>dat. Inr (S\<lparr>nm_metadata_dat := dat\<rparr>))"

text \<open>The cache first, then the trie; what the trie finds goes into the cache.\<close>

definition lookup_metadata :: "nm_env \<Rightarrow> naming_server \<Rightarrow> string \<Rightarrow> (naming_server \<times> nat option) result" where
  "lookup_metadata E S filename =
     ebind (cache_get (nm_cache S) filename (env_now E)) (\<lambda>(c, hit).
       case hit of
         Some r \<Rightarrow> Inr (S\<lparr>nm_cache := c\<rparr>, Some r)
       | None \<Rightarrow>
           (case trie_search (nm_trie S) filename of
              None \<Rightarrow> Inr (S\<lparr>nm_cache := c\<rparr>, None)
            | Some r \<Rightarrow> ebind (cache_put c filename r (env_now E)) (\<lambda>c'. Inr (S\<lparr>nm_cache := c'\<rparr>, Some r))))"

text \<open>The start that the handlers share: the client of the socket, and the file of the message.\<close>

definition with_client :: "naming_server \<Rightarrow> int \<Rightarrow> (client_info \<Rightarrow> nm_result) \<Rightarrow> nm_result" where
  "with_client S sock f = (case get_client_by_socket (nm_clients S) sock of None \<Rightarrow> Inr ([], S) | Some c \<Rightarrow> f c)"

definition file_not_found :: message where
  "file_not_found = error_reply ERR_FILE_NOT_FOUND ''ERROR: File not found.''"

definition access_denied :: message where
  "access_denied = error_reply ERR_ACCESS_DENIED ''ERROR: Access denied.''"

definition with_file ::
  "nm_env \<Rightarrow> naming_server \<Rightarrow> int \<Rightarrow> string \<Rightarrow> (naming_server \<Rightarrow> nat \<Rightarrow> file_metadata \<Rightarrow> nm_result) \<Rightarrow> nm_result" where
  "with_file E S sock filename f =
     ebind (lookup_metadata E S filename) (\<lambda>(S1, found).
       case found of
         None \<Rightarrow> Inr ([(sock, file_not_found)], S1)
       | Some r \<Rightarrow> ebind (meta_at S1 r) (\<lambda>m. f S1 r m))"

text \<open>The server that a client is sent to: the primary, a living replica, or the primary after all.\<close>

definition route :: "naming_server \<Rightarrow> file_metadata \<Rightarrow> ss_info option" where
  "route S m =
     (let pick = replicas_pick_alive_for_access (nm_servers S) (nm_replicas S) (fm_filename m) (fm_ss_id m)
      in get_storage_server (nm_servers S) (if 0 \<le> pick then pick else fm_ss_id m))"

definition ss_address :: "ss_info \<Rightarrow> message" where
  "ss_address s = message_zero\<lparr>m_type := MSG_SS_INFO, m_data := si_ip s, m_arg1 := si_client_port s\<rparr>"

definition ss_unavailable :: message where
  "ss_unavailable = error_reply ERR_SS_UNAVAILABLE ''ERROR: Storage server unavailable.''"

definition touch :: "nm_env \<Rightarrow> client_info \<Rightarrow> file_metadata \<Rightarrow> file_metadata" where
  "touch E c m = m\<lparr>fm_last_accessed := env_now E, fm_last_accessed_by := ci_username c\<rparr>"

section \<open>VIEW\<close>

definition fetch_from_ss_id :: "nm_env \<Rightarrow> naming_server \<Rightarrow> int \<Rightarrow> string \<Rightarrow> string option" where
  "fetch_from_ss_id E S ss_id file =
     (case get_storage_server (nm_servers S) ss_id of
        None \<Rightarrow> None
      | Some s \<Rightarrow>
          (case env_fetch E (si_ip s) (si_client_port s)
                  (message_zero\<lparr>m_type := MSG_READ_REQUEST, m_filename := strncpy_buf MAX_FILENAME_LEN file\<rparr>) of
             None \<Rightarrow> None
           | Some rr \<Rightarrow> if m_type rr = MSG_ACK then Some (m_data rr) else None))"

definition pad_right :: "nat \<Rightarrow> string \<Rightarrow> string" where
  "pad_right n s = s @ replicate (n - length s) CHR '' ''"

definition pad_left :: "nat \<Rightarrow> string \<Rightarrow> string" where
  "pad_left n s = replicate (n - length s) CHR '' '' @ s"

definition view_line :: "nm_env \<Rightarrow> file_metadata \<Rightarrow> string" where
  "view_line E m =
     strncpy_buf 256 (''| '' @ pad_right 10 (fm_filename m) @ '' | '' @ pad_left 5 (show_int (fm_word_count m))
       @ '' | '' @ pad_left 5 (show_int (fm_char_count m)) @ '' | '' @ pad_left 16 (env_time E (fm_last_accessed m))
       @ '' | '' @ pad_right 5 (fm_owner m) @ '' |'' @ [nl])"

definition with_counts :: "nm_env \<Rightarrow> file_metadata \<Rightarrow> int \<Rightarrow> int \<Rightarrow> file_metadata" where
  "with_counts E m words chars =
     m\<lparr>fm_word_count := words, fm_char_count := chars, fm_size_bytes := word_of_int chars, fm_last_modified := env_now E\<rparr>"

text \<open>Counts of zero are fetched again from the storage server.\<close>

definition refresh_counts :: "nm_env \<Rightarrow> naming_server \<Rightarrow> nat \<Rightarrow> file_metadata \<Rightarrow> naming_server result" where
  "refresh_counts E S r m =
     (if fm_word_count m = 0 \<or> fm_char_count m = 0
      then (case fetch_from_ss_id E S (fm_ss_id m) (fm_filename m) of
              None \<Rightarrow> Inr S
            | Some content \<Rightarrow>
                ebind (save_metadata (put_meta S r (with_counts E m
                         (int (length (strtok {CHR '' '', CHR 0x09, nl} content))) (int (length content))))) (\<lambda>S1.
                ebind (cache_put (nm_cache S1) (fm_filename m) r (env_now E)) (\<lambda>c. Inr (S1\<lparr>nm_cache := c\<rparr>))))
      else Inr S)"

fun view_details :: "nm_env \<Rightarrow> naming_server \<Rightarrow> string list \<Rightarrow> string \<Rightarrow> (string \<times> naming_server) result" where
  "view_details E S [] details = Inr (details, S)"
| "view_details E S (f # fs) details =
     (case trie_search (nm_trie S) f of
        None \<Rightarrow> view_details E S fs details
      | Some r \<Rightarrow>
          ebind (meta_at S r) (\<lambda>m.
          ebind (refresh_counts E S r m) (\<lambda>S1.
          ebind (meta_at S1 r) (\<lambda>m1.
          ebind (strcat_buf MAX_CONTENT_LEN details (view_line E m1)) (\<lambda>d. view_details E S1 fs d)))))"

definition view_rule :: string where
  "view_rule = replicate 57 CHR ''-'' @ [nl]"

definition view_header :: string where
  "view_header = view_rule @ ''|  Filename  | Words | Chars | Last Access Time | Owner |'' @ [nl]
     @ ''|------------|-------|-------|------------------|-------|'' @ [nl]"

definition file_list_reply :: "string \<Rightarrow> message" where
  "file_list_reply txt = message_zero\<lparr>m_type := MSG_FILE_LIST, m_data := txt\<rparr>"

definition name_line :: "string \<Rightarrow> string" where
  "name_line f = ''--> '' @ f @ [nl]"

definition view_files_body :: "nm_env \<Rightarrow> naming_server \<Rightarrow> int \<Rightarrow> message \<Rightarrow> client_info \<Rightarrow> nm_result" where
  "view_files_body E S sock msg c =
       ebind (if m_arg1 msg \<noteq> 0 then Inr (trie_get_all_files (nm_trie S) 1000)
              else get_user_accessible_files (nm_heap S) (nm_trie S) (ci_username c) 1000) (\<lambda>names.
       if m_arg2 msg \<noteq> 0
       then ebind (view_details E S names view_header) (\<lambda>(d, S1).
            ebind (strcat_buf MAX_CONTENT_LEN d view_rule) (\<lambda>d'.
              Inr ([(sock, file_list_reply (strncpy_buf MAX_CONTENT_LEN d'))], S1)))
       else ebind (strcat_all MAX_CONTENT_LEN [] (map name_line names)) (\<lambda>d.
              Inr ([(sock, file_list_reply d)], S)))"

definition nm_handle_view_files :: "nm_env \<Rightarrow> naming_server \<Rightarrow> int \<Rightarrow> message \<Rightarrow> nm_result" where
  "nm_handle_view_files E S sock msg = with_client S sock (\<lambda>c. view_files_body E S sock msg c)"

section \<open>CREATE\<close>

definition add_metadata :: "nm_env \<Rightarrow> naming_server \<Rightarrow> string \<Rightarrow> file_metadata \<Rightarrow> naming_server result" where
  "add_metadata E S filename m =
     (let r = nm_fresh S in
      ebind (cache_put (nm_cache S) filename r (env_now E)) (\<lambda>c.
        Inr (S\<lparr>nm_heap := (nm_heap S)(r \<mapsto> m), nm_fresh := Suc r,
               nm_trie := trie_insert (nm_trie S) filename r, nm_cache := c\<rparr>)))"

text \<open>
  After the client has its answer, a second server is asked to create the file too.  The
  reply is read from a variable that only a receive writes.
\<close>

definition create_replica ::
  "nm_env \<Rightarrow> naming_server \<Rightarrow> int \<Rightarrow> message \<Rightarrow> nm_result" where
  "create_replica E S primary ss_msg =
     (let replica_id = replicas_pick_alternate (nm_servers S) primary in
      if replica_id < 0 then Inr ([], S)
      else (case get_storage_server (nm_servers S) replica_id of
              None \<Rightarrow> Inr ([], S)
            | Some rs \<Rightarrow>
                (case env_reply E (si_socket rs) ss_msg of
                   None \<Rightarrow> Inl Uninitialised
                 | Some rack \<Rightarrow>
                     Inr ([(si_socket rs, ss_msg)],
                          if m_type rack = MSG_ACK
                          then S\<lparr>nm_replicas := snd (replicas_set (nm_replicas S) (m_filename ss_msg) primary [replica_id])\<rparr>
                          else S))))"

text \<open>CREATE up to the answer to the client.\<close>

definition create_start :: "nm_env \<Rightarrow> naming_server \<Rightarrow> int \<Rightarrow> message \<Rightarrow> client_info \<Rightarrow> nm_piece_result" where
  "create_start E S sock msg c =
     (if trie_search (nm_trie S) (m_filename msg) \<noteq> None
      then Inr ([(sock, error_reply ERR_FILE_EXISTS ''ERROR: File already exists.'')], S, None)
      else (case select_storage_server_for_new_file (nm_servers S) (nm_last_selected S) of
              (None, l) \<Rightarrow> Inr ([(sock, error_reply ERR_SS_UNAVAILABLE ''No storage server available'')],
                                S\<lparr>nm_last_selected := l\<rparr>, None)
            | (Some s, l) \<Rightarrow>
                (let S1 = S\<lparr>nm_last_selected := l\<rparr>;
                     ss_msg = message_zero\<lparr>m_type := MSG_CREATE_FILE_SS, m_filename := m_filename msg,
                                           m_sender := ci_username c\<rparr>
                 in case env_reply E (si_socket s) ss_msg of
                      None \<Rightarrow> Inl Uninitialised
                    | Some resp \<Rightarrow>
                        if m_error resp = ERR_SUCCESS
                        then ebind (add_metadata E S1 (m_filename msg)
                               (create_file_metadata (m_filename msg) (ci_username c) (si_id s) (si_ip s) (si_client_port s) (env_now E))) (\<lambda>S2.
                             ebind (save_metadata S2) (\<lambda>S3.
                               Inr ([(si_socket s, ss_msg), (sock, ack_reply ''File Created Successfully!'')], S3,
                                    Some (Creating_Replica sock (si_id s) ss_msg))))
                        else Inr ([(si_socket s, ss_msg), (sock, error_reply (m_error resp) ''ERROR: Failed to create file.'')], S1, None))))"

section \<open>READ, STREAM, UNDO and WRITE\<close>

text \<open>\<open>handle_stream_lookup\<close> and \<open>handle_undo_lookup\<close> differ from \<open>handle_read_file\<close> in what they log only.\<close>

definition read_file_body :: "nm_env \<Rightarrow> naming_server \<Rightarrow> int \<Rightarrow> message \<Rightarrow> client_info \<Rightarrow> nm_result" where
  "read_file_body E S sock msg c =
     with_file E S sock (m_filename msg) (\<lambda>S1 r m.
       if check_file_access m (ci_username c) = ACCESS_NONE then Inr ([(sock, access_denied)], S1)
       else (case route S1 m of
               None \<Rightarrow> Inr ([(sock, ss_unavailable)], S1)
             | Some s \<Rightarrow> Inr ([(sock, ss_address s)], put_meta S1 r (touch E c m))))"

definition nm_handle_read_file :: "nm_env \<Rightarrow> naming_server \<Rightarrow> int \<Rightarrow> message \<Rightarrow> nm_result" where
  "nm_handle_read_file E S sock msg = with_client S sock (\<lambda>c. read_file_body E S sock msg c)"

definition stream_lookup_body :: "nm_env \<Rightarrow> naming_server \<Rightarrow> int \<Rightarrow> message \<Rightarrow> client_info \<Rightarrow> nm_result" where
  "stream_lookup_body E S sock msg c =
     with_file E S sock (m_filename msg) (\<lambda>S1 r m.
       if check_file_access m (ci_username c) = ACCESS_NONE then Inr ([(sock, access_denied)], S1)
       else (case route S1 m of
               None \<Rightarrow> Inr ([(sock, ss_unavailable)], S1)
             | Some s \<Rightarrow> Inr ([(sock, ss_address s)], put_meta S1 r (touch E c m))))"

definition nm_handle_stream_lookup :: "nm_env \<Rightarrow> naming_server \<Rightarrow> int \<Rightarrow> message \<Rightarrow> nm_result" where
  "nm_handle_stream_lookup E S sock msg = with_client S sock (\<lambda>c. stream_lookup_body E S sock msg c)"

definition undo_lookup_body :: "nm_env \<Rightarrow> naming_server \<Rightarrow> int \<Rightarrow> message \<Rightarrow> client_info \<Rightarrow> nm_result" where
  "undo_lookup_body E S sock msg c =
     with_file E S sock (m_filename msg) (\<lambda>S1 r m.
       if check_file_access m (ci_username c) = ACCESS_NONE then Inr ([(sock, access_denied)], S1)
       else (case route S1 m of
               None \<Rightarrow> Inr ([(sock, ss_unavailable)], S1)
             | Some s \<Rightarrow> Inr ([(sock, ss_address s)], put_meta S1 r (touch E c m))))"

definition nm_handle_undo_lookup :: "nm_env \<Rightarrow> naming_server \<Rightarrow> int \<Rightarrow> message \<Rightarrow> nm_result" where
  "nm_handle_undo_lookup E S sock msg = with_client S sock (\<lambda>c. undo_lookup_body E S sock msg c)"

definition write_file_body :: "nm_env \<Rightarrow> naming_server \<Rightarrow> int \<Rightarrow> message \<Rightarrow> client_info \<Rightarrow> nm_result" where
  "write_file_body E S sock msg c =
     with_file E S sock (m_filename msg) (\<lambda>S1 r m.
       if check_file_access m (ci_username c) \<noteq> ACCESS_WRITE then Inr ([(sock, access_denied)], S1)
       else (case route S1 m of
               None \<Rightarrow> Inr ([(sock, ss_unavailable)], S1)
             | Some s \<Rightarrow> Inr ([(sock, ss_address s)], S1)))"

definition nm_handle_write_file :: "nm_env \<Rightarrow> naming_server \<Rightarrow> int \<Rightarrow> message \<Rightarrow> nm_result" where
  "nm_handle_write_file E S sock msg = with_client S sock (\<lambda>c. write_file_body E S sock msg c)"

section \<open>DELETE and INFO\<close>

text \<open>The pointer to the storage server is not tested, and the reply may not have arrived.\<close>

definition drop_metadata :: "naming_server \<Rightarrow> string \<Rightarrow> naming_server result" where
  "drop_metadata S filename =
     ebind (cache_remove (nm_cache S) filename) (\<lambda>c.
       Inr (S\<lparr>nm_heap := (case trie_search (nm_trie S) filename of
                            None \<Rightarrow> nm_heap S | Some r \<Rightarrow> (nm_heap S)(r := None)),
              nm_trie := fst (trie_delete (nm_trie S) filename), nm_cache := c\<rparr>))"

definition delete_file_body :: "nm_env \<Rightarrow> naming_server \<Rightarrow> int \<Rightarrow> message \<Rightarrow> client_info \<Rightarrow> nm_result" where
  "delete_file_body E S sock msg c =
     with_file E S sock (m_filename msg) (\<lambda>S1 r m.
       if fm_owner m \<noteq> ci_username c
       then Inr ([(sock, error_reply ERR_NOT_OWNER ''ERROR: Only owner can delete file.'')], S1)
       else (case get_storage_server (nm_servers S1) (fm_ss_id m) of
               None \<Rightarrow> Inl NullDeref
             | Some s \<Rightarrow>
                 (let ss_msg = message_zero\<lparr>m_type := MSG_DELETE_FILE_SS, m_filename := m_filename msg\<rparr> in
                  case env_reply E (si_socket s) ss_msg of
                    None \<Rightarrow> Inl Uninitialised
                  | Some resp \<Rightarrow>
                      if m_error resp = ERR_SUCCESS
                      then ebind (drop_metadata S1 (m_filename msg)) (\<lambda>S2.
                           ebind (save_metadata S2) (\<lambda>S3.
                             Inr ([(si_socket s, ss_msg),
                                   (sock, ack_reply (''File '' @ CHR 0x27 # m_filename msg @ CHR 0x27 # '' deleted successfully!''))], S3)))
                      else Inr ([(si_socket s, ss_msg), (sock, error_reply ERR_SUCCESS ''ERROR: Failed to delete file.'')], S1))))"

definition nm_handle_delete_file :: "nm_env \<Rightarrow> naming_server \<Rightarrow> int \<Rightarrow> message \<Rightarrow> nm_result" where
  "nm_handle_delete_file E S sock msg = with_client S sock (\<lambda>c. delete_file_body E S sock msg c)"

text \<open>The size is printed as an unsigned number.\<close>

definition info_lines :: "nm_env \<Rightarrow> file_metadata \<Rightarrow> string list" where
  "info_lines E m =
     [''--> File: '' @ fm_filename m @ [nl],
      ''--> Owner: '' @ fm_owner m @ [nl],
      ''--> Created: '' @ env_time E (fm_created_at m) @ [nl],
      ''--> Last Modified: '' @ env_time E (fm_last_modified m) @ [nl],
      ''--> Size: '' @ show_nat (unat (fm_size_bytes m)) @ '' bytes'' @ [nl],
      ''--> Access: '']
     @ map (\<lambda>i. fst (fm_access_list m ! i) @ (if snd (fm_access_list m ! i) = ACCESS_WRITE then '' (RW)'' else '' (R)'')
              @ (if int i < int (length (fm_access_list m)) - 1 then '', '' else [])) [0..<length (fm_access_list m)]
     @ [[nl], ''--> Last Accessed: '' @ env_time E (fm_last_accessed m) @ '' by '' @ fm_last_accessed_by m @ [nl]]"

definition info_file_body :: "nm_env \<Rightarrow> naming_server \<Rightarrow> int \<Rightarrow> message \<Rightarrow> client_info \<Rightarrow> nm_result" where
  "info_file_body E S sock msg c =
     with_file E S sock (m_filename msg) (\<lambda>S1 r m.
       ebind (strcat_all MAX_CONTENT_LEN [] (info_lines E m)) (\<lambda>info.
         Inr ([(sock, message_zero\<lparr>m_type := MSG_FILE_INFO, m_data := info\<rparr>)], S1)))"

definition nm_handle_info_file :: "nm_env \<Rightarrow> naming_server \<Rightarrow> int \<Rightarrow> message \<Rightarrow> nm_result" where
  "nm_handle_info_file E S sock msg = with_client S sock (\<lambda>c. info_file_body E S sock msg c)"

definition nm_handle_list_users :: "naming_server \<Rightarrow> int \<Rightarrow> nm_result" where
  "nm_handle_list_users S sock =
     ebind (strcat_all MAX_CONTENT_LEN [] (map name_line (get_all_usernames (nm_users S) (nm_clients S) MAX_CLIENTS))) (\<lambda>d.
       Inr ([(sock, message_zero\<lparr>m_type := MSG_USER_LIST, m_data := d\<rparr>)], S))"

section \<open>EXEC\<close>

text \<open>
  The permission is tested with the mutex held; then the mutex is released and the handler
  goes on with the pointer it has.  The second step reads through it in the state of that
  time.
\<close>

text \<open>The two functions that read a file from its server; only the one for EXEC has a caller.\<close>

definition fetch_file_content_from_ss :: "nm_env \<Rightarrow> file_metadata \<Rightarrow> nat \<Rightarrow> string option" where
  "fetch_file_content_from_ss E m out_sz =
     (case env_fetch E (fm_ss_ip m) (fm_ss_client_port m)
             (message_zero\<lparr>m_type := MSG_READ_REQUEST, m_sender := ''nm'', m_filename := fm_filename m\<rparr>) of
        None \<Rightarrow> None
      | Some resp \<Rightarrow> if m_type resp = MSG_ACK then Some (strncpy_buf out_sz (m_data resp)) else None)"

definition fetch_file_content_for_exec :: "nm_env \<Rightarrow> file_metadata \<Rightarrow> string option" where
  "fetch_file_content_for_exec E m =
     (case env_fetch E (fm_ss_ip m) (fm_ss_client_port m)
             (message_zero\<lparr>m_type := MSG_EXEC_READ_REQUEST, m_sender := ''nm'', m_filename := fm_filename m\<rparr>) of
        None \<Rightarrow> None
      | Some resp \<Rightarrow> if m_type resp = MSG_ACK then Some (strncpy_buf MAX_CONTENT_LEN (m_data resp)) else None)"

definition exec_check ::
  "nm_env \<Rightarrow> naming_server \<Rightarrow> int \<Rightarrow> message \<Rightarrow> client_info \<Rightarrow> (nm_output \<times> naming_server \<times> nat option) result" where
  "exec_check E S sock msg c =
     ebind (lookup_metadata E S (m_filename msg)) (\<lambda>(S1, found).
       case found of
         None \<Rightarrow> Inr ([(sock, file_not_found)], S1, None)
       | Some r \<Rightarrow>
           ebind (meta_at S1 r) (\<lambda>m.
             if check_file_access m (ci_username c) = ACCESS_NONE
             then Inr ([(sock, access_denied)], S1, None) else Inr ([], S1, Some r)))"

definition exec_start :: "nm_env \<Rightarrow> naming_server \<Rightarrow> int \<Rightarrow> message \<Rightarrow> client_info \<Rightarrow> nm_piece_result" where
  "exec_start E S sock msg c =
     ebind (exec_check E S sock msg c) (\<lambda>(out, S1, go). Inr (out, S1, map_option (Executing sock) go))"

text \<open>The lookup of the client and the first step, without a break between them.\<close>

definition exec_lookup ::
  "nm_env \<Rightarrow> naming_server \<Rightarrow> int \<Rightarrow> message \<Rightarrow> (nm_output \<times> naming_server \<times> nat option) result" where
  "exec_lookup E S sock msg =
     (case get_client_by_socket (nm_clients S) sock of
        None \<Rightarrow> Inr ([], S, None)
      | Some c \<Rightarrow> exec_check E S sock msg c)"

definition exec_run :: "nm_env \<Rightarrow> naming_server \<Rightarrow> int \<Rightarrow> nat \<Rightarrow> nm_result" where
  "exec_run E S sock r =
     ebind (meta_at S r) (\<lambda>m.
       case fetch_file_content_for_exec E m of
         None \<Rightarrow> Inr ([(sock, error_reply ERR_UNKNOWN ''ERROR: Failed to fetch file for execution.'')], S)
       | Some filebuf \<Rightarrow>
           (case env_exec E filebuf of
              None \<Rightarrow> Inr ([(sock, error_reply ERR_UNKNOWN ''ERROR: Failed to execute file.'')], S)
            | Some output \<Rightarrow>
                Inr (map (\<lambda>l. (sock, message_zero\<lparr>m_type := MSG_EXEC_OUTPUT, m_data := l\<rparr>)) (fgets_lines 512 output)
                     @ [(sock, message_zero\<lparr>m_type := MSG_EXEC_DONE, m_data := ''END_OF_EXEC''\<rparr>)], S)))"

section \<open>Access lists\<close>

definition not_owner :: "string \<Rightarrow> message" where
  "not_owner txt = error_reply ERR_NOT_OWNER txt"

definition add_access_body :: "nm_env \<Rightarrow> naming_server \<Rightarrow> int \<Rightarrow> message \<Rightarrow> client_info \<Rightarrow> nm_result" where
  "add_access_body E S sock msg c =
     with_file E S sock (m_filename msg) (\<lambda>S1 r m.
       if fm_owner m \<noteq> ci_username c then Inr ([(sock, not_owner ''ERROR: Access denied.'')], S1)
       else (let access = (if m_arg1 msg = 1 then ACCESS_READ else ACCESS_WRITE) in
             ebind (save_metadata (put_meta S1 r (fst (add_file_access m (m_data msg) access)))) (\<lambda>S2.
               Inr ([(sock, ack_reply ''Access granted successfully!'')], S2))))"

definition nm_handle_add_access :: "nm_env \<Rightarrow> naming_server \<Rightarrow> int \<Rightarrow> message \<Rightarrow> nm_result" where
  "nm_handle_add_access E S sock msg = with_client S sock (\<lambda>c. add_access_body E S sock msg c)"

definition remove_access_body :: "nm_env \<Rightarrow> naming_server \<Rightarrow> int \<Rightarrow> message \<Rightarrow> client_info \<Rightarrow> nm_result" where
  "remove_access_body E S sock msg c =
     with_file E S sock (m_filename msg) (\<lambda>S1 r m.
       if fm_owner m \<noteq> ci_username c then Inr ([(sock, not_owner ''ERROR: Access denied.'')], S1)
       else ebind (save_metadata (put_meta S1 r (fst (remove_file_access m (m_data msg))))) (\<lambda>S2.
               Inr ([(sock, ack_reply ''Access removed successfully!'')], S2)))"

definition nm_handle_remove_access :: "nm_env \<Rightarrow> naming_server \<Rightarrow> int \<Rightarrow> message \<Rightarrow> nm_result" where
  "nm_handle_remove_access E S sock msg = with_client S sock (\<lambda>c. remove_access_body E S sock msg c)"

section \<open>Folders\<close>

definition folder_broadcast :: "naming_server \<Rightarrow> message \<Rightarrow> nm_output" where
  "folder_broadcast S fmsg = map (\<lambda>s. (si_socket s, fmsg)) (filter (\<lambda>s. 0 < si_socket s) (nm_servers S))"

definition invalid_folder_name :: message where
  "invalid_folder_name = error_reply ERR_SUCCESS ''ERROR: Invalid folder name.''"

definition create_folder_body :: "naming_server \<Rightarrow> int \<Rightarrow> message \<Rightarrow> client_info \<Rightarrow> nm_result" where
  "create_folder_body S sock msg c =
      (if m_data msg = [] then Inr ([(sock, invalid_folder_name)], S)
       else ebind (create_folder (nm_folders_mutex S) (nm_folders S) (m_data msg)) (\<lambda>(rc, held, fs).
              let S1 = S\<lparr>nm_folders_mutex := held, nm_folders := fs\<rparr> in
              if rc = 0
              then Inr (folder_broadcast S (message_zero\<lparr>m_type := MSG_CREATE_FOLDER_SS,
                                              m_data := strncpy_buf MAX_CONTENT_LEN (m_data msg)\<rparr>)
                          @ [(sock, ack_reply ''Folder created successfully!'')],
                        S1\<lparr>nm_folders_dat := folders_save_to_disk fs\<rparr>)
              else Inr ([(sock, error_reply ERR_SUCCESS ''ERROR: Failed to create folder.'')], S1)))"

definition nm_handle_create_folder :: "naming_server \<Rightarrow> int \<Rightarrow> message \<Rightarrow> nm_result" where
  "nm_handle_create_folder S sock msg = with_client S sock (\<lambda>c. create_folder_body S sock msg c)"

text \<open>The servers that get the move: the primary, then the replicas; only those with a connection.\<close>

definition move_targets :: "naming_server \<Rightarrow> string \<Rightarrow> file_metadata \<Rightarrow> ss_info list" where
  "move_targets S filename m =
     filter (\<lambda>s. 0 < si_socket s)
       (concat (map (\<lambda>i. case get_storage_server (nm_servers S) i of None \<Rightarrow> [] | Some s \<Rightarrow> [s])
                 (fm_ss_id m # replicas_get (nm_replicas S) filename MAX_STORAGE_SERVERS)))"

text \<open>The first piece of a handler that looks the file up and then releases the mutex.\<close>

definition look_up_file ::
  "nm_env \<Rightarrow> naming_server \<Rightarrow> int \<Rightarrow> string \<Rightarrow> (naming_server \<Rightarrow> file_metadata \<Rightarrow> nm_piece_result) \<Rightarrow> nm_piece_result" where
  "look_up_file E S sock f k =
     ebind (lookup_metadata E S f) (\<lambda>(S1, found).
       case found of
         None \<Rightarrow> Inr ([(sock, file_not_found)], S1, None)
       | Some r \<Rightarrow> ebind (meta_at S1 r) (\<lambda>m. k S1 m))"

text \<open>MOVE: the file is looked up; the folders change; the servers are told.\<close>

definition move_start :: "nm_env \<Rightarrow> naming_server \<Rightarrow> int \<Rightarrow> message \<Rightarrow> nm_piece_result" where
  "move_start E S sock msg = look_up_file E S sock (m_filename msg) (\<lambda>S1 m. Inr ([], S1, Some (Moving sock msg)))"

definition move_folders :: "naming_server \<Rightarrow> int \<Rightarrow> message \<Rightarrow> nm_piece_result" where
  "move_folders S sock msg =
     (if m_data msg = [] then Inr ([(sock, invalid_folder_name)], S, None)
      else ebind (move_file_to_folder (nm_folders_mutex S) (nm_folders S) (m_filename msg) (m_data msg)) (\<lambda>(rc, held, fs).
             let S1 = S\<lparr>nm_folders_mutex := held, nm_folders := fs\<rparr> in
             if rc \<noteq> 0 then Inr ([(sock, error_reply ERR_SUCCESS ''ERROR: Failed to move file.'')], S1, None)
             else Inr ([], S1\<lparr>nm_folders_dat := folders_save_to_disk fs\<rparr>,
                       Some (Announcing_Move sock msg (trie_search (nm_trie S) (m_filename msg))))))"

definition announce_move :: "naming_server \<Rightarrow> int \<Rightarrow> message \<Rightarrow> nat option \<Rightarrow> nm_piece_result" where
  "announce_move S sock msg meta2 =
     (let mv = message_zero\<lparr>m_type := MSG_MOVE_FILE_SS, m_filename := strncpy_buf MAX_FILENAME_LEN (m_filename msg),
                            m_data := strncpy_buf MAX_CONTENT_LEN (m_data msg)\<rparr>
      in ebind (case meta2 of
                  None \<Rightarrow> Inr []
                | Some r \<Rightarrow> ebind (meta_at S r) (\<lambda>m. Inr (move_targets S (m_filename msg) m))) (\<lambda>targets.
           Inr (map (\<lambda>s. (si_socket s, mv)) targets @ [(sock, ack_reply ''File moved successfully!'')], S, None)))"

definition view_folder_body :: "naming_server \<Rightarrow> int \<Rightarrow> message \<Rightarrow> client_info \<Rightarrow> nm_result" where
  "view_folder_body S sock msg c =
      (if m_data msg = [] then Inr ([(sock, invalid_folder_name)], S)
       else ebind (strcat_all MAX_CONTENT_LEN [] (map name_line (list_folder_files (nm_folders S) (m_data msg) 1000))) (\<lambda>d.
              Inr ([(sock, file_list_reply d)], S)))"

definition nm_handle_view_folder :: "naming_server \<Rightarrow> int \<Rightarrow> message \<Rightarrow> nm_result" where
  "nm_handle_view_folder S sock msg = with_client S sock (\<lambda>c. view_folder_body S sock msg c)"

section \<open>Checkpoints\<close>

text \<open>The address comes from the metadata, not from the registry of servers.\<close>

definition checkpoint_body :: "nm_env \<Rightarrow> naming_server \<Rightarrow> int \<Rightarrow> message \<Rightarrow> client_info \<Rightarrow> nm_result" where
  "checkpoint_body E S sock msg c =
     with_file E S sock (m_filename msg) (\<lambda>S1 r m.
       let access = check_file_access m (ci_username c);
           need_write = (m_type msg = MSG_CP_REVERT)
       in if need_write \<and> access \<noteq> ACCESS_WRITE \<or> \<not> need_write \<and> access = ACCESS_NONE
          then Inr ([(sock, access_denied)], S1)
          else Inr ([(sock, message_zero\<lparr>m_type := MSG_SS_INFO, m_data := fm_ss_ip m, m_arg1 := fm_ss_client_port m\<rparr>)], S1))"

definition nm_handle_checkpoint_request :: "nm_env \<Rightarrow> naming_server \<Rightarrow> int \<Rightarrow> message \<Rightarrow> nm_result" where
  "nm_handle_checkpoint_request E S sock msg = with_client S sock (\<lambda>c. checkpoint_body E S sock msg c)"

end
