(* ===== verification/Naming_Threads.thy ===== *)
theory Naming_Threads
  imports Naming_Server
begin

text \<open>
  The threads of \<^verbatim>\<open>naming_server/naming_server.c\<close>: the dispatcher of a client connection with
  the requests it handles in place, the connection of a storage server (registration,
  seeding, recovery, updates of the counts, replication), the heartbeat, and the start of
  the process.
\<close>

section \<open>Access requests\<close>

definition requested_access :: "message \<Rightarrow> access_type" where
  "requested_access msg = (if m_arg1 msg = 2 then ACCESS_WRITE else ACCESS_READ)"

text \<open>The file is looked up with the mutex; the request is queued without it.\<close>

definition request_start :: "nm_env \<Rightarrow> naming_server \<Rightarrow> int \<Rightarrow> message \<Rightarrow> nm_piece_result" where
  "request_start E S sock msg =
     look_up_file E S sock (m_filename msg) (\<lambda>S1 m.
       if fm_owner m = m_sender msg
       then Inr ([(sock, error_reply ERR_INVALID_COMMAND ''ERROR: Owner already has access.'')], S1, None)
       else if requested_access msg \<le> check_file_access m (m_sender msg)
       then Inr ([(sock, error_reply ERR_INVALID_COMMAND ''ERROR: Already has access.'')], S1, None)
       else Inr ([], S1, Some (Queueing sock msg)))"

definition queue_request :: "nm_env \<Rightarrow> naming_server \<Rightarrow> int \<Rightarrow> message \<Rightarrow> nm_piece_result" where
  "queue_request E S sock msg =
     (case access_requests_append (nm_requests S) (nm_requests_dat S) (m_filename msg) (m_sender msg)
             (requested_access msg) (env_now E) of
        (rc, reqs, dat) \<Rightarrow>
          Inr ([(sock, if rc = - 2 then error_reply ERR_REQUEST_ALREADY_EXISTS ''ERROR: Request already pending.''
                       else if rc < 0 then error_reply ERR_UNKNOWN ''ERROR: Failed to queue request.''
                       else ack_reply ''Access request queued.'')],
               S\<lparr>nm_requests := reqs, nm_requests_dat := dat\<rparr>, None))"

definition nm_view_requests :: "nm_env \<Rightarrow> naming_server \<Rightarrow> int \<Rightarrow> message \<Rightarrow> nm_result" where
  "nm_view_requests E S sock msg =
     ebind (access_requests_list_for_owner (env_time E) (nm_heap S) (nm_trie S) (nm_requests S) (m_sender msg) MAX_CONTENT_LEN)
       (\<lambda>(n, buf). Inr ([(sock, ack_reply (strncpy_buf MAX_CONTENT_LEN
                                  (if n = 0 then ''No pending requests.'' @ [nl] else buf)))], S))"

text \<open>An answer to a request: the owner is tested, the request is taken, the access is given.\<close>

definition resolve_start ::
  "nm_env \<Rightarrow> naming_server \<Rightarrow> int \<Rightarrow> message \<Rightarrow> bool \<Rightarrow> access_type \<Rightarrow> string \<Rightarrow> nm_piece_result" where
  "resolve_start E S sock msg approve acc tx =
     look_up_file E S sock (m_filename msg) (\<lambda>S1 m.
       if fm_owner m \<noteq> m_sender msg then Inr ([(sock, not_owner ''ERROR: Not owner.'')], S1, None)
       else Inr ([], S1, Some (Resolving sock msg approve acc tx)))"

text \<open>
  The two halves of \<open>access_requests_resolve\<close>: the request is taken from the table with the mutex
  of the requests, the access is given with \<open>trie_mutex\<close>.
\<close>

definition resolve_take :: "naming_server \<Rightarrow> string \<Rightarrow> string \<Rightarrow> int \<times> naming_server" where
  "resolve_take S filename requester =
     (case take_request (nm_requests S) (nm_requests_dat S) filename requester of
        (rc, reqs, dat) \<Rightarrow> (rc, S\<lparr>nm_requests := reqs, nm_requests_dat := dat\<rparr>))"

definition resolve_grant :: "naming_server \<Rightarrow> string \<Rightarrow> string \<Rightarrow> access_type \<Rightarrow> naming_server result" where
  "resolve_grant S filename requester grant_access =
     (case trie_search (nm_trie S) filename of
        None \<Rightarrow> Inr S
      | Some r \<Rightarrow>
          ebind (meta_at S r) (\<lambda>m. save_metadata (put_meta S r (fst (add_file_access m requester grant_access)))))"

definition resolve_taken ::
  "naming_server \<Rightarrow> int \<Rightarrow> message \<Rightarrow> bool \<Rightarrow> access_type \<Rightarrow> string \<Rightarrow> nm_piece_result" where
  "resolve_taken S sock msg approve acc tx =
     (case resolve_take S (m_filename msg) (m_data msg) of
        (rc, S1) \<Rightarrow>
          if rc \<noteq> 0 then Inr ([(sock, error_reply ERR_REQUEST_NOT_FOUND ''ERROR: Request not found.'')], S1, None)
          else if approve then Inr ([], S1, Some (Granting sock msg acc tx))
          else Inr ([(sock, ack_reply tx)], S1, None))"

definition grant_taken :: "naming_server \<Rightarrow> int \<Rightarrow> message \<Rightarrow> access_type \<Rightarrow> string \<Rightarrow> nm_piece_result" where
  "grant_taken S sock msg acc tx =
     ebind (resolve_grant S (m_filename msg) (m_data msg) acc) (\<lambda>S1. Inr ([(sock, ack_reply tx)], S1, None))"

section \<open>The connection of a client\<close>

text \<open>The answer is the same whether the table of clients had room or not.\<close>

definition nm_register :: "nm_env \<Rightarrow> naming_server \<Rightarrow> int \<Rightarrow> string \<Rightarrow> int \<Rightarrow> message \<Rightarrow> nm_result" where
  "nm_register E S sock client_ip client_port msg =
     (let info = \<lparr>ci_socket = sock, ci_username = m_sender msg,
                  ci_ip = strncpy_buf MAX_IP_LEN (if m_data msg \<noteq> [] then m_data msg else client_ip),
                  ci_nm_port = m_arg1 msg, ci_ss_port = m_arg2 msg, ci_conn_port = client_port,
                  ci_connected_at = env_now E\<rparr>
      in case register_client (nm_clients S) (nm_users S) (nm_users_dat S) info of
           (n, cs, us, dat) \<Rightarrow>
             Inr ([(sock, ack_reply ''Registration successful'')],
                  S\<lparr>nm_clients := cs, nm_stale := drop (length cs - length (nm_clients S)) (nm_stale S),
                    nm_users := us, nm_users_dat := dat\<rparr>))"

text \<open>
  The switch over the type of a message.  A handler that begins with \<open>get_client_by_socket\<close> is
  given by its body, or the first piece of it; the other requests are handled in place.
\<close>

type_synonym client_body = "nm_env \<Rightarrow> naming_server \<Rightarrow> int \<Rightarrow> message \<Rightarrow> client_info \<Rightarrow> nm_piece_result"

definition client_handler :: "message_type \<Rightarrow> client_body option" where
  "client_handler t =
     (case t of
        MSG_CP_CREATE \<Rightarrow> Some (\<lambda>E S sock msg c. no_task (checkpoint_body E S sock msg c))
      | MSG_CP_VIEW \<Rightarrow> Some (\<lambda>E S sock msg c. no_task (checkpoint_body E S sock msg c))
      | MSG_CP_REVERT \<Rightarrow> Some (\<lambda>E S sock msg c. no_task (checkpoint_body E S sock msg c))
      | MSG_CP_LIST \<Rightarrow> Some (\<lambda>E S sock msg c. no_task (checkpoint_body E S sock msg c))
      | MSG_VIEW_FILES \<Rightarrow> Some (\<lambda>E S sock msg c. no_task (view_files_body E S sock msg c))
      | MSG_CREATE_FILE \<Rightarrow> Some create_start
      | MSG_READ_FILE \<Rightarrow> Some (\<lambda>E S sock msg c. no_task (read_file_body E S sock msg c))
      | MSG_WRITE_FILE \<Rightarrow> Some (\<lambda>E S sock msg c. no_task (write_file_body E S sock msg c))
      | MSG_DELETE_FILE \<Rightarrow> Some (\<lambda>E S sock msg c. no_task (delete_file_body E S sock msg c))
      | MSG_INFO_FILE \<Rightarrow> Some (\<lambda>E S sock msg c. no_task (info_file_body E S sock msg c))
      | MSG_ADDACCESS \<Rightarrow> Some (\<lambda>E S sock msg c. no_task (add_access_body E S sock msg c))
      | MSG_REMACCESS \<Rightarrow> Some (\<lambda>E S sock msg c. no_task (remove_access_body E S sock msg c))
      | MSG_EXEC_FILE \<Rightarrow> Some exec_start
      | MSG_CREATE_FOLDER \<Rightarrow> Some (\<lambda>E S sock msg c. no_task (create_folder_body S sock msg c))
      | MSG_MOVE_FILE \<Rightarrow> Some (\<lambda>E S sock msg c. move_start E S sock msg)
      | MSG_VIEW_FOLDER \<Rightarrow> Some (\<lambda>E S sock msg c. no_task (view_folder_body S sock msg c))
      | MSG_STREAM_FILE \<Rightarrow> Some (\<lambda>E S sock msg c. no_task (stream_lookup_body E S sock msg c))
      | MSG_UNDO_FILE \<Rightarrow> Some (\<lambda>E S sock msg c. no_task (undo_lookup_body E S sock msg c))
      | _ \<Rightarrow> None)"

definition direct_body :: "nm_env \<Rightarrow> naming_server \<Rightarrow> int \<Rightarrow> string \<Rightarrow> int \<Rightarrow> message \<Rightarrow> nm_piece_result" where
  "direct_body E S sock client_ip client_port msg =
     (case m_type msg of
        MSG_CLIENT_REGISTER \<Rightarrow> no_task (nm_register E S sock client_ip client_port msg)
      | MSG_LIST_USERS \<Rightarrow> no_task (nm_handle_list_users S sock)
      | MSG_REQUEST_ACCESS \<Rightarrow> request_start E S sock msg
      | MSG_VIEW_REQUESTS \<Rightarrow> no_task (nm_view_requests E S sock msg)
      | MSG_APPROVE_REQUEST \<Rightarrow> resolve_start E S sock msg True (requested_access msg) ''Request approved.''
      | MSG_DENY_REQUEST \<Rightarrow> resolve_start E S sock msg False ACCESS_READ ''Request denied.''
      | _ \<Rightarrow> Inr ([], S, None))"

text \<open>
  A message arrives.  A handler of the first kind has done no more than to look the client up when
  the next break comes.
\<close>

definition begin_message :: "nm_env \<Rightarrow> naming_server \<Rightarrow> int \<Rightarrow> string \<Rightarrow> int \<Rightarrow> message \<Rightarrow> nm_piece_result" where
  "begin_message E S sock client_ip client_port msg =
     (case client_handler (m_type msg) of
        Some h \<Rightarrow> Inr ([], S, map_option (Handling sock msg) (client_index S sock))
      | None \<Rightarrow> direct_body E S sock client_ip client_port msg)"

section \<open>Replication\<close>

text \<open>\<open>replicate_thread\<close>: the content of the serving copy goes to the other living replicas.\<close>

definition replicate_from :: "nm_env \<Rightarrow> naming_server \<Rightarrow> file_metadata \<Rightarrow> nm_output" where
  "replicate_from E S m =
     (let src_id = replicas_pick_alive_for_access (nm_servers S) (nm_replicas S) (fm_filename m) (fm_ss_id m) in
      case fetch_from_ss_id E S (if 0 \<le> src_id then src_id else fm_ss_id m) (fm_filename m) of
        None \<Rightarrow> []
      | Some content \<Rightarrow>
          concat (map (\<lambda>rid.
            if rid = src_id then []
            else (case get_storage_server (nm_servers S) rid of
                    None \<Rightarrow> []
                  | Some rs \<Rightarrow>
                      if si_alive rs
                      then [(si_socket rs, message_zero\<lparr>m_type := MSG_WRITE_FILE_SS, m_filename := strncpy_buf MAX_FILENAME_LEN (fm_filename m),
                                             m_data := take (MAX_CONTENT_LEN - 1) content\<rparr>)]
                      else []))
            (replicas_get (nm_replicas S) (fm_filename m) MAX_STORAGE_SERVERS)))"

definition replicate_thread :: "nm_env \<Rightarrow> naming_server \<Rightarrow> string \<Rightarrow> nm_output result" where
  "replicate_thread E S fname =
     (case trie_search (nm_trie S) fname of
        None \<Rightarrow> Inr []
      | Some r \<Rightarrow> ebind (meta_at S r) (\<lambda>m. Inr (replicate_from E S m)))"

section \<open>Tasks\<close>

text \<open>
  A thread goes on.  The update of a file is acknowledged while its copies are still to be sent
  by the thread that is started then: \<open>Replicating\<close> and \<open>Copying\<close> are the two halves of it.
\<close>

fun continue_task :: "nm_env \<Rightarrow> naming_server \<Rightarrow> nm_task \<Rightarrow> nm_piece_result" where
  "continue_task E S (Handling sock msg i) =
     (case client_handler (m_type msg) of
        None \<Rightarrow> Inr ([], S, None)
      | Some h \<Rightarrow> h E S sock msg (client_slot S i))"
| "continue_task E S (Creating_Replica sock primary ss_msg) = no_task (create_replica E S primary ss_msg)"
| "continue_task E S (Executing sock r) = no_task (exec_run E S sock r)"
| "continue_task E S (Moving sock msg) = move_folders S sock msg"
| "continue_task E S (Announcing_Move sock msg meta2) = announce_move S sock msg meta2"
| "continue_task E S (Queueing sock msg) = queue_request E S sock msg"
| "continue_task E S (Resolving sock msg approve acc tx) = resolve_taken S sock msg approve acc tx"
| "continue_task E S (Granting sock msg acc tx) = grant_taken S sock msg acc tx"
| "continue_task E S (Replicating f) = Inr ([], S, map_option Copying (trie_search (nm_trie S) f))"
| "continue_task E S (Copying r) = ebind (meta_at S r) (\<lambda>m. Inr (replicate_from E S m, S, None))"

text \<open>A handler without a break: its pieces one after the other; no task has more than one successor.\<close>

definition finish_task :: "nm_env \<Rightarrow> naming_server \<Rightarrow> nm_task option \<Rightarrow> nm_result" where
  "finish_task E S t =
     (case t of
        None \<Rightarrow> Inr ([], S)
      | Some t \<Rightarrow>
          ebind (continue_task E S t) (\<lambda>(out, S1, t1).
            case t1 of
              None \<Rightarrow> Inr (out, S1)
            | Some t1 \<Rightarrow> ebind (continue_task E S1 t1) (\<lambda>(out1, S2, _). Inr (out @ out1, S2))))"

definition unbroken :: "nm_env \<Rightarrow> nm_piece_result \<Rightarrow> nm_result" where
  "unbroken E p = ebind p (\<lambda>(out, S1, t). ebind (finish_task E S1 t) (\<lambda>(out1, S2). Inr (out @ out1, S2)))"

definition nm_handle_create_file :: "nm_env \<Rightarrow> naming_server \<Rightarrow> int \<Rightarrow> message \<Rightarrow> nm_result" where
  "nm_handle_create_file E S sock msg = with_client S sock (\<lambda>c. unbroken E (create_start E S sock msg c))"

definition nm_handle_exec_file :: "nm_env \<Rightarrow> naming_server \<Rightarrow> int \<Rightarrow> message \<Rightarrow> nm_result" where
  "nm_handle_exec_file E S sock msg = with_client S sock (\<lambda>c. unbroken E (exec_start E S sock msg c))"

definition nm_handle_move_file :: "nm_env \<Rightarrow> naming_server \<Rightarrow> int \<Rightarrow> message \<Rightarrow> nm_result" where
  "nm_handle_move_file E S sock msg = with_client S sock (\<lambda>c. unbroken E (move_start E S sock msg))"

definition nm_request_access :: "nm_env \<Rightarrow> naming_server \<Rightarrow> int \<Rightarrow> message \<Rightarrow> nm_result" where
  "nm_request_access E S sock msg = unbroken E (request_start E S sock msg)"

definition nm_approve_request :: "nm_env \<Rightarrow> naming_server \<Rightarrow> int \<Rightarrow> message \<Rightarrow> nm_result" where
  "nm_approve_request E S sock msg =
     unbroken E (resolve_start E S sock msg True (requested_access msg) ''Request approved.'')"

definition nm_deny_request :: "nm_env \<Rightarrow> naming_server \<Rightarrow> int \<Rightarrow> message \<Rightarrow> nm_result" where
  "nm_deny_request E S sock msg = unbroken E (resolve_start E S sock msg False ACCESS_READ ''Request denied.'')"

definition handle_client_message :: "nm_env \<Rightarrow> naming_server \<Rightarrow> int \<Rightarrow> string \<Rightarrow> int \<Rightarrow> message \<Rightarrow> nm_result" where
  "handle_client_message E S sock client_ip client_port msg =
     (case client_handler (m_type msg) of
        Some h \<Rightarrow> with_client S sock (\<lambda>c. unbroken E (h E S sock msg c))
      | None \<Rightarrow> unbroken E (direct_body E S sock client_ip client_port msg))"

text \<open>The messages of one connection, each with the environment of its time; then the client is removed.\<close>

fun handle_client_thread ::
  "naming_server \<Rightarrow> int \<Rightarrow> string \<Rightarrow> int \<Rightarrow> (nm_env \<times> message) list \<Rightarrow> nm_result" where
  "handle_client_thread S sock client_ip client_port [] =
     Inr ([], leave_client S sock)"
| "handle_client_thread S sock client_ip client_port ((E, msg) # msgs) =
     ebind (handle_client_message E S sock client_ip client_port msg) (\<lambda>(out, S1).
     ebind (handle_client_thread S1 sock client_ip client_port msgs) (\<lambda>(out', S2). Inr (out @ out', S2)))"

section \<open>The connection of a storage server\<close>

fun seed_files :: "nm_env \<Rightarrow> naming_server \<Rightarrow> int \<Rightarrow> ss_info \<Rightarrow> string list \<Rightarrow> nat \<Rightarrow> (nat \<times> naming_server) result" where
  "seed_files E S ss_id info [] seeded = Inr (seeded, S)"
| "seed_files E S ss_id info (tok # toks) seeded =
     (let t = trim_item tok in
      if t \<noteq> [] \<and> trie_search (nm_trie S) t = None
      then ebind (add_metadata E S t (create_file_metadata t ''system'' ss_id (si_ip info) (si_client_port info) (env_now E)))
             (\<lambda>S1. seed_files E S1 ss_id info toks (seeded + 1))
      else seed_files E S ss_id info toks seeded)"

text \<open>Pushes the content of a living replica for the files whose primary this server is.\<close>

fun recover_files :: "nm_env \<Rightarrow> naming_server \<Rightarrow> int \<Rightarrow> int \<Rightarrow> string list \<Rightarrow> nm_output result" where
  "recover_files E S sock ss_id [] = Inr []"
| "recover_files E S sock ss_id (f # fs) =
     (case trie_search (nm_trie S) f of
        None \<Rightarrow> recover_files E S sock ss_id fs
      | Some r \<Rightarrow>
          ebind (meta_at S r) (\<lambda>m.
            if fm_ss_id m \<noteq> ss_id then recover_files E S sock ss_id fs
            else (let rid = replicas_pick_alive_for_access (nm_servers S) (nm_replicas S) (fm_filename m) ss_id in
                  if rid < 0 \<or> rid = ss_id then recover_files E S sock ss_id fs
                  else (case get_storage_server (nm_servers S) rid of
                          None \<Rightarrow> recover_files E S sock ss_id fs
                        | Some rs \<Rightarrow>
                            (let buf = (case env_fetch E (si_ip rs) (si_client_port rs)
                                               (message_zero\<lparr>m_type := MSG_READ_REQUEST, m_filename := fm_filename m\<rparr>) of
                                          None \<Rightarrow> []
                                        | Some rr \<Rightarrow> if m_type rr = MSG_ACK then strncpy_buf MAX_CONTENT_LEN (m_data rr) else [])
                             in ebind (recover_files E S sock ss_id fs) (\<lambda>out.
                                  Inr ((if buf \<noteq> [] then [(sock, message_zero\<lparr>m_type := MSG_WRITE_FILE_SS, m_filename := fm_filename m, m_data := buf\<rparr>)]
                                        else []) @ out)))))))"

definition ss_registered :: "int \<Rightarrow> message" where
  "ss_registered ss_id = ack_reply (''Storage Server '' @ show_int ss_id @ '' registered'')"

definition handle_ss_register :: "nm_env \<Rightarrow> naming_server \<Rightarrow> int \<Rightarrow> string \<Rightarrow> message \<Rightarrow> nm_result" where
  "handle_ss_register E S sock ss_ip msg =
     (let info = \<lparr>si_id = 0, si_ip = strncpy_buf MAX_IP_LEN ss_ip, si_nm_port = m_arg1 msg, si_client_port = m_arg2 msg,
                  si_alive = True, si_heartbeat = 0, si_socket = sock\<rparr>
      in case register_storage_server (nm_servers S) info (env_now E) of
           (ss_id, reg) \<Rightarrow>
             ebind (seed_files E (S\<lparr>nm_servers := reg\<rparr>) ss_id info (strtok {CHR '',''} (strncpy_buf MAX_CONTENT_LEN (m_data msg))) 0) (\<lambda>(seeded, S1).
             ebind (if 0 < seeded then save_metadata S1 else Inr S1) (\<lambda>S2.
             ebind (recover_files E S2 sock ss_id (trie_get_all_files (nm_trie S2) 1000)) (\<lambda>out.
               Inr ((sock, ss_registered ss_id) # out, S2)))))"

text \<open>The counts of a file after a write; the copies are sent by the thread that is started then.\<close>

definition update_counts :: "nm_env \<Rightarrow> naming_server \<Rightarrow> message \<Rightarrow> naming_server result" where
  "update_counts E S msg =
     (case trie_search (nm_trie S) (m_filename msg) of
        None \<Rightarrow> Inr S
      | Some r \<Rightarrow>
          ebind (meta_at S r) (\<lambda>m.
          ebind (save_metadata (put_meta S r (with_counts E m (m_arg1 msg) (m_arg2 msg)))) (\<lambda>S1.
          ebind (cache_put (nm_cache S1) (m_filename msg) r (env_now E)) (\<lambda>c. Inr (S1\<lparr>nm_cache := c\<rparr>)))))"

definition begin_update :: "nm_env \<Rightarrow> naming_server \<Rightarrow> int \<Rightarrow> message \<Rightarrow> nm_piece_result" where
  "begin_update E S sock msg =
     ebind (update_counts E S msg) (\<lambda>S1. Inr ([(sock, ack_reply [])], S1, Some (Replicating (m_filename msg))))"

text \<open>The same with the copies sent before the answer.\<close>

definition handle_update_metadata :: "nm_env \<Rightarrow> naming_server \<Rightarrow> int \<Rightarrow> message \<Rightarrow> nm_result" where
  "handle_update_metadata E S sock msg =
     ebind (update_counts E S msg) (\<lambda>S2.
     ebind (replicate_thread E S2 (m_filename msg)) (\<lambda>out.
       Inr (out @ [(sock, ack_reply [])], S2)))"

fun ss_updates :: "naming_server \<Rightarrow> int \<Rightarrow> (nm_env \<times> message) list \<Rightarrow> nm_result" where
  "ss_updates S sock [] = Inr ([], S)"
| "ss_updates S sock ((E, msg) # msgs) =
     ebind (if m_type msg = MSG_UPDATE_METADATA then handle_update_metadata E S sock msg else Inr ([], S)) (\<lambda>(out, S1).
     ebind (ss_updates S1 sock msgs) (\<lambda>(out', S2). Inr (out @ out', S2)))"

fun handle_ss_thread :: "naming_server \<Rightarrow> int \<Rightarrow> string \<Rightarrow> (nm_env \<times> message) list \<Rightarrow> nm_result" where
  "handle_ss_thread S sock ss_ip [] = Inl Uninitialised"
| "handle_ss_thread S sock ss_ip ((E, reg_msg) # msgs) =
     ebind (if m_type reg_msg = MSG_SS_REGISTER then handle_ss_register E S sock ss_ip reg_msg else Inr ([], S)) (\<lambda>(out, S1).
     ebind (ss_updates S1 sock msgs) (\<lambda>(out', S2). Inr (out @ out', S2)))"

text \<open>A new connection: the first message decides, a client when it did not arrive in full.\<close>

definition nm_connection :: "naming_server \<Rightarrow> int \<Rightarrow> string \<Rightarrow> int \<Rightarrow> (nm_env \<times> message) list \<Rightarrow> nm_result" where
  "nm_connection S sock ip port msgs =
     (case msgs of
        (E, m) # _ \<Rightarrow> if m_type m = MSG_SS_REGISTER then handle_ss_thread S sock ip msgs
                      else handle_client_thread S sock ip port msgs
      | [] \<Rightarrow> handle_client_thread S sock ip port msgs)"

section \<open>Heartbeat\<close>

definition ping :: message where
  "ping = message_zero\<lparr>m_type := MSG_SS_HEARTBEAT\<rparr>"

definition answers_ping :: "nm_env \<Rightarrow> ss_info \<Rightarrow> bool" where
  "answers_ping E s =
     (case env_reply E (si_socket s) ping of None \<Rightarrow> False | Some pong \<Rightarrow> m_type pong = MSG_ACK)"

text \<open>One round of \<open>heartbeat_thread\<close>, from place \<open>i\<close> on.\<close>

function heartbeat_round :: "nm_env \<Rightarrow> ss_info list \<Rightarrow> nat \<Rightarrow> ss_info list" where
  "heartbeat_round E reg i =
     (if i < length reg
      then heartbeat_round E (set_storage_server_status reg (si_id (reg ! i)) (answers_ping E (reg ! i)) (env_now E)) (Suc i)
      else reg)"
  by pat_completeness auto
termination
  by (relation "measure (\<lambda>(E, reg, i). length reg - i)") (auto simp: set_storage_server_status_def Let_def)

declare heartbeat_round.simps [simp del]

section \<open>Start\<close>

definition start_naming_server :: "int \<Rightarrow> string \<Rightarrow> string \<Rightarrow> string \<Rightarrow> string \<Rightarrow> naming_server" where
  "start_naming_server now metadata_dat users_dat folders_dat requests_dat =
     (case trie_load_from_disk now metadata_dat of
        (H, n, t) \<Rightarrow>
          \<lparr>nm_heap = H, nm_fresh = n, nm_trie = t, nm_cache = cache_init (int CACHE_CAPACITY),
           nm_servers = [], nm_last_selected = - 1, nm_clients = [], nm_stale = [], nm_users = users_load_from_disk [] users_dat,
           nm_replicas = [], nm_folders_mutex = False, nm_folders = folders_load_from_disk [] folders_dat,
           nm_requests = access_requests_load_from_disk [] requests_dat,
           nm_metadata_dat = metadata_dat, nm_users_dat = users_dat, nm_folders_dat = folders_dat,
           nm_requests_dat = requests_dat\<rparr>)"

end
