(* ===== verification/Naming_Pieces.thy ===== *)
theory Naming_Pieces
  imports Naming_Threads
begin

text \<open>
  The handlers of \<^verbatim>\<open>naming_server.c\<close> that release \<open>trie_mutex\<close> before they are done, computed without
  a break: one equation per handler, in which the pieces of \<^verbatim>\<open>Naming_Server\<close> and
  \<^verbatim>\<open>Naming_Threads\<close> no longer appear.  What a task holds while it waits is read off here too.
\<close>

section \<open>What a task holds\<close>

text \<open>The connection whose thread has the task: it takes no further message before it is done.\<close>

fun task_socket :: "nm_task \<Rightarrow> int option" where
  "task_socket (Handling sock _ _) = Some sock"
| "task_socket (Creating_Replica sock _ _) = Some sock"
| "task_socket (Executing sock _) = Some sock"
| "task_socket (Moving sock _) = Some sock"
| "task_socket (Announcing_Move sock _ _) = Some sock"
| "task_socket (Queueing sock _) = Some sock"
| "task_socket (Resolving sock _ _ _ _) = Some sock"
| "task_socket (Granting sock _ _ _) = Some sock"
| "task_socket (Replicating _) = None"
| "task_socket (Copying _) = None"

text \<open>The object that a task refers to without the mutex.\<close>

fun task_pointer :: "nm_task \<Rightarrow> nat option" where
  "task_pointer (Executing sock r) = Some r"
| "task_pointer (Announcing_Move sock msg meta2) = meta2"
| "task_pointer (Copying r) = Some r"
| "task_pointer _ = None"

section \<open>Without a break\<close>

lemma ebind_assoc: "ebind (ebind m f) g = ebind m (\<lambda>x. ebind (f x) g)"
  by (cases m) auto

lemma ebind_unit [simp]: "ebind r Inr = r"
  by (cases r) auto

lemma finish_none [simp]: "finish_task E S None = Inr ([], S)"
  by (simp add: finish_task_def)

lemma unbroken_no_task [simp]: "unbroken E (no_task r) = r"
  by (cases r) (auto simp: unbroken_def no_task_def)

lemma unbroken_simps [simp]:
  "unbroken E (Inl e) = Inl e" "unbroken E (Inr (out, S, None)) = Inr (out, S)"
  "unbroken E (ebind m f) = ebind m (\<lambda>x. unbroken E (f x))"
  by (simp_all add: unbroken_def ebind_assoc)

text \<open>A task that comes back from its one piece.\<close>

lemma unbroken_last:
  "continue_task E S t = no_task r \<Longrightarrow> unbroken E (Inr (out, S, Some t)) = ebind r (\<lambda>(out1, S1). Inr (out @ out1, S1))"
  by (cases r) (auto simp: unbroken_def finish_task_def no_task_def)

lemma unbroken_lookup:
  "unbroken E (look_up_file E S sock f k) = with_file E S sock f (\<lambda>S1 r m. unbroken E (k S1 m))"
  unfolding look_up_file_def with_file_def
  by (cases "lookup_metadata E S f") (auto split: option.split)

lemma nm_handle_create_file_eq:
  "nm_handle_create_file E S sock msg =
     with_client S sock (\<lambda>c.
       if trie_search (nm_trie S) (m_filename msg) \<noteq> None
       then Inr ([(sock, error_reply ERR_FILE_EXISTS ''ERROR: File already exists.'')], S)
       else (case select_storage_server_for_new_file (nm_servers S) (nm_last_selected S) of
               (None, l) \<Rightarrow> Inr ([(sock, error_reply ERR_SS_UNAVAILABLE ''No storage server available'')],
                                 S\<lparr>nm_last_selected := l\<rparr>)
             | (Some s, l) \<Rightarrow>
                 (let S1 = S\<lparr>nm_last_selected := l\<rparr>;
                      ss_msg = message_zero\<lparr>m_type := MSG_CREATE_FILE_SS, m_filename := m_filename msg,
                                            m_sender := ci_username c\<rparr>
                  in case env_reply E (si_socket s) ss_msg of
                       None \<Rightarrow> Inl Uninitialised
                     | Some resp \<Rightarrow>
                         if m_error resp = ERR_SUCCESS
                         then ebind (add_metadata E S1 (m_filename msg)
                                (create_file_metadata (m_filename msg) (ci_username c) (si_id s) (si_ip s) (si_client_port s) (env_now E))) (\<lambda>S2.
                              ebind (save_metadata S2) (\<lambda>S3.
                              ebind (create_replica E S3 (si_id s) ss_msg) (\<lambda>(out, S4).
                                Inr ((si_socket s, ss_msg) # (sock, ack_reply ''File Created Successfully!'') # out, S4))))
                         else Inr ([(si_socket s, ss_msg), (sock, error_reply (m_error resp) ''ERROR: Failed to create file.'')], S1))))"
  by (simp add: create_start_def nm_handle_create_file_def with_client_def unbroken_last Let_def
      split: option.split prod.split)

lemma nm_handle_exec_file_eq:
  "nm_handle_exec_file E S sock msg =
     ebind (exec_lookup E S sock msg) (\<lambda>(out, S1, go).
       case go of
         None \<Rightarrow> Inr (out, S1)
       | Some r \<Rightarrow> exec_run E S1 sock r)"
proof (cases "get_client_by_socket (nm_clients S) sock")
  case (Some c)
  have "out = []" if "exec_check E S sock msg c = Inr (out, S1, Some r)" for out S1 r
    using that by (auto simp: exec_check_def ebind_eq_Inr split: option.splits if_splits)
  with Some show ?thesis
    by (cases "exec_check E S sock msg c")
       (auto simp: exec_start_def exec_lookup_def nm_handle_exec_file_def with_client_def unbroken_last split: option.split)
qed (simp add: nm_handle_exec_file_def exec_lookup_def with_client_def)

lemma unbroken_move:
  "unbroken E (Inr ([], S, Some (Moving sock msg))) =
     (if m_data msg = [] then Inr ([(sock, invalid_folder_name)], S)
      else ebind (move_file_to_folder (nm_folders_mutex S) (nm_folders S) (m_filename msg) (m_data msg)) (\<lambda>(rc, held, fs).
             let S1 = S\<lparr>nm_folders_mutex := held, nm_folders := fs\<rparr> in
             if rc \<noteq> 0 then Inr ([(sock, error_reply ERR_SUCCESS ''ERROR: Failed to move file.'')], S1)
             else (let S2 = S1\<lparr>nm_folders_dat := folders_save_to_disk fs\<rparr>;
                       mv = message_zero\<lparr>m_type := MSG_MOVE_FILE_SS, m_filename := strncpy_buf MAX_FILENAME_LEN (m_filename msg),
                                         m_data := strncpy_buf MAX_CONTENT_LEN (m_data msg)\<rparr>
                   in ebind (case trie_search (nm_trie S2) (m_filename msg) of
                               None \<Rightarrow> Inr []
                             | Some r2 \<Rightarrow> ebind (meta_at S2 r2) (\<lambda>m2. Inr (move_targets S2 (m_filename msg) m2))) (\<lambda>targets.
                        Inr (map (\<lambda>s. (si_socket s, mv)) targets @ [(sock, ack_reply ''File moved successfully!'')], S2)))))"
proof (cases "m_data msg = []")
  case False
  show ?thesis
  proof (cases "move_file_to_folder (nm_folders_mutex S) (nm_folders S) (m_filename msg) (m_data msg)")
    case (Inr x)
    with False show ?thesis
      by (cases x) (auto simp: unbroken_def finish_task_def move_folders_def announce_move_def Let_def ebind_assoc)
  qed (use False in \<open>simp add: unbroken_def finish_task_def move_folders_def\<close>)
qed (simp add: unbroken_def finish_task_def move_folders_def)

lemma nm_handle_move_file_eq:
  "nm_handle_move_file E S sock msg =
     with_client S sock (\<lambda>c. with_file E S sock (m_filename msg) (\<lambda>S1 r m. unbroken E (Inr ([], S1, Some (Moving sock msg)))))"
  unfolding nm_handle_move_file_def move_start_def unbroken_lookup ..

lemma nm_request_access_eq:
  "nm_request_access E S sock msg =
     with_file E S sock (m_filename msg) (\<lambda>S1 r m.
       if fm_owner m = m_sender msg
       then Inr ([(sock, error_reply ERR_INVALID_COMMAND ''ERROR: Owner already has access.'')], S1)
       else if requested_access msg \<le> check_file_access m (m_sender msg)
       then Inr ([(sock, error_reply ERR_INVALID_COMMAND ''ERROR: Already has access.'')], S1)
       else (case access_requests_append (nm_requests S1) (nm_requests_dat S1) (m_filename msg) (m_sender msg)
                    (requested_access msg) (env_now E) of
               (rc, reqs, dat) \<Rightarrow>
                 Inr ([(sock, if rc = - 2 then error_reply ERR_REQUEST_ALREADY_EXISTS ''ERROR: Request already pending.''
                              else if rc < 0 then error_reply ERR_UNKNOWN ''ERROR: Failed to queue request.''
                              else ack_reply ''Access request queued.'')],
                      S1\<lparr>nm_requests := reqs, nm_requests_dat := dat\<rparr>)))"
  unfolding nm_request_access_def request_start_def unbroken_lookup
  by (rule arg_cong [where f = "with_file E S sock (m_filename msg)"], intro ext)
     (simp add: unbroken_def finish_task_def queue_request_def split: prod.split)

text \<open>\<^verbatim>\<open>access_requests_resolve\<close> of \<^verbatim>\<open>nm_storage.c\<close>, both halves.\<close>

definition access_requests_resolve ::
  "naming_server \<Rightarrow> string \<Rightarrow> string \<Rightarrow> bool \<Rightarrow> access_type \<Rightarrow> (int \<times> naming_server) result" where
  "access_requests_resolve S filename requester approve grant_access =
     (case resolve_take S filename requester of
        (rc, S1) \<Rightarrow>
          if rc \<noteq> 0 then Inr (- 1, S1)
          else if approve then ebind (resolve_grant S1 filename requester grant_access) (\<lambda>S2. Inr (0, S2))
          else Inr (0, S1))"

lemma unbroken_resolve:
  "unbroken E (resolve_start E S sock msg approve acc tx) =
     with_file E S sock (m_filename msg) (\<lambda>S1 r m.
       if fm_owner m \<noteq> m_sender msg then Inr ([(sock, not_owner ''ERROR: Not owner.'')], S1)
       else ebind (access_requests_resolve S1 (m_filename msg) (m_data msg) approve acc) (\<lambda>(rc, S2).
              Inr ([(sock, if rc = 0 then ack_reply tx
                           else error_reply ERR_REQUEST_NOT_FOUND ''ERROR: Request not found.'')], S2)))"
  unfolding resolve_start_def unbroken_lookup
  by (rule arg_cong [where f = "with_file E S sock (m_filename msg)"], intro ext)
     (auto simp: unbroken_def finish_task_def resolve_taken_def grant_taken_def access_requests_resolve_def ebind_assoc
       split: prod.split)

lemma nm_resolve_request_eq:
  "nm_approve_request E S sock msg =
     with_file E S sock (m_filename msg) (\<lambda>S1 r m.
       if fm_owner m \<noteq> m_sender msg then Inr ([(sock, not_owner ''ERROR: Not owner.'')], S1)
       else ebind (access_requests_resolve S1 (m_filename msg) (m_data msg) True (requested_access msg)) (\<lambda>(rc, S2).
              Inr ([(sock, if rc = 0 then ack_reply ''Request approved.''
                           else error_reply ERR_REQUEST_NOT_FOUND ''ERROR: Request not found.'')], S2)))"
  "nm_deny_request E S sock msg =
     with_file E S sock (m_filename msg) (\<lambda>S1 r m.
       if fm_owner m \<noteq> m_sender msg then Inr ([(sock, not_owner ''ERROR: Not owner.'')], S1)
       else ebind (access_requests_resolve S1 (m_filename msg) (m_data msg) False ACCESS_READ) (\<lambda>(rc, S2).
              Inr ([(sock, if rc = 0 then ack_reply ''Request denied.''
                           else error_reply ERR_REQUEST_NOT_FOUND ''ERROR: Request not found.'')], S2)))"
  unfolding nm_approve_request_def nm_deny_request_def unbroken_resolve by (rule refl)+

section \<open>The switch\<close>

text \<open>The place that a lookup returns holds the client of the socket, as long as nothing moves.\<close>

lemma client_index_get:
  "get_client_by_socket (nm_clients S) sock = map_option (client_slot S) (client_index S sock)"
  by (cases "find_idx (\<lambda>c. ci_socket c = sock) (nm_clients S)")
     (auto simp: get_client_by_socket_def client_index_def client_slot_def nth_append dest: find_idx_lt)

lemma client_index_SomeD:
  "client_index S sock = Some i \<Longrightarrow> i < length (nm_clients S) \<and> client_slot S i = nm_clients S ! i \<and> ci_socket (nm_clients S ! i) = sock"
  by (auto simp: client_index_def client_slot_def nth_append dest: find_idx_SomeD)

lemmas client_handlers =
  nm_handle_view_files_def nm_handle_read_file_def nm_handle_stream_lookup_def nm_handle_undo_lookup_def
  nm_handle_write_file_def nm_handle_delete_file_def nm_handle_info_file_def nm_handle_add_access_def
  nm_handle_remove_access_def nm_handle_create_folder_def nm_handle_view_folder_def nm_handle_checkpoint_request_def
  nm_handle_create_file_def nm_handle_exec_file_def nm_handle_move_file_def nm_request_access_def
  nm_approve_request_def nm_deny_request_def

text \<open>A message whose pieces come without a break is a call of its handler.\<close>

lemma handle_client_message_eq:
  "handle_client_message E S sock client_ip client_port msg =
     (case m_type msg of
        MSG_CP_CREATE \<Rightarrow> nm_handle_checkpoint_request E S sock msg
      | MSG_CP_VIEW \<Rightarrow> nm_handle_checkpoint_request E S sock msg
      | MSG_CP_REVERT \<Rightarrow> nm_handle_checkpoint_request E S sock msg
      | MSG_CP_LIST \<Rightarrow> nm_handle_checkpoint_request E S sock msg
      | MSG_CLIENT_REGISTER \<Rightarrow> nm_register E S sock client_ip client_port msg
      | MSG_VIEW_FILES \<Rightarrow> nm_handle_view_files E S sock msg
      | MSG_CREATE_FILE \<Rightarrow> nm_handle_create_file E S sock msg
      | MSG_READ_FILE \<Rightarrow> nm_handle_read_file E S sock msg
      | MSG_WRITE_FILE \<Rightarrow> nm_handle_write_file E S sock msg
      | MSG_DELETE_FILE \<Rightarrow> nm_handle_delete_file E S sock msg
      | MSG_INFO_FILE \<Rightarrow> nm_handle_info_file E S sock msg
      | MSG_LIST_USERS \<Rightarrow> nm_handle_list_users S sock
      | MSG_ADDACCESS \<Rightarrow> nm_handle_add_access E S sock msg
      | MSG_REMACCESS \<Rightarrow> nm_handle_remove_access E S sock msg
      | MSG_EXEC_FILE \<Rightarrow> nm_handle_exec_file E S sock msg
      | MSG_CREATE_FOLDER \<Rightarrow> nm_handle_create_folder S sock msg
      | MSG_MOVE_FILE \<Rightarrow> nm_handle_move_file E S sock msg
      | MSG_VIEW_FOLDER \<Rightarrow> nm_handle_view_folder S sock msg
      | MSG_REQUEST_ACCESS \<Rightarrow> nm_request_access E S sock msg
      | MSG_VIEW_REQUESTS \<Rightarrow> nm_view_requests E S sock msg
      | MSG_APPROVE_REQUEST \<Rightarrow> nm_approve_request E S sock msg
      | MSG_DENY_REQUEST \<Rightarrow> nm_deny_request E S sock msg
      | MSG_STREAM_FILE \<Rightarrow> nm_handle_stream_lookup E S sock msg
      | MSG_UNDO_FILE \<Rightarrow> nm_handle_undo_lookup E S sock msg
      | _ \<Rightarrow> Inr ([], S))"
  by (cases "m_type msg") (simp_all add: handle_client_message_def client_handler_def direct_body_def client_handlers)

end
