(* ===== verification/Naming_Facts.thy ===== *)
theory Naming_Facts
  imports Naming_Pieces
begin

text \<open>
  The index of the naming server: the trie, the heap of metadata objects and the cache.
  \<open>nm_files\<close> is the table of files that the three represent, and \<open>index_ok\<close> the invariant that
  keeps every pointer alive; the contract of the cache is a locale.  Every access to the
  index is described as an operation on the table.
\<close>

section \<open>Computations that never follow a dangling pointer\<close>

definition safe :: "'a result \<Rightarrow> ('a \<Rightarrow> bool) \<Rightarrow> bool" where
  "safe r P \<longleftrightarrow> (case r of Inl e \<Rightarrow> e \<noteq> UseAfterFree | Inr x \<Rightarrow> P x)"

lemma safe_simps [simp]:
  "safe (Inr x) P = P x" "safe (Inl e) P \<longleftrightarrow> e \<noteq> UseAfterFree"
  "safe (ebind m f) P = safe m (\<lambda>x. safe (f x) P)"
  by (cases m; simp add: safe_def)+

lemma safe_mono: "safe r P \<Longrightarrow> (\<And>x. P x \<Longrightarrow> Q x) \<Longrightarrow> safe r Q"
  by (simp add: safe_def split: sum.splits)

lemma safe_strcat [simp]: "safe (strcat_all n b ss) P \<longleftrightarrow> (length b + length (concat ss) < n \<longrightarrow> P (b @ concat ss))"
  if "length b < n"
  using that by (simp add: strcat_all_Inr)

lemma safe_strcat_buf: "(\<And>x. P x) \<Longrightarrow> safe (strcat_buf n b s) P"
  by (simp add: strcat_buf_def)

section \<open>The contract of the cache\<close>

text \<open>A cache may forget, but what it holds for a name is the last value put for it.\<close>

locale lossy_cache =
  fixes get :: "'c \<Rightarrow> string \<Rightarrow> int \<Rightarrow> ('c \<times> nat option) result"
    and put :: "'c \<Rightarrow> string \<Rightarrow> nat \<Rightarrow> int \<Rightarrow> 'c result"
    and remove :: "'c \<Rightarrow> string \<Rightarrow> 'c result"
    and contents :: "'c \<Rightarrow> string \<Rightarrow> nat option"
    and invar :: "'c \<Rightarrow> bool"
  assumes get_law: "invar c \<Longrightarrow> \<exists>c'. get c k now = Inr (c', contents c k) \<and> invar c' \<and> contents c' = contents c"
    and put_law: "invar c \<Longrightarrow> short_name k \<Longrightarrow>
           \<exists>c'. put c k d now = Inr c' \<and> invar c' \<and> contents c' k = Some d \<and> contents c' \<subseteq>\<^sub>m (contents c)(k \<mapsto> d)"
    and remove_law: "invar c \<Longrightarrow> \<exists>c'. remove c k = Inr c' \<and> invar c' \<and> contents c' = (contents c)(k := None)"
begin

definition coherent :: "'c \<Rightarrow> (string \<Rightarrow> nat option) \<Rightarrow> bool" where
  "coherent c store \<longleftrightarrow> invar c \<and> contents c \<subseteq>\<^sub>m store"

text \<open>Reading through the cache gives what the store under it has.\<close>

lemma read_through:
  assumes "coherent c store" "short_name k"
  shows "\<exists>c1. get c k now = Inr (c1, contents c k) \<and> coherent c1 store
    \<and> (contents c k = None \<or> contents c k = store k)
    \<and> (\<forall>r. store k = Some r \<longrightarrow> (\<exists>c2. put c1 k r now = Inr c2 \<and> coherent c2 store))"
proof -
  from assms(1) have c: "invar c" "contents c \<subseteq>\<^sub>m store" by (simp_all add: coherent_def)
  obtain c1 where c1: "get c k now = Inr (c1, contents c k)" "invar c1" "contents c1 = contents c"
    using get_law [OF c(1)] by blast
  have "contents c k = None \<or> contents c k = store k"
    using c(2) by (metis domIff map_le_def)
  moreover have "\<exists>c2. put c1 k r now = Inr c2 \<and> coherent c2 store" if "store k = Some r" for r
  proof -
    obtain c2 where c2: "put c1 k r now = Inr c2" "invar c2" "contents c2 \<subseteq>\<^sub>m (contents c1)(k \<mapsto> r)"
      using put_law [OF c1(2) assms(2)] by blast
    have "(contents c1)(k \<mapsto> r) \<subseteq>\<^sub>m store" using c(2) that by (auto simp: c1(3) map_le_def)
    with c2(3) have "contents c2 \<subseteq>\<^sub>m store" by (rule map_le_trans)
    with c2 show ?thesis by (auto simp: coherent_def)
  qed
  moreover have "coherent c1 store" using c1 c(2) by (simp add: coherent_def)
  ultimately show ?thesis using c1(1) by blast
qed

text \<open>Putting what was just stored, and removing what was just deleted.\<close>

lemma coherent_put:
  assumes "coherent c store" "short_name k" "store' k = Some d" "\<And>k'. k' \<noteq> k \<Longrightarrow> store' k' = store k'"
  shows "\<exists>c'. put c k d now = Inr c' \<and> coherent c' store'"
proof -
  from assms(1) have c: "invar c" "contents c \<subseteq>\<^sub>m store" by (simp_all add: coherent_def)
  obtain c' where c': "put c k d now = Inr c'" "invar c'" "contents c' \<subseteq>\<^sub>m (contents c)(k \<mapsto> d)"
    using put_law [OF c(1) assms(2)] by blast
  have "(contents c)(k \<mapsto> d) \<subseteq>\<^sub>m store'" using c(2) assms(3,4) by (auto simp: map_le_def)
  with c' show ?thesis by (auto simp: coherent_def intro: map_le_trans)
qed

lemma coherent_remove:
  assumes "coherent c store" "\<And>k'. k' \<noteq> k \<Longrightarrow> store' k' = store k'"
  shows "\<exists>c'. remove c k = Inr c' \<and> coherent c' store'"
proof -
  from assms(1) have c: "invar c" "contents c \<subseteq>\<^sub>m store" by (simp_all add: coherent_def)
  obtain c' where c': "remove c k = Inr c'" "invar c'" "contents c' = (contents c)(k := None)"
    using remove_law [OF c(1)] by blast
  have "contents c' \<subseteq>\<^sub>m store'" using c(2) assms(2) by (auto simp: c'(3) map_le_def)
  with c' show ?thesis by (auto simp: coherent_def)
qed

end

text \<open>The LRU cache keeps the contract.\<close>

definition lru_contents :: "lru_cache \<Rightarrow> string \<Rightarrow> nat option" where
  "lru_contents c k = map_option (node_data (lru_nodes c)) (ht_get (lru_map c) k)"

definition lru_ok :: "lru_cache \<Rightarrow> bool" where
  "lru_ok c \<longleftrightarrow> (\<exists>ps. lru_rep c ps)"

lemma lru_contents_abs: "lru_rep c ps \<Longrightarrow> lru_contents c = map_of (lru_abs c ps)"
  by (rule ext) (simp add: lru_contents_def lru_abs_lookup lru_rep_def)

lemma map_of_lru_drop: "map_of (lru_drop k l) = (map_of l)(k := None)"
  by (rule ext) (induction l, auto simp: lru_drop_def)

lemma map_of_take_le: "distinct (map fst l) \<Longrightarrow> map_of (take n l) \<subseteq>\<^sub>m map_of l"
proof -
  assume d: "distinct (map fst l)"
  have "map_of (take n l) k = Some v \<Longrightarrow> map_of l k = Some v" for k v
    using d by (metis in_set_takeD map_of_SomeD map_of_is_SomeI)
  then show ?thesis by (auto simp: map_le_def dom_def)
qed

lemma lru_drop_keys: "distinct (map fst l) \<Longrightarrow> distinct (map fst (lru_drop k l)) \<and> k \<notin> fst ` set (lru_drop k l)"
  by (auto simp: lru_drop_def distinct_map_filter)

interpretation lru: lossy_cache cache_get cache_put cache_remove lru_contents lru_ok
proof unfold_locales
  fix c k now
  assume "lru_ok c"
  then obtain ps where ps: "lru_rep c ps" by (auto simp: lru_ok_def)
  obtain c' ps' r where g: "cache_get c k now = Inr (c', r)" "lru_rep c' ps'" "(lru_abs c' ps', r) = lru_list_get k (lru_abs c ps)"
    using cache_get_refines [OF ps] by blast
  have "r = lru_contents c k" "lru_contents c' = lru_contents c"
    using g(3) unfolding lru_contents_abs [OF ps] lru_contents_abs [OF g(2)]
    by (auto simp: lru_list_get_def map_of_lru_drop split: option.splits)
  with g show "\<exists>c'. cache_get c k now = Inr (c', lru_contents c k) \<and> lru_ok c' \<and> lru_contents c' = lru_contents c"
    by (auto simp: lru_ok_def)
next
  fix c k d now
  assume "lru_ok c" and k: "short_name k"
  then obtain ps where ps: "lru_rep c ps" by (auto simp: lru_ok_def)
  obtain c' ps' where p: "cache_put c k d now = Inr c'" "lru_rep c' ps'"
    "lru_abs c' ps' = lru_list_put (lru_capacity c) k d (lru_abs c ps)"
    using cache_put_refines [OF ps k] by blast
  have cap: "0 < lru_capacity c" and dist: "distinct (map fst (lru_abs c ps))"
    using ps lru_abs_keys_distinct by (auto simp: lru_rep_def lru_shape_def)
  let ?l = "(k, d) # lru_drop k (lru_abs c ps)"
  have "distinct (map fst ?l)" using lru_drop_keys [OF dist] by simp
  then have "lru_contents c' \<subseteq>\<^sub>m (lru_contents c)(k \<mapsto> d)"
    using map_of_take_le [of ?l "lru_capacity c"]
    unfolding lru_contents_abs [OF ps] lru_contents_abs [OF p(2)] p(3) lru_list_put_def
    by (simp add: map_of_lru_drop)
  moreover have "lru_contents c' k = Some d"
    unfolding lru_contents_abs [OF p(2)] p(3) lru_list_put_def using cap by (cases "lru_capacity c") simp_all
  ultimately show "\<exists>c'. cache_put c k d now = Inr c' \<and> lru_ok c' \<and> lru_contents c' k = Some d
      \<and> lru_contents c' \<subseteq>\<^sub>m (lru_contents c)(k \<mapsto> d)"
    using p by (auto simp: lru_ok_def)
next
  fix c k
  assume "lru_ok c"
  then obtain ps where ps: "lru_rep c ps" by (auto simp: lru_ok_def)
  obtain c' ps' where p: "cache_remove c k = Inr c'" "lru_rep c' ps'" "lru_abs c' ps' = lru_list_remove k (lru_abs c ps)"
    using cache_remove_refines [OF ps] by blast
  then show "\<exists>c'. cache_remove c k = Inr c' \<and> lru_ok c' \<and> lru_contents c' = (lru_contents c)(k := None)"
    using lru_contents_abs [OF ps] lru_contents_abs [OF p(2)]
    by (auto simp: lru_ok_def lru_list_remove_def map_of_lru_drop)
qed

section \<open>The table of files\<close>

definition nm_files :: "naming_server \<Rightarrow> string \<Rightarrow> file_metadata option" where
  "nm_files S = meta_lookup (nm_heap S) (nm_trie S)"

definition index_ok :: "naming_server \<Rightarrow> bool" where
  "index_ok S \<longleftrightarrow> lru.coherent (nm_cache S) (trie_search (nm_trie S))
     \<and> (\<forall>k r. trie_search (nm_trie S) k = Some r \<longrightarrow>
          short_name k \<and> (\<exists>m. nm_heap S r = Some m \<and> fm_filename m = k \<and> acl_ok m))
     \<and> (\<forall>r. nm_heap S r \<noteq> None \<longrightarrow> r < nm_fresh S)"

lemma index_okI:
  assumes "lru.coherent (nm_cache S) (trie_search (nm_trie S))"
    and "\<And>k r. trie_search (nm_trie S) k = Some r \<Longrightarrow> short_name k"
    and "\<And>k r. trie_search (nm_trie S) k = Some r \<Longrightarrow> \<exists>m. nm_heap S r = Some m \<and> fm_filename m = k \<and> acl_ok m"
    and "\<And>r m. nm_heap S r = Some m \<Longrightarrow> r < nm_fresh S"
  shows "index_ok S"
  using assms by (auto simp: index_ok_def)

lemma index_okD:
  assumes "index_ok S"
  shows "lru.coherent (nm_cache S) (trie_search (nm_trie S))"
    and "trie_search (nm_trie S) k = Some r \<Longrightarrow> short_name k"
    and "trie_search (nm_trie S) k = Some r \<Longrightarrow> \<exists>m. nm_heap S r = Some m \<and> fm_filename m = k \<and> acl_ok m"
    and "nm_heap S r = Some m \<Longrightarrow> r < nm_fresh S"
  using assms by (auto simp: index_ok_def)

lemma index_live: "index_ok S \<Longrightarrow> meta_live (nm_heap S) (nm_trie S)"
  by (fastforce simp: index_ok_def meta_live_def)

lemma index_ref:
  assumes "index_ok S" "trie_search (nm_trie S) k = Some r"
  obtains m where "nm_heap S r = Some m" "nm_files S k = Some m" "fm_filename m = k" "acl_ok m" "short_name k"
  using assms by (fastforce simp: index_ok_def nm_files_def meta_lookup_def)

lemma nm_files_Some:
  assumes "index_ok S" "nm_files S k = Some m"
  obtains r where "trie_search (nm_trie S) k = Some r" "nm_heap S r = Some m" "fm_filename m = k" "acl_ok m" "short_name k"
  using assms by (fastforce simp: index_ok_def nm_files_def meta_lookup_def bind_eq_Some_conv)

lemma nm_files_None: "index_ok S \<Longrightarrow> nm_files S k = None \<longleftrightarrow> trie_search (nm_trie S) k = None"
  by (fastforce simp: index_ok_def nm_files_def meta_lookup_def split: bind_splits)

text \<open>No two names share an object.\<close>

lemma index_inj:
  "index_ok S \<Longrightarrow> trie_search (nm_trie S) k = Some r \<Longrightarrow> trie_search (nm_trie S) k' = Some r \<Longrightarrow> k' = k"
  by (metis index_ref option.inject)

lemma nm_files_frame [simp]:
  "nm_files (S\<lparr>nm_cache := c\<rparr>) = nm_files S" "nm_files (S\<lparr>nm_metadata_dat := d\<rparr>) = nm_files S"
  "nm_files (S\<lparr>nm_servers := g\<rparr>) = nm_files S" "nm_files (S\<lparr>nm_last_selected := l\<rparr>) = nm_files S"
  "nm_files (S\<lparr>nm_clients := cs\<rparr>) = nm_files S" "nm_files (S\<lparr>nm_users := us\<rparr>) = nm_files S"
  "nm_files (S\<lparr>nm_users_dat := d\<rparr>) = nm_files S"
  "nm_files (S\<lparr>nm_stale := cs\<rparr>) = nm_files S" "nm_files (S\<lparr>nm_folders_mutex := b\<rparr>) = nm_files S"
  "nm_files (S\<lparr>nm_replicas := rs\<rparr>) = nm_files S" "nm_files (S\<lparr>nm_folders := fs\<rparr>) = nm_files S"
  "nm_files (S\<lparr>nm_folders_dat := d\<rparr>) = nm_files S" "nm_files (S\<lparr>nm_requests := qs\<rparr>) = nm_files S"
  "nm_files (S\<lparr>nm_requests_dat := d\<rparr>) = nm_files S"
  by (simp_all add: nm_files_def)

lemma index_ok_frame [simp]:
  "index_ok (S\<lparr>nm_metadata_dat := d\<rparr>) = index_ok S"
  "index_ok (S\<lparr>nm_servers := g\<rparr>) = index_ok S" "index_ok (S\<lparr>nm_last_selected := l\<rparr>) = index_ok S"
  "index_ok (S\<lparr>nm_clients := cs\<rparr>) = index_ok S" "index_ok (S\<lparr>nm_users := us\<rparr>) = index_ok S"
  "index_ok (S\<lparr>nm_users_dat := d\<rparr>) = index_ok S"
  "index_ok (S\<lparr>nm_stale := cs\<rparr>) = index_ok S" "index_ok (S\<lparr>nm_folders_mutex := b\<rparr>) = index_ok S"
  "index_ok (S\<lparr>nm_replicas := rs\<rparr>) = index_ok S" "index_ok (S\<lparr>nm_folders := fs\<rparr>) = index_ok S"
  "index_ok (S\<lparr>nm_folders_dat := d\<rparr>) = index_ok S" "index_ok (S\<lparr>nm_requests := qs\<rparr>) = index_ok S"
  "index_ok (S\<lparr>nm_requests_dat := d\<rparr>) = index_ok S"
  by (simp_all add: index_ok_def)

lemma index_ok_cache: "index_ok S \<Longrightarrow> lru.coherent c (trie_search (nm_trie S)) \<Longrightarrow> index_ok (S\<lparr>nm_cache := c\<rparr>)"
  by (simp add: index_ok_def)

section \<open>Operations on the index as operations on the table\<close>

text \<open>The server up to its cache and the file of metadata.\<close>

definition same_but_cache :: "naming_server \<Rightarrow> naming_server \<Rightarrow> bool" where
  "same_but_cache S S' \<longleftrightarrow> (\<exists>c. S' = S\<lparr>nm_cache := c\<rparr>)"

lemma lookup_metadata_spec:
  assumes "index_ok S" "short_name k"
  shows "\<exists>S1. lookup_metadata E S k = Inr (S1, trie_search (nm_trie S) k) \<and> same_but_cache S S1 \<and> index_ok S1"
proof -
  let ?t = "trie_search (nm_trie S)"
  have coh: "lru.coherent (nm_cache S) ?t" using assms(1) by (simp add: index_ok_def)
  obtain c1 where c1: "cache_get (nm_cache S) k (env_now E) = Inr (c1, lru_contents (nm_cache S) k)" "lru.coherent c1 ?t"
    "lru_contents (nm_cache S) k = None \<or> lru_contents (nm_cache S) k = ?t k"
    "\<forall>r. ?t k = Some r \<longrightarrow> (\<exists>c2. cache_put c1 k r (env_now E) = Inr c2 \<and> lru.coherent c2 ?t)"
    using lru.read_through [OF coh assms(2)] by blast
  have ok: "lru.coherent c ?t \<Longrightarrow> same_but_cache S (S\<lparr>nm_cache := c\<rparr>) \<and> index_ok (S\<lparr>nm_cache := c\<rparr>)" for c
    using assms(1) by (auto simp: same_but_cache_def index_ok_cache)
  show ?thesis
  proof (cases "lru_contents (nm_cache S) k")
    case (Some r)
    with c1(3) have "?t k = Some r" by simp
    with Some c1(1) ok [OF c1(2)] show ?thesis by (simp add: lookup_metadata_def)
  next
    case None
    with c1 ok show ?thesis by (cases "?t k") (force simp: lookup_metadata_def)+
  qed
qed

text \<open>Writing the file of metadata never fails on a sound index.\<close>

lemma save_metadata_spec:
  assumes "index_ok S"
  shows "\<exists>dat. save_metadata S = Inr (S\<lparr>nm_metadata_dat := dat\<rparr>) \<and> trie_save_to_disk (nm_trie S) (nm_heap S) = Inr dat"
  using trie_save_to_disk_eq [OF index_live [OF assms]] by (simp add: save_metadata_def)

text \<open>An object changed in place.\<close>

lemma put_meta_spec:
  assumes ok: "index_ok S" and r: "trie_search (nm_trie S) k = Some r" and m: "fm_filename m = k" "acl_ok m"
  shows "index_ok (put_meta S r m)" "nm_files (put_meta S r m) = (nm_files S)(k \<mapsto> m)"
proof -
  obtain m0 where m0: "nm_heap S r = Some m0" using index_ref [OF ok r] by blast
  have ne: "k' \<noteq> k \<Longrightarrow> trie_search (nm_trie S) k' \<noteq> Some r" for k' using index_inj [OF ok r] by blast
  show "index_ok (put_meta S r m)"
  proof (rule index_okI)
    fix k' r'
    assume "trie_search (nm_trie (put_meta S r m)) k' = Some r'"
    then have k': "trie_search (nm_trie S) k' = Some r'" by (simp add: put_meta_def)
    show "\<exists>m'. nm_heap (put_meta S r m) r' = Some m' \<and> fm_filename m' = k' \<and> acl_ok m'"
      using index_okD(3) [OF ok k'] index_inj [OF ok r] k' m by (cases "r' = r") (auto simp: put_meta_def)
  qed (use index_okD [OF ok] m0 in \<open>auto simp: put_meta_def split: if_splits\<close>)
  show "nm_files (put_meta S r m) = (nm_files S)(k \<mapsto> m)"
  proof
    fix k'
    show "nm_files (put_meta S r m) k' = ((nm_files S)(k \<mapsto> m)) k'"
      using r ne [of k'] by (cases "trie_search (nm_trie S) k'") (auto simp: nm_files_def meta_lookup_def put_meta_def)
  qed
qed

lemma add_metadata_spec:
  assumes ok: "index_ok S" and k: "short_name k" and m: "fm_filename m = k" "acl_ok m"
  shows "\<exists>S'. add_metadata E S k m = Inr S' \<and> index_ok S' \<and> nm_files S' = (nm_files S)(k \<mapsto> m)
    \<and> S' = S\<lparr>nm_heap := nm_heap S', nm_fresh := nm_fresh S', nm_trie := nm_trie S', nm_cache := nm_cache S'\<rparr>"
proof -
  let ?r = "nm_fresh S"
  let ?t = "trie_insert (nm_trie S) k ?r"
  have free: "nm_heap S ?r = None" using ok unfolding index_ok_def by blast
  then have fresh: "trie_search (nm_trie S) k' \<noteq> Some ?r" for k' using index_ref [OF ok, of k' ?r] by fastforce
  have "lru.coherent (nm_cache S) (trie_search (nm_trie S))" using ok by (simp add: index_ok_def)
  then obtain c where c: "cache_put (nm_cache S) k ?r (env_now E) = Inr c" "lru.coherent c (trie_search ?t)"
    using lru.coherent_put [OF _ k, of "nm_cache S" "trie_search (nm_trie S)" "trie_search ?t" ?r "env_now E"]
    by (auto simp: trie_search_insert)
  let ?S = "S\<lparr>nm_heap := (nm_heap S)(?r \<mapsto> m), nm_fresh := Suc ?r, nm_trie := ?t, nm_cache := c\<rparr>"
  have "index_ok ?S"
    using ok k m fresh c(2) unfolding index_ok_def by (auto simp: trie_search_insert less_Suc_eq)
  moreover have "nm_files ?S k' = ((nm_files S)(k \<mapsto> m)) k'" for k'
    using fresh by (cases "trie_search (nm_trie S) k'") (auto simp: nm_files_def meta_lookup_def trie_search_insert)
  then have "nm_files ?S = (nm_files S)(k \<mapsto> m)" by (rule ext)
  moreover have "add_metadata E S k m = Inr ?S" using c(1) by (simp add: add_metadata_def Let_def)
  ultimately show ?thesis by (intro exI [of _ ?S]) simp
qed

lemma drop_metadata_spec:
  assumes ok: "index_ok S"
  shows "\<exists>S'. drop_metadata S k = Inr S' \<and> index_ok S' \<and> nm_files S' = (nm_files S)(k := None)
    \<and> S' = S\<lparr>nm_heap := nm_heap S', nm_trie := nm_trie S', nm_cache := nm_cache S'\<rparr>"
proof -
  let ?t = "fst (trie_delete (nm_trie S) k)"
  let ?H = "case trie_search (nm_trie S) k of None \<Rightarrow> nm_heap S | Some r \<Rightarrow> (nm_heap S)(r := None)"
  have "lru.coherent (nm_cache S) (trie_search (nm_trie S))" using ok by (simp add: index_ok_def)
  then obtain c where c: "cache_remove (nm_cache S) k = Inr c" "lru.coherent c (trie_search ?t)"
    using lru.coherent_remove [of "nm_cache S" "trie_search (nm_trie S)" k "trie_search ?t"]
    by (auto simp: trie_search_delete)
  let ?S = "S\<lparr>nm_heap := ?H, nm_trie := ?t, nm_cache := c\<rparr>"
  have H: "?H r = nm_heap S r" if "trie_search (nm_trie S) k' = Some r" "k' \<noteq> k" for k' r
    using that index_inj [OF ok that(1), of k] by (cases "trie_search (nm_trie S) k") auto
  have "index_ok ?S"
  proof (rule index_okI)
    fix k' r'
    assume "trie_search (nm_trie ?S) k' = Some r'"
    then have k': "trie_search (nm_trie S) k' = Some r'" "k' \<noteq> k"
      by (simp_all add: trie_search_delete split: if_splits)
    show "short_name k'" using index_okD(2) [OF ok k'(1)] .
    show "\<exists>m'. nm_heap ?S r' = Some m' \<and> fm_filename m' = k' \<and> acl_ok m'"
      using index_okD(3) [OF ok k'(1)] H [OF k'] by simp
  next
    fix r' m'
    assume "nm_heap ?S r' = Some m'"
    then have "nm_heap S r' = Some m'" by (simp split: option.splits if_splits)
    with index_okD(4) [OF ok] show "r' < nm_fresh ?S" by simp
  qed (use c(2) in simp)
  moreover have "nm_files ?S k' = ((nm_files S)(k := None)) k'" for k'
    using H [of k'] by (cases "trie_search (nm_trie S) k'") (auto simp: nm_files_def meta_lookup_def trie_search_delete)
  then have "nm_files ?S = (nm_files S)(k := None)" by (rule ext)
  moreover have "drop_metadata S k = Inr ?S" using c(1) by (simp add: drop_metadata_def)
  ultimately show ?thesis by (intro exI [of _ ?S]) simp
qed

end
