(* ===== verification/Naming_Invariant.thy ===== *)
theory Naming_Invariant
  imports Naming_Facts
begin

text \<open>
  The invariant of the naming server and what a request may change.  \<open>nm_ok\<close> joins the
  invariant of the index with those of the tables; \<open>permitted\<close> says which changes to owners
  and access lists one user's request on one file can make.  Every handler keeps the first
  and stays within the second, and none of them follows a dangling pointer.
\<close>

section \<open>Invariant and rights\<close>

definition tables_ok :: "naming_server \<Rightarrow> bool" where
  "tables_ok S \<longleftrightarrow> ss_registry_ok (nm_servers S) \<and> folders_ok (nm_folders S) \<and> requests_ok (nm_requests S)
     \<and> (\<forall>e \<in> set (nm_requests S). length (ar_filename e) < MAX_FILENAME_LEN \<and> length (ar_requester e) < MAX_USERNAME_LEN)
     \<and> length (nm_clients S) \<le> MAX_CLIENTS \<and> (\<forall>c \<in> set (nm_clients S). length (ci_username c) < MAX_USERNAME_LEN)
     \<and> (\<forall>c \<in> set (nm_stale S). length (ci_username c) < MAX_USERNAME_LEN) \<and> \<not> nm_folders_mutex S
     \<and> length (nm_users S) \<le> MAX_CLIENTS \<and> (\<forall>u \<in> set (nm_users S). length u < MAX_USERNAME_LEN)"

definition nm_ok :: "naming_server \<Rightarrow> bool" where
  "nm_ok S \<longleftrightarrow> index_ok S \<and> tables_ok S"

text \<open>Bookkeeping that changes neither rights nor places.\<close>

definition same_rights :: "file_metadata \<Rightarrow> file_metadata \<Rightarrow> bool" where
  "same_rights m m' \<longleftrightarrow> fm_owner m' = fm_owner m \<and> fm_access_list m' = fm_access_list m
     \<and> fm_filename m' = fm_filename m \<and> fm_ss_id m' = fm_ss_id m"

definition quiet :: "naming_server \<Rightarrow> naming_server \<Rightarrow> bool" where
  "quiet S S' \<longleftrightarrow> (\<forall>k. rel_option same_rights (nm_files S k) (nm_files S' k))"

definition permitted :: "string \<Rightarrow> string \<Rightarrow> naming_server \<Rightarrow> naming_server \<Rightarrow> bool" where
  "permitted u f S S' \<longleftrightarrow>
     (\<forall>k. k \<noteq> f \<longrightarrow> rel_option same_rights (nm_files S k) (nm_files S' k))
     \<and> (rel_option same_rights (nm_files S f) (nm_files S' f)
        \<or> (case nm_files S f of
             None \<Rightarrow> (\<exists>m'. nm_files S' f = Some m' \<and> fm_owner m' = u \<and> (\<forall>v. v \<noteq> u \<longrightarrow> check_file_access m' v = ACCESS_NONE))
           | Some m \<Rightarrow> fm_owner m = u \<and> (\<forall>m'. nm_files S' f = Some m' \<longrightarrow> fm_owner m' = u)))"

text \<open>The messages for which the invariant holds: the names in the data fit the buffers they are compared with.\<close>

definition request_ok :: "message \<Rightarrow> bool" where
  "request_ok msg \<longleftrightarrow> message_ok msg
     \<and> (m_type msg = MSG_ADDACCESS \<longrightarrow> length (m_data msg) < MAX_USERNAME_LEN)
     \<and> (m_type msg = MSG_CREATE_FOLDER \<longrightarrow> length (m_data msg) < MAX_FILENAME_LEN)"

lemma same_rights_refl [simp]: "same_rights m m"
  by (simp add: same_rights_def)

lemma same_rights_update [simp]:
  "same_rights m (touch E c m)" "same_rights m (with_counts E m w n)"
  by (simp_all add: same_rights_def touch_def with_counts_def)

lemma same_rights_acl: "same_rights m m' \<Longrightarrow> acl_ok m \<Longrightarrow> acl_ok m'"
  by (simp add: same_rights_def acl_ok_def)

lemma quiet_refl [simp]: "quiet S S" "nm_files S' = nm_files S \<Longrightarrow> quiet S S'"
  by (simp_all add: quiet_def option.rel_refl)

lemma quiet_trans: "quiet S S1 \<Longrightarrow> quiet S1 S2 \<Longrightarrow> quiet S S2"
  unfolding quiet_def
proof
  fix k
  assume "\<forall>k. rel_option same_rights (nm_files S k) (nm_files S1 k)" "\<forall>k. rel_option same_rights (nm_files S1 k) (nm_files S2 k)"
  then have "rel_option same_rights (nm_files S k) (nm_files S1 k)" "rel_option same_rights (nm_files S1 k) (nm_files S2 k)" by auto
  then show "rel_option same_rights (nm_files S k) (nm_files S2 k)"
    by (cases "nm_files S k"; cases "nm_files S1 k"; cases "nm_files S2 k") (auto simp: same_rights_def)
qed

lemma quiet_update:
  "nm_files S' = (nm_files S)(k \<mapsto> m') \<Longrightarrow> nm_files S k = Some m \<Longrightarrow> same_rights m m' \<Longrightarrow> quiet S S'"
  by (auto simp: quiet_def option.rel_refl)

lemma quiet_permitted: "quiet S S' \<Longrightarrow> permitted u f S S'"
  by (auto simp: quiet_def permitted_def)

lemma permitted_same: "nm_files S' = nm_files S \<Longrightarrow> permitted u f S S'"
  by (rule quiet_permitted) simp

lemma permitted_owner:
  "nm_files S f = Some m \<Longrightarrow> fm_owner m = u \<Longrightarrow> nm_files S' = (nm_files S)(f \<mapsto> m') \<Longrightarrow> fm_owner m' = u \<Longrightarrow> permitted u f S S'"
  by (auto simp: permitted_def option.rel_refl)

lemma permitted_delete:
  "nm_files S f = Some m \<Longrightarrow> fm_owner m = u \<Longrightarrow> nm_files S' = (nm_files S)(f := None) \<Longrightarrow> permitted u f S S'"
  by (auto simp: permitted_def option.rel_refl)

lemma permitted_create:
  "nm_files S f = None \<Longrightarrow> nm_files S' = (nm_files S)(f \<mapsto> m') \<Longrightarrow> fm_owner m' = u
     \<Longrightarrow> (\<And>v. v \<noteq> u \<Longrightarrow> check_file_access m' v = ACCESS_NONE) \<Longrightarrow> permitted u f S S'"
  by (auto simp: permitted_def option.rel_refl)

section \<open>Steps on the index, as rules for \<open>safe\<close>\<close>

lemma tables_ok_frame [simp]:
  "tables_ok (S\<lparr>nm_heap := H\<rparr>) = tables_ok S" "tables_ok (S\<lparr>nm_fresh := n\<rparr>) = tables_ok S"
  "tables_ok (S\<lparr>nm_trie := t\<rparr>) = tables_ok S" "tables_ok (S\<lparr>nm_cache := c\<rparr>) = tables_ok S"
  "tables_ok (S\<lparr>nm_metadata_dat := d\<rparr>) = tables_ok S" "tables_ok (S\<lparr>nm_last_selected := l\<rparr>) = tables_ok S"
  "tables_ok (S\<lparr>nm_replicas := rs\<rparr>) = tables_ok S" "tables_ok (S\<lparr>nm_users_dat := d\<rparr>) = tables_ok S"
  "tables_ok (S\<lparr>nm_folders_dat := d\<rparr>) = tables_ok S" "tables_ok (S\<lparr>nm_requests_dat := d\<rparr>) = tables_ok S"
  by (simp_all add: tables_ok_def)

lemma nm_ok_frame [simp]:
  "nm_ok (S\<lparr>nm_metadata_dat := d\<rparr>) = nm_ok S" "nm_ok (S\<lparr>nm_last_selected := l\<rparr>) = nm_ok S"
  "nm_ok (S\<lparr>nm_replicas := rs\<rparr>) = nm_ok S" "nm_ok (S\<lparr>nm_users_dat := d\<rparr>) = nm_ok S"
  "nm_ok (S\<lparr>nm_folders_dat := d\<rparr>) = nm_ok S" "nm_ok (S\<lparr>nm_requests_dat := d\<rparr>) = nm_ok S"
  by (simp_all add: nm_ok_def)

lemma nm_ok_index: "nm_ok S \<Longrightarrow> index_ok S"
  by (simp add: nm_ok_def)

lemma safe_save: "index_ok S \<Longrightarrow> (\<And>dat. P (S\<lparr>nm_metadata_dat := dat\<rparr>)) \<Longrightarrow> safe (save_metadata S) P"
  using save_metadata_spec [of S] by auto

lemma safe_meta_at: "nm_heap S r = Some m \<Longrightarrow> P m \<Longrightarrow> safe (meta_at S r) P"
  by (simp add: meta_at_def)

lemma safe_lookup:
  assumes "nm_ok S" "short_name f"
    and none: "\<And>S1. same_but_cache S S1 \<Longrightarrow> nm_ok S1 \<Longrightarrow> nm_files S1 = nm_files S \<Longrightarrow> nm_files S f = None \<Longrightarrow> P (S1, None)"
    and some: "\<And>S1 r m. same_but_cache S S1 \<Longrightarrow> nm_ok S1 \<Longrightarrow> nm_files S1 = nm_files S \<Longrightarrow> nm_files S f = Some m
        \<Longrightarrow> trie_search (nm_trie S1) f = Some r \<Longrightarrow> nm_heap S1 r = Some m \<Longrightarrow> fm_filename m = f \<Longrightarrow> acl_ok m \<Longrightarrow> P (S1, Some r)"
  shows "safe (lookup_metadata E S f) P"
proof -
  obtain S1 where S1: "lookup_metadata E S f = Inr (S1, trie_search (nm_trie S) f)" "same_but_cache S S1" "index_ok S1"
    using lookup_metadata_spec [OF nm_ok_index [OF assms(1)] assms(2)] by blast
  from S1(2) obtain c where c: "S1 = S\<lparr>nm_cache := c\<rparr>" by (auto simp: same_but_cache_def)
  have ok: "nm_ok S1" using assms(1) S1(3) by (simp add: nm_ok_def c)
  have files: "nm_files S1 = nm_files S" by (simp add: c)
  show ?thesis
  proof (cases "trie_search (nm_trie S) f")
    case None
    with nm_files_None [OF nm_ok_index [OF assms(1)]] S1(1) none [OF S1(2) ok files] show ?thesis by simp
  next
    case (Some r)
    then have r: "trie_search (nm_trie S1) f = Some r" by (simp add: c)
    obtain m where "nm_heap S1 r = Some m" "nm_files S1 f = Some m" "fm_filename m = f" "acl_ok m"
      using index_ref [OF S1(3) r] by blast
    with some [OF S1(2) ok files _ r] S1(1) files Some show ?thesis by simp
  qed
qed

lemma safe_with_file:
  assumes "nm_ok S" "short_name f"
    and none: "\<And>S1. same_but_cache S S1 \<Longrightarrow> nm_ok S1 \<Longrightarrow> nm_files S1 = nm_files S \<Longrightarrow> nm_files S f = None
        \<Longrightarrow> P ([(sock, file_not_found)], S1)"
    and some: "\<And>S1 r m. same_but_cache S S1 \<Longrightarrow> nm_ok S1 \<Longrightarrow> nm_files S1 = nm_files S \<Longrightarrow> nm_files S f = Some m
        \<Longrightarrow> trie_search (nm_trie S1) f = Some r \<Longrightarrow> nm_heap S1 r = Some m \<Longrightarrow> fm_filename m = f \<Longrightarrow> acl_ok m
        \<Longrightarrow> safe (g S1 r m) P"
  shows "safe (with_file E S sock f g) P"
  unfolding with_file_def safe_simps
  by (rule safe_lookup [OF assms(1,2)]) (simp_all add: none some meta_at_def)

lemma safe_with_client:
  assumes "P ([], S)"
    and "\<And>c. get_client_by_socket (nm_clients S) sock = Some c \<Longrightarrow> safe (g c) P"
  shows "safe (with_client S sock g) P"
  using assms by (simp add: with_client_def split: option.split)

lemma nm_ok_put_meta:
  "nm_ok S \<Longrightarrow> trie_search (nm_trie S) k = Some r \<Longrightarrow> fm_filename m = k \<Longrightarrow> acl_ok m \<Longrightarrow> nm_ok (put_meta S r m)"
  using put_meta_spec(1) [of S k r m] by (simp add: nm_ok_def) (simp add: put_meta_def)

lemma safe_add_metadata:
  assumes "nm_ok S" "short_name k" "fm_filename m = k" "acl_ok m"
    and "\<And>S'. nm_ok S' \<Longrightarrow> nm_files S' = (nm_files S)(k \<mapsto> m) \<Longrightarrow> nm_servers S' = nm_servers S \<Longrightarrow> nm_replicas S' = nm_replicas S \<Longrightarrow> P S'"
  shows "safe (add_metadata E S k m) P"
proof -
  obtain S' where S': "add_metadata E S k m = Inr S'" "index_ok S'" "nm_files S' = (nm_files S)(k \<mapsto> m)"
    "S' = S\<lparr>nm_heap := nm_heap S', nm_fresh := nm_fresh S', nm_trie := nm_trie S', nm_cache := nm_cache S'\<rparr>"
    using add_metadata_spec [OF nm_ok_index [OF assms(1)] assms(2-4)] by blast
  have "tables_ok S'" using assms(1) by (subst S'(4)) (simp add: nm_ok_def)
  moreover have "nm_servers S' = nm_servers S" "nm_replicas S' = nm_replicas S" by (subst S'(4), simp)+
  ultimately show ?thesis using S' assms(5) by (simp add: nm_ok_def)
qed

lemma safe_drop_metadata:
  assumes "nm_ok S" "\<And>S'. nm_ok S' \<Longrightarrow> nm_files S' = (nm_files S)(k := None) \<Longrightarrow> P S'"
  shows "safe (drop_metadata S k) P"
proof -
  obtain S' where S': "drop_metadata S k = Inr S'" "index_ok S'" "nm_files S' = (nm_files S)(k := None)"
    "S' = S\<lparr>nm_heap := nm_heap S', nm_trie := nm_trie S', nm_cache := nm_cache S'\<rparr>"
    using drop_metadata_spec [OF nm_ok_index [OF assms(1)]] by blast
  have "tables_ok S'" using assms(1) by (subst S'(4)) (simp add: nm_ok_def)
  with S' assms(2) show ?thesis by (simp add: nm_ok_def)
qed

text \<open>Putting a name with its own reference into the cache.\<close>

lemma safe_cache_put:
  assumes "nm_ok S" "trie_search (nm_trie S) k = Some r" "\<And>c. nm_ok (S\<lparr>nm_cache := c\<rparr>) \<Longrightarrow> P c"
  shows "safe (cache_put (nm_cache S) k r now) P"
proof -
  note ok = nm_ok_index [OF assms(1)]
  obtain c where "cache_put (nm_cache S) k r now = Inr c" "lru.coherent c (trie_search (nm_trie S))"
    using lru.coherent_put [OF index_okD(1) [OF ok] index_okD(2) [OF ok assms(2)], of "trie_search (nm_trie S)" r now] assms(2) by auto
  with assms(1,3) show ?thesis by (simp add: nm_ok_def index_ok_cache)
qed

section \<open>The handlers of clients\<close>

definition step_ok :: "string \<Rightarrow> string \<Rightarrow> naming_server \<Rightarrow> nm_output \<times> naming_server \<Rightarrow> bool" where
  "step_ok u f S x \<longleftrightarrow> nm_ok (snd x) \<and> permitted u f S (snd x)"

lemma step_ok_same [simp]: "nm_ok S' \<Longrightarrow> nm_files S' = nm_files S \<Longrightarrow> step_ok u f S (out, S')"
  by (simp add: step_ok_def permitted_same)

lemma permitted_files: "nm_files S' = nm_files S'' \<Longrightarrow> permitted u f S S' = permitted u f S S''"
  by (simp only: permitted_def)

lemma step_ok_saved [simp]:
  "step_ok u f S (out, S'\<lparr>nm_metadata_dat := d\<rparr>) = (nm_ok S' \<and> permitted u f S S')"
  using permitted_files [of "S'\<lparr>nm_metadata_dat := d\<rparr>" S'] by (simp add: step_ok_def)

lemma step_ok_quiet: "nm_ok S' \<Longrightarrow> quiet S S' \<Longrightarrow> step_ok u f S (out, S')"
  by (simp add: step_ok_def quiet_permitted)

text \<open>An object changed in place without a change of rights.\<close>

lemma bookkeeping:
  assumes "nm_ok S" "trie_search (nm_trie S) f = Some r" "nm_files S f = Some m" "fm_filename m = f" "acl_ok m" "same_rights m m'"
  shows "nm_ok (put_meta S r m')" "quiet S (put_meta S r m')" "nm_files (put_meta S r m') = (nm_files S)(f \<mapsto> m')"
proof -
  have m': "fm_filename m' = f" "acl_ok m'" using assms(4-6) same_rights_acl by (auto simp: same_rights_def)
  show "nm_ok (put_meta S r m')" by (rule nm_ok_put_meta [OF assms(1,2) m'])
  show files: "nm_files (put_meta S r m') = (nm_files S)(f \<mapsto> m')"
    by (rule put_meta_spec(2) [OF nm_ok_index [OF assms(1)] assms(2) m'])
  show "quiet S (put_meta S r m')" by (rule quiet_update [OF files assms(3,6)])
qed

lemma quiet_files: "nm_files S1 = nm_files S \<Longrightarrow> quiet S1 S' = quiet S S'"
  by (simp add: quiet_def)

lemma read_like_ok:
  assumes "nm_ok S" "short_name f"
  shows "safe (with_file E S sock f (\<lambda>S1 r m.
       if check_file_access m (ci_username c) = ACCESS_NONE then Inr ([(sock, access_denied)], S1)
       else (case route S1 m of
               None \<Rightarrow> Inr ([(sock, ss_unavailable)], S1)
             | Some s \<Rightarrow> Inr ([(sock, ss_address s)], put_meta S1 r (touch E c m))))) (step_ok u f S)"
proof (rule safe_with_file [OF assms])
  fix S1 r m
  assume S1: "nm_ok S1" "nm_files S1 = nm_files S" "nm_files S f = Some m" "trie_search (nm_trie S1) f = Some r"
    and m: "fm_filename m = f" "acl_ok m"
  have "nm_files S1 f = Some m" using S1(2,3) by simp
  note b = bookkeeping [OF S1(1,4) this m same_rights_update(1) [of m E c]]
  have "quiet S (put_meta S1 r (touch E c m))" using b(2) quiet_files [OF S1(2)] by simp
  with b(1) S1(1,2) show "safe (if check_file_access m (ci_username c) = ACCESS_NONE then Inr ([(sock, access_denied)], S1)
      else (case route S1 m of None \<Rightarrow> Inr ([(sock, ss_unavailable)], S1)
            | Some s \<Rightarrow> Inr ([(sock, ss_address s)], put_meta S1 r (touch E c m)))) (step_ok u f S)"
    by (simp add: step_ok_quiet split: option.split)
qed simp

text \<open>A handler is as good as its body is for the client of the socket.\<close>

lemma with_client_ok:
  assumes "nm_ok S" "\<And>c. get_client_by_socket (nm_clients S) sock = Some c \<Longrightarrow> safe (g c) (step_ok u f S)"
  shows "safe (with_client S sock g) (step_ok u f S)"
  by (rule safe_with_client) (use assms in simp_all)

lemma lookup_bodies_ok:
  assumes "nm_ok S" "short_name (m_filename msg)"
  shows "safe (read_file_body E S sock msg c) (step_ok u (m_filename msg) S)"
    "safe (stream_lookup_body E S sock msg c) (step_ok u (m_filename msg) S)"
    "safe (undo_lookup_body E S sock msg c) (step_ok u (m_filename msg) S)"
  unfolding read_file_body_def stream_lookup_body_def undo_lookup_body_def by (rule read_like_ok [OF assms])+

lemma file_bodies_ok:
  assumes "nm_ok S" "short_name (m_filename msg)"
  shows "safe (write_file_body E S sock msg c) (step_ok u (m_filename msg) S)"
    "safe (checkpoint_body E S sock msg c) (step_ok u (m_filename msg) S)"
    "safe (info_file_body E S sock msg c) (step_ok u (m_filename msg) S)"
  unfolding write_file_body_def checkpoint_body_def info_file_body_def
  by (rule safe_with_file [OF assms]; simp add: Let_def MAX_CONTENT_LEN_def split: option.split)+

lemma nm_handle_list_users_ok: "nm_ok S \<Longrightarrow> safe (nm_handle_list_users S sock) (step_ok u f S)"
  by (simp add: nm_handle_list_users_def MAX_CONTENT_LEN_def)

lemma view_folder_body_ok: "nm_ok S \<Longrightarrow> safe (view_folder_body S sock msg c) (step_ok u f S)"
  by (simp add: view_folder_body_def MAX_CONTENT_LEN_def)

lemma nm_handle_exec_file_ok:
  assumes "nm_ok S" "short_name (m_filename msg)"
  shows "safe (nm_handle_exec_file E S sock msg) (step_ok u (m_filename msg) S)"
proof (cases "get_client_by_socket (nm_clients S) sock")
  case None
  with assms(1) show ?thesis by (simp add: nm_handle_exec_file_eq exec_lookup_def)
next
  case (Some c)
  have run: "nm_ok S1 \<Longrightarrow> nm_files S1 = nm_files S \<Longrightarrow> nm_heap S1 r = Some m \<Longrightarrow> safe (exec_run E S1 sock r) (step_ok u (m_filename msg) S)"
    for S1 r m by (simp add: exec_run_def meta_at_def split: option.split)
  show ?thesis
    unfolding nm_handle_exec_file_eq exec_lookup_def exec_check_def Some option.case safe_simps
    by (rule safe_lookup [OF assms]) (use run assms(1) in \<open>simp_all add: meta_at_def\<close>)
qed

section \<open>Handlers that change the index\<close>

lemma owner_change_ok:
  assumes S: "nm_ok S1" "nm_files S1 = nm_files S" "nm_files S f = Some m" "trie_search (nm_trie S1) f = Some r"
    and m': "fm_filename m' = f" "acl_ok m'" "fm_owner m' = fm_owner m"
  shows "safe (ebind (save_metadata (put_meta S1 r m')) (\<lambda>S2. Inr (out, S2))) (step_ok (fm_owner m) f S)"
proof -
  note p = nm_ok_put_meta [OF S(1,4) m'(1,2)] put_meta_spec(2) [OF nm_ok_index [OF S(1)] S(4) m'(1,2)]
  have perm: "permitted (fm_owner m) f S (put_meta S1 r m')"
    by (rule permitted_owner [OF S(3) refl _ m'(3)]) (simp add: p(2) S(2))
  show ?thesis
    unfolding safe_simps
    by (rule safe_save [OF nm_ok_index [OF p(1)]])
       (use p(1) perm in simp)
qed

lemma add_access_body_ok:
  assumes "nm_ok S" "short_name (m_filename msg)" "length (m_data msg) < MAX_USERNAME_LEN"
    and c: "ci_username c = u"
  shows "safe (add_access_body E S sock msg c) (step_ok u (m_filename msg) S)"
proof -
  have "safe (with_file E S sock (m_filename msg) (\<lambda>S1 r m.
       if fm_owner m \<noteq> ci_username c then Inr ([(sock, not_owner ''ERROR: Access denied.'')], S1)
       else (let access = (if m_arg1 msg = 1 then ACCESS_READ else ACCESS_WRITE) in
             ebind (save_metadata (put_meta S1 r (fst (add_file_access m (m_data msg) access)))) (\<lambda>S2.
               Inr ([(sock, ack_reply ''Access granted successfully!'')], S2))))) (step_ok u (m_filename msg) S)"
    (is "safe (with_file _ _ _ _ ?g) _")
  proof (rule safe_with_file [OF assms(1,2)])
    fix S1 r m
    assume S1: "nm_ok S1" "nm_files S1 = nm_files S" "nm_files S (m_filename msg) = Some m"
      "trie_search (nm_trie S1) (m_filename msg) = Some r" and m: "fm_filename m = m_filename msg" "acl_ok m"
    let ?m = "fst (add_file_access m (m_data msg) (if m_arg1 msg = 1 then ACCESS_READ else ACCESS_WRITE))"
    have "fm_filename ?m = m_filename msg" "acl_ok ?m" "fm_owner ?m = fm_owner m"
      using m assms(3) by (simp_all add: add_file_access_ok)
    from owner_change_ok [OF S1 this] show "safe (?g S1 r m) (step_ok u (m_filename msg) S)"
      using S1(1,2) c by (auto simp: Let_def)
  qed simp
  then show ?thesis by (simp only: add_access_body_def)
qed

lemma remove_access_body_ok:
  assumes "nm_ok S" "short_name (m_filename msg)"
    and c: "ci_username c = u"
  shows "safe (remove_access_body E S sock msg c) (step_ok u (m_filename msg) S)"
proof -
  have "safe (with_file E S sock (m_filename msg) (\<lambda>S1 r m.
       if fm_owner m \<noteq> ci_username c then Inr ([(sock, not_owner ''ERROR: Access denied.'')], S1)
       else ebind (save_metadata (put_meta S1 r (fst (remove_file_access m (m_data msg))))) (\<lambda>S2.
               Inr ([(sock, ack_reply ''Access removed successfully!'')], S2)))) (step_ok u (m_filename msg) S)"
    (is "safe (with_file _ _ _ _ ?g) _")
  proof (rule safe_with_file [OF assms(1,2)])
    fix S1 r m
    assume S1: "nm_ok S1" "nm_files S1 = nm_files S" "nm_files S (m_filename msg) = Some m"
      "trie_search (nm_trie S1) (m_filename msg) = Some r" and m: "fm_filename m = m_filename msg" "acl_ok m"
    let ?m = "fst (remove_file_access m (m_data msg))"
    have "fm_filename ?m = m_filename msg" "acl_ok ?m" "fm_owner ?m = fm_owner m"
      using m by (simp_all add: remove_file_access_ok)
    from owner_change_ok [OF S1 this] show "safe (?g S1 r m) (step_ok u (m_filename msg) S)"
      using S1(1,2) c by auto
  qed simp
  then show ?thesis by (simp only: remove_access_body_def)
qed

lemma delete_file_body_ok:
  assumes "nm_ok S" "short_name (m_filename msg)"
    and c: "ci_username c = u"
  shows "safe (delete_file_body E S sock msg c) (step_ok u (m_filename msg) S)"
proof -
  let ?f = "m_filename msg"
  have del: "safe (ebind (drop_metadata S1 ?f) (\<lambda>S2. ebind (save_metadata S2) (\<lambda>S3. Inr (out, S3)))) (step_ok u ?f S)"
    if S1: "nm_ok S1" "nm_files S1 = nm_files S" "nm_files S ?f = Some m" "fm_owner m = u" for S1 m out
    unfolding safe_simps
  proof (rule safe_drop_metadata [OF S1(1)])
    fix S2
    assume S2: "nm_ok S2" "nm_files S2 = (nm_files S1)(?f := None)"
    then have "permitted u ?f S S2" using S1 by (intro permitted_delete) simp_all
    with S2(1) show "safe (save_metadata S2) (\<lambda>S3. step_ok u ?f S (out, S3))"
      by (intro safe_save nm_ok_index) simp_all
  qed
  have "safe (with_file E S sock ?f (\<lambda>S1 r m.
       if fm_owner m \<noteq> ci_username c
       then Inr ([(sock, error_reply ERR_NOT_OWNER ''ERROR: Only owner can delete file.'')], S1)
       else (case get_storage_server (nm_servers S1) (fm_ss_id m) of
               None \<Rightarrow> Inl NullDeref
             | Some s \<Rightarrow>
                 (let ss_msg = message_zero\<lparr>m_type := MSG_DELETE_FILE_SS, m_filename := m_filename msg\<rparr> in
                  case env_reply E (si_socket s) ss_msg of
                    None \<Rightarrow> Inl Uninitialised
                  | Some resp \<Rightarrow>
                      if m_error resp = ERR_SUCCESS
                      then ebind (drop_metadata S1 (m_filename msg)) (\<lambda>S2.
                           ebind (save_metadata S2) (\<lambda>S3.
                             Inr ([(si_socket s, ss_msg),
                                   (sock, ack_reply (''File '' @ CHR 0x27 # m_filename msg @ CHR 0x27 # '' deleted successfully!''))], S3)))
                      else Inr ([(si_socket s, ss_msg), (sock, error_reply ERR_SUCCESS ''ERROR: Failed to delete file.'')], S1))))) (step_ok u ?f S)"
  proof (rule safe_with_file [OF assms(1,2)], goal_cases)
    case (2 S1 r m)
    with del [of S1 m] c show ?case by (simp add: Let_def split: option.split del: safe_simps(3))
  qed simp
  then show ?thesis by (simp only: delete_file_body_def)
qed

text \<open>VIEW: the names and, with details, the counts that are fetched again.\<close>

definition visible_files :: "naming_server \<Rightarrow> string \<Rightarrow> string list" where
  "visible_files S u = filter (\<lambda>f. \<exists>m. nm_files S f = Some m \<and> check_file_access m u \<noteq> ACCESS_NONE) (trie_get_all_files (nm_trie S) 1000)"

lemma accessible_files_eq:
  assumes "index_ok S"
  shows "get_user_accessible_files (nm_heap S) (nm_trie S) u 1000 = Inr (visible_files S u)"
proof -
  let ?fs = "trie_get_all_files (nm_trie S) 1000"
  have live: "\<exists>r m. trie_search (nm_trie S) f = Some r \<and> nm_heap S r = Some m" if "f \<in> set ?fs" for f
  proof -
    from that have "trie_search (nm_trie S) f \<noteq> None" using trie_get_all_files_set by blast
    then obtain r where "trie_search (nm_trie S) f = Some r" by blast
    with index_okD(3) [OF assms this] show ?thesis by blast
  qed
  have "filter (\<lambda>f. check_file_access (the (nm_heap S (the (trie_search (nm_trie S) f)))) u \<noteq> ACCESS_NONE) ?fs = visible_files S u"
    unfolding visible_files_def
  proof (rule filter_cong [OF refl])
    fix f assume "f \<in> set ?fs"
    from live [OF this] show "(check_file_access (the (nm_heap S (the (trie_search (nm_trie S) f)))) u \<noteq> ACCESS_NONE)
        = (\<exists>m. nm_files S f = Some m \<and> check_file_access m u \<noteq> ACCESS_NONE)"
      by (auto simp: nm_files_def meta_lookup_def)
  qed
  moreover have "length (visible_files S u) \<le> 1000"
    unfolding visible_files_def by (rule le_trans [OF length_filter_le]) (simp add: trie_get_all_files_eq)
  ultimately show ?thesis
    unfolding get_user_accessible_files_def using accessible_loop_eq [OF live, of ?fs "[]" 1000 u] by simp
qed

lemma refresh_counts_ok:
  assumes "nm_ok S" "trie_search (nm_trie S) f = Some r" "nm_heap S r = Some m"
  shows "safe (refresh_counts E S r m) (\<lambda>S1. nm_ok S1 \<and> quiet S S1 \<and> nm_trie S1 = nm_trie S)"
proof -
  have m: "nm_files S f = Some m" "fm_filename m = f" "acl_ok m"
    using index_ref [OF nm_ok_index [OF assms(1)] assms(2)] assms(3) by auto
  have "safe (ebind (save_metadata (put_meta S r (with_counts E m w n))) (\<lambda>S1.
          ebind (cache_put (nm_cache S1) (fm_filename m) r (env_now E)) (\<lambda>c. Inr (S1\<lparr>nm_cache := c\<rparr>))))
        (\<lambda>S1. nm_ok S1 \<and> quiet S S1 \<and> nm_trie S1 = nm_trie S)" for w n
  proof -
    note b = bookkeeping [OF assms(1,2) m same_rights_update(2) [of m E w n]]
    have t: "nm_trie (put_meta S r x) = nm_trie S" for x by (simp add: put_meta_def)
    show ?thesis
      unfolding safe_simps
    proof (rule safe_save [OF nm_ok_index [OF b(1)]])
      fix dat
      show "safe (cache_put (nm_cache (put_meta S r (with_counts E m w n)\<lparr>nm_metadata_dat := dat\<rparr>)) (fm_filename m) r (env_now E))
          (\<lambda>c. nm_ok (put_meta S r (with_counts E m w n)\<lparr>nm_metadata_dat := dat, nm_cache := c\<rparr>)
             \<and> quiet S (put_meta S r (with_counts E m w n)\<lparr>nm_metadata_dat := dat, nm_cache := c\<rparr>)
             \<and> nm_trie (put_meta S r (with_counts E m w n)\<lparr>nm_metadata_dat := dat, nm_cache := c\<rparr>) = nm_trie S)"
        by (rule safe_cache_put) (use b(1,2) m(2) assms(2) in \<open>simp_all add: quiet_def t\<close>)
    qed
  qed
  then show ?thesis
    using assms(1) unfolding refresh_counts_def by (simp del: safe_simps(3) split: option.split)
qed

lemma view_details_ok:
  "nm_ok S \<Longrightarrow> safe (view_details E S fs d) (\<lambda>(d', S'). nm_ok S' \<and> quiet S S')"
proof (induction E S fs d rule: view_details.induct)
  case (2 E S f fs details)
  show ?case
  proof (cases "trie_search (nm_trie S) f")
    case None
    with "2.IH"(1) [OF None "2.prems"] show ?thesis by simp
  next
    case (Some r)
    obtain m where m: "nm_heap S r = Some m" using index_ref [OF nm_ok_index [OF "2.prems"] Some] by blast
    have "safe (refresh_counts E S r m) (\<lambda>S1. safe (ebind (meta_at S1 r) (\<lambda>m1.
          ebind (strcat_buf MAX_CONTENT_LEN details (view_line E m1)) (\<lambda>d. view_details E S1 fs d)))
        (\<lambda>(d', S'). nm_ok S' \<and> quiet S S'))"
    proof (rule safe_mono [OF refresh_counts_ok [OF "2.prems" Some m]])
      fix S1
      assume S1: "nm_ok S1 \<and> quiet S S1 \<and> nm_trie S1 = nm_trie S"
      then obtain m1 where m1: "nm_heap S1 r = Some m1" using index_ref [OF nm_ok_index [of S1]] Some by metis
      have "safe (view_details E S1 fs d) (\<lambda>(d', S'). nm_ok S' \<and> quiet S S')" for d
        using "2.IH"(2) [OF Some, of S1 d] S1 quiet_trans
        by (auto intro: safe_mono)
      then show "safe (ebind (meta_at S1 r) (\<lambda>m1. ebind (strcat_buf MAX_CONTENT_LEN details (view_line E m1)) (\<lambda>d. view_details E S1 fs d)))
          (\<lambda>(d', S'). nm_ok S' \<and> quiet S S')"
        by (simp add: meta_at_def m1 safe_strcat_buf)
    qed
    with Some m show ?thesis by (simp add: meta_at_def)
  qed
qed simp

lemma view_files_body_ok:
  assumes "nm_ok S"
  shows "safe (view_files_body E S sock msg c) (step_ok u f S)"
proof -
  have tail: "safe (if m_arg2 msg \<noteq> 0
       then ebind (view_details E S names view_header) (\<lambda>(d, S1).
            ebind (strcat_buf MAX_CONTENT_LEN d view_rule) (\<lambda>d'.
              Inr ([(sock, file_list_reply (strncpy_buf MAX_CONTENT_LEN d'))], S1)))
       else ebind (strcat_all MAX_CONTENT_LEN [] (map name_line names)) (\<lambda>d.
              Inr ([(sock, file_list_reply d)], S))) (step_ok u f S)" for names
    using assms by (auto simp: MAX_CONTENT_LEN_def step_ok_quiet intro!: safe_mono [OF view_details_ok [OF assms]] safe_strcat_buf)
  then show ?thesis
    unfolding view_files_body_def accessible_files_eq [OF nm_ok_index [OF assms]] by (simp del: safe_simps(3) safe_strcat)
qed

lemma create_replica_ok:
  "nm_ok S \<Longrightarrow> safe (create_replica E S p m) (\<lambda>(out, S'). nm_ok S' \<and> nm_files S' = nm_files S)"
  by (simp add: create_replica_def Let_def split: option.split)

lemma create_metadata_rights:
  assumes "length u < MAX_USERNAME_LEN"
  shows "fm_owner (create_file_metadata f u i ip p now) = u"
    "v \<noteq> u \<Longrightarrow> check_file_access (create_file_metadata f u i ip p now) v = ACCESS_NONE"
    "check_file_access (create_file_metadata f u i ip p now) u = ACCESS_WRITE"
  using assms by (simp_all add: create_file_metadata_def check_file_access_map_of)

lemma create_metadata_filename:
  "length f < MAX_FILENAME_LEN \<Longrightarrow> fm_filename (create_file_metadata f u i ip p now) = f"
  by (simp add: create_file_metadata_def)

lemma get_client_in: "get_client_by_socket cs sock = Some c \<Longrightarrow> c \<in> set cs \<and> ci_socket c = sock"
  by (auto simp: get_client_by_socket_def dest!: find_idx_SomeD)

lemma nm_handle_create_file_ok:
  assumes "nm_ok S" "short_name (m_filename msg)"
    and u: "\<And>c. get_client_by_socket (nm_clients S) sock = Some c \<Longrightarrow> u = ci_username c"
  shows "safe (nm_handle_create_file E S sock msg) (step_ok u (m_filename msg) S)"
proof (cases "get_client_by_socket (nm_clients S) sock")
  case None
  with assms(1) show ?thesis by (simp add: nm_handle_create_file_eq with_client_def)
next
  case (Some c)
  have c: "ci_username c = u" "length u < MAX_USERNAME_LEN"
    using u [OF Some] get_client_in [OF Some] assms(1) by (auto simp: nm_ok_def tables_ok_def)
  let ?f = "m_filename msg"
  show ?thesis
  proof (cases "trie_search (nm_trie S) ?f = None")
    case False
    with Some assms(1) show ?thesis by (simp add: nm_handle_create_file_eq with_client_def)
  next
    case True
    then have new: "nm_files S ?f = None" using nm_files_None [OF nm_ok_index [OF assms(1)]] by simp
    have body: "safe (ebind (add_metadata E (S\<lparr>nm_last_selected := l\<rparr>) ?f (create_file_metadata ?f u i ip p (env_now E))) (\<lambda>S2.
        ebind (save_metadata S2) (\<lambda>S3. ebind (create_replica E S3 i q) (\<lambda>(out, S4). Inr (pre @ out, S4)))))
        (step_ok u ?f S)" for l i ip p q pre
      unfolding safe_simps
    proof (rule safe_add_metadata)
      fix S2
      assume S2: "nm_ok S2" "nm_files S2 = (nm_files (S\<lparr>nm_last_selected := l\<rparr>))(?f \<mapsto> create_file_metadata ?f u i ip p (env_now E))"
      then have files: "nm_files S2 = (nm_files S)(?f \<mapsto> create_file_metadata ?f u i ip p (env_now E))" by simp
      have perm: "permitted u ?f S S2"
        by (rule permitted_create [OF new files]) (simp_all add: create_metadata_rights c)
      show "safe (save_metadata S2) (\<lambda>S3. safe (create_replica E S3 i q) (\<lambda>x. safe (case x of (out, S4) \<Rightarrow> Inr (pre @ out, S4)) (step_ok u ?f S)))"
      proof (rule safe_save [OF nm_ok_index [OF S2(1)]], rule safe_mono [OF create_replica_ok], goal_cases)
        case (2 dat x)
        then show ?case
          using perm permitted_files [of "snd x" S2] by (auto simp: step_ok_def split: prod.splits)
      qed (use S2(1) in simp)
    qed (use assms(1,2) in \<open>simp_all add: create_file_metadata_ok create_metadata_filename short_name_def\<close>)
    from body [of _ _ _ _ _ "[x, y]" for x y] show ?thesis
      using Some True assms(1) c
      by (simp add: nm_handle_create_file_eq with_client_def Let_def case_prod_unfold del: safe_simps(3) split: option.split)
  qed
qed

text \<open>Folders and requests leave the index alone.\<close>

lemma nm_ok_folders: "nm_ok S \<Longrightarrow> folders_ok fs \<Longrightarrow> nm_ok (S\<lparr>nm_folders_mutex := False, nm_folders := fs\<rparr>)"
  by (simp add: nm_ok_def tables_ok_def)

lemma nm_ok_mutex: "nm_ok S \<Longrightarrow> \<not> nm_folders_mutex S \<and> folders_ok (nm_folders S)"
  by (simp add: nm_ok_def tables_ok_def)

lemma create_folder_body_ok:
  assumes "nm_ok S" "length (m_data msg) < MAX_FILENAME_LEN"
  shows "safe (create_folder_body S sock msg c) (step_ok u f S)"
proof (cases "create_folder (nm_folders_mutex S) (nm_folders S) (m_data msg)")
  case (Inl e)
  then show ?thesis using assms(1) nm_ok_mutex [OF assms(1)] by (simp add: create_folder_free split: if_splits)
next
  case (Inr x)
  obtain rc held fs where x: "x = (rc, held, fs)" by (rule prod_cases3)
  have cf: "create_folder False (nm_folders S) (m_data msg) = Inr (rc, held, fs)" using Inr x nm_ok_mutex [OF assms(1)] by simp
  have "\<not> held" "folders_ok fs"
    using create_folder_ok [OF conjunct2 [OF nm_ok_mutex [OF assms(1)]] assms(2) cf] by simp_all
  then show ?thesis using assms(1) nm_ok_mutex [OF assms(1)] by (simp add: create_folder_body_def cf Let_def nm_ok_folders)
qed

lemma move_folders_ok:
  assumes "folders_ok fs" "length f < MAX_FILENAME_LEN"
  shows "safe (move_file_to_folder False fs f d) (\<lambda>(rc, held, fs'). \<not> held \<and> folders_ok fs')"
proof (cases "f = [] \<or> d = []")
  case True
  with assms(1) show ?thesis by (auto simp: move_file_to_folder_def)
next
  case ne: False
  show ?thesis
  proof (cases "find_folder_index fs d")
    case None
    with ne move_to_missing_folder show ?thesis by auto
  next
    case (Some i)
    with ne move_file_result [OF assms] show ?thesis by fastforce
  qed
qed

lemma nm_handle_move_file_ok:
  assumes "nm_ok S" "short_name (m_filename msg)"
  shows "safe (nm_handle_move_file E S sock msg) (step_ok u (m_filename msg) S)"
  unfolding nm_handle_move_file_eq unbroken_move
proof (rule with_client_ok [OF assms(1)], rule safe_with_file [OF assms], goal_cases)
  case (2 c S1 r m)
  have fs: "\<not> nm_folders_mutex S1" "folders_ok (nm_folders S1)" using nm_ok_mutex [OF 2(3)] by simp_all
  have live: "nm_heap S1 r = Some m" "trie_search (nm_trie S1) (m_filename msg) = Some r" using 2 by simp_all
  have mv: "safe (move_file_to_folder False (nm_folders S1) (m_filename msg) d) (\<lambda>(rc, held, fs). \<not> held \<and> folders_ok fs)" for d
    using move_folders_ok [OF fs(2)] assms(2) by (simp add: short_name_def)
  show ?case
    using 2 live fs(1) by (auto simp: Let_def meta_at_def nm_ok_folders intro!: safe_mono [OF mv])
qed simp

lemma nm_ok_requests:
  "nm_ok S \<Longrightarrow> requests_ok qs \<Longrightarrow>
   (\<forall>e \<in> set qs. length (ar_filename e) < MAX_FILENAME_LEN \<and> length (ar_requester e) < MAX_USERNAME_LEN) \<Longrightarrow>
   nm_ok (S\<lparr>nm_requests := qs\<rparr>)"
  by (simp add: nm_ok_def tables_ok_def)

lemma nm_ok_append:
  assumes ok: "nm_ok S" and f: "short_name f" "length u < MAX_USERNAME_LEN"
    and a: "access_requests_append (nm_requests S) dat f u acc now = (rc, reqs, dat')"
  shows "nm_ok (S\<lparr>nm_requests := reqs\<rparr>)"
proof (cases "f = [] \<or> u = []")
  case True
  with a ok show ?thesis by (auto simp: access_requests_append_def)
next
  case False
  have req: "requests_ok (nm_requests S)" using ok by (simp add: nm_ok_def tables_ok_def)
  have f': "f \<noteq> []" "length f < MAX_FILENAME_LEN" "u \<noteq> []" using False f by (simp_all add: short_name_def)
  have "requests_ok reqs" using append_request(1) [OF req f' f(2) a] .
  moreover have "\<forall>e \<in> set reqs. length (ar_filename e) < MAX_FILENAME_LEN \<and> length (ar_requester e) < MAX_USERNAME_LEN"
    using a ok f' f(2) by (auto simp: access_requests_append_def nm_ok_def tables_ok_def Let_def split: if_splits)
  ultimately show ?thesis by (rule nm_ok_requests [OF ok])
qed

lemma nm_request_access_ok:
  assumes "nm_ok S" "message_ok msg"
  shows "safe (nm_request_access E S sock msg) (step_ok u (m_filename msg) S)"
proof -
  have f: "short_name (m_filename msg)" "length (m_sender msg) < MAX_USERNAME_LEN"
    using assms(2) by (simp_all add: message_ok_def short_name_def)
  show ?thesis
    unfolding nm_request_access_eq
    by (rule safe_with_file [OF assms(1) f(1)])
       (auto intro!: step_ok_same intro: nm_ok_append [OF _ f] split: prod.split)
qed

lemma nm_view_requests_ok:
  assumes "nm_ok S"
  shows "safe (nm_view_requests E S sock msg) (step_ok u f S)"
proof -
  obtain n buf where "access_requests_list_for_owner (env_time E) (nm_heap S) (nm_trie S) (nm_requests S) (m_sender msg) MAX_CONTENT_LEN = Inr (n, buf)"
    using list_requests_count [OF index_live [OF nm_ok_index [OF assms]], of MAX_CONTENT_LEN "[]" "env_time E" "m_sender msg" "nm_requests S" 0]
    by (auto simp: access_requests_list_for_owner_def MAX_CONTENT_LEN_def)
  with assms show ?thesis by (simp add: nm_view_requests_def)
qed

lemma nm_ok_take:
  assumes ok: "nm_ok S" and t: "take_request (nm_requests S) dat f u = (rc, reqs, dat')"
  shows "nm_ok (S\<lparr>nm_requests := reqs\<rparr>)"
proof (rule nm_ok_requests [OF ok])
  show "requests_ok reqs" using ok take_request_cases(1) [OF _ t] by (simp add: nm_ok_def tables_ok_def)
  have old: "\<forall>e \<in> set (nm_requests S). length (ar_filename e) < MAX_FILENAME_LEN \<and> length (ar_requester e) < MAX_USERNAME_LEN"
    using ok by (simp add: nm_ok_def tables_ok_def)
  have "reqs = nm_requests S \<or> (\<exists>i < length (nm_requests S). reqs = (nm_requests S)[i := (nm_requests S ! i)\<lparr>ar_pending := False\<rparr>])"
    using t by (auto simp: take_request_def Let_def dest: find_idx_lt split: option.splits)
  then show "\<forall>e \<in> set reqs. length (ar_filename e) < MAX_FILENAME_LEN \<and> length (ar_requester e) < MAX_USERNAME_LEN"
    using old nth_mem by (auto dest!: set_update_subset_insert [THEN subsetD])
qed

text \<open>A pending request names its user in full.\<close>

lemma take_request_short:
  assumes "nm_ok S" "take_request (nm_requests S) dat f u = (rc, reqs, dat')" "rc = 0"
  shows "length u < MAX_USERNAME_LEN"
proof -
  have req: "requests_ok (nm_requests S)"
    and old: "\<forall>e \<in> set (nm_requests S). length (ar_filename e) < MAX_FILENAME_LEN \<and> length (ar_requester e) < MAX_USERNAME_LEN"
    using assms(1) by (simp_all add: nm_ok_def tables_ok_def)
  have "(f, u) \<in> set (pending_keys (nm_requests S))" using take_request_cases(3) [OF req assms(2)] assms(3) by simp
  with old show ?thesis by (auto simp: pending_keys_def)
qed

lemma resolve_ok:
  assumes S: "nm_ok S1" "nm_files S1 = nm_files S" "nm_files S f = Some m"
  shows "safe (access_requests_resolve S1 f u approve acc) (\<lambda>(rc, S2). nm_ok S2 \<and> permitted (fm_owner m) f S S2)"
proof -
  obtain rc reqs dat where t: "take_request (nm_requests S1) (nm_requests_dat S1) f u = (rc, reqs, dat)"
    by (rule prod_cases3)
  let ?S = "S1\<lparr>nm_requests := reqs, nm_requests_dat := dat\<rparr>"
  have ok: "nm_ok ?S" using nm_ok_take [OF S(1) t] by simp
  have files: "nm_files ?S = nm_files S" using S(2) by simp
  show ?thesis
  proof (cases "rc = 0 \<and> approve")
    case False
    with ok files permitted_same [OF files] show ?thesis by (auto simp: access_requests_resolve_def resolve_take_def t)
  next
    case True
    have u: "length u < MAX_USERNAME_LEN" by (rule take_request_short [OF S(1) t]) (use True in simp)
    have fm: "nm_files ?S f = Some m" using S(2,3) by simp
    obtain r where r: "trie_search (nm_trie ?S) f = Some r" "nm_heap ?S r = Some m" "fm_filename m = f" "acl_ok m"
      by (rule nm_files_Some [OF nm_ok_index [OF ok] fm])
    have m': "fm_filename (fst (add_file_access m u acc)) = f" "acl_ok (fst (add_file_access m u acc))"
      using r u by (simp_all add: add_file_access_ok)
    have "safe (ebind (save_metadata (put_meta ?S r (fst (add_file_access m u acc)))) (\<lambda>S2. Inr ([], S2))) (step_ok (fm_owner m) f S)"
      by (rule owner_change_ok [OF ok files S(3) r(1) m']) simp
    then have "safe (save_metadata (put_meta ?S r (fst (add_file_access m u acc)))) (\<lambda>S2. nm_ok S2 \<and> permitted (fm_owner m) f S S2)"
      by (simp add: step_ok_def)
    with True r show ?thesis by (simp add: access_requests_resolve_def resolve_take_def resolve_grant_def t meta_at_def)
  qed
qed

lemma nm_approve_request_ok:
  assumes "nm_ok S" "short_name (m_filename msg)"
  shows "safe (nm_approve_request E S sock msg) (step_ok (m_sender msg) (m_filename msg) S)"
  unfolding nm_resolve_request_eq
proof (rule safe_with_file [OF assms], goal_cases)
  case (2 S1 r m)
  show ?case
  proof (cases "fm_owner m = m_sender msg")
    case True
    have "safe (access_requests_resolve S1 (m_filename msg) (m_data msg) True (requested_access msg)) (\<lambda>(rc, S2). nm_ok S2 \<and> permitted (m_sender msg) (m_filename msg) S S2)"
      using resolve_ok [OF 2(2,3,4)] True by simp
    then show ?thesis using True by (auto simp: step_ok_def elim!: safe_mono)
  qed (use 2 in simp)
qed simp

lemma nm_deny_request_ok:
  assumes "nm_ok S" "short_name (m_filename msg)"
  shows "safe (nm_deny_request E S sock msg) (step_ok u (m_filename msg) S)"
  unfolding nm_resolve_request_eq
proof (rule safe_with_file [OF assms], goal_cases)
  case (2 S1 r m)
  obtain rc reqs dat where t: "take_request (nm_requests S1) (nm_requests_dat S1) (m_filename msg) (m_data msg) = (rc, reqs, dat)"
    by (rule prod_cases3)
  have "nm_ok (S1\<lparr>nm_requests := reqs, nm_requests_dat := dat\<rparr>)" using nm_ok_take [OF 2(2) t] by simp
  with 2 show ?case by (simp add: access_requests_resolve_def resolve_take_def t)
qed simp

lemma nm_register_ok:
  assumes "nm_ok S" "message_ok msg"
  shows "safe (nm_register E S sock ip port msg) (step_ok u f S)"
proof -
  have u: "length (m_sender msg) < MAX_USERNAME_LEN" using assms(2) by (simp add: message_ok_def)
  have st: "\<forall>c \<in> set (drop n (nm_stale S)). length (ci_username c) < MAX_USERNAME_LEN" for n
    using assms(1) by (auto simp: nm_ok_def tables_ok_def dest: in_set_dropD)
  show ?thesis
    using assms(1) u st
    by (auto simp: nm_register_def register_client_def users_save_append_def nm_ok_def tables_ok_def Let_def permitted_same step_ok_def
        split: if_splits)
qed

section \<open>Every message of a client\<close>

text \<open>Who acts: the user of the connection, but the answers to requests go by the name in the message.\<close>

definition acting_user :: "naming_server \<Rightarrow> int \<Rightarrow> message \<Rightarrow> string" where
  "acting_user S sock msg =
     (if m_type msg = MSG_APPROVE_REQUEST then m_sender msg
      else (case get_client_by_socket (nm_clients S) sock of None \<Rightarrow> [] | Some c \<Rightarrow> ci_username c))"

lemma handle_client_message_ok:
  assumes "nm_ok S" "request_ok msg"
  shows "safe (handle_client_message E S sock ip port msg) (step_ok (acting_user S sock msg) (m_filename msg) S)"
proof -
  have f: "short_name (m_filename msg)" "message_ok msg" using assms(2) by (simp_all add: request_ok_def message_ok_def short_name_def)
  have u: "ci_username c = acting_user S sock msg"
    if "get_client_by_socket (nm_clients S) sock = Some c" "m_type msg \<noteq> MSG_APPROVE_REQUEST" for c
    using that by (simp add: acting_user_def)
  note bodies = lookup_bodies_ok [OF assms(1) f(1)] file_bodies_ok [OF assms(1) f(1)] view_folder_body_ok [OF assms(1)]
    view_files_body_ok [OF assms(1)]
  have own: "m_type msg \<noteq> MSG_APPROVE_REQUEST \<Longrightarrow> safe (nm_handle_remove_access E S sock msg) (step_ok (acting_user S sock msg) (m_filename msg) S)"
    "m_type msg \<noteq> MSG_APPROVE_REQUEST \<Longrightarrow> safe (nm_handle_delete_file E S sock msg) (step_ok (acting_user S sock msg) (m_filename msg) S)"
    "m_type msg \<noteq> MSG_APPROVE_REQUEST \<Longrightarrow> safe (nm_handle_create_file E S sock msg) (step_ok (acting_user S sock msg) (m_filename msg) S)"
    "m_type msg = MSG_ADDACCESS \<Longrightarrow> safe (nm_handle_add_access E S sock msg) (step_ok (acting_user S sock msg) (m_filename msg) S)"
    unfolding nm_handle_remove_access_def nm_handle_delete_file_def nm_handle_add_access_def
    using assms(1) f(1) u assms(2)
    by (auto simp: request_ok_def intro!: with_client_ok remove_access_body_ok delete_file_body_ok nm_handle_create_file_ok add_access_body_ok)
  have quiet: "safe (nm_handle_read_file E S sock msg) (step_ok u (m_filename msg) S)"
    "safe (nm_handle_stream_lookup E S sock msg) (step_ok u (m_filename msg) S)"
    "safe (nm_handle_undo_lookup E S sock msg) (step_ok u (m_filename msg) S)"
    "safe (nm_handle_write_file E S sock msg) (step_ok u (m_filename msg) S)"
    "safe (nm_handle_checkpoint_request E S sock msg) (step_ok u (m_filename msg) S)"
    "safe (nm_handle_info_file E S sock msg) (step_ok u (m_filename msg) S)"
    "safe (nm_handle_view_folder S sock msg) (step_ok u (m_filename msg) S)"
    "safe (nm_handle_view_files E S sock msg) (step_ok u (m_filename msg) S)" for u
    unfolding nm_handle_read_file_def nm_handle_stream_lookup_def nm_handle_undo_lookup_def nm_handle_write_file_def
      nm_handle_checkpoint_request_def nm_handle_info_file_def nm_handle_view_folder_def nm_handle_view_files_def
    by (rule with_client_ok [OF assms(1)], rule bodies)+
  have approve: "m_type msg = MSG_APPROVE_REQUEST \<Longrightarrow> safe (nm_approve_request E S sock msg) (step_ok (acting_user S sock msg) (m_filename msg) S)"
    using nm_approve_request_ok [OF assms(1) f(1)] by (simp add: acting_user_def)
  have folder: "m_type msg = MSG_CREATE_FOLDER \<Longrightarrow> safe (nm_handle_create_folder S sock msg) (step_ok (acting_user S sock msg) (m_filename msg) S)"
    unfolding nm_handle_create_folder_def
    using assms by (auto simp: request_ok_def intro!: with_client_ok create_folder_body_ok)
  show ?thesis
    unfolding handle_client_message_eq
    using assms(1) quiet own approve folder nm_handle_exec_file_ok [OF assms(1) f(1)] nm_handle_move_file_ok [OF assms(1) f(1)]
      nm_deny_request_ok [OF assms(1) f(1)] nm_handle_list_users_ok [OF assms(1)] nm_view_requests_ok [OF assms(1)]
      nm_request_access_ok [OF assms(1) f(2)] nm_register_ok [OF assms(1) f(2)]
    by (cases "m_type msg") simp_all
qed

lemma leave_client_ok: "nm_ok S \<Longrightarrow> nm_ok (leave_client S sock)"
proof -
  have "length (remove_client cs sock) \<le> length cs \<and> set (remove_client cs sock) \<subseteq> set cs" for cs
    using set_delete_at_subset by (auto simp: remove_client_def length_delete_at dest: find_idx_lt split: option.split)
  then have "length (remove_client (nm_clients S) sock) \<le> length (nm_clients S)" "set (remove_client (nm_clients S) sock) \<subseteq> set (nm_clients S)"
    by blast+
  then show "nm_ok S \<Longrightarrow> ?thesis" by (auto simp: leave_client_def Let_def nm_ok_def tables_ok_def dest: in_set_dropD)
qed

lemma leave_client_files [simp]: "nm_files (leave_client S sock) = nm_files S"
  by (simp add: leave_client_def Let_def)

text \<open>Whatever a pointer into the table of clients reads, the name fits its buffer.\<close>

lemma client_slot_short:
  assumes "nm_ok S"
  shows "length (ci_username (client_slot S i)) < MAX_USERNAME_LEN"
proof (cases "i < length (nm_clients S @ nm_stale S)")
  case True
  then have "client_slot S i \<in> set (nm_clients S @ nm_stale S)" by (simp only: client_slot_def Let_def if_True nth_mem)
  with assms show ?thesis by (auto simp: nm_ok_def tables_ok_def)
qed (simp add: client_slot_def client_zero_def limit_defs)

end
