(* ===== verification/Naming_Effects.thy ===== *)
theory Naming_Effects
  imports Naming_Invariant
begin

text \<open>
  What the handlers of the naming server answer and do to the table of files, on every
  branch.  The lemmas compute the result of a handler from the table alone; the cache, the
  heap and the trie do not appear in them any more.
\<close>

section \<open>Finding the file\<close>

lemma with_file_found:
  assumes "nm_ok S" "short_name f" "nm_files S f = Some m"
  obtains S1 r where "\<And>g sock. with_file E S sock f g = g S1 r m" "same_but_cache S S1" "nm_ok S1" "nm_files S1 = nm_files S"
    "trie_search (nm_trie S1) f = Some r" "nm_heap S1 r = Some m" "fm_filename m = f" "acl_ok m"
proof -
  obtain S1 where S1: "lookup_metadata E S f = Inr (S1, trie_search (nm_trie S) f)" "same_but_cache S S1" "index_ok S1"
    using lookup_metadata_spec [OF nm_ok_index [OF assms(1)] assms(2)] by blast
  from S1(2) obtain c where c: "S1 = S\<lparr>nm_cache := c\<rparr>" by (auto simp: same_but_cache_def)
  obtain r where r: "trie_search (nm_trie S) f = Some r" "nm_heap S r = Some m" "fm_filename m = f" "acl_ok m"
    by (rule nm_files_Some [OF nm_ok_index [OF assms(1)] assms(3)])
  have "with_file E S sock f g = g S1 r m" for g sock
    using S1(1) r by (simp add: with_file_def meta_at_def c)
  moreover have "nm_ok S1" using assms(1) S1(3) by (simp add: nm_ok_def c)
  ultimately show ?thesis using that S1(2) r c by simp
qed

lemma with_file_missing:
  assumes "nm_ok S" "short_name f" "nm_files S f = None"
  obtains S1 where "\<And>g sock. with_file E S sock f g = Inr ([(sock, file_not_found)], S1)" "same_but_cache S S1" "nm_ok S1"
    "nm_files S1 = nm_files S"
proof -
  obtain S1 where S1: "lookup_metadata E S f = Inr (S1, trie_search (nm_trie S) f)" "same_but_cache S S1" "index_ok S1"
    using lookup_metadata_spec [OF nm_ok_index [OF assms(1)] assms(2)] by blast
  from S1(2) obtain c where c: "S1 = S\<lparr>nm_cache := c\<rparr>" by (auto simp: same_but_cache_def)
  have "trie_search (nm_trie S) f = None" using assms(3) nm_files_None [OF nm_ok_index [OF assms(1)]] by simp
  with S1(1) have "with_file E S sock f g = Inr ([(sock, file_not_found)], S1)" for g sock by (simp add: with_file_def)
  moreover have "nm_ok S1" using assms(1) S1(3) by (simp add: nm_ok_def c)
  ultimately show ?thesis using that S1(2) c by simp
qed

lemma same_but_cache_fields:
  assumes "same_but_cache S S1"
  shows "nm_servers S1 = nm_servers S" "nm_replicas S1 = nm_replicas S" "nm_requests S1 = nm_requests S"
    "nm_requests_dat S1 = nm_requests_dat S" "nm_folders S1 = nm_folders S" "nm_clients S1 = nm_clients S"
    "route S1 = route S"
  using assms by (auto simp: same_but_cache_def route_def)

lemma message_short: "message_ok msg \<Longrightarrow> short_name (m_filename msg)"
  by (simp add: message_ok_def short_name_def)

section \<open>Lookups\<close>

text \<open>The answer to a request for the place of a file; \<open>enough\<close> is the test of the permission.\<close>

definition lookup_reply :: "naming_server \<Rightarrow> (access_type \<Rightarrow> bool) \<Rightarrow> string \<Rightarrow> string \<Rightarrow> message" where
  "lookup_reply S enough u f =
     (case nm_files S f of
        None \<Rightarrow> file_not_found
      | Some m \<Rightarrow>
          if \<not> enough (check_file_access m u) then access_denied
          else (case route S m of None \<Rightarrow> ss_unavailable | Some s \<Rightarrow> ss_address s))"

lemma write_effect:
  assumes "nm_ok S" "message_ok msg" "get_client_by_socket (nm_clients S) sock = Some c"
  shows "\<exists>S'. nm_handle_write_file E S sock msg
      = Inr ([(sock, lookup_reply S (\<lambda>a. a = ACCESS_WRITE) (ci_username c) (m_filename msg))], S') \<and> nm_files S' = nm_files S"
proof (cases "nm_files S (m_filename msg)")
  case None
  show ?thesis
    by (rule with_file_missing [OF assms(1) message_short [OF assms(2)] None, of E])
       (simp add: nm_handle_write_file_def write_file_body_def with_client_def assms(3) lookup_reply_def None)
next
  case (Some m)
  obtain S1 r where S1: "\<And>g sock. with_file E S sock (m_filename msg) g = g S1 r m" "same_but_cache S S1" "nm_files S1 = nm_files S"
    by (rule with_file_found [OF assms(1) message_short [OF assms(2)] Some, of E]) blast
  show ?thesis
    using S1(3) by (simp add: nm_handle_write_file_def write_file_body_def with_client_def assms(3) S1(1) lookup_reply_def Some
        same_but_cache_fields(7) [OF S1(2)] split: option.split)
qed

lemma read_effect:
  assumes "nm_ok S" "message_ok msg" "get_client_by_socket (nm_clients S) sock = Some c"
  shows "\<exists>S'. nm_handle_read_file E S sock msg
      = Inr ([(sock, lookup_reply S (\<lambda>a. a \<noteq> ACCESS_NONE) (ci_username c) (m_filename msg))], S')
    \<and> (nm_files S' = nm_files S
       \<or> (\<exists>m. nm_files S (m_filename msg) = Some m \<and> nm_files S' = (nm_files S)(m_filename msg \<mapsto> touch E c m)))"
proof (cases "nm_files S (m_filename msg)")
  case None
  show ?thesis
    by (rule with_file_missing [OF assms(1) message_short [OF assms(2)] None, of E])
       (simp add: nm_handle_read_file_def read_file_body_def with_client_def assms(3) lookup_reply_def None)
next
  case (Some m)
  obtain S1 r where S1: "\<And>g sock. with_file E S sock (m_filename msg) g = g S1 r m" "same_but_cache S S1" "nm_ok S1"
    "nm_files S1 = nm_files S" "trie_search (nm_trie S1) (m_filename msg) = Some r" "fm_filename m = m_filename msg" "acl_ok m"
    by (rule with_file_found [OF assms(1) message_short [OF assms(2)] Some, of E]) blast
  have "nm_files (put_meta S1 r (touch E c m)) = (nm_files S)(m_filename msg \<mapsto> touch E c m)"
    using bookkeeping(3) [OF S1(3,5) _ S1(6,7) same_rights_update(1) [of m E c]] Some S1(4) by simp
  with S1(4) Some show ?thesis
    by (simp add: nm_handle_read_file_def read_file_body_def with_client_def assms(3) S1(1) lookup_reply_def
        same_but_cache_fields(7) [OF S1(2)] split: option.split)
qed

text \<open>STREAM and UNDO are answered as READ is.\<close>

lemma read_like_same:
  "nm_handle_stream_lookup = nm_handle_read_file" "nm_handle_undo_lookup = nm_handle_read_file"
  by (intro ext, simp add: nm_handle_stream_lookup_def stream_lookup_body_def nm_handle_undo_lookup_def undo_lookup_body_def nm_handle_read_file_def read_file_body_def)+

section \<open>Changes of the table\<close>

text \<open>The file of metadata that goes with the state.\<close>

definition metadata_saved :: "naming_server \<Rightarrow> bool" where
  "metadata_saved S \<longleftrightarrow> trie_save_to_disk (nm_trie S) (nm_heap S) = Inr (nm_metadata_dat S)"

lemma save_effect:
  assumes "index_ok S"
  obtains dat where "save_metadata S = Inr (S\<lparr>nm_metadata_dat := dat\<rparr>)" "metadata_saved (S\<lparr>nm_metadata_dat := dat\<rparr>)"
  using save_metadata_spec [OF assms] by (auto simp: metadata_saved_def)

lemma owner_update_effect:
  assumes S1: "nm_ok S1" "trie_search (nm_trie S1) f = Some r" and m': "fm_filename m' = f" "acl_ok m'"
  obtains S2 where "save_metadata (put_meta S1 r m') = Inr S2" "nm_ok S2" "nm_files S2 = (nm_files S1)(f \<mapsto> m')" "metadata_saved S2"
    "nm_servers S2 = nm_servers S1" "nm_replicas S2 = nm_replicas S1" "nm_clients S2 = nm_clients S1" "nm_requests S2 = nm_requests S1"
proof -
  note p = nm_ok_put_meta [OF S1 m'] put_meta_spec(2) [OF nm_ok_index [OF S1(1)] S1(2) m']
  obtain dat where "save_metadata (put_meta S1 r m') = Inr (put_meta S1 r m'\<lparr>nm_metadata_dat := dat\<rparr>)"
    "metadata_saved (put_meta S1 r m'\<lparr>nm_metadata_dat := dat\<rparr>)"
    by (rule save_effect [OF nm_ok_index [OF p(1)]])
  with p show ?thesis by (intro that [of "put_meta S1 r m'\<lparr>nm_metadata_dat := dat\<rparr>"]) (simp_all add: put_meta_def)
qed

text \<open>The body of ADDACCESS, for the client that it reads.\<close>

lemma add_access_body_effect:
  assumes "nm_ok S" "message_ok msg" "length (m_data msg) < MAX_USERNAME_LEN"
    and m: "nm_files S (m_filename msg) = Some m" "fm_owner m = ci_username c"
  shows "\<exists>S'. add_access_body E S sock msg c = Inr ([(sock, ack_reply ''Access granted successfully!'')], S')
    \<and> nm_ok S' \<and> metadata_saved S'
    \<and> nm_files S' = (nm_files S)(m_filename msg \<mapsto> fst (add_file_access m (m_data msg) (if m_arg1 msg = 1 then ACCESS_READ else ACCESS_WRITE)))
    \<and> nm_servers S' = nm_servers S \<and> nm_replicas S' = nm_replicas S \<and> nm_clients S' = nm_clients S"
proof -
  obtain S1 r where S1: "\<And>g sock. with_file E S sock (m_filename msg) g = g S1 r m" "same_but_cache S S1" "nm_ok S1"
    "nm_files S1 = nm_files S" "trie_search (nm_trie S1) (m_filename msg) = Some r" "fm_filename m = m_filename msg" "acl_ok m"
    by (rule with_file_found [OF assms(1) message_short [OF assms(2)] m(1), of E]) blast
  let ?m = "fst (add_file_access m (m_data msg) (if m_arg1 msg = 1 then ACCESS_READ else ACCESS_WRITE))"
  have m': "fm_filename ?m = m_filename msg" "acl_ok ?m" using S1(6,7) assms(3) by (simp_all add: add_file_access_ok)
  show ?thesis
    by (rule owner_update_effect [OF S1(3,5) m'])
       (simp add: add_access_body_def S1(1) m(2) S1(4) Let_def same_but_cache_fields [OF S1(2)])
qed

lemma add_access_effect:
  assumes "nm_ok S" "message_ok msg" "length (m_data msg) < MAX_USERNAME_LEN"
    and c: "get_client_by_socket (nm_clients S) sock = Some c" and m: "nm_files S (m_filename msg) = Some m" "fm_owner m = ci_username c"
  shows "\<exists>S'. nm_handle_add_access E S sock msg = Inr ([(sock, ack_reply ''Access granted successfully!'')], S')
    \<and> nm_ok S' \<and> metadata_saved S'
    \<and> nm_files S' = (nm_files S)(m_filename msg \<mapsto> fst (add_file_access m (m_data msg) (if m_arg1 msg = 1 then ACCESS_READ else ACCESS_WRITE)))
    \<and> nm_servers S' = nm_servers S \<and> nm_replicas S' = nm_replicas S \<and> nm_clients S' = nm_clients S"
  using add_access_body_effect [OF assms(1-3) m] by (simp add: nm_handle_add_access_def with_client_def c)

lemma not_owner_effect:
  assumes "nm_ok S" "message_ok msg" and c: "get_client_by_socket (nm_clients S) sock = Some c"
    and m: "nm_files S (m_filename msg) = Some m" "fm_owner m \<noteq> ci_username c"
  shows "\<exists>S'. nm_handle_add_access E S sock msg = Inr ([(sock, not_owner ''ERROR: Access denied.'')], S') \<and> nm_files S' = nm_files S"
    "\<exists>S'. nm_handle_remove_access E S sock msg = Inr ([(sock, not_owner ''ERROR: Access denied.'')], S') \<and> nm_files S' = nm_files S"
    "\<exists>S'. nm_handle_delete_file E S sock msg = Inr ([(sock, not_owner ''ERROR: Only owner can delete file.'')], S') \<and> nm_files S' = nm_files S"
  by (rule with_file_found [OF assms(1) message_short [OF assms(2)] m(1), of E],
      simp add: nm_handle_add_access_def add_access_body_def nm_handle_remove_access_def remove_access_body_def nm_handle_delete_file_def delete_file_body_def not_owner_def with_client_def c m(2))+

lemma delete_effect:
  assumes "nm_ok S" "message_ok msg" and c: "get_client_by_socket (nm_clients S) sock = Some c"
    and m: "nm_files S (m_filename msg) = Some m" "fm_owner m = ci_username c"
    and s: "get_storage_server (nm_servers S) (fm_ss_id m) = Some s"
    and resp: "env_reply E (si_socket s) (message_zero\<lparr>m_type := MSG_DELETE_FILE_SS, m_filename := m_filename msg\<rparr>) = Some resp"
  shows "\<exists>S' reply. nm_handle_delete_file E S sock msg
        = Inr ([(si_socket s, message_zero\<lparr>m_type := MSG_DELETE_FILE_SS, m_filename := m_filename msg\<rparr>), (sock, reply)], S')
    \<and> nm_ok S'
    \<and> (if m_error resp = ERR_SUCCESS
       then m_type reply = MSG_ACK \<and> nm_files S' = (nm_files S)(m_filename msg := None) \<and> metadata_saved S'
       else m_type reply = MSG_ERROR \<and> nm_files S' = nm_files S)"
proof -
  obtain S1 r where S1: "\<And>g sock. with_file E S sock (m_filename msg) g = g S1 r m" "same_but_cache S S1" "nm_ok S1"
    "nm_files S1 = nm_files S"
    by (rule with_file_found [OF assms(1) message_short [OF assms(2)] m(1), of E]) blast
  note simps = nm_handle_delete_file_def delete_file_body_def with_client_def c S1(1) m(2) same_but_cache_fields(1) [OF S1(2)] s Let_def resp
  show ?thesis
  proof (cases "m_error resp = ERR_SUCCESS")
    case False
    with S1(3,4) show ?thesis by (simp add: simps)
  next
    case True
    obtain S2 where S2: "drop_metadata S1 (m_filename msg) = Inr S2" "nm_ok S2" "nm_files S2 = (nm_files S1)(m_filename msg := None)"
    proof -
      have "safe (drop_metadata S1 (m_filename msg)) (\<lambda>S2. nm_ok S2 \<and> nm_files S2 = (nm_files S1)(m_filename msg := None))"
        by (rule safe_drop_metadata [OF S1(3)]) simp
      with drop_metadata_spec [OF nm_ok_index [OF S1(3)]] that show ?thesis by fastforce
    qed
    obtain dat where "save_metadata S2 = Inr (S2\<lparr>nm_metadata_dat := dat\<rparr>)" "metadata_saved (S2\<lparr>nm_metadata_dat := dat\<rparr>)"
      by (rule save_effect [OF nm_ok_index [OF S2(2)]])
    with True S2 S1(4) show ?thesis by (simp add: simps)
  qed
qed

section \<open>CREATE\<close>

definition create_request :: "message \<Rightarrow> client_info \<Rightarrow> message" where
  "create_request msg c = message_zero\<lparr>m_type := MSG_CREATE_FILE_SS, m_filename := m_filename msg, m_sender := ci_username c\<rparr>"

lemma create_replica_effect:
  assumes "\<And>s. s \<in> set (nm_servers S) \<Longrightarrow> env_reply E (si_socket s) q \<noteq> None"
  obtains out reps where "create_replica E S p q = Inr (out, S\<lparr>nm_replicas := reps\<rparr>)" "set out \<subseteq> (\<lambda>s. (si_socket s, q)) ` set (nm_servers S)"
proof (cases "replicas_pick_alternate (nm_servers S) p < 0 \<or> get_storage_server (nm_servers S) (replicas_pick_alternate (nm_servers S) p) = None")
  case True
  then have "create_replica E S p q = Inr ([], S\<lparr>nm_replicas := nm_replicas S\<rparr>)" by (auto simp: create_replica_def Let_def)
  then show ?thesis by (rule that) simp
next
  case False
  then obtain s where s: "get_storage_server (nm_servers S) (replicas_pick_alternate (nm_servers S) p) = Some s" by blast
  then have mem: "s \<in> set (nm_servers S)" by (auto simp: get_storage_server_def split: if_splits)
  with assms obtain rack where "env_reply E (si_socket s) q = Some rack" by blast
  with False s have "create_replica E S p q = Inr ([(si_socket s, q)],
      S\<lparr>nm_replicas := if m_type rack = MSG_ACK
        then snd (replicas_set (nm_replicas S) (m_filename q) p [replicas_pick_alternate (nm_servers S) p]) else nm_replicas S\<rparr>)"
    by (simp add: create_replica_def Let_def)
  then show ?thesis by (rule that) (use mem in auto)
qed

lemma create_effect:
  assumes "nm_ok S" "message_ok msg" and c: "get_client_by_socket (nm_clients S) sock = Some c"
    and new: "nm_files S (m_filename msg) = None"
    and s: "select_storage_server_for_new_file (nm_servers S) (nm_last_selected S) = (Some s, l)"
    and resp: "env_reply E (si_socket s) (create_request msg c) = Some resp"
    and replies: "\<And>s'. s' \<in> set (nm_servers S) \<Longrightarrow> env_reply E (si_socket s') (create_request msg c) \<noteq> None"
  shows "if m_error resp = ERR_SUCCESS
    then \<exists>out S'. nm_handle_create_file E S sock msg
            = Inr ((si_socket s, create_request msg c) # (sock, ack_reply ''File Created Successfully!'') # out, S')
         \<and> nm_ok S' \<and> nm_last_selected S' = l \<and> metadata_saved S'
         \<and> nm_files S' = (nm_files S)(m_filename msg \<mapsto> create_file_metadata (m_filename msg) (ci_username c) (si_id s) (si_ip s) (si_client_port s) (env_now E))
         \<and> nm_servers S' = nm_servers S \<and> nm_clients S' = nm_clients S
    else nm_handle_create_file E S sock msg
            = Inr ([(si_socket s, create_request msg c), (sock, error_reply (m_error resp) ''ERROR: Failed to create file.'')], S\<lparr>nm_last_selected := l\<rparr>)"
proof -
  have none: "trie_search (nm_trie S) (m_filename msg) = None" using new nm_files_None [OF nm_ok_index [OF assms(1)]] by simp
  note simps = nm_handle_create_file_eq with_client_def c none s Let_def create_request_def [symmetric] resp
  show ?thesis
  proof (cases "m_error resp = ERR_SUCCESS")
    case False
    then show ?thesis by (simp add: simps)
  next
    case True
    let ?f = "m_filename msg" and ?S = "S\<lparr>nm_last_selected := l\<rparr>"
    let ?m = "create_file_metadata ?f (ci_username c) (si_id s) (si_ip s) (si_client_port s) (env_now E)"
    have short: "short_name ?f" by (rule message_short [OF assms(2)])
    have m: "fm_filename ?m = ?f" "acl_ok ?m" using short by (simp_all add: create_metadata_filename create_file_metadata_ok short_name_def)
    have ok: "nm_ok ?S" using assms(1) by simp
    obtain S2 where S2: "add_metadata E ?S ?f ?m = Inr S2" "index_ok S2" "nm_files S2 = (nm_files ?S)(?f \<mapsto> ?m)"
      "S2 = ?S\<lparr>nm_heap := nm_heap S2, nm_fresh := nm_fresh S2, nm_trie := nm_trie S2, nm_cache := nm_cache S2\<rparr>"
      using add_metadata_spec [OF nm_ok_index [OF ok] short m, of E] by blast
    have fields: "tables_ok S2" "nm_servers S2 = nm_servers S" "nm_clients S2 = nm_clients S" "nm_last_selected S2 = l"
      using ok by (subst S2(4), simp add: nm_ok_def)+
    obtain dat where dat: "save_metadata S2 = Inr (S2\<lparr>nm_metadata_dat := dat\<rparr>)" "metadata_saved (S2\<lparr>nm_metadata_dat := dat\<rparr>)"
      by (rule save_effect [OF S2(2)])
    let ?S3 = "S2\<lparr>nm_metadata_dat := dat\<rparr>"
    obtain out reps where r: "create_replica E ?S3 (si_id s) (create_request msg c) = Inr (out, ?S3\<lparr>nm_replicas := reps\<rparr>)"
      by (rule create_replica_effect [of ?S3 E "create_request msg c" "si_id s"]) (use replies fields(2) in auto)
    have "metadata_saved (?S3\<lparr>nm_replicas := reps\<rparr>)" using dat(2) by (simp add: metadata_saved_def)
    moreover have "nm_ok (?S3\<lparr>nm_replicas := reps\<rparr>)" using S2(2) fields(1) by (simp add: nm_ok_def)
    ultimately show ?thesis
      using True S2(1,3) dat(1) r fields by (simp add: simps)
  qed
qed

section \<open>Folders\<close>

lemma move_effect:
  assumes "nm_ok S" "message_ok msg" and c: "get_client_by_socket (nm_clients S) sock = Some c"
    and m: "nm_files S (m_filename msg) = Some m" and ne: "m_filename msg \<noteq> []" "m_data msg \<noteq> []"
    and d: "find_folder_index (nm_folders S) (m_data msg) \<noteq> None"
  shows "\<exists>out reply S'. nm_handle_move_file E S sock msg = Inr (out @ [(sock, reply)], S') \<and> nm_ok S'
    \<and> (m_type reply = MSG_ACK \<longrightarrow> (\<forall>d'. in_folder (nm_folders S') d' (m_filename msg) \<longleftrightarrow> d' = m_data msg)
          \<and> nm_folders_dat S' = folders_save_to_disk (nm_folders S'))
    \<and> (\<forall>d' g. g \<noteq> m_filename msg \<longrightarrow> in_folder (nm_folders S') d' g = in_folder (nm_folders S) d' g)
    \<and> (m_type reply \<noteq> MSG_ACK \<longrightarrow> (\<exists>e \<in> set (nm_folders S). fd_name e = m_data msg \<and> length (fd_files e) = 1000))"
proof -
  let ?f = "m_filename msg" and ?d = "m_data msg"
  obtain S1 r where S1: "\<And>g sock. with_file E S sock ?f g = g S1 r m" "same_but_cache S S1" "nm_ok S1"
    "nm_files S1 = nm_files S" "trie_search (nm_trie S1) ?f = Some r" "nm_heap S1 r = Some m"
    by (rule with_file_found [OF assms(1) message_short [OF assms(2)] m, of E]) blast
  have free: "\<not> nm_folders_mutex S1" using nm_ok_mutex [OF S1(3)] by simp
  from d obtain i where i: "find_folder_index (nm_folders S) ?d = Some i" by blast
  have fok: "folders_ok (nm_folders S)" using assms(1) by (simp add: nm_ok_def tables_ok_def)
  have short: "length ?f < MAX_FILENAME_LEN" using assms(2) by (simp add: message_ok_def)
  obtain rc fs where mv: "move_file_to_folder False (nm_folders S) ?f ?d = Inr (rc, False, fs)" "folders_ok fs"
    "rc = 0 \<longrightarrow> (\<forall>d'. in_folder fs d' ?f \<longleftrightarrow> d' = ?d)"
    "\<forall>d' g. g \<noteq> ?f \<longrightarrow> in_folder fs d' g = in_folder (nm_folders S) d' g"
    "rc \<noteq> 0 \<longrightarrow> length (fd_files (nm_folders S ! i)) = 1000"
    using move_file_result [OF fok short ne i] by blast
  have full: "rc \<noteq> 0 \<Longrightarrow> \<exists>e \<in> set (nm_folders S). fd_name e = ?d \<and> length (fd_files e) = 1000"
    using mv(5) find_folder_SomeD [OF i] nth_mem by blast
  note simps = nm_handle_move_file_eq unbroken_move with_client_def c S1(1) ne same_but_cache_fields(5) [OF S1(2)] free mv(1) Let_def S1(5,6) meta_at_def
  show ?thesis
  proof (cases "rc = 0")
    case True
    have "nm_ok (S1\<lparr>nm_folders_mutex := False, nm_folders := fs, nm_folders_dat := folders_save_to_disk fs\<rparr>)" using nm_ok_folders [OF S1(3) mv(2)] by simp
    with True mv(3,4) show ?thesis by (simp add: simps)
  next
    case False
    have "nm_ok (S1\<lparr>nm_folders_mutex := False, nm_folders := fs\<rparr>)" by (rule nm_ok_folders [OF S1(3) mv(2)])
    with False mv(4) full show ?thesis
      by (auto simp: simps intro!: exI [of _ "[]"])
  qed
qed

lemma move_deadlock:
  assumes "nm_ok S" "message_ok msg" and c: "get_client_by_socket (nm_clients S) sock = Some c"
    and m: "nm_files S (m_filename msg) = Some m" and ne: "m_filename msg \<noteq> []" "m_data msg \<noteq> []"
    and d: "find_folder_index (nm_folders S) (m_data msg) = None"
  shows "nm_handle_move_file E S sock msg = Inl Deadlock"
proof -
  obtain S1 r where S1: "\<And>g sock. with_file E S sock (m_filename msg) g = g S1 r m" "same_but_cache S S1" "nm_ok S1"
    by (rule with_file_found [OF assms(1) message_short [OF assms(2)] m, of E]) blast
  then show ?thesis
    using move_to_missing_folder [OF d ne] nm_ok_mutex [of S1]
    by (simp add: nm_handle_move_file_eq unbroken_move with_client_def c ne same_but_cache_fields(5))
qed

section \<open>Access requests\<close>

lemma request_effect:
  assumes "nm_ok S" "message_ok msg" and m: "nm_files S (m_filename msg) = Some m"
    and u: "fm_owner m \<noteq> m_sender msg" "\<not> requested_access msg \<le> check_file_access m (m_sender msg)"
    and ne: "m_filename msg \<noteq> []" "m_sender msg \<noteq> []"
    and room: "(m_filename msg, m_sender msg) \<notin> set (pending_keys (nm_requests S))" "length (nm_requests S) < 1000"
  shows "\<exists>S'. nm_request_access E S sock msg = Inr ([(sock, ack_reply ''Access request queued.'')], S') \<and> nm_ok S'
    \<and> nm_files S' = nm_files S
    \<and> set (pending_keys (nm_requests S')) = insert (m_filename msg, m_sender msg) (set (pending_keys (nm_requests S)))
    \<and> nm_requests_dat S' = access_requests_flush_all (nm_requests S')"
proof -
  let ?f = "m_filename msg" and ?u = "m_sender msg"
  obtain S1 r where S1: "\<And>g sock. with_file E S sock ?f g = g S1 r m" "same_but_cache S S1" "nm_ok S1" "nm_files S1 = nm_files S"
    by (rule with_file_found [OF assms(1) message_short [OF assms(2)] m, of E]) blast
  obtain rc reqs dat where a: "access_requests_append (nm_requests S1) (nm_requests_dat S1) ?f ?u (requested_access msg) (env_now E) = (rc, reqs, dat)"
    by (rule prod_cases3)
  have req: "requests_ok (nm_requests S1)" using S1(3) by (simp add: nm_ok_def tables_ok_def)
  have short: "length ?f < MAX_FILENAME_LEN" "length ?u < MAX_USERNAME_LEN" using assms(2) by (simp_all add: message_ok_def)
  note ap = append_request [OF req ne(1) short(1) ne(2) short(2) a]
  have rc: "rc = 0" using ap(2) room same_but_cache_fields(3) [OF S1(2)] by simp
  have "nm_ok (S1\<lparr>nm_requests := reqs\<rparr>)" by (rule nm_ok_append [OF S1(3) message_short [OF assms(2)] short(2) a])
  with ap(4) [OF rc] a u S1(4) rc same_but_cache_fields(3) [OF S1(2)] show ?thesis
    by (simp add: nm_request_access_eq S1(1) split: prod.split)
qed

lemma approve_effect:
  assumes "nm_ok S" "message_ok msg" and m: "nm_files S (m_filename msg) = Some m" "fm_owner m = m_sender msg"
    and pend: "(m_filename msg, m_data msg) \<in> set (pending_keys (nm_requests S))"
  shows "\<exists>S'. nm_approve_request E S sock msg = Inr ([(sock, ack_reply ''Request approved.'')], S') \<and> nm_ok S'
    \<and> nm_files S' = (nm_files S)(m_filename msg \<mapsto> fst (add_file_access m (m_data msg) (requested_access msg)))
    \<and> set (pending_keys (nm_requests S')) = set (pending_keys (nm_requests S)) - {(m_filename msg, m_data msg)}
    \<and> length (m_data msg) < MAX_USERNAME_LEN \<and> acl_ok m"
proof -
  let ?f = "m_filename msg" and ?u = "m_data msg"
  obtain S1 r where S1: "\<And>g sock. with_file E S sock ?f g = g S1 r m" "same_but_cache S S1" "nm_ok S1" "nm_files S1 = nm_files S"
    "trie_search (nm_trie S1) ?f = Some r" "nm_heap S1 r = Some m" "fm_filename m = ?f" "acl_ok m"
    by (rule with_file_found [OF assms(1) message_short [OF assms(2)] m(1), of E]) blast
  obtain rc reqs dat where t: "take_request (nm_requests S1) (nm_requests_dat S1) ?f ?u = (rc, reqs, dat)"
    by (rule prod_cases3)
  have req: "requests_ok (nm_requests S1)" using S1(3) by (simp add: nm_ok_def tables_ok_def)
  note tk = take_request_cases [OF req t]
  have rc: "rc = 0" using tk(3) pend same_but_cache_fields(3) [OF S1(2)] by simp
  have u: "length ?u < MAX_USERNAME_LEN" by (rule take_request_short [OF S1(3) t rc])
  let ?S = "S1\<lparr>nm_requests := reqs, nm_requests_dat := dat\<rparr>"
  have ok: "nm_ok ?S" using nm_ok_take [OF S1(3) t] by simp
  have r: "trie_search (nm_trie ?S) ?f = Some r" using S1(5) by simp
  let ?m = "fst (add_file_access m ?u (requested_access msg))"
  have m': "fm_filename ?m = ?f" "acl_ok ?m" using S1(7,8) u by (simp_all add: add_file_access_ok)
  obtain S2 where S2: "save_metadata (put_meta ?S r ?m) = Inr S2" "nm_ok S2" "nm_files S2 = (nm_files ?S)(?f \<mapsto> ?m)" "nm_requests S2 = nm_requests ?S"
    by (rule owner_update_effect [OF ok r m']) blast
  then have "nm_approve_request E S sock msg = Inr ([(sock, ack_reply ''Request approved.'')], S2)"
    using rc S1(5,6) m(2) by (simp add: nm_resolve_request_eq S1(1) access_requests_resolve_def resolve_take_def resolve_grant_def t Let_def meta_at_def)
  with S2(2-4) tk(4) u S1(4,8) same_but_cache_fields(3) [OF S1(2)] show ?thesis by simp
qed

section \<open>Listings\<close>

lemma view_effect:
  assumes "nm_ok S" and c: "get_client_by_socket (nm_clients S) sock = Some c" and msg: "m_arg1 msg = 0" "m_arg2 msg = 0"
  shows "nm_handle_view_files E S sock msg =
    (if length (concat (map name_line (visible_files S (ci_username c)))) < MAX_CONTENT_LEN
     then Inr ([(sock, file_list_reply (concat (map name_line (visible_files S (ci_username c)))))], S)
     else Inl Overflow)"
  using strcat_all_Inr [of "[]" MAX_CONTENT_LEN "map name_line (visible_files S (ci_username c))"]
  by (simp add: nm_handle_view_files_def view_files_body_def with_client_def c msg accessible_files_eq [OF nm_ok_index [OF assms(1)]] MAX_CONTENT_LEN_def)

lemma usernames_bound:
  assumes "nm_ok S"
  shows "length (concat (map name_line (get_all_usernames (nm_users S) (nm_clients S) MAX_CLIENTS))) < MAX_CONTENT_LEN"
proof -
  let ?us = "get_all_usernames (nm_users S) (nm_clients S) MAX_CLIENTS"
  have len: "length ?us \<le> MAX_CLIENTS" unfolding get_all_usernames_def by (intro collect_names_length) simp
  have "set ?us \<subseteq> set (nm_users S) \<union> ci_username ` set (nm_clients S)"
    unfolding get_all_usernames_def
    using collect_names_subset [of MAX_CLIENTS "collect_names MAX_CLIENTS [] (nm_users S)" "map ci_username (nm_clients S)"]
      collect_names_subset [of MAX_CLIENTS "[]" "nm_users S"] by auto
  then have short: "\<forall>u \<in> set ?us. length u < MAX_USERNAME_LEN" using assms by (auto simp: nm_ok_def tables_ok_def)
  have "\<forall>u \<in> set us. length u < MAX_USERNAME_LEN \<Longrightarrow> length (concat (map name_line us)) \<le> length us * (MAX_USERNAME_LEN + 4)" for us
    by (induction us) (auto simp: name_line_def)
  from this [OF short] have "length (concat (map name_line ?us)) \<le> length ?us * (MAX_USERNAME_LEN + 4)" .
  also have "\<dots> \<le> MAX_CLIENTS * (MAX_USERNAME_LEN + 4)" using len by simp
  also have "\<dots> < MAX_CONTENT_LEN" by (simp add: limit_defs)
  finally show ?thesis .
qed

end
