(* ===== verification/Naming_Runs.thy ===== *)
theory Naming_Runs
  imports Naming_Effects
begin

text \<open>
  The connections of storage servers, the heartbeat, and runs of the naming server: a run is
  a list of events of any connection in the order in which the mutex lets them through.  The
  invariant holds along every run, and the rights on a file change by its owner only.
\<close>

section \<open>Storage servers\<close>

text \<open>The seeding list names files that fit a name buffer.\<close>

definition seed_ok :: "message \<Rightarrow> bool" where
  "seed_ok msg \<longleftrightarrow> (\<forall>t \<in> set (strtok {CHR '',''} (strncpy_buf MAX_CONTENT_LEN (m_data msg))). short_name (trim_item t))"

definition seeded_from :: "naming_server \<Rightarrow> naming_server \<Rightarrow> bool" where
  "seeded_from S S' \<longleftrightarrow> nm_servers S' = nm_servers S \<and> nm_replicas S' = nm_replicas S \<and>
     (\<forall>k. nm_files S' k = nm_files S k \<or> nm_files S k = None \<and> (\<exists>m. nm_files S' k = Some m \<and> fm_owner m = ''system''))"

lemma seeded_from_refl [simp]: "seeded_from S S"
  by (simp add: seeded_from_def)

lemma seeded_from_trans: "seeded_from S S1 \<Longrightarrow> seeded_from S1 S2 \<Longrightarrow> seeded_from S S2"
  unfolding seeded_from_def by (metis option.distinct(1))

lemma system_owner [simp]: "fm_owner (create_file_metadata f ''system'' i ip p now) = ''system''"
  by (simp add: create_file_metadata_def MAX_USERNAME_LEN_def)

lemma seed_files_ok:
  "nm_ok S \<Longrightarrow> \<forall>t \<in> set toks. short_name (trim_item t) \<Longrightarrow>
   safe (seed_files E S ss_id info toks n) (\<lambda>(n', S'). nm_ok S' \<and> seeded_from S S' \<and> n \<le> n')"
proof (induction E S ss_id info toks n rule: seed_files.induct)
  case (2 E S ss_id info tok toks n)
  let ?t = "trim_item tok"
  have toks: "short_name ?t" "\<forall>t \<in> set toks. short_name (trim_item t)" using "2.prems"(2) by simp_all
  show ?case
  proof (cases "?t \<noteq> [] \<and> trie_search (nm_trie S) ?t = None")
    case False
    with "2.IH"(2) [OF refl False "2.prems"(1) toks(2)] show ?thesis by (auto simp: Let_def)
  next
    case True
    then have new: "nm_files S ?t = None" using nm_files_None [OF nm_ok_index [OF "2.prems"(1)]] by simp
    let ?m = "create_file_metadata ?t ''system'' ss_id (si_ip info) (si_client_port info) (env_now E)"
    have "safe (add_metadata E S ?t ?m) (\<lambda>S1. safe (seed_files E S1 ss_id info toks (n + 1)) (\<lambda>(n', S'). nm_ok S' \<and> seeded_from S S' \<and> n \<le> n'))"
    proof (rule safe_add_metadata [OF "2.prems"(1) toks(1)])
      fix S1
      assume S1: "nm_ok S1" "nm_files S1 = (nm_files S)(?t \<mapsto> ?m)" "nm_servers S1 = nm_servers S" "nm_replicas S1 = nm_replicas S"
      have "seeded_from S S1" using S1 new by (auto simp: seeded_from_def)
      with "2.IH"(1) [OF refl True S1(1) toks(2)]
      show "safe (seed_files E S1 ss_id info toks (n + 1)) (\<lambda>(n', S'). nm_ok S' \<and> seeded_from S S' \<and> n \<le> n')"
        by (auto elim!: safe_mono intro: seeded_from_trans)
    qed (use toks(1) in \<open>simp_all add: create_file_metadata_ok create_metadata_filename short_name_def\<close>)
    with True show ?thesis by (simp add: Let_def)
  qed
qed simp

lemma recover_files_safe:
  assumes "index_ok S"
  shows "safe (recover_files E S sock ss_id fs) (\<lambda>out. True)"
proof (induction fs)
  case (Cons f fs)
  show ?case
  proof (cases "trie_search (nm_trie S) f")
    case (Some r)
    then obtain m where "nm_heap S r = Some m" using index_ref [OF assms] by blast
    with Some Cons.IH show ?thesis by (auto simp: meta_at_def Let_def split: option.split)
  qed (use Cons.IH in simp)
qed simp

text \<open>The server that asks for recovery has just been marked alive, so it is always picked itself.\<close>

lemma recover_files_nothing:
  assumes "index_ok S" "get_storage_server_status (nm_servers S) ss_id"
  shows "recover_files E S sock ss_id fs = Inr []"
proof (induction fs)
  case (Cons f fs)
  show ?case
  proof (cases "trie_search (nm_trie S) f")
    case (Some r)
    then obtain m where "nm_heap S r = Some m" using index_ref [OF assms(1)] by blast
    with Some Cons.IH assms(2) show ?thesis by (simp add: meta_at_def Let_def replicas_pick_alive_for_access_def)
  qed (use Cons.IH in simp)
qed simp

lemma nm_ok_servers: "nm_ok S \<Longrightarrow> ss_registry_ok reg \<Longrightarrow> nm_ok (S\<lparr>nm_servers := reg\<rparr>)"
  by (simp add: nm_ok_def tables_ok_def)

lemma handle_ss_register_ok:
  assumes "nm_ok S" "seed_ok msg"
  shows "safe (handle_ss_register E S sock ip msg)
    (\<lambda>(out, S'). nm_ok S' \<and> (\<forall>k. nm_files S' k = nm_files S k \<or> nm_files S k = None \<and> (\<exists>m. nm_files S' k = Some m \<and> fm_owner m = ''system'')))"
proof -
  let ?info = "\<lparr>si_id = 0, si_ip = strncpy_buf MAX_IP_LEN ip, si_nm_port = m_arg1 msg, si_client_port = m_arg2 msg,
                  si_alive = True, si_heartbeat = 0, si_socket = sock\<rparr>"
  obtain ss_id reg where reg: "register_storage_server (nm_servers S) ?info (env_now E) = (ss_id, reg)"
    by (cases "register_storage_server (nm_servers S) ?info (env_now E)")
  let ?S = "S\<lparr>nm_servers := reg\<rparr>"
  have "ss_registry_ok reg"
    using register_storage_server_ok [of "nm_servers S" ?info "env_now E"] assms(1) reg by (simp add: nm_ok_def tables_ok_def)
  then have ok: "nm_ok ?S" by (rule nm_ok_servers [OF assms(1)])
  let ?Q = "\<lambda>S'. nm_ok S' \<and> (\<forall>k. nm_files S' k = nm_files S k \<or> nm_files S k = None \<and> (\<exists>m. nm_files S' k = Some m \<and> fm_owner m = ''system''))"
  have rest: "safe (ebind (if 0 < seeded then save_metadata S1 else Inr S1) (\<lambda>S2.
       ebind (recover_files E S2 sock ss_id (trie_get_all_files (nm_trie S2) 1000)) (\<lambda>out. Inr ((sock, ss_registered ss_id) # out, S2))))
       (\<lambda>(out, S'). ?Q S')" if "nm_ok S1" "seeded_from ?S S1" for S1 and seeded :: nat
  proof -
    have Q: "?Q S1" using that by (simp add: seeded_from_def)
    have "safe (if 0 < seeded then save_metadata S1 else Inr S1) (\<lambda>S2. ?Q S2)"
      using Q safe_save [OF nm_ok_index, of S1 ?Q] by simp
    then show ?thesis
      unfolding safe_simps
      by (rule safe_mono) (use recover_files_safe [OF nm_ok_index] in \<open>auto elim!: safe_mono\<close>)
  qed
  have "safe (seed_files E ?S ss_id ?info (strtok {CHR '',''} (strncpy_buf MAX_CONTENT_LEN (m_data msg))) 0)
      (\<lambda>(n', S'). nm_ok S' \<and> seeded_from ?S S' \<and> 0 \<le> n')"
    by (rule seed_files_ok [OF ok]) (use assms(2) in \<open>simp add: seed_ok_def\<close>)
  then show ?thesis
    unfolding handle_ss_register_def reg Let_def prod.case
    by (simp only: safe_simps(3)) (rule safe_mono, assumption, use rest in \<open>auto simp del: safe_simps(3)\<close>)
qed

lemma fetch_frame [simp]: "fetch_from_ss_id E (S\<lparr>nm_cache := c\<rparr>) = fetch_from_ss_id E S"
  by (intro ext) (simp add: fetch_from_ss_id_def)

lemma replicate_thread_safe:
  assumes "index_ok S"
  shows "safe (replicate_thread E S f) (\<lambda>out. True)"
proof (cases "trie_search (nm_trie S) f")
  case (Some r)
  then obtain m where "nm_heap S r = Some m" using index_ref [OF assms] by blast
  with Some show ?thesis by (simp add: replicate_thread_def meta_at_def)
qed (simp add: replicate_thread_def)

lemma update_counts_ok:
  assumes "nm_ok S"
  shows "safe (update_counts E S msg) (\<lambda>S'. nm_ok S' \<and> quiet S S')"
proof (cases "trie_search (nm_trie S) (m_filename msg)")
  case None
  with assms show ?thesis by (simp add: update_counts_def)
next
  case (Some r)
  obtain m where m: "nm_heap S r = Some m" "nm_files S (m_filename msg) = Some m" "fm_filename m = m_filename msg" "acl_ok m"
    using index_ref [OF nm_ok_index [OF assms] Some] by blast
  let ?S = "put_meta S r (with_counts E m (m_arg1 msg) (m_arg2 msg))"
  note b = bookkeeping [OF assms Some m(2-4) same_rights_update(2) [of m E "m_arg1 msg" "m_arg2 msg"]]
  have t: "nm_trie (put_meta S r x) = nm_trie S" for x by (simp add: put_meta_def)
  have "safe (save_metadata ?S) (\<lambda>S1. safe (cache_put (nm_cache S1) (m_filename msg) r (env_now E))
      (\<lambda>c. nm_ok (S1\<lparr>nm_cache := c\<rparr>) \<and> quiet S (S1\<lparr>nm_cache := c\<rparr>)))"
    by (rule safe_save [OF nm_ok_index [OF b(1)]], rule safe_cache_put)
       (use b(1,2) Some in \<open>simp_all add: quiet_def t\<close>)
  with Some m show ?thesis by (simp add: update_counts_def meta_at_def)
qed

lemma handle_update_metadata_ok:
  assumes "nm_ok S"
  shows "safe (handle_update_metadata E S sock msg) (\<lambda>(out, S'). nm_ok S' \<and> quiet S S')"
  unfolding handle_update_metadata_def
  by (simp only: safe_simps(3))
     (rule safe_mono [OF update_counts_ok [OF assms]], use replicate_thread_safe [OF nm_ok_index] in \<open>auto elim!: safe_mono\<close>)

section \<open>Heartbeat\<close>

lemma set_status_length [simp]: "length (set_storage_server_status reg i b now) = length reg"
  by (simp add: set_storage_server_status_def Let_def)

lemma set_status_nth:
  assumes "j < length reg"
  shows "set_storage_server_status reg (int i) b now ! j
    = (if j = i then (reg ! j)\<lparr>si_alive := b, si_heartbeat := if b then now else si_heartbeat (reg ! j)\<rparr> else reg ! j)"
  using assms by (auto simp: set_storage_server_status_def Let_def)

lemma heartbeat_round_ok: "ss_registry_ok reg \<Longrightarrow> ss_registry_ok (heartbeat_round E reg i)"
proof (induction E reg i rule: heartbeat_round.induct)
  case (1 E reg i)
  then show ?case by (simp add: heartbeat_round.simps [of E reg i] set_status_ok)
qed

text \<open>After a round a server is alive just when it has answered.\<close>

lemma heartbeat_round_nth:
  assumes "ss_registry_ok reg" "j < length reg"
  shows "length (heartbeat_round E reg i) = length reg"
    "heartbeat_round E reg i ! j =
      (if j < i then reg ! j
       else (reg ! j)\<lparr>si_alive := answers_ping E (reg ! j),
                       si_heartbeat := if answers_ping E (reg ! j) then env_now E else si_heartbeat (reg ! j)\<rparr>)"
proof -
  have "length (heartbeat_round E reg i) = length reg \<and> heartbeat_round E reg i ! j =
      (if j < i then reg ! j
       else (reg ! j)\<lparr>si_alive := answers_ping E (reg ! j),
                       si_heartbeat := if answers_ping E (reg ! j) then env_now E else si_heartbeat (reg ! j)\<rparr>)"
    using assms
  proof (induction E reg i rule: heartbeat_round.induct)
    case (1 E reg i)
    show ?case
    proof (cases "i < length reg")
      case True
      have id: "si_id (reg ! i) = int i" using ss_registry_id [OF "1.prems"(1) True] .
      let ?reg = "set_storage_server_status reg (int i) (answers_ping E (reg ! i)) (env_now E)"
      have "length (heartbeat_round E ?reg (Suc i)) = length ?reg \<and> heartbeat_round E ?reg (Suc i) ! j =
        (if j < Suc i then ?reg ! j
         else (?reg ! j)\<lparr>si_alive := answers_ping E (?reg ! j),
                       si_heartbeat := if answers_ping E (?reg ! j) then env_now E else si_heartbeat (?reg ! j)\<rparr>)"
        using "1.IH" [OF True] "1.prems" id by (simp add: set_status_ok)
      then show ?thesis
        using True id "1.prems"(2) by (auto simp: heartbeat_round.simps [of E reg i] set_status_nth less_Suc_eq)
    next
      case False
      with "1.prems"(2) show ?thesis by (simp add: heartbeat_round.simps [of E reg i])
    qed
  qed
  then show "length (heartbeat_round E reg i) = length reg"
    "heartbeat_round E reg i ! j =
      (if j < i then reg ! j
       else (reg ! j)\<lparr>si_alive := answers_ping E (reg ! j),
                       si_heartbeat := if answers_ping E (reg ! j) then env_now E else si_heartbeat (reg ! j)\<rparr>)" by blast+
qed

lemma heartbeat_length: "length (heartbeat_round E reg i) = length reg"
  by (induction E reg i rule: heartbeat_round.induct) (subst heartbeat_round.simps, auto)

lemma heartbeat_status:
  assumes "ss_registry_ok reg"
  shows "get_storage_server_status (heartbeat_round E reg 0) i
    \<longleftrightarrow> (\<exists>s. get_storage_server reg i = Some s \<and> answers_ping E s)"
proof (cases "0 \<le> i \<and> i < int (length reg)")
  case True
  then have "nat i < length reg" by auto
  with heartbeat_round_nth [OF assms this, of E 0] True show ?thesis
    by (auto simp: get_storage_server_status_def get_storage_server_def heartbeat_length)
qed (auto simp: get_storage_server_status_def get_storage_server_def heartbeat_length)

section \<open>Runs\<close>

datatype nm_event =
    Client_Message nm_env int string int message
  | Client_Leaves int
  | Server_Joins nm_env int string message
  | Server_Update nm_env int message
  | Heartbeat_Round nm_env

fun nm_event_step :: "naming_server \<Rightarrow> nm_event \<Rightarrow> nm_result" where
  "nm_event_step S (Client_Message E sock ip port msg) = handle_client_message E S sock ip port msg"
| "nm_event_step S (Client_Leaves sock) = Inr ([], leave_client S sock)"
| "nm_event_step S (Server_Joins E sock ip msg) = handle_ss_register E S sock ip msg"
| "nm_event_step S (Server_Update E sock msg) = handle_update_metadata E S sock msg"
| "nm_event_step S (Heartbeat_Round E) = Inr ([], S\<lparr>nm_servers := heartbeat_round E (nm_servers S) 0\<rparr>)"

fun run_events :: "naming_server \<Rightarrow> nm_event list \<Rightarrow> nm_result" where
  "run_events S [] = Inr ([], S)"
| "run_events S (ev # evs) =
     ebind (nm_event_step S ev) (\<lambda>(out, S1). ebind (run_events S1 evs) (\<lambda>(out', S2). Inr (out @ out', S2)))"

definition event_ok :: "nm_event \<Rightarrow> bool" where
  "event_ok ev \<longleftrightarrow> (case ev of
       Client_Message E sock ip port msg \<Rightarrow> request_ok msg
     | Server_Joins E sock ip msg \<Rightarrow> seed_ok msg
     | _ \<Rightarrow> True)"

text \<open>An event by which user \<open>u\<close> works on file \<open>f\<close>.\<close>

definition event_by :: "naming_server \<Rightarrow> string \<Rightarrow> string \<Rightarrow> nm_event \<Rightarrow> bool" where
  "event_by S u f ev \<longleftrightarrow> (case ev of
       Client_Message E sock ip port msg \<Rightarrow> m_filename msg = f \<and> acting_user S sock msg = u
     | _ \<Rightarrow> False)"

text \<open>Whether a run has such an event; each event is judged in the state it meets.\<close>

fun run_has :: "naming_server \<Rightarrow> string \<Rightarrow> string \<Rightarrow> nm_event list \<Rightarrow> bool" where
  "run_has S u f [] = False"
| "run_has S u f (ev # evs) =
     (event_by S u f ev \<or> (case nm_event_step S ev of Inl _ \<Rightarrow> False | Inr (out, S1) \<Rightarrow> run_has S1 u f evs))"

definition keeps_rights :: "naming_server \<Rightarrow> string \<Rightarrow> string \<Rightarrow> naming_server \<Rightarrow> bool" where
  "keeps_rights S u f S' \<longleftrightarrow>
     (\<forall>m. nm_files S f = Some m \<and> fm_owner m = u \<longrightarrow> (\<exists>m'. nm_files S' f = Some m' \<and> same_rights m m'))"

lemma permitted_keeps:
  assumes "permitted v k S S'" "\<not> (k = f \<and> v = u)"
  shows "keeps_rights S u f S'"
proof (cases "k = f")
  case True
  with assms show ?thesis
    by (auto simp: permitted_def keeps_rights_def option_rel_Some1)
next
  case False
  with assms(1) have "rel_option same_rights (nm_files S f) (nm_files S' f)" by (simp add: permitted_def)
  then show ?thesis by (auto simp: keeps_rights_def option_rel_Some1)
qed

lemma quiet_keeps: "quiet S S' \<Longrightarrow> keeps_rights S u f S'"
  by (auto simp: quiet_def keeps_rights_def) (metis option_rel_Some1)

lemma nm_event_step_ok:
  assumes "nm_ok S" "event_ok ev"
  shows "safe (nm_event_step S ev) (\<lambda>(out, S'). nm_ok S' \<and> (\<not> event_by S u f ev \<longrightarrow> keeps_rights S u f S'))"
proof (cases ev)
  case (Client_Message E sock ip port msg)
  with assms have "request_ok msg" by (simp add: event_ok_def)
  from handle_client_message_ok [OF assms(1) this, of E sock ip port] Client_Message show ?thesis
    by (auto simp: step_ok_def event_by_def intro: permitted_keeps elim!: safe_mono)
next
  case (Client_Leaves sock)
  with assms(1) show ?thesis by (simp add: leave_client_ok quiet_keeps)
next
  case (Server_Joins E sock ip msg)
  with assms have "seed_ok msg" by (simp add: event_ok_def)
  from handle_ss_register_ok [OF assms(1) this, of E sock ip] Server_Joins show ?thesis
    by (auto simp: keeps_rights_def elim!: safe_mono) (metis option.distinct(1) same_rights_refl)
next
  case (Server_Update E sock msg)
  with handle_update_metadata_ok [OF assms(1), of E sock msg] show ?thesis
    by (auto intro: quiet_keeps elim!: safe_mono)
next
  case (Heartbeat_Round E)
  have "ss_registry_ok (nm_servers S)" using assms(1) by (simp add: nm_ok_def tables_ok_def)
  with Heartbeat_Round assms(1) show ?thesis
    by (simp add: nm_ok_servers heartbeat_round_ok quiet_keeps)
qed

lemma keeps_rights_trans:
  assumes "keeps_rights S u f S1" "keeps_rights S1 u f S2"
  shows "keeps_rights S u f S2"
  using assms unfolding keeps_rights_def same_rights_def by metis

lemma run_events_ok:
  "nm_ok S \<Longrightarrow> list_all event_ok evs \<Longrightarrow>
   safe (run_events S evs) (\<lambda>(out, S'). nm_ok S' \<and> (\<not> run_has S u f evs \<longrightarrow> keeps_rights S u f S'))"
proof (induction evs arbitrary: S)
  case Nil
  then show ?case by (simp add: quiet_keeps)
next
  case (Cons ev evs)
  have ev: "event_ok ev" "list_all event_ok evs" using Cons.prems(2) by simp_all
  have step: "safe (nm_event_step S ev) (\<lambda>(out, S'). nm_ok S' \<and> (\<not> event_by S u f ev \<longrightarrow> keeps_rights S u f S'))"
    by (rule nm_event_step_ok [OF Cons.prems(1) ev(1)])
  show ?case
  proof (cases "nm_event_step S ev")
    case (Inl e)
    with step show ?thesis by simp
  next
    case (Inr x)
    obtain out S1 where x: "x = (out, S1)" by (cases x)
    with step Inr have S1: "nm_ok S1" "\<not> event_by S u f ev \<Longrightarrow> keeps_rights S u f S1" by simp_all
    from Cons.IH [OF S1(1) ev(2)] show ?thesis
      using Inr x S1(2) keeps_rights_trans [of S u f S1] by (auto elim!: safe_mono)
  qed
qed

section \<open>EXEC between its two steps\<close>

lemma exec_after_delete:
  assumes "index_ok S1" "trie_search (nm_trie S1) f = Some r" "drop_metadata S1 f = Inr S2"
  shows "exec_run E S2 sock r = Inl UseAfterFree"
  using assms(2,3) by (auto simp: drop_metadata_def fault_simps exec_run_def meta_at_def)

section \<open>Start\<close>

lemma empty_cache_coherent: "lru.coherent (cache_init (int CACHE_CAPACITY)) store"
proof -
  have "lru_ok (cache_init 100)" using cache_init_rep [of 100] by (auto simp: lru_ok_def)
  moreover have "lru_contents (cache_init 100) = Map.empty"
    using cache_init_rep [of 100] lru_contents_abs [of "cache_init 100" "[]"] by simp
  ultimately show ?thesis by (simp add: lru.coherent_def CACHE_CAPACITY_def)
qed

text \<open>Loading the file of metadata gives live pointers below the next fresh one.\<close>

definition refs_ok :: "meta_state \<Rightarrow> bool" where
  "refs_ok st \<longleftrightarrow> (case st of (H, n, root) \<Rightarrow>
     (\<forall>k r. trie_search root k = Some r \<longrightarrow> H r \<noteq> None) \<and> (\<forall>r. H r \<noteq> None \<longrightarrow> r < n))"

lemma refs_ok_add: "refs_ok (H, n, root) \<Longrightarrow> refs_ok (H(n \<mapsto> m), Suc n, trie_insert root k n)"
  by (auto simp: refs_ok_def trie_search_insert less_Suc_eq)

lemma refs_ok_load_line: "refs_ok st \<Longrightarrow> refs_ok (load_line now st l)"
  by (cases st) (simp add: load_line_def Let_def refs_ok_add)

lemma refs_ok_load: "refs_ok (trie_load_from_disk now dat)"
proof -
  have "refs_ok st \<Longrightarrow> refs_ok (foldl (load_line now) st ls)" for st ls
    by (induction ls arbitrary: st) (simp_all add: refs_ok_load_line)
  then show ?thesis unfolding trie_load_from_disk_def by (simp add: refs_ok_def)
qed

lemma start_empty_ok: "nm_ok (start_naming_server now [] [] [] [])"
  using empty_cache_coherent
  by (simp add: nm_ok_def index_ok_def tables_ok_def start_naming_server_def trie_load_from_disk_def
      users_load_from_disk_def folders_load_from_disk_def access_requests_load_from_disk_def ss_registry_ok_def
      folders_ok_def requests_ok_def pending_keys_def)

text \<open>What the server has on disk is what it starts with the next time.\<close>

definition disk_synced :: "naming_server \<Rightarrow> bool" where
  "disk_synced S \<longleftrightarrow> metadata_saved S \<and> nm_users_dat S = users_text (nm_users S)
     \<and> nm_folders_dat S = folders_save_to_disk (nm_folders S) \<and> nm_requests_dat S = access_requests_flush_all (nm_requests S)"

definition disk_names_ok :: "naming_server \<Rightarrow> bool" where
  "disk_names_ok S \<longleftrightarrow> (\<forall>k m. nm_files S k = Some m \<longrightarrow> disk_ok k m) \<and> (\<forall>u \<in> set (nm_users S). user_line_ok u)
     \<and> (\<forall>e \<in> set (nm_folders S). folder_disk_ok e) \<and> (\<forall>e \<in> set (nm_requests S). request_disk_ok e)"

lemma restart_files:
  assumes "nm_ok S" "disk_synced S" "disk_names_ok S"
  shows "let S' = start_naming_server now (nm_metadata_dat S) (nm_users_dat S) (nm_folders_dat S) (nm_requests_dat S)
    in nm_files S' = nm_files S \<and> nm_users S' = nm_users S \<and> nm_folders S' = nm_folders S \<and> nm_requests S' = nm_requests S
     \<and> nm_ok S'"
proof -
  let ?S = "start_naming_server now (nm_metadata_dat S) (nm_users_dat S) (nm_folders_dat S) (nm_requests_dat S)"
  have ok: "index_ok S" "tables_ok S" using assms(1) by (simp_all add: nm_ok_def)
  obtain H n t where load: "trie_load_from_disk now (nm_metadata_dat S) = (H, n, t)" by (rule prod_cases3)
  have "\<forall>k. meta_lookup H t k = meta_lookup (nm_heap S) (nm_trie S) k"
    using metadata_round_trip [OF index_live [OF ok(1)], of now] assms(2,3) load
    by (auto simp: disk_synced_def metadata_saved_def disk_names_ok_def nm_files_def)
  then have files: "nm_files ?S = nm_files S"
    by (intro ext) (simp add: nm_files_def start_naming_server_def load)
  have users: "nm_users ?S = nm_users S"
    using assms(2,3) ok(2) users_load_text [of "nm_users S"]
    by (simp add: start_naming_server_def load disk_synced_def disk_names_ok_def tables_ok_def)
  have folders: "nm_folders ?S = nm_folders S"
    using assms(2,3) ok(2) folders_disk_round_trip [of "nm_folders S"]
    by (simp add: start_naming_server_def load disk_synced_def disk_names_ok_def tables_ok_def folders_ok_def)
  have requests: "nm_requests ?S = nm_requests S"
    using assms(2,3) ok(2) requests_disk_round_trip [of "nm_requests S"]
    by (simp add: start_naming_server_def load disk_synced_def disk_names_ok_def tables_ok_def requests_ok_def)
  have refs: "refs_ok (H, n, t)" using refs_ok_load [of now "nm_metadata_dat S"] load by simp
  have "index_ok ?S"
  proof (rule index_okI)
    fix k r
    assume "trie_search (nm_trie ?S) k = Some r"
    then have r: "trie_search t k = Some r" by (simp add: start_naming_server_def load)
    with refs have "H r \<noteq> None" unfolding refs_ok_def by blast
    then obtain m where m: "H r = Some m" by blast
    with r have "nm_files ?S k = Some m" by (simp add: nm_files_def meta_lookup_def start_naming_server_def load)
    then have "nm_files S k = Some m" by (simp add: files)
    then have "fm_filename m = k" "acl_ok m" "short_name k" by (rule nm_files_Some [OF ok(1)], simp)+
    with m show "short_name k" "\<exists>m. nm_heap ?S r = Some m \<and> fm_filename m = k \<and> acl_ok m"
      by (simp_all add: start_naming_server_def load)
  qed (use refs empty_cache_coherent in \<open>auto simp: start_naming_server_def load refs_ok_def\<close>)
  moreover have "tables_ok ?S"
  proof -
    have "nm_servers ?S = []" "nm_clients ?S = []" "nm_stale ?S = []" "\<not> nm_folders_mutex ?S" by (simp_all add: start_naming_server_def load)
    with ok(2) users folders requests show ?thesis by (simp add: tables_ok_def ss_registry_ok_def)
  qed
  ultimately show ?thesis using files users folders requests by (simp add: nm_ok_def)
qed

end
