(* ===== verification/Naming_Demo.thy ===== *)
theory Naming_Demo
  imports Naming_Runs
begin

text \<open>
  A concrete naming server: one storage server, the users alice and bob, a folder and a file
  of alice.  The theorems about the naming server are applied to it.
\<close>

definition demo_ss :: ss_info where
  "demo_ss = \<lparr>si_id = 0, si_ip = ''10.0.0.1'', si_nm_port = 9000, si_client_port = 9001, si_alive = True,
              si_heartbeat = 0, si_socket = 4\<rparr>"

definition demo_client :: "int \<Rightarrow> string \<Rightarrow> client_info" where
  "demo_client sock u = \<lparr>ci_socket = sock, ci_username = u, ci_ip = ''10.0.0.2'', ci_nm_port = 0, ci_ss_port = 0,
                         ci_conn_port = 5000, ci_connected_at = 0\<rparr>"

definition demo_meta :: file_metadata where
  "demo_meta = create_file_metadata ''a'' ''alice'' 0 ''10.0.0.1'' 9001 0"

definition demo_nm :: naming_server where
  "demo_nm = (start_naming_server 0 [] [] [] [])
     \<lparr>nm_heap := [0 \<mapsto> demo_meta], nm_fresh := 1, nm_trie := trie_insert trie_init ''a'' 0, nm_servers := [demo_ss],
      nm_clients := [demo_client 5 ''alice'', demo_client 6 ''bob''], nm_users := [''alice'', ''bob''],
      nm_folders := [\<lparr>fd_name = ''d'', fd_files = []\<rparr>]\<rparr>"

definition demo_env :: nm_env where
  "demo_env = \<lparr>env_now = 7, env_time = (\<lambda>t. ''now''), env_reply = (\<lambda>s m. Some (ack_reply [])),
               env_fetch = (\<lambda>ip p m. None), env_exec = (\<lambda>s. None)\<rparr>"

definition demo_msg :: "message_type \<Rightarrow> string \<Rightarrow> string \<Rightarrow> string \<Rightarrow> int \<Rightarrow> message" where
  "demo_msg t u f d a = message_zero\<lparr>m_type := t, m_sender := u, m_filename := f, m_data := d, m_arg1 := a\<rparr>"

lemma demo_msg_fields [simp]:
  "m_type (demo_msg t u f d a) = t" "m_sender (demo_msg t u f d a) = u" "m_filename (demo_msg t u f d a) = f"
  "m_data (demo_msg t u f d a) = d" "m_arg1 (demo_msg t u f d a) = a" "m_arg2 (demo_msg t u f d a) = 0"
  by (simp_all add: demo_msg_def message_zero_def)

lemma demo_nm_fields [simp]:
  "nm_heap demo_nm = [0 \<mapsto> demo_meta]" "nm_fresh demo_nm = 1" "nm_trie demo_nm = trie_insert trie_init ''a'' 0"
  "nm_servers demo_nm = [demo_ss]" "nm_clients demo_nm = [demo_client 5 ''alice'', demo_client 6 ''bob'']"
  "nm_users demo_nm = [''alice'', ''bob'']" "nm_folders demo_nm = [\<lparr>fd_name = ''d'', fd_files = []\<rparr>]"
  "nm_requests demo_nm = []" "nm_replicas demo_nm = []" "nm_last_selected demo_nm = - 1"
  "nm_stale demo_nm = []" "\<not> nm_folders_mutex demo_nm"
  "nm_cache demo_nm = nm_cache (start_naming_server 0 [] [] [] [])"
  by (simp_all add: demo_nm_def start_naming_server_def trie_load_from_disk_def access_requests_load_from_disk_def)

lemma demo_meta_fields [simp]:
  "fm_filename demo_meta = ''a''" "fm_owner demo_meta = ''alice''" "fm_ss_id demo_meta = 0"
  "fm_access_list demo_meta = [(''alice'', ACCESS_WRITE)]"
  by (simp_all add: demo_meta_def create_file_metadata_def limit_defs strncpy_buf_def)

lemma demo_nm_ok: "nm_ok demo_nm"
proof -
  have "nm_cache (start_naming_server 0 [] [] [] []) = cache_init (int CACHE_CAPACITY)"
    by (simp add: start_naming_server_def trie_load_from_disk_def)
  then have "lru.coherent (nm_cache (start_naming_server 0 [] [] [] [])) (trie_search (trie_insert trie_init ''a'' 0))"
    using empty_cache_coherent by simp
  then have "index_ok demo_nm"
    by (intro index_okI) (auto simp: trie_search_insert short_name_def limit_defs acl_ok_def split: if_splits)
  moreover have "tables_ok demo_nm"
    by (simp add: tables_ok_def ss_registry_ok_def folders_ok_def requests_ok_def pending_keys_def demo_ss_def
        demo_client_def limit_defs)
  ultimately show ?thesis by (simp add: nm_ok_def)
qed

lemma demo_file: "nm_files demo_nm k = (if k = ''a'' then Some demo_meta else None)"
  by (simp add: nm_files_def meta_lookup_def trie_search_insert)

lemma demo_clients:
  "get_client_by_socket [demo_client 5 ''alice'', demo_client 6 ''bob''] 5 = Some (demo_client 5 ''alice'')"
  "get_client_by_socket [demo_client 5 ''alice'', demo_client 6 ''bob''] 6 = Some (demo_client 6 ''bob'')"
  "ci_username (demo_client s u) = u"
  by (simp_all add: get_client_by_socket_def demo_client_def)

lemma demo_access: "check_file_access demo_meta u = (if u = ''alice'' then ACCESS_WRITE else ACCESS_NONE)"
  by (simp add: check_file_access_map_of)

lemma demo_route: "route demo_nm demo_meta = Some demo_ss"
  by (simp add: route_def replicas_pick_alive_for_access_def get_storage_server_status_def get_storage_server_def demo_ss_def Let_def)

lemma demo_msg_ok:
  "message_ok (demo_msg t u f d a) \<longleftrightarrow> length u < MAX_USERNAME_LEN \<and> length f < MAX_FILENAME_LEN \<and> length d < MAX_CONTENT_LEN
     \<and> CHR 0x00 \<notin> set u \<union> set f \<union> set d"
  by (simp add: message_ok_def)

end
