(* ===== verification/Naming_Properties.thy ===== *)
theory Naming_Properties
  imports Naming_Demo
begin

text \<open>
  The properties of the naming server: its invariant along every run, who can change the
  rights on a file, what the lookups answer, and what grants, requests, creations and
  deletions do.
\<close>

text \<open>
  Along every run of client messages, registrations, updates and heartbeats the invariant
  of the naming server holds (every pointer of trie and cache is alive, the cache agrees with
  the trie, owners keep WRITE, the tables fit their arrays), and no handler follows a pointer
  to freed memory.
\<close>

theorem naming_runs_sound:
  assumes "nm_ok S" "list_all event_ok evs"
  shows "case run_events S evs of Inl e \<Rightarrow> e \<noteq> UseAfterFree | Inr (out, S') \<Rightarrow> nm_ok S'"
  using run_events_ok [OF assms, of "[]" "[]"] by (auto simp: safe_def split: sum.splits)

theorem naming_runs_sound_witness:
  "case run_events (start_naming_server 0 [] [] [] []) [Heartbeat_Round demo_env, Client_Message demo_env 5 ''1'' 2 (demo_msg MSG_CREATE_FILE ''x'' ''f'' [] 0)] of
     Inl e \<Rightarrow> e \<noteq> UseAfterFree | Inr (out, S') \<Rightarrow> nm_ok S'"
  by (rule naming_runs_sound [OF start_empty_ok]) (simp add: event_ok_def request_ok_def demo_msg_ok limit_defs)

text \<open>
  The rights on a file change by its owner only: in a run without a message of user \<open>u\<close>
  about \<open>f\<close>, a file \<open>f\<close> of \<open>u\<close> stays, keeps its owner, and gives every user the access they had.
\<close>

theorem rights_change_by_owner_only:
  assumes "nm_ok S" "list_all event_ok evs" "run_events S evs = Inr (out, S')"
    and "nm_files S f = Some m" "\<not> run_has S (fm_owner m) f evs"
  shows "\<exists>m'. nm_files S' f = Some m' \<and> fm_owner m' = fm_owner m \<and> (\<forall>v. check_file_access m' v = check_file_access m v)"
proof -
  have "keeps_rights S (fm_owner m) f S'"
    using run_events_ok [OF assms(1,2), of "fm_owner m" f] assms(3,5) by simp
  then obtain m' where "nm_files S' f = Some m'" "same_rights m m'" using assms(4) by (auto simp: keeps_rights_def)
  then show ?thesis by (auto simp: same_rights_def check_file_access_map_of)
qed

theorem rights_change_by_owner_only_witness:
  "\<exists>out S' m'. run_events demo_nm [Client_Message demo_env 6 ''1'' 2 (demo_msg MSG_ADDACCESS ''bob'' ''a'' ''bob'' 2)] = Inr (out, S')
     \<and> nm_files S' ''a'' = Some m' \<and> check_file_access m' ''bob'' = ACCESS_NONE"
proof -
  let ?msg = "demo_msg MSG_ADDACCESS ''bob'' ''a'' ''bob'' 2"
  have msg: "message_ok ?msg" by (simp add: demo_msg_ok limit_defs)
  obtain S' where S': "nm_handle_add_access demo_env demo_nm 6 ?msg = Inr ([(6, not_owner ''ERROR: Access denied.'')], S')"
    using not_owner_effect(1) [OF demo_nm_ok msg, of 6 "demo_client 6 ''bob''" demo_meta demo_env] by (auto simp: demo_clients demo_file)
  then have run: "run_events demo_nm [Client_Message demo_env 6 ''1'' 2 ?msg] = Inr ([(6, not_owner ''ERROR: Access denied.'')], S')"
    by (simp add: handle_client_message_eq)
  have ev: "list_all event_ok [Client_Message demo_env 6 ''1'' 2 ?msg]"
    using msg by (simp add: event_ok_def request_ok_def limit_defs)
  have no: "\<not> run_has demo_nm (fm_owner demo_meta) ''a'' [Client_Message demo_env 6 ''1'' 2 ?msg]"
    using run by (simp add: event_by_def acting_user_def demo_clients split: sum.splits)
  have f: "nm_files demo_nm ''a'' = Some demo_meta" by (simp add: demo_file)
  from rights_change_by_owner_only [OF demo_nm_ok ev run f no] run show ?thesis by (auto simp: demo_access)
qed

text \<open>
  C10: the place of a file is told to a writer only if the access list gives WRITE: the reply to
  WRITE, on every branch, is computed from the table of files, and the request changes
  nothing.
\<close>

theorem write_lookup:
  assumes "nm_ok S" "message_ok msg" "get_client_by_socket (nm_clients S) sock = Some c"
  shows "\<exists>S'. nm_handle_write_file E S sock msg = Inr ([(sock,
      (case nm_files S (m_filename msg) of
         None \<Rightarrow> error_reply ERR_FILE_NOT_FOUND ''ERROR: File not found.''
       | Some m \<Rightarrow>
           if check_file_access m (ci_username c) \<noteq> ACCESS_WRITE then error_reply ERR_ACCESS_DENIED ''ERROR: Access denied.''
           else (case route S m of
                   None \<Rightarrow> error_reply ERR_SS_UNAVAILABLE ''ERROR: Storage server unavailable.''
                 | Some s \<Rightarrow> ss_address s)))], S') \<and> nm_files S' = nm_files S"
  using write_effect [OF assms, of E]
  unfolding lookup_reply_def file_not_found_def access_denied_def ss_unavailable_def .

theorem write_lookup_witness:
  "(\<exists>S'. nm_handle_write_file demo_env demo_nm 5 (demo_msg MSG_WRITE_FILE ''alice'' ''a'' [] 0) = Inr ([(5, ss_address demo_ss)], S'))
   \<and> (\<exists>S'. nm_handle_write_file demo_env demo_nm 6 (demo_msg MSG_WRITE_FILE ''alice'' ''a'' [] 0)
          = Inr ([(6, error_reply ERR_ACCESS_DENIED ''ERROR: Access denied.'')], S'))"
proof -
  have msg: "message_ok (demo_msg MSG_WRITE_FILE ''alice'' ''a'' [] 0)" by (simp add: demo_msg_ok limit_defs)
  have c: "get_client_by_socket (nm_clients demo_nm) 5 = Some (demo_client 5 ''alice'')"
    "get_client_by_socket (nm_clients demo_nm) 6 = Some (demo_client 6 ''bob'')" by (simp_all add: demo_clients)
  from write_lookup [OF demo_nm_ok msg c(1), of demo_env] write_lookup [OF demo_nm_ok msg c(2), of demo_env]
  show ?thesis by (auto simp: demo_file demo_access demo_clients demo_route)
qed

text \<open>
  C11: READ, STREAM and UNDO are answered alike and need no more than READ access, so that a user
  who may only read can undo the last session; the request changes at most the time and the
  user of the last access.
\<close>

theorem read_lookup:
  assumes "nm_ok S" "message_ok msg" "get_client_by_socket (nm_clients S) sock = Some c"
    and "handler \<in> {nm_handle_read_file, nm_handle_stream_lookup, nm_handle_undo_lookup}"
  shows "\<exists>S'. handler E S sock msg = Inr ([(sock,
      (case nm_files S (m_filename msg) of
         None \<Rightarrow> error_reply ERR_FILE_NOT_FOUND ''ERROR: File not found.''
       | Some m \<Rightarrow>
           if check_file_access m (ci_username c) = ACCESS_NONE then error_reply ERR_ACCESS_DENIED ''ERROR: Access denied.''
           else (case route S m of
                   None \<Rightarrow> error_reply ERR_SS_UNAVAILABLE ''ERROR: Storage server unavailable.''
                 | Some s \<Rightarrow> ss_address s)))], S')
    \<and> (nm_files S' = nm_files S
       \<or> (\<exists>m. nm_files S (m_filename msg) = Some m \<and> nm_files S' = (nm_files S)(m_filename msg \<mapsto>
              m\<lparr>fm_last_accessed := env_now E, fm_last_accessed_by := ci_username c\<rparr>)))"
proof -
  have "handler = nm_handle_read_file" using assms(4) read_like_same by auto
  with read_effect [OF assms(1-3), of E] show ?thesis
    unfolding lookup_reply_def file_not_found_def access_denied_def ss_unavailable_def touch_def not_not by simp
qed

theorem read_lookup_witness:
  "\<exists>S'. nm_handle_undo_lookup demo_env demo_nm 5 (demo_msg MSG_UNDO_FILE ''alice'' ''a'' [] 0) = Inr ([(5, ss_address demo_ss)], S')"
proof -
  have msg: "message_ok (demo_msg MSG_UNDO_FILE ''alice'' ''a'' [] 0)" by (simp add: demo_msg_ok limit_defs)
  have c: "get_client_by_socket (nm_clients demo_nm) 5 = Some (demo_client 5 ''alice'')" by (simp add: demo_clients)
  from read_lookup [OF demo_nm_ok msg c, of nm_handle_undo_lookup demo_env]
  show ?thesis by (auto simp: demo_file demo_access demo_clients demo_route)
qed

text \<open>
  C14: a grant takes effect: after the owner has given a user WRITE, a WRITE request of that user
  is answered with the address of the serving storage server, and the file of metadata on
  disk has the grant.
\<close>

theorem grant_then_write:
  assumes ok: "nm_ok S" and grant: "message_ok grant" "length (m_data grant) < MAX_USERNAME_LEN" "m_arg1 grant \<noteq> 1"
    and owner: "get_client_by_socket (nm_clients S) sock = Some c" "nm_files S (m_filename grant) = Some m" "fm_owner m = ci_username c"
    and room: "length (fm_access_list m) < MAX_USERS"
    and user: "get_client_by_socket (nm_clients S) sock' = Some c'" "ci_username c' = m_data grant"
    and req: "message_ok req" "m_filename req = m_filename grant"
    and s: "route S m = Some s"
  shows "\<exists>S1 S2. nm_handle_add_access E S sock grant = Inr ([(sock, ack_reply ''Access granted successfully!'')], S1)
    \<and> trie_save_to_disk (nm_trie S1) (nm_heap S1) = Inr (nm_metadata_dat S1)
    \<and> nm_handle_write_file E' S1 sock' req = Inr ([(sock', ss_address s)], S2)"
proof -
  let ?f = "m_filename grant" and ?m = "fst (add_file_access m (m_data grant) ACCESS_WRITE)"
  obtain S1 where S1: "nm_handle_add_access E S sock grant = Inr ([(sock, ack_reply ''Access granted successfully!'')], S1)"
    "nm_ok S1" "metadata_saved S1" "nm_files S1 = (nm_files S)(?f \<mapsto> ?m)"
    "nm_servers S1 = nm_servers S" "nm_replicas S1 = nm_replicas S" "nm_clients S1 = nm_clients S"
    using add_access_effect [OF ok grant(1,2) owner, of E] grant(3) by auto
  have acl: "acl_ok m" by (rule nm_files_Some [OF nm_ok_index [OF ok] owner(2)])
  have "snd (add_file_access m (m_data grant) ACCESS_WRITE) = 0"
    using room by (auto simp: add_file_access_def push_access_def split: option.split)
  then have w: "check_file_access ?m (m_data grant) = ACCESS_WRITE"
    using add_file_access_check [OF acl grant(2), of ACCESS_WRITE] by simp
  have "fm_ss_id ?m = fm_ss_id m" "fm_filename ?m = fm_filename m"
    by (auto simp: add_file_access_def push_access_def set_access_def split: option.splits)
  then have "route S1 ?m = Some s" using s S1(5,6) by (simp add: route_def Let_def split: if_splits)
  moreover have "get_client_by_socket (nm_clients S1) sock' = Some c'" using user(1) S1(7) by simp
  ultimately show ?thesis
    using write_effect [OF S1(2) req(1), of sock' c' E'] S1(1,3,4) req(2) user(2) w
    by (auto simp: lookup_reply_def metadata_saved_def)
qed

theorem grant_then_write_witness:
  "\<exists>S1 S2. nm_handle_add_access demo_env demo_nm 5 (demo_msg MSG_ADDACCESS ''alice'' ''a'' ''bob'' 2)
       = Inr ([(5, ack_reply ''Access granted successfully!'')], S1)
     \<and> nm_handle_write_file demo_env S1 6 (demo_msg MSG_WRITE_FILE ''bob'' ''a'' [] 0) = Inr ([(6, ss_address demo_ss)], S2)"
proof -
  have msgs: "message_ok (demo_msg MSG_ADDACCESS ''alice'' ''a'' ''bob'' 2)" "message_ok (demo_msg MSG_WRITE_FILE ''bob'' ''a'' [] 0)"
    by (simp_all add: demo_msg_ok limit_defs)
  have c: "get_client_by_socket (nm_clients demo_nm) 5 = Some (demo_client 5 ''alice'')"
    "get_client_by_socket (nm_clients demo_nm) 6 = Some (demo_client 6 ''bob'')" by (simp_all add: demo_clients)
  have f: "nm_files demo_nm (m_filename (demo_msg MSG_ADDACCESS ''alice'' ''a'' ''bob'' 2)) = Some demo_meta" by (simp add: demo_file)
  show ?thesis
    using grant_then_write [OF demo_nm_ok msgs(1) _ _ c(1) f _ _ c(2) _ msgs(2) _ demo_route, of demo_env demo_env]
    by (auto simp: demo_clients limit_defs)
qed

text \<open>
  Only the owner deletes: DELETE by anybody else changes no file; by the owner, when the
  storage server has deleted its copy, the file is gone from the table and the file of
  metadata, every other file stays, and the next lookup finds nothing.
\<close>

theorem delete_by_owner:
  assumes ok: "nm_ok S" and msg: "message_ok msg" and c: "get_client_by_socket (nm_clients S) sock = Some c"
    and m: "nm_files S (m_filename msg) = Some m" and s: "get_storage_server (nm_servers S) (fm_ss_id m) = Some s"
    and resp: "env_reply E (si_socket s) (message_zero\<lparr>m_type := MSG_DELETE_FILE_SS, m_filename := m_filename msg\<rparr>) = Some resp"
  shows "\<exists>out S'. nm_handle_delete_file E S sock msg = Inr (out, S')
    \<and> (if fm_owner m = ci_username c \<and> m_error resp = ERR_SUCCESS
       then nm_files S' = (nm_files S)(m_filename msg := None)
         \<and> trie_save_to_disk (nm_trie S') (nm_heap S') = Inr (nm_metadata_dat S')
         \<and> (\<exists>S1. lookup_metadata E S' (m_filename msg) = Inr (S1, None))
       else nm_files S' = nm_files S \<and> out \<noteq> [] \<and> m_type (snd (last out)) = MSG_ERROR)"
proof (cases "fm_owner m = ci_username c")
  case False
  then show ?thesis using not_owner_effect(3) [OF ok msg c m, of E] by (auto simp: not_owner_def)
next
  case own: True
  obtain S' reply where S': "nm_handle_delete_file E S sock msg
      = Inr ([(si_socket s, message_zero\<lparr>m_type := MSG_DELETE_FILE_SS, m_filename := m_filename msg\<rparr>), (sock, reply)], S')" "nm_ok S'"
    "if m_error resp = ERR_SUCCESS then m_type reply = MSG_ACK \<and> nm_files S' = (nm_files S)(m_filename msg := None) \<and> metadata_saved S'
     else m_type reply = MSG_ERROR \<and> nm_files S' = nm_files S"
    using delete_effect [OF ok msg c m own s resp] by blast
  show ?thesis
  proof (cases "m_error resp = ERR_SUCCESS")
    case True
    with S'(3) have "nm_files S' (m_filename msg) = None" by simp
    then have "trie_search (nm_trie S') (m_filename msg) = None" using nm_files_None [OF nm_ok_index [OF S'(2)]] by simp
    with lookup_metadata_spec [OF nm_ok_index [OF S'(2)] message_short [OF msg], of E] True own S'
    show ?thesis by (auto simp: metadata_saved_def)
  next
    case False
    with own S' show ?thesis by simp
  qed
qed

theorem delete_by_owner_witness:
  "\<exists>out S'. nm_handle_delete_file demo_env demo_nm 5 (demo_msg MSG_DELETE_FILE ''alice'' ''a'' [] 0) = Inr (out, S') \<and> nm_files S' = Map.empty"
proof -
  have msg: "message_ok (demo_msg MSG_DELETE_FILE ''alice'' ''a'' [] 0)" by (simp add: demo_msg_ok limit_defs)
  have c: "get_client_by_socket (nm_clients demo_nm) 5 = Some (demo_client 5 ''alice'')" by (simp add: demo_clients)
  have f: "nm_files demo_nm (m_filename (demo_msg MSG_DELETE_FILE ''alice'' ''a'' [] 0)) = Some demo_meta" by (simp add: demo_file)
  have s: "get_storage_server (nm_servers demo_nm) (fm_ss_id demo_meta) = Some demo_ss" by (simp add: get_storage_server_def)
  have "nm_files demo_nm = [''a'' \<mapsto> demo_meta]" by (rule ext) (simp add: demo_file)
  with delete_by_owner [OF demo_nm_ok msg c f s, of demo_env "ack_reply []"]
  show ?thesis by (auto simp: demo_clients demo_env_def)
qed

text \<open>
  C15: the life of an access request: a user without the access asks for it, the owner approves,
  and then the user has the access that the owner approved (or the WRITE they had), nobody
  else's access changes, and the request is no longer pending.
\<close>

theorem request_then_approve:
  assumes ok: "nm_ok S" and req: "message_ok req" "m_filename req \<noteq> []" "m_sender req \<noteq> []"
    and m: "nm_files S (m_filename req) = Some m" "fm_owner m \<noteq> m_sender req"
    and low: "\<not> requested_access req \<le> check_file_access m (m_sender req)"
    and room: "(m_filename req, m_sender req) \<notin> set (pending_keys (nm_requests S))" "length (nm_requests S) < 1000"
      "length (fm_access_list m) < MAX_USERS"
    and app: "message_ok app" "m_filename app = m_filename req" "m_data app = m_sender req" "m_sender app = fm_owner m"
  shows "\<exists>S1 S2 m'. nm_request_access E S sock req = Inr ([(sock, ack_reply ''Access request queued.'')], S1)
    \<and> nm_approve_request E' S1 sock' app = Inr ([(sock', ack_reply ''Request approved.'')], S2)
    \<and> nm_files S2 = (nm_files S)(m_filename req \<mapsto> m')
    \<and> (\<forall>v. check_file_access m' v = (if v = m_sender req then requested_access app else check_file_access m v))
    \<and> set (pending_keys (nm_requests S2)) = set (pending_keys (nm_requests S))"
proof -
  let ?f = "m_filename req" and ?u = "m_sender req"
  obtain S1 where S1: "nm_request_access E S sock req = Inr ([(sock, ack_reply ''Access request queued.'')], S1)" "nm_ok S1"
    "nm_files S1 = nm_files S" "set (pending_keys (nm_requests S1)) = insert (?f, ?u) (set (pending_keys (nm_requests S)))"
    using request_effect [OF ok req(1) m low req(2,3) room(1,2), of E sock] by blast
  have pend: "(m_filename app, m_data app) \<in> set (pending_keys (nm_requests S1))" using S1(4) app(2,3) by simp
  have m1: "nm_files S1 (m_filename app) = Some m" using m(1) S1(3) app(2) by simp
  obtain S2 where S2: "nm_approve_request E' S1 sock' app = Inr ([(sock', ack_reply ''Request approved.'')], S2)"
    "nm_files S2 = (nm_files S1)(m_filename app \<mapsto> fst (add_file_access m ?u (requested_access app)))"
    "set (pending_keys (nm_requests S2)) = set (pending_keys (nm_requests S1)) - {(m_filename app, m_data app)}"
    "length ?u < MAX_USERNAME_LEN" "acl_ok m"
    using approve_effect [OF S1(2) app(1) m1 app(4) [symmetric] pend, of E' sock'] app(3) by auto
  have z: "snd (add_file_access m ?u (requested_access app)) = 0"
    using room(3) by (auto simp: add_file_access_def push_access_def split: option.split)
  have not_w: "check_file_access m ?u \<noteq> ACCESS_WRITE"
    using low by (auto simp: requested_access_def less_eq_access_type_def split: if_splits)
  have "\<forall>v. check_file_access (fst (add_file_access m ?u (requested_access app))) v
      = (if v = ?u then requested_access app else check_file_access m v)"
    using add_file_access_check [OF S2(5,4) z] not_w by simp
  moreover have "set (pending_keys (nm_requests S2)) = set (pending_keys (nm_requests S))"
    using S2(3) S1(4) app(2,3) room(1) by auto
  ultimately show ?thesis using S1(1,3) S2(1,2) app(2) by auto
qed

theorem request_then_approve_witness:
  "\<exists>S1 S2 m'. nm_request_access demo_env demo_nm 6 (demo_msg MSG_REQUEST_ACCESS ''bob'' ''a'' [] 1) = Inr ([(6, ack_reply ''Access request queued.'')], S1)
    \<and> nm_approve_request demo_env S1 5 (demo_msg MSG_APPROVE_REQUEST ''alice'' ''a'' ''bob'' 2) = Inr ([(5, ack_reply ''Request approved.'')], S2)
    \<and> nm_files S2 ''a'' = Some m' \<and> check_file_access m' ''bob'' = ACCESS_WRITE"
proof -
  let ?r = "demo_msg MSG_REQUEST_ACCESS ''bob'' ''a'' [] 1" and ?a = "demo_msg MSG_APPROVE_REQUEST ''alice'' ''a'' ''bob'' 2"
  have msgs: "message_ok ?r" "message_ok ?a" by (simp_all add: demo_msg_ok limit_defs)
  have f: "nm_files demo_nm (m_filename ?r) = Some demo_meta" by (simp add: demo_file)
  have low: "\<not> requested_access ?r \<le> check_file_access demo_meta (m_sender ?r)"
    by (simp add: requested_access_def demo_access less_eq_access_type_def)
  from request_then_approve [OF demo_nm_ok msgs(1) _ _ f _ low _ _ _ msgs(2), of demo_env 6 demo_env 5]
  show ?thesis by (auto simp: limit_defs pending_keys_def requested_access_def)
qed

text \<open>
  C33: VIEW lists exactly the files on which the user has access, sorted and without repetition,
  when there are at most 1000 files and the list fits the reply; a longer list overruns the
  data of the message.
\<close>

theorem view_lists_accessible:
  assumes "nm_ok S" "get_client_by_socket (nm_clients S) sock = Some c" "m_arg1 msg = 0" "m_arg2 msg = 0"
    and "length (trie_names (nm_trie S)) \<le> 1000"
  shows "\<exists>names. nm_handle_view_files E S sock msg =
      (if length (concat (map name_line names)) < MAX_CONTENT_LEN
       then Inr ([(sock, file_list_reply (concat (map name_line names)))], S) else Inl Overflow)
    \<and> sorted_wrt byte_less names \<and> distinct names
    \<and> (\<forall>f. f \<in> set names \<longleftrightarrow> (\<exists>m. nm_files S f = Some m \<and> check_file_access m (ci_username c) \<noteq> ACCESS_NONE))"
proof (intro exI conjI)
  let ?all = "trie_get_all_files (nm_trie S) 1000"
  have all: "?all = trie_names (nm_trie S)" using assms(5) by (simp add: trie_get_all_files_eq)
  show "nm_handle_view_files E S sock msg =
      (if length (concat (map name_line (visible_files S (ci_username c)))) < MAX_CONTENT_LEN
       then Inr ([(sock, file_list_reply (concat (map name_line (visible_files S (ci_username c)))))], S) else Inl Overflow)"
    by (rule view_effect [OF assms(1-4)])
  show "sorted_wrt byte_less (visible_files S (ci_username c))" "distinct (visible_files S (ci_username c))"
    unfolding visible_files_def all by (simp_all add: trie_names_sorted trie_names_distinct sorted_wrt_filter)
  show "\<forall>f. f \<in> set (visible_files S (ci_username c)) \<longleftrightarrow> (\<exists>m. nm_files S f = Some m \<and> check_file_access m (ci_username c) \<noteq> ACCESS_NONE)"
    using nm_files_None [OF nm_ok_index [OF assms(1)]]
    unfolding visible_files_def all by (auto simp: trie_names_iff) (metis option.distinct(1) option.exhaust)+
qed

theorem view_lists_accessible_witness:
  "nm_handle_view_files demo_env demo_nm 5 (demo_msg MSG_VIEW_FILES ''alice'' [] [] 0)
     = Inr ([(5, file_list_reply (''--> a'' @ [nl]))], demo_nm)"
proof -
  have c: "get_client_by_socket (nm_clients demo_nm) 5 = Some (demo_client 5 ''alice'')" by (simp add: demo_clients)
  have "set (trie_names (nm_trie demo_nm)) = {''a''}" by (auto simp: trie_names_iff trie_search_insert split: if_splits)
  then have len: "length (trie_names (nm_trie demo_nm)) \<le> 1000"
    using distinct_card [OF trie_names_distinct, of "nm_trie demo_nm"] by simp
  obtain names where names: "nm_handle_view_files demo_env demo_nm 5 (demo_msg MSG_VIEW_FILES ''alice'' [] [] 0) =
     (if length (concat (map name_line names)) < MAX_CONTENT_LEN
      then Inr ([(5, file_list_reply (concat (map name_line names)))], demo_nm) else Inl Overflow)" "distinct names"
    "\<forall>f. f \<in> set names \<longleftrightarrow> (\<exists>m. nm_files demo_nm f = Some m \<and> check_file_access m (ci_username (demo_client 5 ''alice'')) \<noteq> ACCESS_NONE)"
    using view_lists_accessible [OF demo_nm_ok c _ _ len, of "demo_msg MSG_VIEW_FILES ''alice'' [] [] 0" demo_env] by auto
  have "set names = {''a''}" using names(3) by (auto simp: demo_file demo_access demo_clients split: if_splits)
  with names(2) have "names = [''a'']" by (cases names; cases "tl names") auto
  with names(1) show ?thesis by (simp add: name_line_def limit_defs)
qed

text \<open>
  The list of users always fits the reply, names each user once, and names every registered
  or connected user when there are at most 50 of them.
\<close>

theorem user_list_fits:
  assumes "nm_ok S"
  shows "\<exists>names. nm_handle_list_users S sock
      = Inr ([(sock, message_zero\<lparr>m_type := MSG_USER_LIST, m_data := concat (map name_line names)\<rparr>)], S)
    \<and> distinct names \<and> set names \<subseteq> set (nm_users S) \<union> ci_username ` set (nm_clients S)
    \<and> (length (nm_users S) + length (nm_clients S) \<le> MAX_CLIENTS \<longrightarrow> set names = set (nm_users S) \<union> ci_username ` set (nm_clients S))"
proof (intro exI conjI impI)
  let ?us = "get_all_usernames (nm_users S) (nm_clients S) MAX_CLIENTS"
  show "nm_handle_list_users S sock
      = Inr ([(sock, message_zero\<lparr>m_type := MSG_USER_LIST, m_data := concat (map name_line ?us)\<rparr>)], S)"
    using usernames_bound [OF assms] strcat_all_Inr [of "[]" MAX_CONTENT_LEN "map name_line ?us"]
    by (simp add: nm_handle_list_users_def limit_defs)
  show "distinct ?us" unfolding get_all_usernames_def by (intro collect_names_distinct) simp
  show "set ?us \<subseteq> set (nm_users S) \<union> ci_username ` set (nm_clients S)"
    unfolding get_all_usernames_def
    using collect_names_subset [of MAX_CLIENTS "collect_names MAX_CLIENTS [] (nm_users S)" "map ci_username (nm_clients S)"]
      collect_names_subset [of MAX_CLIENTS "[]" "nm_users S"] by auto
  assume fits: "length (nm_users S) + length (nm_clients S) \<le> MAX_CLIENTS"
  have grow: "length (collect_names m out us) \<le> length out + length us" for m out us
    by (induction m out us rule: collect_names.induct) auto
  have "length (collect_names MAX_CLIENTS [] (nm_users S)) + length (map ci_username (nm_clients S)) \<le> MAX_CLIENTS"
    using grow [of MAX_CLIENTS "[]" "nm_users S"] fits by simp
  then show "set ?us = set (nm_users S) \<union> ci_username ` set (nm_clients S)"
    using fits by (simp add: get_all_usernames_def collect_names_all)
qed

theorem user_list_fits_witness:
  "\<exists>names. nm_handle_list_users demo_nm 5
      = Inr ([(5, message_zero\<lparr>m_type := MSG_USER_LIST, m_data := concat (map name_line names)\<rparr>)], demo_nm)
    \<and> set names = {''alice'', ''bob''}"
  using user_list_fits [OF demo_nm_ok, of 5] by (auto simp: demo_client_def limit_defs)

text \<open>
  C38: EXEC uses the metadata after it has released the mutex: when the file is deleted between
  the two steps of the handler, the second step reads a freed object, although no handler
  does so when it runs alone.
\<close>

theorem exec_use_after_free:
  assumes "nm_ok S" "message_ok msg" "get_client_by_socket (nm_clients S) sock = Some c"
    and "nm_files S (m_filename msg) = Some m" "check_file_access m (ci_username c) \<noteq> ACCESS_NONE"
  shows "\<exists>S1 r S2. exec_lookup E S sock msg = Inr ([], S1, Some r) \<and> drop_metadata S1 (m_filename msg) = Inr S2
    \<and> nm_ok S2 \<and> exec_run E S2 sock r = Inl UseAfterFree"
proof -
  let ?f = "m_filename msg"
  obtain S1 where S1: "lookup_metadata E S ?f = Inr (S1, trie_search (nm_trie S) ?f)" "same_but_cache S S1" "index_ok S1"
    using lookup_metadata_spec [OF nm_ok_index [OF assms(1)] message_short [OF assms(2)]] by blast
  obtain r where r: "trie_search (nm_trie S) ?f = Some r" "nm_heap S r = Some m"
    by (rule nm_files_Some [OF nm_ok_index [OF assms(1)] assms(4)])
  have r1: "trie_search (nm_trie S1) ?f = Some r" "nm_heap S1 r = Some m" "nm_ok S1"
    using r S1(2,3) assms(1) by (auto simp: same_but_cache_def nm_ok_def)
  obtain S2 where S2: "drop_metadata S1 ?f = Inr S2" "nm_ok S2"
    using drop_metadata_spec [OF S1(3), of ?f] safe_drop_metadata [OF r1(3), of ?f nm_ok] by auto
  have "exec_lookup E S sock msg = Inr ([], S1, Some r)"
    using assms(3,5) S1(1) r(1) r1(2) by (simp add: exec_lookup_def exec_check_def meta_at_def)
  with S2 exec_after_delete [OF S1(3) r1(1) S2(1)] show ?thesis by blast
qed

theorem exec_use_after_free_witness:
  "\<exists>S1 r S2. exec_lookup demo_env demo_nm 5 (demo_msg MSG_EXEC_FILE ''alice'' ''a'' [] 0) = Inr ([], S1, Some r)
     \<and> drop_metadata S1 ''a'' = Inr S2 \<and> exec_run demo_env S2 5 r = Inl UseAfterFree"
proof -
  have msg: "message_ok (demo_msg MSG_EXEC_FILE ''alice'' ''a'' [] 0)" by (simp add: demo_msg_ok limit_defs)
  have c: "get_client_by_socket (nm_clients demo_nm) 5 = Some (demo_client 5 ''alice'')" by (simp add: demo_clients)
  have f: "nm_files demo_nm (m_filename (demo_msg MSG_EXEC_FILE ''alice'' ''a'' [] 0)) = Some demo_meta" by (simp add: demo_file)
  from exec_use_after_free [OF demo_nm_ok msg c f, of demo_env] show ?thesis by (auto simp: demo_access demo_clients)
qed

end
