(* ===== verification/Registry_Properties.thy ===== *)
theory Registry_Properties
  imports Naming_Demo Storage_Demo
begin

text \<open>
  The properties of the registries of the naming server and of its work with the storage
  servers: the round robin, registration, heartbeat and routing, recovery, the creation of a
  file on both sides, folders, and a restart.
\<close>

text \<open>
  The round robin is fair: as many selections in a row as there are servers choose every
  server exactly once, wherever the counter stands.
\<close>

theorem selection_is_fair:
  "mset (fst (select_many (length reg) reg l)) = mset (map Some reg)"
  by (rule round_robin_fair)

text \<open>
  A storage server that registers again from the same address and client port gets the number
  it had, and that number leads to its new connection.
\<close>

theorem server_keeps_number:
  assumes "ss_registry_ok reg" "register_storage_server reg info now = (n, reg')" "n \<noteq> - 1"
    and "si_ip info' = si_ip info" "si_client_port info' = si_client_port info"
    and "register_storage_server reg' info' now' = (n', reg'')"
  shows "n' = n \<and> (\<exists>s. get_storage_server reg'' n = Some s \<and> si_socket s = si_socket info' \<and> si_alive s = si_alive info')"
proof -
  have n: "n' = n" using register_twice [OF assms(1-5), of now'] assms(6) by simp
  have "ss_registry_ok reg'" using register_storage_server_ok [OF assms(1), of info now] assms(2) by simp
  from register_storage_server_get [OF this assms(6)] n assms(3) show ?thesis by auto
qed

theorem server_keeps_number_witness:
  "fst (register_storage_server [demo_ss] (demo_ss\<lparr>si_socket := 9\<rparr>) 3) = 0"
proof -
  have ok: "ss_registry_ok []" by (simp add: ss_registry_ok_def)
  have first: "register_storage_server [] demo_ss 0 = (0, [demo_ss])"
    by (simp add: register_storage_server_def MAX_STORAGE_SERVERS_def demo_ss_def)
  obtain n' reg'' where again: "register_storage_server [demo_ss] (demo_ss\<lparr>si_socket := 9\<rparr>) 3 = (n', reg'')"
    by (cases "register_storage_server [demo_ss] (demo_ss\<lparr>si_socket := 9\<rparr>) 3")
  from server_keeps_number [OF ok first _ _ _ again] again show ?thesis by simp
qed

text \<open>
  C26: after a round of the heartbeat a file is served by a server that has answered the round,
  whenever its primary or one of its replicas has.
\<close>

theorem heartbeat_then_route:
  assumes ok: "nm_ok S" and m: "nm_files S f = Some m"
    and i: "i = fm_ss_id m \<or> i \<in> set (replicas_get (nm_replicas S) f MAX_STORAGE_SERVERS)"
    and s: "get_storage_server (nm_servers S) i = Some s" "answers_ping E s"
    and step: "nm_event_step S (Heartbeat_Round E) = Inr (out, S')"
  shows "\<exists>t t0. route S' m = Some t \<and> si_alive t \<and> get_storage_server (nm_servers S) (si_id t) = Some t0 \<and> answers_ping E t0"
proof -
  let ?reg = "heartbeat_round E (nm_servers S) 0" and ?ids = "replicas_get (nm_replicas S) f MAX_STORAGE_SERVERS"
  have reg: "ss_registry_ok (nm_servers S)" using ok by (simp add: nm_ok_def tables_ok_def)
  have S': "nm_servers S' = ?reg" "nm_replicas S' = nm_replicas S" using step by auto
  have f: "fm_filename m = f" by (rule nm_files_Some [OF nm_ok_index [OF ok] m])
  have alive: "get_storage_server_status ?reg i" using heartbeat_status [OF reg] s by blast
  define pick where "pick = replicas_pick_alive_for_access ?reg (nm_replicas S) f (fm_ss_id m)"
  have pick: "get_storage_server_status ?reg pick"
  proof (cases "get_storage_server_status ?reg (fm_ss_id m)")
    case True
    then show ?thesis by (simp add: pick_def replicas_pick_alive_for_access_def)
  next
    case False
    with alive i have "i \<in> set ?ids" by auto
    with alive have "find_idx (\<lambda>i. get_storage_server_status ?reg i) ?ids \<noteq> None" by (auto simp: find_idx_None)
    with False show ?thesis
      by (auto simp: pick_def replicas_pick_alive_for_access_def Let_def dest: find_idx_SomeD)
  qed
  then have range: "0 \<le> pick" "pick < int (length ?reg)" by (auto simp: get_storage_server_status_def split: if_splits)
  then have "route S' m = Some (?reg ! nat pick)" "si_alive (?reg ! nat pick)"
    using pick S' f by (simp_all add: route_def pick_def [symmetric] get_storage_server_def get_storage_server_status_def)
  moreover have "si_id (?reg ! nat pick) = pick"
    using ss_registry_id [OF heartbeat_round_ok [OF reg], of "nat pick" E 0] range by simp
  moreover obtain t0 where "get_storage_server (nm_servers S) pick = Some t0" "answers_ping E t0"
    using heartbeat_status [OF reg] pick by blast
  ultimately show ?thesis by auto
qed

theorem heartbeat_then_route_witness:
  "\<exists>out S' t. nm_event_step demo_nm (Heartbeat_Round demo_env) = Inr (out, S') \<and> route S' demo_meta = Some t \<and> si_alive t"
proof -
  have f: "nm_files demo_nm ''a'' = Some demo_meta" by (simp add: demo_file)
  have s: "get_storage_server (nm_servers demo_nm) 0 = Some demo_ss" by (simp add: get_storage_server_def)
  have a: "answers_ping demo_env demo_ss" by (simp add: answers_ping_def demo_env_def)
  obtain out S' where step: "nm_event_step demo_nm (Heartbeat_Round demo_env) = Inr (out, S')" by simp
  from heartbeat_then_route [OF demo_nm_ok f _ s a step] step show ?thesis by auto
qed


text \<open>The demo server comes back with its file.\<close>

definition demo_register :: message where
  "demo_register = (demo_msg MSG_SS_REGISTER ''s'' [] ''a'' 9000)\<lparr>m_arg2 := 9001\<rparr>"

definition demo_info :: ss_info where
  "demo_info = \<lparr>si_id = 0, si_ip = ''10.0.0.1'', si_nm_port = 9000, si_client_port = 9001, si_alive = True,
                si_heartbeat = 0, si_socket = 8\<rparr>"

lemma demo_register_facts:
  "m_data demo_register = ''a''" "m_arg1 demo_register = 9000" "m_arg2 demo_register = 9001"
  "strtok {CHR '',''} (strncpy_buf MAX_CONTENT_LEN ''a'') = [''a'']" "trim_item ''a'' = ''a''"
  "strncpy_buf MAX_IP_LEN ''10.0.0.1'' = ''10.0.0.1''"
  "register_storage_server (nm_servers demo_nm) demo_info (env_now demo_env) = (0, [demo_ss\<lparr>si_heartbeat := 7, si_socket := 8\<rparr>])"
proof -
  show "m_data demo_register = ''a''" "m_arg1 demo_register = 9000" "m_arg2 demo_register = 9001"
    by (simp_all add: demo_register_def)
  have "strtok {CHR '',''} ''a'' = [''a'']" by code_simp
  then show "strtok {CHR '',''} (strncpy_buf MAX_CONTENT_LEN ''a'') = [''a'']" by (simp add: limit_defs)
  show "trim_item ''a'' = ''a''" by code_simp
  show "strncpy_buf MAX_IP_LEN ''10.0.0.1'' = ''10.0.0.1''" by (simp add: limit_defs)
  show "register_storage_server (nm_servers demo_nm) demo_info (env_now demo_env) = (0, [demo_ss\<lparr>si_heartbeat := 7, si_socket := 8\<rparr>])"
    by (simp add: register_storage_server_def demo_info_def demo_ss_def demo_env_def)
qed

lemma demo_reregisters:
  "\<exists>S'. handle_ss_register demo_env demo_nm 8 ''10.0.0.1'' demo_register = Inr ([(8, ss_registered 0)], S')"
proof -
  let ?S = "demo_nm\<lparr>nm_servers := [demo_ss\<lparr>si_heartbeat := 7, si_socket := 8\<rparr>]\<rparr>"
  have ok: "nm_ok ?S" by (rule nm_ok_servers [OF demo_nm_ok]) (simp add: ss_registry_ok_def MAX_STORAGE_SERVERS_def demo_ss_def)
  have alive: "get_storage_server_status (nm_servers ?S) 0" by (simp add: get_storage_server_status_def demo_ss_def)
  have info: "\<lparr>si_id = 0, si_ip = ''10.0.0.1'', si_nm_port = 9000, si_client_port = 9001, si_alive = True, si_heartbeat = 0, si_socket = 8\<rparr> = demo_info"
    by (simp add: demo_info_def)
  show ?thesis
    using recover_files_nothing [OF nm_ok_index [OF ok] alive]
    by (simp add: handle_ss_register_def Let_def demo_register_facts info trie_search_insert del: demo_nm_fields(4))
qed


section \<open>A file on both sides\<close>

text \<open>The first message that a storage server sends back to the naming server.\<close>

definition ss_reply :: "storage_server \<Rightarrow> message \<Rightarrow> message option" where
  "ss_reply SS m = (case filter (\<lambda>(p, r). p = Naming_Server) (fst (nm_request SS m)) of [] \<Rightarrow> None | (p, r) # _ \<Rightarrow> Some r)"

lemma path_in_root:
  assumes "writable_at F d f D"
  shows "resolve F (get_filepath d f) = Some (D @ [f])"
proof -
  have "take 511 (d @ CHR ''/'' # f) = d @ CHR ''/'' # f"
    by (rule take_all) (use assms in \<open>simp add: writable_at_def\<close>)
  then show ?thesis using writable_resolve(1) [OF assms] by (simp only: get_filepath_def)
qed

lemma create_on_server:
  assumes F: "fs_ok (ss_fs SS)" and w: "writable_at (ss_fs SS) (ss_dir SS) f D"
    and out: "\<not> prefix (backup_dir (ss_fs SS)) (D @ [f])" "length f \<le> 238"
    and m: "m_type m = MSG_CREATE_FILE_SS" "m_filename m = f"
  shows "if node_at (ss_fs SS) (D @ [f]) = None
    then ss_reply SS m = Some (ack_reply ''File created'') \<and> node_at (ss_fs (snd (nm_request SS m))) (D @ [f]) = Some (RegularFile [])
    else ss_reply SS m = Some (error_reply ERR_FILE_EXISTS ''File exists'') \<and> snd (nm_request SS m) = SS"
proof -
  note path = path_in_root [OF w]
  have ex: "file_exists (ss_fs SS) (get_filepath (ss_dir SS) f) \<longleftrightarrow> node_at (ss_fs SS) (D @ [f]) \<noteq> None"
    by (simp add: file_exists_def node_of_def path)
  show ?thesis
  proof (cases "node_at (ss_fs SS) (D @ [f])")
    case (Some x)
    with ex m show ?thesis by (simp add: ss_reply_def nm_request_def handle_create_file_def)
  next
    case None
    let ?G = "put_node (ss_fs SS) (D @ [f]) (RegularFile [])"
    have op: "fopen_write (ss_fs SS) (get_filepath (ss_dir SS) f) = Some (D @ [f], ?G)"
      using path None by (simp add: fopen_write_def)
    note G = fs_ok_fopen [OF F op]
    have "backup_dir ?G = backup_dir (ss_fs SS)" by (simp add: backup_dir_def put_node_def)
    then have "node_at (update_backup_for_file ?G f []) (D @ [f]) = Some (RegularFile [])"
      using backup_frame(4) [OF G(1) _ out(2), of "D @ [f]" "[]"] G(4) out(1) w by (simp add: writable_at_def)
    with None ex op m show ?thesis by (simp add: ss_reply_def nm_request_def handle_create_file_def)
  qed
qed

text \<open>
  C6: CREATE on both sides: when the chosen storage server does not have the file, it has an empty
  file afterwards, the naming server knows the file under that server with the user as owner
  and writer, and the user is told so; when the storage server has the file already, the user
  gets its error and neither side changes.
\<close>

theorem create_on_both_sides:
  assumes ok: "nm_ok S" and msg: "message_ok msg" and c: "get_client_by_socket (nm_clients S) sock = Some c"
    and new: "nm_files S (m_filename msg) = None"
    and sel: "select_storage_server_for_new_file (nm_servers S) (nm_last_selected S) = (Some s, l)"
    and SS: "fs_ok (ss_fs SS)" "writable_at (ss_fs SS) (ss_dir SS) (m_filename msg) D"
      "\<not> prefix (backup_dir (ss_fs SS)) (D @ [m_filename msg])" "length (m_filename msg) \<le> 238"
    and net: "env_reply E (si_socket s) = ss_reply SS"
      "\<And>t. t \<in> set (nm_servers S) \<Longrightarrow> env_reply E (si_socket t) (create_request msg c) \<noteq> None"
  shows "\<exists>out S'. nm_handle_create_file E S sock msg = Inr (out, S')
    \<and> (if node_at (ss_fs SS) (D @ [m_filename msg]) = None
       then (sock, ack_reply ''File Created Successfully!'') \<in> set out
         \<and> node_at (ss_fs (snd (nm_request SS (create_request msg c)))) (D @ [m_filename msg]) = Some (RegularFile [])
         \<and> (\<exists>m. nm_files S' = (nm_files S)(m_filename msg \<mapsto> m) \<and> fm_owner m = ci_username c \<and> fm_ss_id m = si_id s
                \<and> check_file_access m (ci_username c) = ACCESS_WRITE)
       else (sock, error_reply ERR_FILE_EXISTS ''ERROR: Failed to create file.'') \<in> set out
         \<and> snd (nm_request SS (create_request msg c)) = SS \<and> nm_files S' = nm_files S)"
proof -
  have m: "m_type (create_request msg c) = MSG_CREATE_FILE_SS" "m_filename (create_request msg c) = m_filename msg"
    by (simp_all add: create_request_def)
  have u: "length (ci_username c) < MAX_USERNAME_LEN" using get_client_in [OF c] ok by (auto simp: nm_ok_def tables_ok_def)
  note on_ss = create_on_server [OF SS m]
  show ?thesis
  proof (cases "node_at (ss_fs SS) (D @ [m_filename msg])")
    case None
    with on_ss net(1) have "env_reply E (si_socket s) (create_request msg c) = Some (ack_reply ''File created'')" by simp
    from create_effect [OF ok msg c new sel this net(2)] None on_ss create_metadata_rights [OF u] show ?thesis
      by (fastforce simp: create_file_metadata_def)
  next
    case (Some x)
    with on_ss net(1) have "env_reply E (si_socket s) (create_request msg c) = Some (error_reply ERR_FILE_EXISTS ''File exists'')" by simp
    from create_effect [OF ok msg c new sel this net(2)] Some on_ss show ?thesis by auto
  qed
qed

theorem create_on_both_sides_witness:
  "\<exists>out S' m. nm_handle_create_file (demo_env\<lparr>env_reply := \<lambda>s. ss_reply demo_server\<rparr>) demo_nm 6 (demo_msg MSG_CREATE_FILE ''bob'' ''g'' [] 0) = Inr (out, S')
     \<and> (6, ack_reply ''File Created Successfully!'') \<in> set out \<and> nm_files S' ''g'' = Some m \<and> fm_owner m = ''bob''"
proof -
  let ?msg = "demo_msg MSG_CREATE_FILE ''bob'' ''g'' [] 0" and ?E = "demo_env\<lparr>env_reply := \<lambda>s. ss_reply demo_server\<rparr>"
  have msg: "message_ok ?msg" by (simp add: demo_msg_ok limit_defs)
  have c: "get_client_by_socket (nm_clients demo_nm) 6 = Some (demo_client 6 ''bob'')" by (simp add: demo_clients)
  have new: "nm_files demo_nm (m_filename ?msg) = None" by (simp add: demo_file)
  have sel: "select_storage_server_for_new_file (nm_servers demo_nm) (nm_last_selected demo_nm) = (Some demo_ss, 0)"
    by (simp add: select_storage_server_for_new_file_def)
  have F: "fs_ok (ss_fs demo_server)" using demo_in_root by (simp add: in_root_def)
  have w: "writable_at (ss_fs demo_server) (ss_dir demo_server) (m_filename ?msg) demo_dir" unfolding demo_msg_fields by code_simp
  have p: "\<not> prefix (backup_dir (ss_fs demo_server)) (demo_dir @ [m_filename ?msg])" unfolding demo_msg_fields by code_simp
  have none: "node_at (ss_fs demo_server) (demo_dir @ [''g'']) = None" by code_simp
  have reply: "env_reply ?E sock (create_request ?msg (demo_client 6 ''bob'')) \<noteq> None" for sock
    using create_on_server [OF F w p, of "create_request ?msg (demo_client 6 ''bob'')"] none by (simp add: create_request_def)
  have net: "env_reply ?E (si_socket demo_ss) = ss_reply demo_server" by simp
  from create_on_both_sides [OF demo_nm_ok msg c new sel F w p _ net reply] none show ?thesis
    by (auto simp: demo_clients)
qed

section \<open>Folders\<close>

text \<open>
  A file is in one folder at most: after a MOVE that is acknowledged the file is in the target
  folder and in no other, the file of folders says so, and no other file moves; a MOVE to a
  folder that exists fails only when that folder holds 1000 files.
\<close>

theorem move_puts_in_one_folder:
  assumes "nm_ok S" "message_ok msg" "get_client_by_socket (nm_clients S) sock = Some c" "nm_files S (m_filename msg) = Some m"
    and "m_filename msg \<noteq> []" "m_data msg \<noteq> []" "find_folder_index (nm_folders S) (m_data msg) \<noteq> None"
  shows "\<exists>out reply S'. nm_handle_move_file E S sock msg = Inr (out @ [(sock, reply)], S')
    \<and> (m_type reply = MSG_ACK \<longrightarrow> (\<forall>d. in_folder (nm_folders S') d (m_filename msg) \<longleftrightarrow> d = m_data msg)
          \<and> nm_folders_dat S' = folders_save_to_disk (nm_folders S'))
    \<and> (m_type reply \<noteq> MSG_ACK \<longrightarrow> (\<exists>e \<in> set (nm_folders S). fd_name e = m_data msg \<and> length (fd_files e) = 1000))
    \<and> (\<forall>d g. g \<noteq> m_filename msg \<longrightarrow> in_folder (nm_folders S') d g = in_folder (nm_folders S) d g)"
  using move_effect [OF assms, of E] by blast

theorem move_puts_in_one_folder_witness:
  "\<exists>out S'. nm_handle_move_file demo_env demo_nm 6 (demo_msg MSG_MOVE_FILE ''bob'' ''a'' ''d'' 0) = Inr (out, S')
     \<and> in_folder (nm_folders S') ''d'' ''a''"
proof -
  let ?msg = "demo_msg MSG_MOVE_FILE ''bob'' ''a'' ''d'' 0"
  have msg: "message_ok ?msg" by (simp add: demo_msg_ok limit_defs)
  have c: "get_client_by_socket (nm_clients demo_nm) 6 = Some (demo_client 6 ''bob'')" by (simp add: demo_clients)
  have f: "nm_files demo_nm (m_filename ?msg) = Some demo_meta" by (simp add: demo_file)
  have d: "find_folder_index (nm_folders demo_nm) (m_data ?msg) \<noteq> None" by (simp add: find_folder_index_def)
  from move_puts_in_one_folder [OF demo_nm_ok msg c f _ _ d, of demo_env] show ?thesis by fastforce
qed

text \<open>
  C40: a MOVE to a folder that does not exist never returns: the thread waits for the mutex of the
  folder table, which it holds itself.
\<close>

theorem move_to_new_folder_deadlocks:
  assumes "nm_ok S" "message_ok msg" "get_client_by_socket (nm_clients S) sock = Some c" "nm_files S (m_filename msg) = Some m"
    and "m_filename msg \<noteq> []" "m_data msg \<noteq> []" "find_folder_index (nm_folders S) (m_data msg) = None"
  shows "nm_handle_move_file E S sock msg = Inl Deadlock"
  by (rule move_deadlock [OF assms])

theorem move_to_new_folder_deadlocks_witness:
  "nm_handle_move_file demo_env demo_nm 6 (demo_msg MSG_MOVE_FILE ''bob'' ''a'' ''new'' 0) = Inl Deadlock"
proof -
  let ?msg = "demo_msg MSG_MOVE_FILE ''bob'' ''a'' ''new'' 0"
  have msg: "message_ok ?msg" by (simp add: demo_msg_ok limit_defs)
  have c: "get_client_by_socket (nm_clients demo_nm) 6 = Some (demo_client 6 ''bob'')" by (simp add: demo_clients)
  have f: "nm_files demo_nm (m_filename ?msg) = Some demo_meta" by (simp add: demo_file)
  have d: "find_folder_index (nm_folders demo_nm) (m_data ?msg) = None" by (simp add: find_folder_index_def)
  from move_to_new_folder_deadlocks [OF demo_nm_ok msg c f _ _ d, of demo_env] show ?thesis by simp
qed

section \<open>Restart\<close>

text \<open>
  C16: a restart restores: a naming server that starts from the four files of another one, all
  written, has the same table of files, users, folders and requests, and satisfies the
  invariant.
\<close>

theorem restart_restores:
  assumes "nm_ok S" "disk_synced S" "disk_names_ok S"
    and "S' = start_naming_server now (nm_metadata_dat S) (nm_users_dat S) (nm_folders_dat S) (nm_requests_dat S)"
  shows "nm_files S' = nm_files S \<and> nm_users S' = nm_users S \<and> nm_folders S' = nm_folders S \<and> nm_requests S' = nm_requests S \<and> nm_ok S'"
  using restart_files [OF assms(1-3), of now] unfolding assms(4) Let_def .

text \<open>The demo server with everything on disk.\<close>

definition demo_saved :: naming_server where
  "demo_saved = demo_nm
     \<lparr>nm_metadata_dat := metadata_line ''a'' demo_meta @ [nl], nm_users_dat := ''alice'' @ nl # ''bob'' @ [nl],
      nm_folders_dat := ''d|'' @ [nl], nm_requests_dat := []\<rparr>"

lemma demo_saved_ok: "nm_ok demo_saved" "nm_files demo_saved = nm_files demo_nm"
  using demo_nm_ok by (simp_all add: demo_saved_def)

lemma demo_disk_ok: "disk_ok ''a'' demo_meta"
proof -
  have m: "demo_meta = \<lparr>fm_filename = ''a'', fm_owner = ''alice'', fm_ss_id = 0, fm_ss_ip = ''10.0.0.1'',
      fm_ss_client_port = 9001, fm_access_list = [(''alice'', ACCESS_WRITE)], fm_created_at = 0, fm_last_modified = 0,
      fm_last_accessed = 0, fm_last_accessed_by = ''alice'', fm_size_bytes = 0, fm_word_count = 0, fm_char_count = 0\<rparr>"
    by (simp add: demo_meta_def create_file_metadata_def strncpy_buf_def limit_defs)
  have line: "length (metadata_line ''a'' demo_meta) < 100" "length (acl_text (fm_access_list demo_meta)) < 100"
    by (simp_all add: m metadata_line_def metadata_fields_def acl_text_def acl_pair_def show_int_def
        show_nat.simps digit_char_def)
  show ?thesis
    unfolding disk_ok_def using line by (simp add: m field_ok_def user_ok_def acl_ok_def limit_defs)
qed

lemma demo_synced: "disk_synced demo_saved" "disk_names_ok demo_saved"
proof -
  have "set (trie_names (nm_trie demo_nm)) = {''a''}" by (auto simp: trie_names_iff trie_search_insert split: if_splits)
  then have names: "trie_names (nm_trie demo_nm) = [''a'']"
    using trie_names_distinct [of "nm_trie demo_nm"] by (cases "trie_names (nm_trie demo_nm)"; cases "tl (trie_names (nm_trie demo_nm))") auto
  have look: "meta_lookup (nm_heap demo_nm) (nm_trie demo_nm) ''a'' = Some demo_meta" using demo_file [of "''a''"] by (simp add: nm_files_def)
  have "trie_save_to_disk (nm_trie demo_nm) (nm_heap demo_nm) = Inr (metadata_line ''a'' demo_meta @ [nl])"
    using trie_save_to_disk_eq [OF index_live [OF nm_ok_index [OF demo_nm_ok]]] names look by simp
  then show "disk_synced demo_saved"
    by (simp add: disk_synced_def metadata_saved_def demo_saved_def users_text_def folders_save_to_disk_def folder_line_def
        access_requests_flush_all_def)
  show "disk_names_ok demo_saved"
    using demo_disk_ok unfolding disk_names_ok_def demo_saved_ok(2)
    by (auto simp: demo_file demo_saved_def user_line_ok_def folder_disk_ok_def folder_line_def limit_defs split: if_splits)
qed

theorem restart_restores_witness:
  "nm_files (start_naming_server 9 (nm_metadata_dat demo_saved) (nm_users_dat demo_saved) (nm_folders_dat demo_saved) (nm_requests_dat demo_saved)) ''a''
     = Some demo_meta"
  using restart_restores [OF demo_saved_ok(1) demo_synced refl, of 9] by (simp add: demo_saved_ok(2) demo_file)

end
