(* ===== verification/Client_Shell.thy ===== *)
theory Client_Shell
  imports Utils
begin

text \<open>
  The client, \<^verbatim>\<open>client/client.c\<close>: an interactive program that reads command lines, asks the
  naming server, and goes on with the storage server whose address it was told.  The state
  holds what is still to be read (the standard input, the replies that arrive on the
  connection to the naming server and on the connections to storage servers that the
  program opens one after the other) and the trace of what the program did.  The
  replies of the servers are arguments of the model; the theory \<open>Client_Composition\<close> takes
  them from the models of the servers.
\<close>

section \<open>State, input and output\<close>

datatype action =
    Printed string
  | To_NM message
  | Connected string int
  | To_SS message
  | Closed_SS
  | Closed_NM

text \<open>
  \<open>cl_conns\<close> lists the outcomes of the calls of \<open>connect_to_server\<close>: no connection, or a
  connection with the replies that will arrive on it.
\<close>

record client =
  cl_user :: string
  cl_stdin :: string
  cl_nm :: "message list"
  cl_ss :: "message list"
  cl_conns :: "message list option list"
  cl_trace :: "action list"

definition act :: "action \<Rightarrow> client \<Rightarrow> client" where
  "act a c = c\<lparr>cl_trace := cl_trace c @ [a]\<rparr>"

definition print :: "string \<Rightarrow> client \<Rightarrow> client" where
  "print s = act (Printed s)"

definition print_line :: "string \<Rightarrow> client \<Rightarrow> client" where
  "print_line s = print (s @ [nl])"

text \<open>
  A \<open>recv_message\<close> whose result the code does not check: when nothing arrives, the
  message that is read afterwards was never written.  Whatever does arrive is taken as it
  is; what reading its text does is \<open>text_of\<close> below.
\<close>

definition recv_nm :: "client \<Rightarrow> (message \<times> client) result" where
  "recv_nm c = (case cl_nm c of [] \<Rightarrow> Inl Uninitialised | m # ms \<Rightarrow> Inr (m, c\<lparr>cl_nm := ms\<rparr>))"

definition recv_ss :: "client \<Rightarrow> (message \<times> client) result" where
  "recv_ss c = (case cl_ss c of [] \<Rightarrow> Inl Uninitialised | m # ms \<Rightarrow> Inr (m, c\<lparr>cl_ss := ms\<rparr>))"

definition close_ss :: "client \<Rightarrow> client" where
  "close_ss c = act Closed_SS (c\<lparr>cl_ss := []\<rparr>)"

text \<open>\<^verbatim>\<open>fgets(input, n, stdin)\<close> and \<^verbatim>\<open>input[strcspn(input, "\n")] = 0\<close>.\<close>

definition typed :: "string \<Rightarrow> string" where
  "typed l = takeWhile (\<lambda>c. c \<noteq> nl) (c_string l)"

definition read_line :: "nat \<Rightarrow> client \<Rightarrow> (string \<times> client) option" where
  "read_line n c =
     (if cl_stdin c = [] then None
      else (let l = fgets_line n (cl_stdin c)
            in Some (typed l, c\<lparr>cl_stdin := drop (length l) (cl_stdin c)\<rparr>)))"

section \<open>Requests and replies\<close>

text \<open>A zeroed message with the type and the sender, and with the file name.\<close>

definition user_request :: "message_type \<Rightarrow> client \<Rightarrow> message result" where
  "user_request t c =
     ebind (strcpy_buf MAX_USERNAME_LEN (cl_user c)) (\<lambda>u. Inr (message_zero\<lparr>m_type := t, m_sender := u\<rparr>))"

definition file_request :: "message_type \<Rightarrow> client \<Rightarrow> string \<Rightarrow> message result" where
  "file_request t c f =
     ebind (user_request t c) (\<lambda>m. ebind (strcpy_buf MAX_FILENAME_LEN f) (\<lambda>n. Inr (m\<lparr>m_filename := n\<rparr>)))"

text \<open>The later commands copy file name and data with \<open>strncpy\<close>.\<close>

definition bounded_request :: "message_type \<Rightarrow> client \<Rightarrow> string \<Rightarrow> string \<Rightarrow> message result" where
  "bounded_request t c f d =
     ebind (user_request t c)
       (\<lambda>m. Inr (m\<lparr>m_filename := strncpy_buf MAX_FILENAME_LEN f, m_data := strncpy_buf MAX_CONTENT_LEN d\<rparr>))"

definition ask_nm :: "message result \<Rightarrow> client \<Rightarrow> (message \<times> client) result" where
  "ask_nm r c = ebind r (\<lambda>m. recv_nm (act (To_NM m) c))"

definition ask_ss :: "message result \<Rightarrow> client \<Rightarrow> (message \<times> client) result" where
  "ask_ss r c = ebind r (\<lambda>m. recv_ss (act (To_SS m) c))"

text \<open>
  The text of a reply, as \<^verbatim>\<open>strlen\<close> and \<^verbatim>\<open>printf("%s")\<close> read it.  \<open>recv_message\<close> takes the bytes as
  they come: when none of the 4096 bytes of the data is NUL, reading goes on behind the array.
  Such data has at least 4096 characters in the model.
\<close>

definition text_of :: "message \<Rightarrow> string result" where
  "text_of m = (if length (m_data m) < MAX_CONTENT_LEN then Inr (m_data m) else Inl Overread)"

text \<open>What is shown of an error, of any reply, and of the replies to the later commands.\<close>

definition error_text :: "message \<Rightarrow> string" where
  "error_text m = (if m_data m \<noteq> [] then m_data m else error_to_string (m_error m))"

definition show_error :: "message \<Rightarrow> client \<Rightarrow> client result" where
  "show_error m c = ebind (text_of m) (\<lambda>_. Inr (print_line (error_text m) c))"

definition show_reply :: "message \<Rightarrow> client \<Rightarrow> client result" where
  "show_reply m c =
     (if m_type m = MSG_ERROR then show_error m c else ebind (text_of m) (\<lambda>d. Inr (print_line d c)))"

definition show_text :: "message \<Rightarrow> client \<Rightarrow> client result" where
  "show_text m c =
     (if m_type m = MSG_ERROR then show_error m c else ebind (text_of m) (\<lambda>d. Inr (print d c)))"

definition show_short :: "message \<Rightarrow> client \<Rightarrow> client result" where
  "show_short m c =
     ebind (text_of m) (\<lambda>d. Inr (print_line (if d \<noteq> [] then d
                 else if m_type m = MSG_ERROR then error_to_string (m_error m) else []) c))"

text \<open>
  Opening the connection to the storage server whose address was told.  The address goes to
  \<^verbatim>\<open>inet_pton\<close>, which stops at the first character that cannot stand in an address of at most 15,
  so it does not read over the end of the data.
\<close>

definition open_ss :: "string \<Rightarrow> int \<Rightarrow> client \<Rightarrow> bool \<times> client" where
  "open_ss ip port c =
     (let c = act (Connected ip port) c in
      case cl_conns c of
        [] \<Rightarrow> (False, c)
      | None # conns \<Rightarrow> (False, c\<lparr>cl_conns := conns\<rparr>)
      | Some replies # conns \<Rightarrow> (True, c\<lparr>cl_conns := conns, cl_ss := replies\<rparr>))"

definition connect_ss :: "string \<Rightarrow> int \<Rightarrow> (client \<Rightarrow> client result) \<Rightarrow> client \<Rightarrow> client result" where
  "connect_ss ip port k c =
     (case open_ss ip port c of
        (False, c) \<Rightarrow> Inr (print_line ''ERROR: Failed to connect to storage server'' c)
      | (True, c) \<Rightarrow> k c)"

definition at_ss :: "message \<Rightarrow> (client \<Rightarrow> client result) \<Rightarrow> client \<Rightarrow> client result" where
  "at_ss resp k c =
     (if m_type resp = MSG_ERROR then show_error resp c
      else connect_ss (m_data resp) (m_arg1 resp) k c)"

text \<open>
  The checkpoint commands show the text of an error only, and copy the address into an
  array of 16 bytes with a \<open>strncpy\<close> of 15 that nothing terminates when the address
  has 15 characters or more: the last byte is then read without having been written.
\<close>

definition at_ss_copied :: "message \<Rightarrow> (client \<Rightarrow> client result) \<Rightarrow> client \<Rightarrow> client result" where
  "at_ss_copied resp k c =
     (if m_type resp = MSG_ERROR then ebind (text_of resp) (\<lambda>d. Inr (print_line d c))
      else if length (m_data resp) < MAX_IP_LEN - 1 then connect_ss (m_data resp) (m_arg1 resp) k c
      else Inl Uninitialised)"

section \<open>Commands answered by the naming server\<close>

definition execute_view :: "command \<Rightarrow> client \<Rightarrow> client result" where
  "execute_view cm c =
     ebind (ask_nm (ebind (user_request MSG_VIEW_FILES c)
              (\<lambda>m. Inr (m\<lparr>m_arg1 := (if flag_a cm then 1 else 0), m_arg2 := (if flag_l cm then 1 else 0)\<rparr>))) c)
       (\<lambda>(resp, c). show_text resp c)"

definition execute_create :: "command \<Rightarrow> client \<Rightarrow> client result" where
  "execute_create cm c =
     (if length (args cm) < 1 then Inr (print_line ''Usage: CREATE <filename>'' c)
      else ebind (ask_nm (file_request MSG_CREATE_FILE c (args cm ! 0)) c) (\<lambda>(resp, c). show_reply resp c))"

definition execute_delete :: "command \<Rightarrow> client \<Rightarrow> client result" where
  "execute_delete cm c =
     (if length (args cm) < 1 then Inr (print_line ''Usage: DELETE <filename>'' c)
      else ebind (ask_nm (file_request MSG_DELETE_FILE c (args cm ! 0)) c) (\<lambda>(resp, c). show_reply resp c))"

definition execute_info :: "command \<Rightarrow> client \<Rightarrow> client result" where
  "execute_info cm c =
     (if length (args cm) < 1 then Inr (print_line ''Usage: INFO <filename>'' c)
      else ebind (ask_nm (file_request MSG_INFO_FILE c (args cm ! 0)) c) (\<lambda>(resp, c). show_text resp c))"

definition execute_list :: "command \<Rightarrow> client \<Rightarrow> client result" where
  "execute_list cm c =
     ebind (ask_nm (user_request MSG_LIST_USERS c) c) (\<lambda>(resp, c). ebind (text_of resp) (\<lambda>d. Inr (print d c)))"

definition execute_addaccess :: "command \<Rightarrow> client \<Rightarrow> client result" where
  "execute_addaccess cm c =
     (if length (args cm) < 2 then Inr (print_line ''Usage: ADDACCESS -R|-W <filename> <username>'' c)
      else if \<not> flag_r cm \<and> \<not> flag_w cm then Inr (print_line ''Usage: ADDACCESS -R|-W <filename> <username>'' c)
      else ebind (ask_nm (ebind (file_request MSG_ADDACCESS c (args cm ! 0))
                   (\<lambda>m. ebind (strcpy_buf MAX_CONTENT_LEN (args cm ! 1))
                     (\<lambda>d. Inr (m\<lparr>m_data := d, m_arg1 := (if flag_w cm then 2 else 1)\<rparr>)))) c)
             (\<lambda>(resp, c). show_reply resp c))"

definition execute_remaccess :: "command \<Rightarrow> client \<Rightarrow> client result" where
  "execute_remaccess cm c =
     (if length (args cm) < 2 then Inr (print_line ''Usage: REMACCESS <filename> <username>'' c)
      else ebind (ask_nm (ebind (file_request MSG_REMACCESS c (args cm ! 0))
                   (\<lambda>m. ebind (strcpy_buf MAX_CONTENT_LEN (args cm ! 1)) (\<lambda>d. Inr (m\<lparr>m_data := d\<rparr>)))) c)
             (\<lambda>(resp, c). show_reply resp c))"

text \<open>EXEC prints what arrives until the end or an error; its \<open>recv_message\<close> is checked.\<close>

fun exec_loop :: "message list \<Rightarrow> client \<Rightarrow> client result" where
  "exec_loop [] c = Inr (print_line ''ERROR: Disconnected during EXEC'' (c\<lparr>cl_nm := []\<rparr>))"
| "exec_loop (resp # ms) c =
     (if m_type resp = MSG_ERROR then show_error resp (c\<lparr>cl_nm := ms\<rparr>)
      else if m_type resp = MSG_EXEC_OUTPUT then ebind (text_of resp) (\<lambda>d. exec_loop ms (print d c))
      else Inr (c\<lparr>cl_nm := ms\<rparr>))"

definition execute_exec :: "command \<Rightarrow> client \<Rightarrow> client result" where
  "execute_exec cm c =
     (if length (args cm) < 1 then Inr (print_line ''Usage: EXEC <filename>'' c)
      else ebind (file_request MSG_EXEC_FILE c (args cm ! 0))
             (\<lambda>m. exec_loop (cl_nm c) (act (To_NM m) c)))"

definition execute_create_folder :: "command \<Rightarrow> client \<Rightarrow> client result" where
  "execute_create_folder cm c =
     (if length (args cm) < 1 then Inr (print_line ''Usage: CREATEFOLDER <foldername>'' c)
      else ebind (ask_nm (bounded_request MSG_CREATE_FOLDER c [] (args cm ! 0)) c) (\<lambda>(resp, c). show_short resp c))"

definition execute_move :: "command \<Rightarrow> client \<Rightarrow> client result" where
  "execute_move cm c =
     (if length (args cm) < 2 then Inr (print_line ''Usage: MOVE <filename> <foldername>'' c)
      else ebind (ask_nm (bounded_request MSG_MOVE_FILE c (args cm ! 0) (args cm ! 1)) c)
             (\<lambda>(resp, c). show_short resp c))"

definition execute_view_folder :: "command \<Rightarrow> client \<Rightarrow> client result" where
  "execute_view_folder cm c =
     (if length (args cm) < 1 then Inr (print_line ''Usage: VIEWFOLDER <foldername>'' c)
      else ebind (ask_nm (bounded_request MSG_VIEW_FOLDER c [] (args cm ! 0)) c) (\<lambda>(resp, c). ebind (text_of resp) (\<lambda>d. Inr (print d c))))"

definition execute_request_access :: "command \<Rightarrow> client \<Rightarrow> client result" where
  "execute_request_access cm c =
     (if length (args cm) < 2 \<or> \<not> flag_r cm \<and> \<not> flag_w cm
      then Inr (print_line ''Usage: REQUESTACCESS <filename> -R|-W'' c)
      else ebind (ask_nm (ebind (bounded_request MSG_REQUEST_ACCESS c (args cm ! 0) [])
                   (\<lambda>m. Inr (m\<lparr>m_arg1 := (if flag_w cm then 2 else 1)\<rparr>))) c)
             (\<lambda>(resp, c). show_short resp c))"

definition execute_view_requests :: "client \<Rightarrow> client result" where
  "execute_view_requests c =
     ebind (ask_nm (user_request MSG_VIEW_REQUESTS c) c) (\<lambda>(resp, c). show_text resp c)"

definition execute_approve_request :: "command \<Rightarrow> client \<Rightarrow> client result" where
  "execute_approve_request cm c =
     (if length (args cm) < 2 \<or> \<not> flag_r cm \<and> \<not> flag_w cm
      then Inr (print_line ''Usage: APPROVEREQUEST <filename> <user> -R|-W'' c)
      else ebind (ask_nm (ebind (bounded_request MSG_APPROVE_REQUEST c (args cm ! 0) (args cm ! 1))
                   (\<lambda>m. Inr (m\<lparr>m_arg1 := (if flag_w cm then 2 else 1)\<rparr>))) c)
             (\<lambda>(resp, c). show_short resp c))"

definition execute_deny_request :: "command \<Rightarrow> client \<Rightarrow> client result" where
  "execute_deny_request cm c =
     (if length (args cm) < 2 then Inr (print_line ''Usage: DENYREQUEST <filename> <user>'' c)
      else ebind (ask_nm (bounded_request MSG_DENY_REQUEST c (args cm ! 0) (args cm ! 1)) c)
             (\<lambda>(resp, c). show_short resp c))"

section \<open>Commands that go on with a storage server\<close>

definition execute_read :: "command \<Rightarrow> client \<Rightarrow> client result" where
  "execute_read cm c =
     (if length (args cm) < 1 then Inr (print_line ''Usage: READ <filename>'' c)
      else ebind (ask_nm (file_request MSG_READ_FILE c (args cm ! 0)) c) (\<lambda>(resp, c).
             at_ss resp (\<lambda>c. ebind (ask_ss (file_request MSG_READ_REQUEST c (args cm ! 0)) c)
               (\<lambda>(r, c). ebind (show_reply r c) (\<lambda>c. Inr (close_ss c)))) c))"

definition execute_undo :: "command \<Rightarrow> client \<Rightarrow> client result" where
  "execute_undo cm c =
     (if length (args cm) < 1 then Inr (print_line ''Usage: UNDO <filename>'' c)
      else ebind (ask_nm (file_request MSG_UNDO_FILE c (args cm ! 0)) c) (\<lambda>(resp, c).
             at_ss resp (\<lambda>c. ebind (ask_ss (file_request MSG_UNDO_FILE c (args cm ! 0)) c)
               (\<lambda>(r, c). ebind (show_reply r c) (\<lambda>c. Inr (close_ss c)))) c))"

text \<open>The words of a stream, up to an error, the end mark or the end of the connection.\<close>

fun stream_loop :: "message list \<Rightarrow> client \<Rightarrow> client result" where
  "stream_loop [] c =
     Inr (print (nl # ''ERROR: Storage Server disconnected during streaming'' @ [nl]) (c\<lparr>cl_ss := []\<rparr>))"
| "stream_loop (m # ms) c =
     (if m_type m = MSG_ERROR then ebind (text_of m) (\<lambda>_. Inr (print (nl # error_text m @ [nl]) (c\<lparr>cl_ss := ms\<rparr>)))
      else if m_data m = ''END_OF_FILE'' then Inr (print [nl] (c\<lparr>cl_ss := ms\<rparr>))
      else ebind (text_of m) (\<lambda>d. stream_loop ms (print (d @ '' '') c)))"

definition execute_stream :: "command \<Rightarrow> client \<Rightarrow> client result" where
  "execute_stream cm c =
     (if length (args cm) < 1 then Inr (print_line ''Usage: STREAM <filename>'' c)
      else ebind (ask_nm (file_request MSG_STREAM_FILE c (args cm ! 0)) c) (\<lambda>(resp, c).
             at_ss resp (\<lambda>c. ebind (file_request MSG_STREAM_REQUEST c (args cm ! 0))
               (\<lambda>m. ebind (stream_loop (cl_ss c) (act (To_SS m) c)) (\<lambda>c. Inr (close_ss c)))) c))"

definition execute_checkpoint :: "command \<Rightarrow> client \<Rightarrow> client result" where
  "execute_checkpoint cm c =
     (if length (args cm) < 2 then Inr (print_line ''Usage: CHECKPOINT <filename> <tag>'' c)
      else ebind (ask_nm (bounded_request MSG_CP_CREATE c (args cm ! 0) (args cm ! 1)) c) (\<lambda>(resp, c).
             at_ss_copied resp (\<lambda>c. ebind (ask_ss (bounded_request MSG_CP_CREATE c (args cm ! 0) (args cm ! 1)) c)
               (\<lambda>(r, c). ebind (show_short r c) (\<lambda>c. Inr (close_ss c)))) c))"

definition execute_view_checkpoint :: "command \<Rightarrow> client \<Rightarrow> client result" where
  "execute_view_checkpoint cm c =
     (if length (args cm) < 2 then Inr (print_line ''Usage: VIEWCHECKPOINT <filename> <tag>'' c)
      else ebind (ask_nm (bounded_request MSG_CP_VIEW c (args cm ! 0) (args cm ! 1)) c) (\<lambda>(resp, c).
             at_ss_copied resp (\<lambda>c. ebind (ask_ss (bounded_request MSG_CP_VIEW c (args cm ! 0) (args cm ! 1)) c)
               (\<lambda>(r, c). ebind (text_of r) (\<lambda>d. Inr (close_ss (print_line d c))))) c))"

definition execute_revert :: "command \<Rightarrow> client \<Rightarrow> client result" where
  "execute_revert cm c =
     (if length (args cm) < 2 then Inr (print_line ''Usage: REVERT <filename> <tag>'' c)
      else ebind (ask_nm (bounded_request MSG_CP_REVERT c (args cm ! 0) (args cm ! 1)) c) (\<lambda>(resp, c).
             at_ss_copied resp (\<lambda>c. ebind (ask_ss (bounded_request MSG_CP_REVERT c (args cm ! 0) (args cm ! 1)) c)
               (\<lambda>(r, c). ebind (show_short r c) (\<lambda>c. Inr (close_ss c)))) c))"

definition execute_list_checkpoints :: "command \<Rightarrow> client \<Rightarrow> client result" where
  "execute_list_checkpoints cm c =
     (if length (args cm) < 1 then Inr (print_line ''Usage: LISTCHECKPOINTS <filename>'' c)
      else ebind (ask_nm (bounded_request MSG_CP_LIST c (args cm ! 0) []) c) (\<lambda>(resp, c).
             at_ss_copied resp (\<lambda>c. ebind (ask_ss (bounded_request MSG_CP_LIST c (args cm ! 0) []) c)
               (\<lambda>(r, c). ebind (text_of r) (\<lambda>d. Inr (close_ss (print d c))))) c))"

section \<open>Writing\<close>

definition is_int_str :: "string \<Rightarrow> bool" where
  "is_int_str s \<longleftrightarrow> s \<noteq> [] \<and> list_all isdigit s"

text \<open>\<^verbatim>\<open>strstr\<close>: where a text first occurs.\<close>

fun strstr :: "string \<Rightarrow> string \<Rightarrow> nat option" where
  "strstr pat [] = (if pat = [] then Some 0 else None)"
| "strstr pat (c # s) = (if take (length pat) (c # s) = pat then Some 0 else map_option Suc (strstr pat s))"

definition update_message :: "int \<Rightarrow> string \<Rightarrow> message" where
  "update_message i content =
     message_zero\<lparr>m_type := MSG_WRITE_REQUEST, m_arg1 := i, m_data := strncpy_buf MAX_CONTENT_LEN content\<rparr>"

definition finish_message :: message where
  "finish_message = message_zero\<lparr>m_type := MSG_WRITE_REQUEST, m_data := ''ETIRW''\<rparr>"

text \<open>\<^verbatim>\<open>strncat(buf, s, sizeof(buf) - strlen(buf) - 1)\<close> with 1024 bytes.\<close>

definition add_content :: "string \<Rightarrow> string \<Rightarrow> string" where
  "add_content buf s = buf @ take (1024 - length buf - 1) s"

text \<open>
  One token after the other: \<open>have_idx\<close> and \<open>cur_idx\<close> are the option, \<open>cur_content\<close> is the
  text collected for it.  The result holds the messages sent on the way, what is pending
  at the end, and whether a token ended the session.
\<close>

fun write_tokens :: "int option \<Rightarrow> string \<Rightarrow> string list \<Rightarrow> message list \<times> int option \<times> string \<times> bool" where
  "write_tokens idx content [] = ([], idx, content, False)"
| "write_tokens idx content (tok # toks) =
     (if tok = ''ETIRW'' then ([], idx, content, True)
      else if is_int_str tok then
        (case idx of
           Some i \<Rightarrow>
             if content \<noteq> []
             then (case write_tokens (Some (atoi32 tok)) [] toks of (ms, r) \<Rightarrow> (update_message i content # ms, r))
             else write_tokens (Some (atoi32 tok)) content toks
         | None \<Rightarrow> write_tokens (Some (atoi32 tok)) content toks)
      else
        (case idx of
           Some i \<Rightarrow>
             write_tokens idx (add_content (if content \<noteq> [] then add_content content '' '' else content) tok) toks
         | None \<Rightarrow> write_tokens idx content toks))"

text \<open>
  A line: the text before \<^verbatim>\<open>ETIRW\<close>, if that occurs anywhere, without the blanks at its end;
  its tokens; the pair that is pending at the end of the line.  The result holds the
  messages, whether the format was wrong, and whether the session ends.
\<close>

definition cut_end :: "string \<Rightarrow> string \<times> bool" where
  "cut_end input =
     (case strstr ''ETIRW'' input of
        None \<Rightarrow> (input, False)
      | Some n \<Rightarrow> (rev (dropWhile isspace (rev (take n input))), True))"

definition write_line :: "string \<Rightarrow> message list \<times> bool \<times> bool" where
  "write_line line =
     (case cut_end line of (input, finish_now) \<Rightarrow>
      case write_tokens None [] (strtok {CHR '' ''} (strncpy_buf 1024 input)) of (ms, idx, content, fin) \<Rightarrow>
        ((case idx of Some i \<Rightarrow> (if content \<noteq> [] then ms @ [update_message i content] else ms) | None \<Rightarrow> ms),
         idx = None \<and> input \<noteq> [], finish_now \<or> fin))"

definition send_updates :: "message list \<Rightarrow> client \<Rightarrow> client" where
  "send_updates ms c = fold (\<lambda>m. act (To_SS m)) ms c"

definition bad_format :: string where
  "bad_format = ''Invalid format. Use: <word_index> <content>''"

lemma read_line_shrinks:
  assumes "read_line n c = Some (l, c')" "1 < n"
  shows "length (cl_stdin c') < length (cl_stdin c)"
proof -
  have "cl_stdin c \<noteq> []" "c' = c\<lparr>cl_stdin := drop (length (fgets_line n (cl_stdin c))) (cl_stdin c)\<rparr>"
    using assms(1) by (auto simp: read_line_def Let_def split: if_splits)
  moreover have "fgets_line n (cl_stdin c) \<noteq> []" if "cl_stdin c \<noteq> []"
    using that assms(2) by (cases "cl_stdin c") (auto simp: fgets_line_def Let_def)
  ultimately show ?thesis by (cases "cl_stdin c") auto
qed

lemma act_fields [simp]:
  "cl_user (act a c) = cl_user c" "cl_stdin (act a c) = cl_stdin c" "cl_nm (act a c) = cl_nm c"
  "cl_ss (act a c) = cl_ss c" "cl_conns (act a c) = cl_conns c" "cl_trace (act a c) = cl_trace c @ [a]"
  by (simp_all add: act_def)

lemma print_fields [simp]:
  "cl_user (print s c) = cl_user c" "cl_stdin (print s c) = cl_stdin c" "cl_nm (print s c) = cl_nm c"
  "cl_ss (print s c) = cl_ss c" "cl_conns (print s c) = cl_conns c" "cl_trace (print s c) = cl_trace c @ [Printed s]"
  by (simp_all add: print_def)

lemma print_line_fields [simp]:
  "cl_user (print_line s c) = cl_user c" "cl_stdin (print_line s c) = cl_stdin c" "cl_nm (print_line s c) = cl_nm c"
  "cl_ss (print_line s c) = cl_ss c" "cl_conns (print_line s c) = cl_conns c"
  "cl_trace (print_line s c) = cl_trace c @ [Printed (s @ [nl])]"
  by (simp_all add: print_line_def)

lemma send_updates_fields [simp]:
  "cl_user (send_updates ms c) = cl_user c" "cl_stdin (send_updates ms c) = cl_stdin c"
  "cl_nm (send_updates ms c) = cl_nm c" "cl_ss (send_updates ms c) = cl_ss c"
  "cl_conns (send_updates ms c) = cl_conns c" "cl_trace (send_updates ms c) = cl_trace c @ map To_SS ms"
  unfolding send_updates_def by (induction ms arbitrary: c) auto

text \<open>The interactive loop; the end of the input ends the session like \<^verbatim>\<open>ETIRW\<close> does.\<close>

function edit_loop :: "client \<Rightarrow> client" where
  "edit_loop c =
     (case read_line 1024 (print ''> '' c) of
        None \<Rightarrow> act (To_SS finish_message) (print ''> '' c)
      | Some (line, c') \<Rightarrow>
          (if line = [] then edit_loop c'
           else (case write_line line of (ms, bad, finish) \<Rightarrow>
             (let c'' = send_updates ms c';
                  c'' = (if bad then print_line bad_format c'' else c'')
              in if finish then act (To_SS finish_message) c'' else edit_loop c''))))"
  by pat_completeness auto
termination
  by (relation "measure (\<lambda>c. length (cl_stdin c))")
     (auto split: if_splits dest!: read_line_shrinks [THEN less_le_trans])

declare edit_loop.simps [simp del]

definition write_prompt :: "string \<Rightarrow> client \<Rightarrow> client" where
  "write_prompt ready c =
     print (''Type '' @ CHR 0x27 # ''ETIRW'' @ CHR 0x27 # '' on a line by itself to finish'' @ [nl, nl])
       (print_line ''Enter: <word_index> <content>'' (print_line ready c))"

lemma write_prompt_fields [simp]:
  "cl_user (write_prompt m c) = cl_user c" "cl_stdin (write_prompt m c) = cl_stdin c" "cl_ss (write_prompt m c) = cl_ss c"
  by (simp_all add: write_prompt_def)

definition execute_write :: "command \<Rightarrow> client \<Rightarrow> client result" where
  "execute_write cm c =
     (if length (args cm) < 2 then Inr (print_line ''Usage: WRITE <filename> <sentence_number>'' c)
      else ebind (ask_nm (file_request MSG_WRITE_FILE c (args cm ! 0)) c) (\<lambda>(resp, c).
             at_ss resp (\<lambda>c.
               ebind (ask_ss (ebind (file_request MSG_WRITE_REQUEST c (args cm ! 0))
                        (\<lambda>m. Inr (m\<lparr>m_arg1 := atoi32 (args cm ! 1)\<rparr>))) c) (\<lambda>(ready, c).
               if m_type ready = MSG_ERROR then ebind (show_error ready c) (\<lambda>c. Inr (close_ss c))
               else ebind (text_of ready) (\<lambda>d.
                    ebind (recv_ss (edit_loop (write_prompt d c))) (\<lambda>(final, c).
                    ebind (text_of final) (\<lambda>d. Inr (close_ss (print_line d c)))))))
             c))"

end
