(* ===== verification/Client_Main.thy ===== *)
theory Client_Main
  imports Client_Shell
begin

text \<open>
  \<open>execute_command\<close> and \<open>main\<close> of \<^verbatim>\<open>client/client.c\<close>, and what every command does at most:
  it keeps the user, only appends to the trace, never gets input back (so that the loop of
  \<open>main\<close> returns), sends messages that fit their buffers under the user's own name, and
  has no fault but a reply that did not arrive, the unterminated address, or a reply whose
  text has no end.
\<close>

section \<open>Commands\<close>

definition help_lines :: "string list" where
  "help_lines =
     [''Available Commands:'',
      ''  VIEW [-a] [-l]          - List files'',
      ''  CREATE <filename>       - Create new file'',
      ''  READ <filename>         - Read file content'',
      ''  WRITE <file> <sent#>    - Write to file'',
      ''  DELETE <filename>       - Delete file'',
      ''  INFO <filename>         - File information'',
      ''  LIST                    - List all users'',
      ''  ADDACCESS -R|-W <file> <user> - Add access'',
      ''  REMACCESS <file> <user> - Remove access'',
      ''  UNDO <filename>         - Undo last change'',
      ''  STREAM <filename>       - Stream file'',
      ''  CREATEFOLDER <name>     - Create a folder'',
      ''  MOVE <file> <folder>    - Move file to folder'',
      ''  VIEWFOLDER <name>       - List files in folder'',
      ''  CHECKPOINT <file> <tag> - Create checkpoint'',
      ''  VIEWCHECKPOINT <file> <tag> - View checkpoint content'',
      ''  REVERT <file> <tag>     - Revert to checkpoint'',
      ''  LISTCHECKPOINTS <file>  - List checkpoints'',
      ''  REQUESTACCESS <file> -R|-W        - Request access'',
      ''  VIEWREQUESTS                   - View your pending incoming requests (as owner)'',
      ''  APPROVEREQUEST <file> <user> -R|-W - Approve request'',
      ''  DENYREQUEST <file> <user>      - Deny request'',
      ''  EXIT                    - Exit client'']"

definition execute_help :: "client \<Rightarrow> client" where
  "execute_help c = fold print ([nl] # map (\<lambda>l. l @ [nl]) help_lines @ [[nl]]) c"

text \<open>The result says whether the command ended the program.\<close>

definition goodbye :: string where
  "goodbye = [CHR 0xF0, CHR 0x9F, CHR 0x91, CHR 0x8B] @ '' Goodbye!''"

definition stay :: "client result \<Rightarrow> (bool \<times> client) result" where
  "stay r = ebind r (\<lambda>c. Inr (False, c))"

definition execute_command :: "char set \<Rightarrow> string \<Rightarrow> client \<Rightarrow> (bool \<times> client) result" where
  "execute_command stray input c =
     (let cm = parse_command stray input in
      if cmd cm = [] then Inr (False, c)
      else if cmd cm = ''EXIT'' \<or> cmd cm = ''QUIT'' then Inr (True, act Closed_NM (print_line goodbye c))
      else if cmd cm = ''VIEW'' then stay (execute_view cm c)
      else if cmd cm = ''CREATE'' then stay (execute_create cm c)
      else if cmd cm = ''READ'' then stay (execute_read cm c)
      else if cmd cm = ''WRITE'' then stay (execute_write cm c)
      else if cmd cm = ''DELETE'' then stay (execute_delete cm c)
      else if cmd cm = ''INFO'' then stay (execute_info cm c)
      else if cmd cm = ''LIST'' then stay (execute_list cm c)
      else if cmd cm = ''ADDACCESS'' then stay (execute_addaccess cm c)
      else if cmd cm = ''REMACCESS'' then stay (execute_remaccess cm c)
      else if cmd cm = ''UNDO'' then stay (execute_undo cm c)
      else if cmd cm = ''STREAM'' then stay (execute_stream cm c)
      else if cmd cm = ''EXEC'' then stay (execute_exec cm c)
      else if cmd cm = ''CREATEFOLDER'' then stay (execute_create_folder cm c)
      else if cmd cm = ''MOVE'' then stay (execute_move cm c)
      else if cmd cm = ''VIEWFOLDER'' then stay (execute_view_folder cm c)
      else if cmd cm = ''CHECKPOINT'' then stay (execute_checkpoint cm c)
      else if cmd cm = ''VIEWCHECKPOINT'' then stay (execute_view_checkpoint cm c)
      else if cmd cm = ''REVERT'' then stay (execute_revert cm c)
      else if cmd cm = ''LISTCHECKPOINTS'' then stay (execute_list_checkpoints cm c)
      else if cmd cm = ''REQUESTACCESS'' then stay (execute_request_access cm c)
      else if cmd cm = ''VIEWREQUESTS'' then stay (execute_view_requests c)
      else if cmd cm = ''APPROVEREQUEST'' then stay (execute_approve_request cm c)
      else if cmd cm = ''DENYREQUEST'' then stay (execute_deny_request cm c)
      else if cmd cm = ''HELP'' then Inr (False, execute_help c)
      else Inr (False, print_line ''Type HELP for available commands'' (print_line (''Unknown command: '' @ cmd cm) c)))"

section \<open>What a command does at most\<close>

text \<open>
  \<open>P\<close> says that user name and arguments are texts that fit their buffers; without it
  only the parts about the input and the replies are claimed.  The replies that are still to
  arrive become fewer; an overread needs one of them to be without an end.
\<close>

definition text_ok :: "nat \<Rightarrow> string \<Rightarrow> bool" where
  "text_ok n s \<longleftrightarrow> length s < n \<and> CHR 0x00 \<notin> set s"

fun action_ok :: "string \<Rightarrow> action \<Rightarrow> bool" where
  "action_ok u (To_NM m) \<longleftrightarrow> message_ok m \<and> m_sender m = u"
| "action_ok u (To_SS m) \<longleftrightarrow> message_ok m \<and> m_sender m \<in> {u, []}"
| "action_ok u _ \<longleftrightarrow> True"

definition arrivals :: "client \<Rightarrow> message set" where
  "arrivals c = set (cl_nm c) \<union> set (cl_ss c) \<union> (\<Union>r \<in> set (cl_conns c). set (case r of None \<Rightarrow> [] | Some ms \<Rightarrow> ms))"

definition advances :: "bool \<Rightarrow> client \<Rightarrow> client \<Rightarrow> bool" where
  "advances P c c' \<longleftrightarrow> cl_user c' = cl_user c \<and> length (cl_stdin c') \<le> length (cl_stdin c) \<and> arrivals c' \<subseteq> arrivals c
     \<and> (\<exists>as. cl_trace c' = cl_trace c @ as \<and> (P \<longrightarrow> (\<forall>a \<in> set as. action_ok (cl_user c) a)))"

definition unended :: "message set \<Rightarrow> bool" where
  "unended ms \<longleftrightarrow> (\<exists>m \<in> ms. MAX_CONTENT_LEN \<le> length (m_data m))"

definition goes_on :: "bool \<Rightarrow> client \<Rightarrow> client result \<Rightarrow> bool" where
  "goes_on P c r \<longleftrightarrow> (case r of Inl f \<Rightarrow> P \<longrightarrow> f = Uninitialised \<or> f = Overread \<and> unended (arrivals c) | Inr c' \<Rightarrow> advances P c c')"

named_theorems advance_rules "steps of the client that advance it"

lemma advances_refl [advance_rules]: "advances P c c"
  by (simp add: advances_def)

lemma advances_trans: "advances P c c' \<Longrightarrow> advances P c' c'' \<Longrightarrow> advances P c c''"
  by (fastforce simp: advances_def)

lemma arrivals_fields [simp]:
  "arrivals (act a c) = arrivals c" "arrivals (c\<lparr>cl_stdin := s\<rparr>) = arrivals c" "arrivals (c\<lparr>cl_user := u\<rparr>) = arrivals c"
  "arrivals (print t c) = arrivals c" "arrivals (print_line t c) = arrivals c" "arrivals (send_updates ms c) = arrivals c"
  by (simp_all add: arrivals_def act_def print_line_def)

lemma advances_act: "(P \<Longrightarrow> action_ok (cl_user c) a) \<Longrightarrow> advances P c (act a c)"
  by (auto simp: advances_def)

lemma advances_print [advance_rules]: "advances P c (print s c)" "advances P c (print_line s c)"
  by (simp_all add: print_def print_line_def advances_act)

lemma advances_print_after [advance_rules]:
  "advances P c c' \<Longrightarrow> advances P c (print s c')" "advances P c c' \<Longrightarrow> advances P c (print_line s c')"
  by (blast intro: advances_trans advances_print)+

lemma advances_recv [advance_rules]:
  "advances P c c' \<Longrightarrow> set ms \<subseteq> arrivals c \<Longrightarrow> advances P c (c'\<lparr>cl_nm := ms\<rparr>)"
  "advances P c c' \<Longrightarrow> set ms \<subseteq> arrivals c \<Longrightarrow> advances P c (c'\<lparr>cl_ss := ms\<rparr>)"
  by (auto simp: advances_def arrivals_def)

lemma advances_close [advance_rules]: "advances P c c' \<Longrightarrow> advances P c (close_ss c')"
  by (rule advances_trans [of _ _ c']) (auto simp: close_ss_def advances_def arrivals_def act_def)

lemma arrivals_queues: "advances P c c' \<Longrightarrow> set (cl_nm c') \<subseteq> arrivals c" "advances P c c' \<Longrightarrow> set (cl_ss c') \<subseteq> arrivals c"
  by (auto simp: advances_def arrivals_def)

lemma goes_on_Inr [simp]: "goes_on P c (Inr c') \<longleftrightarrow> advances P c c'"
  by (simp add: goes_on_def)

lemma goes_on_Inl [simp]: "goes_on P c (Inl f) \<longleftrightarrow> (P \<longrightarrow> f = Uninitialised \<or> f = Overread \<and> unended (arrivals c))"
  by (simp add: goes_on_def)

lemma goes_on_after:
  assumes "advances P c c'" "goes_on P c' r"
  shows "goes_on P c r"
  using assms by (cases r) (auto intro: advances_trans simp: unended_def advances_def)

text \<open>Reading the text of a reply that arrived.\<close>

lemma goes_on_text:
  assumes "m \<in> arrivals c" "\<And>d. goes_on P c (k d)"
  shows "goes_on P c (ebind (text_of m) k)"
  using assms by (auto simp: text_of_def unended_def not_less)

lemma goes_on_show:
  assumes "advances P c c'" "m \<in> arrivals c"
  shows "goes_on P c (show_reply m c')" "goes_on P c (show_text m c')" "goes_on P c (show_short m c')" "goes_on P c (show_error m c')"
  using assms(1) unfolding show_reply_def show_text_def show_short_def show_error_def
  by (auto intro!: goes_on_text assms(2) advance_rules)

lemma goes_on_bind:
  assumes "goes_on P c r" "\<And>c'. advances P c c' \<Longrightarrow> goes_on P c (k c')"
  shows "goes_on P c (ebind r k)"
  using assms by (cases r) auto

text \<open>A request that fits, and the reply to it.\<close>

definition request_fits :: "bool \<Rightarrow> string \<Rightarrow> message result \<Rightarrow> bool" where
  "request_fits P u r \<longleftrightarrow> (P \<longrightarrow> (\<exists>m. r = Inr m \<and> message_ok m \<and> m_sender m = u))"

lemma goes_on_recv:
  assumes "advances P c c'" "\<And>resp c''. advances P c c'' \<Longrightarrow> resp \<in> arrivals c \<Longrightarrow> goes_on P c (k (resp, c''))"
  shows "goes_on P c (ebind (recv_nm c') k)" "goes_on P c (ebind (recv_ss c') k)"
  using arrivals_queues [OF assms(1)]
  by (auto simp: recv_nm_def recv_ss_def split: list.split intro!: assms advance_rules)

lemma goes_on_ask:
  assumes "advances P c c'" "request_fits P (cl_user c') r"
    and "\<And>resp c''. advances P c c'' \<Longrightarrow> resp \<in> arrivals c \<Longrightarrow> goes_on P c (k (resp, c''))"
  shows "goes_on P c (ebind (ask_nm r c') k)" "goes_on P c (ebind (ask_ss r c') k)"
proof -
  have step: "advances P c (act a c')" if "r = Inr m" "a = To_NM m \<or> a = To_SS m" for a m
    by (rule advances_trans [OF assms(1) advances_act]) (use assms(2) that in \<open>auto simp: request_fits_def\<close>)
  show "goes_on P c (ebind (ask_nm r c') k)"
  proof (cases r)
    case (Inr m)
    have "goes_on P c (ebind (recv_nm (act (To_NM m) c')) k)"
      by (rule goes_on_recv(1)) (rule step [OF Inr], simp, rule assms(3))
    with Inr show ?thesis by (simp add: ask_nm_def)
  qed (use assms(2) in \<open>simp add: ask_nm_def request_fits_def\<close>)
  show "goes_on P c (ebind (ask_ss r c') k)"
  proof (cases r)
    case (Inr m)
    have "goes_on P c (ebind (recv_ss (act (To_SS m) c')) k)"
      by (rule goes_on_recv(2)) (rule step [OF Inr], simp, rule assms(3))
    with Inr show ?thesis by (simp add: ask_ss_def)
  qed (use assms(2) in \<open>simp add: ask_ss_def request_fits_def\<close>)
qed

lemma goes_on_connect:
  assumes "advances P c c'" "\<And>c''. advances P c c'' \<Longrightarrow> goes_on P c (k c'')"
  shows "goes_on P c (connect_ss ip port k c')"
proof -
  have "advances P c' (snd (open_ss ip port c'))"
    by (auto simp: open_ss_def Let_def advances_def arrivals_def act_def split: list.split option.split)
  then have "advances P c (snd (open_ss ip port c'))" by (rule advances_trans [OF assms(1)])
  with assms(2) show ?thesis
    by (auto simp: connect_ss_def split: prod.split bool.split intro: advance_rules)
qed

lemma goes_on_at_ss:
  assumes "advances P c c'" "resp \<in> arrivals c" "\<And>c''. advances P c c'' \<Longrightarrow> goes_on P c (k c'')"
  shows "goes_on P c (at_ss resp k c')" "goes_on P c (at_ss_copied resp k c')"
  using goes_on_connect [OF assms(1,3)] goes_on_show(4) [OF assms(1,2)] assms(1)
  by (auto simp: at_ss_def at_ss_copied_def intro!: goes_on_text assms(2) advance_rules)

text \<open>The requests of the commands.\<close>

definition command_fits :: "bool \<Rightarrow> client \<Rightarrow> command \<Rightarrow> bool" where
  "command_fits P c cm \<longleftrightarrow>
     (P \<longrightarrow> text_ok MAX_USERNAME_LEN (cl_user c) \<and> (\<forall>a \<in> set (args cm). text_ok MAX_FILENAME_LEN a))"

lemma command_fits_advances: "command_fits P c cm \<Longrightarrow> advances P c c' \<Longrightarrow> command_fits P c' cm"
  by (simp add: command_fits_def advances_def)

lemma text_ok_take: "CHR 0x00 \<notin> set s \<Longrightarrow> 0 < n \<Longrightarrow> text_ok n (strncpy_buf n s)"
  by (auto simp: text_ok_def strncpy_buf_def dest: in_set_takeD)

lemma user_request_fits:
  assumes "command_fits P c cm"
  shows "request_fits P (cl_user c) (user_request t c)"
    "request_fits P (cl_user c) (ebind (user_request t c) (\<lambda>m. Inr (m\<lparr>m_arg1 := i, m_arg2 := j\<rparr>)))"
  using assms by (auto simp: request_fits_def command_fits_def user_request_def strcpy_buf_def strcat_buf_def
      text_ok_def message_ok_def message_zero_def limit_defs)

lemma file_request_fits:
  assumes "command_fits P c cm" "i < length (args cm)"
  shows "request_fits P (cl_user c) (file_request t c (args cm ! i))"
    "request_fits P (cl_user c) (ebind (file_request t c (args cm ! i)) (\<lambda>m. Inr (m\<lparr>m_arg1 := a\<rparr>)))"
  using assms nth_mem [OF assms(2)] unfolding file_request_def
  by (auto simp: request_fits_def command_fits_def user_request_def strcpy_buf_def strcat_buf_def
      text_ok_def message_ok_def message_zero_def limit_defs)

lemma access_request_fits:
  assumes "command_fits P c cm" "i < length (args cm)" "j < length (args cm)"
  shows "request_fits P (cl_user c) (ebind (file_request t c (args cm ! i))
           (\<lambda>m. ebind (strcpy_buf MAX_CONTENT_LEN (args cm ! j)) (\<lambda>d. Inr (m\<lparr>m_data := d\<rparr>))))"
    "request_fits P (cl_user c) (ebind (file_request t c (args cm ! i))
           (\<lambda>m. ebind (strcpy_buf MAX_CONTENT_LEN (args cm ! j)) (\<lambda>d. Inr (m\<lparr>m_data := d, m_arg1 := a\<rparr>))))"
proof -
  have "length (args cm ! j) < MAX_CONTENT_LEN" if P
  proof -
    have "length (args cm ! j) < MAX_FILENAME_LEN"
      using assms(1) nth_mem [OF assms(3)] that by (simp add: command_fits_def text_ok_def)
    then show ?thesis by (simp add: limit_defs)
  qed
  with assms nth_mem [OF assms(2)] nth_mem [OF assms(3)]
  show "request_fits P (cl_user c) (ebind (file_request t c (args cm ! i))
           (\<lambda>m. ebind (strcpy_buf MAX_CONTENT_LEN (args cm ! j)) (\<lambda>d. Inr (m\<lparr>m_data := d\<rparr>))))"
    "request_fits P (cl_user c) (ebind (file_request t c (args cm ! i))
           (\<lambda>m. ebind (strcpy_buf MAX_CONTENT_LEN (args cm ! j)) (\<lambda>d. Inr (m\<lparr>m_data := d, m_arg1 := a\<rparr>))))"
    by (auto simp: request_fits_def command_fits_def file_request_def user_request_def strcpy_buf_def strcat_buf_def
      text_ok_def message_ok_def message_zero_def limit_defs)
qed

definition from_args :: "command \<Rightarrow> string \<Rightarrow> bool" where
  "from_args cm s \<longleftrightarrow> s = [] \<or> s \<in> set (args cm)"

lemma from_args_intros: "from_args cm []" "i < length (args cm) \<Longrightarrow> from_args cm (args cm ! i)"
  by (simp_all add: from_args_def)

lemma bounded_request_fits:
  assumes "command_fits P c cm" "from_args cm f" "from_args cm d"
  shows "request_fits P (cl_user c) (bounded_request t c f d)"
    "request_fits P (cl_user c) (ebind (bounded_request t c f d) (\<lambda>m. Inr (m\<lparr>m_arg1 := a\<rparr>)))"
proof -
  have nul: "CHR 0x00 \<notin> set f" "CHR 0x00 \<notin> set d" if P
    using assms that by (auto simp: command_fits_def text_ok_def from_args_def)
  have "text_ok MAX_FILENAME_LEN (strncpy_buf MAX_FILENAME_LEN f)" "text_ok MAX_CONTENT_LEN (strncpy_buf MAX_CONTENT_LEN d)" if P
    using nul [OF that] by (simp_all add: text_ok_take limit_defs)
  then show "request_fits P (cl_user c) (bounded_request t c f d)"
    "request_fits P (cl_user c) (ebind (bounded_request t c f d) (\<lambda>m. Inr (m\<lparr>m_arg1 := a\<rparr>)))"
    using assms(1) by (auto simp: request_fits_def command_fits_def bounded_request_def user_request_def strcpy_buf_def
        strcat_buf_def text_ok_def message_ok_def message_zero_def limit_defs)
qed

section \<open>Every command advances the client\<close>

lemmas fits_rules = user_request_fits file_request_fits access_request_fits bounded_request_fits from_args_intros

lemma simple_commands_go_on:
  assumes "command_fits P c cm"
  shows "goes_on P c (execute_view cm c)" "goes_on P c (execute_create cm c)" "goes_on P c (execute_delete cm c)"
    "goes_on P c (execute_info cm c)" "goes_on P c (execute_list cm c)" "goes_on P c (execute_addaccess cm c)"
    "goes_on P c (execute_remaccess cm c)" "goes_on P c (execute_create_folder cm c)" "goes_on P c (execute_move cm c)"
    "goes_on P c (execute_view_folder cm c)" "goes_on P c (execute_request_access cm c)"
    "goes_on P c (execute_view_requests c)" "goes_on P c (execute_approve_request cm c)"
    "goes_on P c (execute_deny_request cm c)"
  unfolding execute_view_def execute_create_def execute_delete_def execute_info_def execute_list_def execute_addaccess_def
    execute_remaccess_def execute_create_folder_def execute_move_def execute_view_folder_def execute_request_access_def
    execute_view_requests_def execute_approve_request_def execute_deny_request_def
  by (auto intro!: goes_on_ask(1) goes_on_show goes_on_text fits_rules assms advance_rules)

text \<open>The commands that go on with a storage server: asking it, and reading its reply.\<close>

lemma goes_on_at_server:
  assumes "command_fits P c cm" "request_fits P (cl_user c) r"
    and "\<And>c'. command_fits P c' cm \<Longrightarrow> request_fits P (cl_user c') (r' c')"
    and "\<And>resp c'. advances P c c' \<Longrightarrow> resp \<in> arrivals c \<Longrightarrow> goes_on P c (k resp c')"
  shows "goes_on P c (ebind (ask_nm r c) (\<lambda>(resp, c). at_ss resp (\<lambda>c. ebind (ask_ss (r' c) c) (\<lambda>(m, c). k m c)) c))"
    "goes_on P c (ebind (ask_nm r c) (\<lambda>(resp, c). at_ss_copied resp (\<lambda>c. ebind (ask_ss (r' c) c) (\<lambda>(m, c). k m c)) c))"
  by (auto intro!: goes_on_ask goes_on_at_ss advances_refl assms(2,3,4) elim: command_fits_advances [OF assms(1)])

lemma session_commands_go_on:
  assumes "command_fits P c cm"
  shows "goes_on P c (execute_read cm c)" "goes_on P c (execute_undo cm c)" "goes_on P c (execute_checkpoint cm c)"
    "goes_on P c (execute_view_checkpoint cm c)" "goes_on P c (execute_revert cm c)"
    "goes_on P c (execute_list_checkpoints cm c)"
  unfolding execute_read_def execute_undo_def execute_checkpoint_def execute_view_checkpoint_def execute_revert_def
    execute_list_checkpoints_def
  by (auto intro!: goes_on_at_server [OF assms] goes_on_bind goes_on_show goes_on_text fits_rules assms advance_rules)

text \<open>The loops.\<close>

lemma exec_loop_goes_on: "advances P c c' \<Longrightarrow> set ms \<subseteq> arrivals c \<Longrightarrow> goes_on P c (exec_loop ms c')"
  by (induction ms arbitrary: c') (auto intro!: goes_on_show goes_on_text advance_rules)

lemma stream_loop_goes_on: "advances P c c' \<Longrightarrow> set ms \<subseteq> arrivals c \<Longrightarrow> goes_on P c (stream_loop ms c')"
  by (induction ms arbitrary: c') (auto intro!: goes_on_show goes_on_text advance_rules)

lemma write_tokens_sound:
  assumes "write_tokens idx content toks = (ms, idx', content', fin)"
    "set content \<subseteq> A" "\<forall>t \<in> set toks. set t \<subseteq> A" "CHR '' '' \<in> A"
  shows "(\<forall>m \<in> set ms. \<exists>i s. m = update_message i s \<and> set s \<subseteq> A) \<and> set content' \<subseteq> A"
  using assms
proof (induction idx content toks arbitrary: ms rule: write_tokens.induct)
  case (2 idx content tok toks)
  have add: "set (add_content b s) \<subseteq> A" if "set b \<subseteq> A" "set s \<subseteq> A" for b s
    using that by (auto simp: add_content_def dest: in_set_takeD)
  have "set tok \<subseteq> A" "\<forall>t \<in> set toks. set t \<subseteq> A" using "2.prems" by auto
  moreover have "set (add_content (if content \<noteq> [] then add_content content '' '' else content) tok) \<subseteq> A"
    using "2.prems"(2,4) add [of content "'' ''"] \<open>set tok \<subseteq> A\<close> by (intro add) auto
  moreover have "\<exists>j s. update_message i content = update_message j s \<and> set s \<subseteq> A" for i using "2.prems"(2) by blast
  ultimately show ?case using 2
    by (auto split: if_splits option.splits prod.splits)
qed auto

lemma write_line_sound:
  assumes "write_line line = (ms, bad, fin)" "CHR 0x00 \<notin> set line" "m \<in> set ms"
  shows "message_ok m" "m_sender m = []"
proof -
  let ?A = "insert (CHR '' '') (set line)"
  obtain input f where i: "cut_end line = (input, f)" by fastforce
  then have "set input \<subseteq> set line"
    by (auto simp: cut_end_def split: option.splits dest!: set_dropWhileD in_set_takeD)
  moreover obtain ms' idx content fin' where
    w: "write_tokens None [] (strtok {CHR '' ''} (strncpy_buf 1024 input)) = (ms', idx, content, fin')"
    by (metis prod_cases4)
  moreover have "set t \<subseteq> set input" if "t \<in> set (strtok {CHR '' ''} (strncpy_buf 1024 input))" for t
    using strtok_tokens [OF that] by (auto simp: strncpy_buf_def dest: in_set_takeD)
  ultimately have "(\<forall>m \<in> set ms'. \<exists>i s. m = update_message i s \<and> set s \<subseteq> ?A) \<and> set content \<subseteq> ?A"
    by (intro write_tokens_sound [OF w]) auto
  moreover have "set ms \<subseteq> insert (update_message (the idx) content) (set ms')"
    using assms(1) i w by (auto simp: write_line_def split: option.splits if_splits)
  ultimately obtain i s where m: "m = update_message i s" "set s \<subseteq> ?A" using assms(3) by blast
  then have "text_ok MAX_CONTENT_LEN (strncpy_buf MAX_CONTENT_LEN s)"
    using assms(2) by (intro text_ok_take) (auto simp: limit_defs)
  with m(1) show "message_ok m" "m_sender m = []"
    by (simp_all add: update_message_def message_ok_def text_ok_def message_zero_def limit_defs)
qed

lemma finish_message_ok: "message_ok finish_message" "m_sender finish_message = []"
  by (simp_all add: finish_message_def message_ok_def message_zero_def limit_defs)

lemma read_line_sound:
  assumes "read_line n c = Some (l, c')"
  shows "CHR 0x00 \<notin> set l" "nl \<notin> set l" "advances P c c'"
  using assms c_string_no_nul [of "fgets_line n (cl_stdin c)"]
  by (auto simp: read_line_def typed_def Let_def advances_def split: if_splits dest: set_takeWhileD)

lemma send_updates_advances:
  assumes "\<And>m. m \<in> set ms \<Longrightarrow> message_ok m \<and> m_sender m = []"
  shows "advances P c (send_updates ms c)"
  using assms by (auto simp: advances_def)

lemma edit_loop_advances: "advances P c (edit_loop c)"
proof (induction c rule: edit_loop.induct)
  case (1 c)
  let ?c = "print ''> '' c"
  have fin: "advances P c0 (act (To_SS finish_message) c0)" for c0
    by (rule advances_act) (simp add: finish_message_ok)
  show ?case
  proof (cases "read_line 1024 ?c")
    case None
    then show ?thesis by (subst edit_loop.simps) (auto intro: advances_trans fin advance_rules)
  next
    case (Some p)
    obtain line c' where p: "p = (line, c')" by fastforce
    with Some have rl: "read_line 1024 ?c = Some (line, c')" by simp
    note sound = read_line_sound [OF rl]
    have c': "advances P c c'" by (rule advances_trans [OF advances_print(1) sound(3)])
    obtain ms bad finish where w: "write_line line = (ms, bad, finish)" by (metis prod_cases3)
    define c2 where "c2 = (if bad then print_line bad_format (send_updates ms c') else send_updates ms c')"
    have "advances P c' (send_updates ms c')"
      using write_line_sound [OF w sound(1)] by (intro send_updates_advances) blast
    then have c2: "advances P c c2" unfolding c2_def by (auto intro: advances_trans [OF c'] advance_rules)
    show ?thesis
    proof (cases "line = []")
      case True
      then show ?thesis using "1.IH"(1) [OF rl refl] c' by (subst edit_loop.simps) (simp add: rl advances_trans)
    next
      case False
      then have e: "edit_loop c = (if finish then act (To_SS finish_message) c2 else edit_loop c2)"
        by (subst edit_loop.simps) (simp add: rl w c2_def)
      moreover have "advances P c2 (edit_loop c2)" if "\<not> finish"
        using "1.IH"(2) [OF rl refl False w [symmetric] refl refl refl] that by (simp add: c2_def)
      ultimately show ?thesis using advances_trans [OF c2] fin by simp
    qed
  qed
qed

lemma exec_command_goes_on:
  assumes "command_fits P c cm"
  shows "goes_on P c (execute_exec cm c)"
proof (cases "length (args cm) < 1")
  case False
  then have "request_fits P (cl_user c) (file_request MSG_EXEC_FILE c (args cm ! 0))"
    by (intro file_request_fits assms) simp
  moreover have "goes_on P c (exec_loop (cl_nm c) (act (To_NM m) c))" if "P \<Longrightarrow> message_ok m \<and> m_sender m = cl_user c" for m
    using that arrivals_queues(1) [OF advances_refl] by (intro exec_loop_goes_on advances_act) auto
  ultimately show ?thesis using False
    by (cases "file_request MSG_EXEC_FILE c (args cm ! 0)") (auto simp: execute_exec_def request_fits_def)
qed (simp add: execute_exec_def advance_rules)

lemma stream_command_goes_on:
  assumes "command_fits P c cm"
  shows "goes_on P c (execute_stream cm c)"
proof (cases "length (args cm) < 1")
  case False
  have "goes_on P c (ebind (file_request MSG_STREAM_REQUEST c' (args cm ! 0))
      (\<lambda>m. ebind (stream_loop (cl_ss c') (act (To_SS m) c')) (\<lambda>c. Inr (close_ss c))))" if c': "advances P c c'" for c'
  proof -
    have fits: "request_fits P (cl_user c') (file_request MSG_STREAM_REQUEST c' (args cm ! 0))"
      using False by (intro file_request_fits command_fits_advances [OF assms c']) simp
    have "goes_on P c (ebind (stream_loop (cl_ss c') (act (To_SS m) c')) (\<lambda>c. Inr (close_ss c)))"
      if "P \<Longrightarrow> message_ok m \<and> m_sender m = cl_user c'" for m
    proof (intro goes_on_bind stream_loop_goes_on advances_trans [OF c' advances_act] arrivals_queues(2) [OF c'])
      show "P \<Longrightarrow> action_ok (cl_user c') (To_SS m)" using that by simp
      show "advances P c c'' \<Longrightarrow> goes_on P c (Inr (close_ss c''))" for c'' by (simp add: advances_close)
    qed
    with fits show ?thesis
      by (cases "file_request MSG_STREAM_REQUEST c' (args cm ! 0)") (auto simp: request_fits_def)
  qed
  then show ?thesis using False
    by (auto simp: execute_stream_def intro!: goes_on_ask goes_on_at_ss fits_rules assms advance_rules)
qed (simp add: execute_stream_def advance_rules)

lemma write_command_goes_on:
  assumes "command_fits P c cm"
  shows "goes_on P c (execute_write cm c)"
proof -
  have final: "goes_on P c (ebind (recv_ss (edit_loop (write_prompt d c'))) (\<lambda>(final, c).
      ebind (text_of final) (\<lambda>d. Inr (close_ss (print_line d c)))))" if "advances P c c'" for c' d
  proof -
    have "advances P c (edit_loop (write_prompt d c'))" unfolding write_prompt_def
      by (rule advances_trans [OF _ edit_loop_advances]) (intro advance_rules that)
    then show ?thesis by (auto intro!: goes_on_recv goes_on_text advance_rules)
  qed
  show ?thesis unfolding execute_write_def
    by (auto intro!: goes_on_at_server [OF assms] goes_on_bind goes_on_show goes_on_text fits_rules assms advance_rules final)
qed

text \<open>What \<open>parse_command\<close> makes of a line.\<close>

lemma parse_command_fits:
  assumes "CHR 0x00 \<notin> set input" "a \<in> set (args (parse_command stray input))"
  shows "text_ok MAX_FILENAME_LEN a"
proof -
  define toks where "toks = split_string stray input (CHR '' '') 20"
  have tok: "t \<noteq> [] \<and> CHR 0x00 \<notin> set t" if "t \<in> set toks" for t
    using that assms(1) by (auto simp: toks_def split_string_def dest!: in_set_takeD strtok_tokens)
  have pt: "\<forall>a \<in> set (args (parse_token c t)). text_ok MAX_FILENAME_LEN a"
    if "t \<in> set toks" "\<forall>a \<in> set (args c). text_ok MAX_FILENAME_LEN a" for c t
    using that tok [OF that(1)] text_ok_take [of t MAX_FILENAME_LEN]
    by (auto simp: parse_token_def limit_defs split: list.split)
  have fold: "\<forall>a \<in> set (args (foldl parse_token c ts)). text_ok MAX_FILENAME_LEN a"
    if "set ts \<subseteq> set toks" "\<forall>a \<in> set (args c). text_ok MAX_FILENAME_LEN a" for c ts
    using that
  proof (induction ts arbitrary: c)
    case (Cons t ts)
    from pt [of t c] Cons.prems have "\<forall>a \<in> set (args (parse_token c t)). text_ok MAX_FILENAME_LEN a" by simp
    from Cons.IH [OF _ this] Cons.prems show ?case by simp
  qed simp
  have "\<forall>a \<in> set (args (parse_command stray input)). text_ok MAX_FILENAME_LEN a"
  proof (cases toks)
    case (Cons t ts)
    then show ?thesis
      unfolding parse_command_def toks_def [symmetric]
      by (simp add: command_zero_def) (intro fold, auto)
  qed (simp add: parse_command_def toks_def [symmetric] command_zero_def)
  with assms(2) show ?thesis by blast
qed

definition command_goes_on :: "bool \<Rightarrow> client \<Rightarrow> (bool \<times> client) result \<Rightarrow> bool" where
  "command_goes_on P c r \<longleftrightarrow> goes_on P c (map_sum id snd r)"

lemma command_goes_on_stay: "goes_on P c r \<Longrightarrow> command_goes_on P c (stay r)"
  by (cases r) (simp_all add: command_goes_on_def stay_def)

lemma command_goes_on_Inr: "advances P c c' \<Longrightarrow> command_goes_on P c (Inr (b, c'))"
  by (simp add: command_goes_on_def)

lemma execute_help_advances: "advances P c (execute_help c)"
proof -
  have "advances P c (fold print ls c)" for ls
    by (induction ls arbitrary: c) (auto intro: advance_rules advances_trans)
  then show ?thesis unfolding execute_help_def .
qed

lemma command_goes_on_if:
  "command_goes_on P c x \<Longrightarrow> command_goes_on P c y \<Longrightarrow> command_goes_on P c (if b then x else y)"
  by simp

lemma execute_command_goes_on:
  "command_goes_on (text_ok MAX_USERNAME_LEN (cl_user c) \<and> CHR 0x00 \<notin> set input) c (execute_command stray input c)"
proof -
  let ?P = "text_ok MAX_USERNAME_LEN (cl_user c) \<and> CHR 0x00 \<notin> set input"
  have fits: "command_fits ?P c (parse_command stray input)"
    using parse_command_fits by (auto simp: command_fits_def)
  note rules = simple_commands_go_on [OF fits] session_commands_go_on [OF fits] exec_command_goes_on [OF fits]
    stream_command_goes_on [OF fits] write_command_goes_on [OF fits]
  have quit: "advances ?P c (act Closed_NM (print_line goodbye c))"
    by (rule advances_trans [OF advances_print(2) advances_act]) simp
  show ?thesis unfolding execute_command_def Let_def
    by (intro command_goes_on_if command_goes_on_stay command_goes_on_Inr rules quit execute_help_advances advance_rules)
qed

section \<open>main\<close>

lemma ebind_cong [fundef_cong]:
  "m = m' \<Longrightarrow> (\<And>x. m' = Inr x \<Longrightarrow> f x = g x) \<Longrightarrow> ebind m f = ebind m' g"
  by (cases m') auto

lemma execute_command_stdin:
  "execute_command stray input c = Inr (q, c') \<Longrightarrow> length (cl_stdin c') \<le> length (cl_stdin c)"
  using execute_command_goes_on [of c input stray] by (simp add: command_goes_on_def advances_def)

function main_loop :: "char set \<Rightarrow> client \<Rightarrow> client result" where
  "main_loop stray c =
     (case read_line 1024 (print (cl_user c @ ''> '') c) of
        None \<Rightarrow> Inr (act Closed_NM (print (cl_user c @ ''> '') c))
      | Some (line, c') \<Rightarrow>
          (if line = [] then main_loop stray c'
           else ebind (execute_command stray line c') (\<lambda>(quit, c'').
                  if quit then Inr c'' else main_loop stray (print_line [] c''))))"
  by pat_completeness auto
termination
  by (relation "measure (\<lambda>(stray, c). length (cl_stdin c))")
     (auto dest!: read_line_shrinks execute_command_stdin)

declare main_loop.simps [simp del]

text \<open>
  Where the naming server is: the program's arguments, or two questions.  \<open>None\<close>: the end
  of the input.
\<close>

definition nm_address :: "string list \<Rightarrow> client \<Rightarrow> ((string \<times> int) \<times> client) option" where
  "nm_address argv c =
     (if 3 \<le> length argv then Some ((strncpy_buf MAX_IP_LEN (argv ! 1), atoi32 (argv ! 2)), c)
      else (case read_line MAX_IP_LEN (print ''Enter Naming Server IP (e.g., 192.168.1.10): '' c) of
              None \<Rightarrow> None
            | Some (ip, c) \<Rightarrow>
                (let nm_ip = (if ip = [] then ''127.0.0.1'' else ip);
                     c = print ''Enter Naming Server Port [8080]: '' c
                 in case read_line 16 c of
                      None \<Rightarrow> Some ((nm_ip, 8080), c)
                    | Some (portbuf, c) \<Rightarrow> Some ((nm_ip, if 0 < atoi32 portbuf then atoi32 portbuf else 8080), c))))"

definition starting :: string where
  "starting = [CHR 0xF0, CHR 0x9F, CHR 0x9A, CHR 0x80] @ '' NFS Client Starting...''"

definition cross :: string where "cross = [CHR 0xE2, CHR 0x9D, CHR 0x8C]"

definition tick :: string where "tick = [CHR 0xE2, CHR 0x9C, CHR 0x85]"

text \<open>
  The whole program: \<open>link\<close> is the outcome of the connection to the naming server, with
  the replies that arrive on it, \<open>local_ip\<close> what \<open>get_local_ip\<close> finds, and \<open>c\<close> a fresh state with the
  input.  The result is the exit status.
\<close>

definition client_main :: "char set \<Rightarrow> string \<Rightarrow> string list \<Rightarrow> message list option \<Rightarrow> client \<Rightarrow> (int \<times> client) result" where
  "client_main stray local_ip argv link c =
     (case nm_address argv c of
        None \<Rightarrow> Inr (1, print ''Enter Naming Server IP (e.g., 192.168.1.10): '' c)
      | Some ((nm_ip, nm_port), c) \<Rightarrow>
        (let c = print ''Enter username: '' (print_line (starting @ [nl]) c);
             (name, c) = (case read_line MAX_USERNAME_LEN c of None \<Rightarrow> ([], c) | Some p \<Rightarrow> p);
             c = c\<lparr>cl_user := name\<rparr>
         in if \<not> is_valid_username name then Inr (1, print_line (cross @ '' Invalid username'') c)
            else (let c = print_line (''Connecting to Naming Server at '' @ nm_ip @ '':'' @ show_int nm_port @ ''...'') c
              in case link of
                   None \<Rightarrow> Inr (1, print_line (cross @ '' Failed to connect to Naming Server'') c)
                 | Some replies \<Rightarrow>
                     ebind (ask_nm (ebind (user_request MSG_CLIENT_REGISTER c)
                              (\<lambda>m. Inr (m\<lparr>m_data := strncpy_buf MAX_CONTENT_LEN (c_string local_ip), m_arg1 := nm_port\<rparr>)))
                            (print_line (tick @ '' Connected!'' @ [nl]) (c\<lparr>cl_nm := replies\<rparr>))) (\<lambda>(resp, c).
                       if m_type resp \<noteq> MSG_ACK then Inr (1, print_line (cross @ '' Registration failed'') c)
                       else ebind (main_loop stray
                              (print_line (''Type HELP for available commands'' @ [nl])
                                (print_line (tick @ '' Registered as '' @ CHR 0x27 # name @ [CHR 0x27]) c)))
                            (\<lambda>c. Inr (0, c))))))"

end
