(* ===== verification/Client_Properties.thy ===== *)
theory Client_Properties
  imports Client_Main
begin

text \<open>
  Properties of the client by itself, each with its application where it has hypotheses.
\<close>

section \<open>The whole program\<close>

definition fresh_client :: "string \<Rightarrow> message list option list \<Rightarrow> client" where
  "fresh_client input conns =
     \<lparr>cl_user = [], cl_stdin = input, cl_nm = [], cl_ss = [], cl_conns = conns, cl_trace = []\<rparr>"

lemma main_loop_goes_on: "goes_on (text_ok MAX_USERNAME_LEN (cl_user c)) c (main_loop stray c)"
proof (induction stray c rule: main_loop.induct)
  case (1 stray c)
  let ?P = "text_ok MAX_USERNAME_LEN (cl_user c)" and ?c = "print (cl_user c @ ''> '') c"
  show ?case
  proof (cases "read_line 1024 ?c")
    case None
    have "advances ?P c (act Closed_NM ?c)" by (rule advances_trans [OF advances_print(1) advances_act]) simp
    then show ?thesis by (subst main_loop.simps) (simp add: None)
  next
    case (Some p)
    obtain line c' where "p = (line, c')" by fastforce
    with Some have rl: "read_line 1024 ?c = Some (line, c')" by simp
    have c': "advances ?P c c'" by (rule advances_trans [OF advances_print(1) read_line_sound(3) [OF rl]])
    then have user: "cl_user c' = cl_user c" by (simp add: advances_def)
    show ?thesis
    proof (cases "line = []")
      case True
      then show ?thesis
        using goes_on_after [OF c'] "1.IH"(1) [OF rl refl] by (subst main_loop.simps) (simp add: rl user)
    next
      case False
      have ex: "command_goes_on ?P c' (execute_command stray line c')"
        using execute_command_goes_on [of c' line stray] read_line_sound(1) [OF rl] by (simp add: user)
      show ?thesis
      proof (cases "execute_command stray line c'")
        case (Inl f)
        with ex have "goes_on ?P c' (Inl f)" by (simp add: command_goes_on_def)
        from goes_on_after [OF c' this] Inl show ?thesis by (subst main_loop.simps) (simp add: rl False)
      next
        case (Inr q)
        obtain quit c'' where q: "q = (quit, c'')" by fastforce
        have c'': "advances ?P c c''" using ex Inr q advances_trans [OF c'] by (simp add: command_goes_on_def)
        then have "cl_user c'' = cl_user c" by (simp add: advances_def)
        with "1.IH"(2) [OF rl refl False Inr [unfolded q] refl] have "goes_on ?P c (main_loop stray (print_line [] c''))" if "\<not> quit"
          using that by (intro goes_on_after [OF advances_trans [OF c'' advances_print(2)]]) simp
        with c'' show ?thesis by (subst main_loop.simps) (simp add: rl False Inr q)
      qed
    qed
  qed
qed

lemma valid_username_ok: "is_valid_username u \<Longrightarrow> text_ok MAX_USERNAME_LEN u"
  by (auto simp: is_valid_username_def text_ok_def list_all_iff isalnum_def isalpha_def isdigit_def)

lemma register_fits:
  assumes "text_ok MAX_USERNAME_LEN (cl_user c)"
  shows "request_fits True (cl_user c) (ebind (user_request MSG_CLIENT_REGISTER c)
           (\<lambda>m. Inr (m\<lparr>m_data := strncpy_buf MAX_CONTENT_LEN (c_string ip), m_arg1 := i\<rparr>)))"
  using assms text_ok_take [of "c_string ip" MAX_CONTENT_LEN] c_string_no_nul [of ip]
  by (auto simp: request_fits_def user_request_def strcpy_buf_def strcat_buf_def text_ok_def message_ok_def
      message_zero_def limit_defs)

text \<open>Before the user is known the program only prints; afterwards it stays clean.\<close>

definition silent :: "client \<Rightarrow> bool" where
  "silent c \<longleftrightarrow> (\<forall>a \<in> set (cl_trace c). \<exists>s. a = Printed s)"

definition clean :: "client \<Rightarrow> bool" where
  "clean c \<longleftrightarrow> (\<forall>a \<in> set (cl_trace c). action_ok (cl_user c) a)"

lemma silent_steps [simp]:
  "silent (print s c) = silent c" "silent (print_line s c) = silent c"
  "silent (c\<lparr>cl_user := u\<rparr>) = silent c" "silent (c\<lparr>cl_nm := ms\<rparr>) = silent c"
  by (simp_all add: silent_def)

lemma silent_clean: "silent c \<Longrightarrow> clean c"
  by (fastforce simp: silent_def clean_def)

lemma clean_advances: "clean c \<Longrightarrow> advances True c c' \<Longrightarrow> clean c'"
  by (auto simp: clean_def advances_def)

lemma silent_read: "read_line n c = Some (l, c') \<Longrightarrow> silent c' = silent c"
  by (auto simp: read_line_def silent_def Let_def split: if_splits)

lemma silent_address: "nm_address argv c = Some (a, c') \<Longrightarrow> silent c \<Longrightarrow> silent c'"
  by (auto simp: nm_address_def Let_def split: if_splits option.splits dest!: silent_read)

lemma read_arrivals: "read_line n c = Some (l, c') \<Longrightarrow> arrivals c' = arrivals c"
  by (auto simp: read_line_def arrivals_def Let_def split: if_splits)

lemma address_arrivals: "nm_address argv c = Some (a, c') \<Longrightarrow> arrivals c' = arrivals c"
  by (auto simp: nm_address_def Let_def split: if_splits option.splits dest!: read_arrivals)

lemma arrivals_link: "arrivals (c\<lparr>cl_nm := ms\<rparr>) \<subseteq> set ms \<union> arrivals c"
  by (auto simp: arrivals_def)

lemma unended_mono: "unended ms \<Longrightarrow> ms \<subseteq> ms' \<Longrightarrow> unended ms'"
  by (auto simp: unended_def)

text \<open>From the registration on.\<close>

lemma session_clean:
  assumes "silent c" "is_valid_username (cl_user c)"
    and r: "r = ebind (user_request MSG_CLIENT_REGISTER c)
                  (\<lambda>m. Inr (m\<lparr>m_data := strncpy_buf MAX_CONTENT_LEN (c_string ip), m_arg1 := i\<rparr>))"
    and c2: "silent c2" "cl_user c2 = cl_user c"
  shows "case ebind (ask_nm r c2) (\<lambda>(resp, c).
            if m_type resp \<noteq> MSG_ACK then Inr (1 :: int, print_line s c)
            else ebind (main_loop stray (print_line t (print_line u c))) (\<lambda>c. Inr (0, c))) of
          Inl f \<Rightarrow> f = Uninitialised \<or> f = Overread \<and> unended (arrivals c2) | Inr (status, c) \<Rightarrow> clean c"
proof -
  have u: "text_ok MAX_USERNAME_LEN (cl_user c)" by (rule valid_username_ok [OF assms(2)])
  obtain m where m: "r = Inr m" "message_ok m" "m_sender m = cl_user c"
    using register_fits [OF u, of i ip] unfolding r request_fits_def by auto
  show ?thesis
  proof (cases "cl_nm c2")
    case (Cons resp ms)
    let ?c3 = "(act (To_NM m) c2)\<lparr>cl_nm := ms\<rparr>"
    have c3: "clean ?c3" using silent_clean [OF c2(1)] m c2(2) by (auto simp: clean_def)
    then have c4: "clean (print_line v ?c3)" "clean (print_line t (print_line u ?c3))" for v
      by (auto simp: clean_def)
    have "goes_on True (print_line t (print_line u ?c3)) (main_loop stray (print_line t (print_line u ?c3)))"
      using main_loop_goes_on [of "print_line t (print_line u ?c3)" stray] u c2(2) by simp
    moreover have "arrivals ?c3 \<subseteq> arrivals c2" using Cons by (auto simp: arrivals_def)
    ultimately show ?thesis
      using c4 by (cases "main_loop stray (print_line t (print_line u ?c3))")
        (auto simp: ask_nm_def recv_nm_def m Cons intro: clean_advances unended_mono)
  qed (simp add: ask_nm_def recv_nm_def m)
qed

text \<open>Everything the servers will have sent: on the connection to the naming server and on the others.\<close>

definition all_replies :: "message list option \<Rightarrow> message list option list \<Rightarrow> message set" where
  "all_replies link conns = (\<Union>r \<in> set (link # conns). set (case r of None \<Rightarrow> [] | Some ms \<Rightarrow> ms))"


lemma read_typed_line:
  assumes "cl_stdin c = l @ nl # s" "nl \<notin> set l" "CHR 0x00 \<notin> set l" "length l + 1 < n"
  shows "read_line n c = Some (l, c\<lparr>cl_stdin := s\<rparr>)"
proof -
  have "takeWhile (\<lambda>c. c \<noteq> nl) (l @ nl # s) = l" using assms(2) by (subst takeWhile_append2) auto
  then have f: "fgets_line n (l @ nl # s) = l @ [nl]" using assms(4) by (simp add: fgets_line_def Let_def)
  have "c_string (l @ [nl]) = l @ [nl]" using assms(3) by (intro c_string_id) auto
  moreover have "takeWhile (\<lambda>c. c \<noteq> nl) (l @ [nl]) = l" using assms(2) by (subst takeWhile_append2) auto
  ultimately show ?thesis using assms(1) by (simp add: read_line_def f typed_def)
qed

text \<open>Ann registers and leaves at once.\<close>

definition demo_run :: "(int \<times> client) result" where
  "demo_run = client_main {} ''10.0.0.7'' [''client'', ''10.0.0.1'', ''8080''] (Some [ack_reply []])
     (fresh_client (''ann'' @ nl # []) [])"

lemma demo_run_ends:
  "\<exists>c m. demo_run = Inr (0, c) \<and> To_NM m \<in> set (cl_trace c) \<and> m_type m = MSG_CLIENT_REGISTER \<and> cl_user c = ''ann''"
proof -
  have valid: "is_valid_username ''ann''" by code_simp
  define c1 where "c1 = print ''Enter username: '' (print_line (starting @ [nl]) (fresh_client (''ann'' @ nl # []) []))"
  have c1: "cl_stdin c1 = ''ann'' @ nl # []" by (simp add: c1_def fresh_client_def)
  have rl: "read_line MAX_USERNAME_LEN c1 = Some (''ann'', c1\<lparr>cl_stdin := []\<rparr>)"
    by (rule read_typed_line [OF c1]) (simp_all add: limit_defs)
  have loop: "main_loop {} c = Inr (act Closed_NM (print (cl_user c @ ''> '') c))" if "cl_stdin c = []" for c
    using that by (subst main_loop.simps) (simp add: read_line_def)
  have nm: "nm_address [''client'', ''10.0.0.1'', ''8080''] c = Some ((strncpy_buf MAX_IP_LEN ''10.0.0.1'', atoi32 ''8080''), c)" for c
    by (simp add: nm_address_def)
  show ?thesis
    unfolding demo_run_def client_main_def nm option.case prod.case Let_def c1_def [symmetric] rl
    by (simp add: valid user_request_def strcpy_buf_def strcat_buf_def ask_nm_def recv_nm_def loop message_zero_def limit_defs)
      (rule exI, rule conjI, rule disjI1, rule refl, simp)
qed


section \<open>Typing updates\<close>

text \<open>What a user types for a list of updates: each word index with the words for it.\<close>

definition update_text :: "(nat \<times> string list) list \<Rightarrow> string" where
  "update_text us = join_with (CHR '' '') (concat (map (\<lambda>(i, ws). show_nat i # ws) us))"

definition typed_update :: "nat \<times> string list \<Rightarrow> message" where
  "typed_update u = update_message (int (fst u)) (join_with (CHR '' '') (snd u))"

text \<open>Words that are neither numbers nor hold the end mark; indices that are an \<open>int\<close>.\<close>

definition plain_word :: "string \<Rightarrow> bool" where
  "plain_word w \<longleftrightarrow> w \<noteq> [] \<and> list_all (\<lambda>c. \<not> isspace c) w \<and> \<not> is_int_str w \<and> strstr ''ETIRW'' w = None"

definition updates_ok :: "(nat \<times> string list) list \<Rightarrow> bool" where
  "updates_ok us \<longleftrightarrow> (\<forall>(i, ws) \<in> set us. i < 2 ^ 31 \<and> ws \<noteq> [] \<and> (\<forall>w \<in> set ws. plain_word w))"

lemma strstr_self [simp]: "strstr pat pat = Some 0"
  by (cases pat) simp_all

lemma strstr_separated:
  assumes "c \<notin> set pat" "pat \<noteq> []"
  shows "strstr pat (u @ c # v) = (case strstr pat u of Some k \<Rightarrow> Some k
           | None \<Rightarrow> map_option (\<lambda>k. k + length u + 1) (strstr pat v))"
proof (induction u)
  case Nil
  have "take (length pat) (c # v) \<noteq> pat" using assms by (cases pat) auto
  then show ?case using assms(2) by (cases "strstr pat v") auto
next
  case (Cons a u)
  have "take (length pat) (a # u @ c # v) = pat \<longleftrightarrow> take (length pat) (a # u) = pat"
  proof (cases "length pat \<le> length (a # u)")
    case False
    then have "c \<in> set (take (length pat) ((a # u) @ c # v))" using assms(2) by (simp add: take_Cons')
    with assms(1) have "take (length pat) (a # u @ c # v) \<noteq> pat" by auto
    moreover have "take (length pat) (a # u) \<noteq> pat" using False by auto
    ultimately show ?thesis by simp
  qed (simp add: take_Cons')
  with Cons show ?case by (cases "strstr pat u") (auto simp: option.map_comp comp_def split: option.split)
qed

lemma strstr_joined:
  assumes "\<And>w. w \<in> set ws \<Longrightarrow> strstr ''ETIRW'' w = None"
  shows "strstr ''ETIRW'' (join_with (CHR '' '') ws) = None"
  using assms
proof (induction "CHR '' ''" ws rule: join_with.induct)
  case (3 w v vs)
  then show ?case using strstr_separated [of "CHR '' ''" "''ETIRW''" w] by simp
qed auto

lemma number_token:
  assumes "i < 2 ^ 31"
  shows "is_int_str (show_nat i)" "atoi32 (show_nat i) = int i" "show_nat i \<noteq> ''ETIRW''"
    "CHR '' '' \<notin> set (show_nat i)" "strstr ''ETIRW'' (show_nat i) = None"
proof -
  have digits: "\<forall>c \<in> set (show_nat i). isdigit c" using show_nat_digits by blast
  then show "is_int_str (show_nat i)" by (simp add: is_int_str_def list_all_iff)
  have "int i < 2 ^ 31" using assms by (metis of_nat_less_iff of_nat_numeral of_nat_power)
  then show "atoi32 (show_nat i) = int i" by (simp add: atoi32_def signed_take_bit_int_eq_self)
  show "show_nat i \<noteq> ''ETIRW''" "CHR '' '' \<notin> set (show_nat i)" using digits by (auto simp: isdigit_def)
  have "strstr ''ETIRW'' s = None" if "\<forall>c \<in> set s. isdigit c" for s
    using that by (induction s) (auto simp: isdigit_def)
  with digits show "strstr ''ETIRW'' (show_nat i) = None" by blast
qed

lemma plain_token: "plain_word w \<Longrightarrow> w \<noteq> ''ETIRW'' \<and> \<not> is_int_str w \<and> w \<noteq> []"
  using strstr_self [of "''ETIRW''"] by (auto simp: plain_word_def)

lemma add_content_id: "length buf + length s < 1024 \<Longrightarrow> add_content buf s = buf @ s"
  by (simp add: add_content_def)

text \<open>The words of one update are collected with single blanks between them.\<close>

lemma write_tokens_words:
  assumes "\<forall>w \<in> set ws. plain_word w" "c \<noteq> []" "length (join_with (CHR '' '') (c # ws)) < 1024"
  shows "write_tokens (Some i) c (ws @ toks) = write_tokens (Some i) (join_with (CHR '' '') (c # ws)) toks"
  using assms
proof (induction ws arbitrary: c)
  case (Cons w ws)
  let ?c = "c @ CHR '' '' # w"
  have w: "w \<noteq> ''ETIRW''" "\<not> is_int_str w" using Cons.prems(1) plain_token by auto
  have j: "join_with (CHR '' '') (c # w # ws) = join_with (CHR '' '') (?c # ws)" by (cases ws) simp_all
  have len: "length ?c \<le> length (join_with (CHR '' '') (?c # ws))" by (cases ws) simp_all
  have lt: "length c + length w + 1 < 1024" using len Cons.prems(3) unfolding j by simp
  have "add_content (add_content c '' '') w = ?c" using lt by (simp add: add_content_id)
  then have "write_tokens (Some i) c ((w # ws) @ toks) = write_tokens (Some i) ?c (ws @ toks)"
    using w Cons.prems(2) by simp
  also have "\<dots> = write_tokens (Some i) (join_with (CHR '' '') (?c # ws)) toks"
    using Cons.prems unfolding j by (intro Cons.IH) auto
  finally show ?case unfolding j .
qed simp

definition flushed :: "message list \<times> int option \<times> string \<times> bool \<Rightarrow> message list" where
  "flushed r = (case r of (ms, idx, content, fin) \<Rightarrow>
     (case idx of Some i \<Rightarrow> (if content \<noteq> [] then ms @ [update_message i content] else ms) | None \<Rightarrow> ms))"

lemma write_tokens_update:
  assumes "i < 2 ^ 31" "ws \<noteq> []" "\<forall>w \<in> set ws. plain_word w" "length (join_with (CHR '' '') ws) < 1024"
  shows "write_tokens None [] ((show_nat i # ws) @ toks) = write_tokens (Some (int i)) (join_with (CHR '' '') ws) toks"
    "c \<noteq> [] \<Longrightarrow> write_tokens (Some j) c ((show_nat i # ws) @ toks)
       = (case write_tokens (Some (int i)) (join_with (CHR '' '') ws) toks of (ms, r) \<Rightarrow> (update_message j c # ms, r))"
proof -
  obtain w us where ws: "ws = w # us" using assms(2) by (cases ws) auto
  have w: "w \<noteq> ''ETIRW''" "\<not> is_int_str w" "w \<noteq> []" using assms(3) plain_token ws by auto
  have "length w \<le> length (join_with (CHR '' '') ws)" unfolding ws by (cases us) simp_all
  then have "add_content [] w = w" using assms(4) by (intro trans [OF add_content_id]) auto
  moreover have "write_tokens (Some (int i)) w (us @ toks) = write_tokens (Some (int i)) (join_with (CHR '' '') ws) toks"
    using assms(3,4) w(3) unfolding ws by (intro write_tokens_words) auto
  ultimately have *: "write_tokens (Some (int i)) [] (ws @ toks) = write_tokens (Some (int i)) (join_with (CHR '' '') ws) toks"
    using w by (simp add: ws)
  with number_token [OF assms(1)]
  show "write_tokens None [] ((show_nat i # ws) @ toks) = write_tokens (Some (int i)) (join_with (CHR '' '') ws) toks"
    "c \<noteq> [] \<Longrightarrow> write_tokens (Some j) c ((show_nat i # ws) @ toks)
       = (case write_tokens (Some (int i)) (join_with (CHR '' '') ws) toks of (ms, r) \<Rightarrow> (update_message j c # ms, r))"
    by simp_all
qed

lemma write_tokens_updates:
  assumes "updates_ok us" "\<forall>(i, ws) \<in> set us. length (join_with (CHR '' '') ws) < 1024" "c \<noteq> []"
  shows "\<exists>ms idx content. write_tokens (Some i) c (concat (map (\<lambda>(i, ws). show_nat i # ws) us)) = (ms, Some idx, content, False)
     \<and> flushed (ms, Some idx, content, False) = update_message i c # map typed_update us"
  using assms
proof (induction us arbitrary: i c)
  case (Cons u us)
  obtain j ws where u: "u = (j, ws)" by fastforce
  have ok: "j < 2 ^ 31" "ws \<noteq> []" "\<forall>w \<in> set ws. plain_word w" "length (join_with (CHR '' '') ws) < 1024"
    using Cons.prems u by (auto simp: updates_ok_def)
  have "w \<noteq> []" if "w \<in> set ws" for w using ok(3) that plain_token by blast
  then have ne: "join_with (CHR '' '') ws \<noteq> []" using ok(2) by (cases ws rule: remdups_adj.cases) auto
  have us: "updates_ok us" "\<forall>(i, ws) \<in> set us. length (join_with (CHR '' '') ws) < 1024"
    using Cons.prems by (auto simp: updates_ok_def)
  from Cons.IH [OF us ne, of "int j"] obtain ms idx content where
    ih: "write_tokens (Some (int j)) (join_with (CHR '' '') ws) (concat (map (\<lambda>(i, ws). show_nat i # ws) us)) = (ms, Some idx, content, False)"
      "flushed (ms, Some idx, content, False) = update_message (int j) (join_with (CHR '' '') ws) # map typed_update us"
    by blast
  have "write_tokens (Some i) c (concat (map (\<lambda>(i, ws). show_nat i # ws) (u # us))) = (update_message i c # ms, Some idx, content, False)"
    using write_tokens_update(2) [OF ok Cons.prems(3), where toks = "concat (map (\<lambda>(i, ws). show_nat i # ws) us)"] ih(1) by (simp add: u)
  moreover have "flushed (update_message i c # ms, Some idx, content, False) = update_message i c # map typed_update (u # us)"
    using ih(2) by (simp add: flushed_def typed_update_def u split: if_splits)
  ultimately show ?case by blast
qed (simp add: flushed_def)

lemma update_text_tokens:
  assumes "updates_ok us"
  shows "strtok {CHR '' ''} (update_text us) = concat (map (\<lambda>(i, ws). show_nat i # ws) us)"
    "strstr ''ETIRW'' (update_text us) = None"
    "update_text us = [] \<or> \<not> isspace (last (update_text us))"
proof -
  let ?ts = "concat (map (\<lambda>(i, ws). show_nat i # ws) us)"
  have t: "t \<noteq> [] \<and> CHR '' '' \<notin> set t \<and> strstr ''ETIRW'' t = None \<and> \<not> isspace (last t)" if t: "t \<in> set ?ts" for t
  proof -
    obtain i ws where u: "(i, ws) \<in> set us" "t = show_nat i \<or> t \<in> set ws" using t by auto
    then have ok: "i < 2 ^ 31" "\<forall>w \<in> set ws. plain_word w" using assms by (auto simp: updates_ok_def)
    from u(2) show ?thesis
    proof
      assume "t = show_nat i"
      moreover have "isdigit (last (show_nat i))" by (rule show_nat_digits [of _ i]) (rule last_in_set [OF show_nat_ne])
      ultimately show ?thesis using number_token [OF ok(1)] isdigit_not_space by simp
    next
      assume "t \<in> set ws"
      with ok(2) have "plain_word t" by blast
      then have "t \<noteq> []" "\<forall>c \<in> set t. \<not> isspace c" "strstr ''ETIRW'' t = None"
        by (simp_all add: plain_word_def list_all_iff)
      moreover from this have "\<not> isspace (last t)" by simp
      moreover have "isspace (CHR '' '')" by (simp add: isspace_def)
      ultimately show ?thesis by blast
    qed
  qed
  show "strtok {CHR '' ''} (update_text us) = ?ts"
    unfolding update_text_def by (rule strtok_join_with) (use t in auto)
  show "strstr ''ETIRW'' (update_text us) = None"
    unfolding update_text_def by (rule strstr_joined) (use t in blast)
  have "ts = [] \<or> \<not> isspace (last (join_with (CHR '' '') ts))"
    if "\<And>t. t \<in> set ts \<Longrightarrow> t \<noteq> [] \<and> \<not> isspace (last t)" for ts
    using that
  proof (induction "CHR '' ''" ts rule: join_with.induct)
    case (3 w v vs)
    have "join_with (CHR '' '') (v # vs) \<noteq> []" using 3(2) [of v] by (cases vs) auto
    with 3 show ?case by simp
  qed auto
  then show "update_text us = [] \<or> \<not> isspace (last (update_text us))"
    unfolding update_text_def using t by (metis join_with.simps(1))
qed

lemma length_join_part: "length (join_with d b) \<le> length (join_with d (a @ b @ c))"
proof -
  have "length (join_with d b) \<le> length (join_with d (b @ c))" for b c
    by (cases "b = []"; cases "c = []") (simp_all add: join_with_append)
  moreover have "length (join_with d b) \<le> length (join_with d (a @ b))" for a b
    by (cases "a = []"; cases "b = []") (simp_all add: join_with_append)
  ultimately show ?thesis by (rule order_trans)
qed

lemma write_tokens_text:
  assumes "updates_ok us" "length (update_text us) < 1024"
  shows "\<exists>ms idx content. write_tokens None [] (strtok {CHR '' ''} (update_text us)) = (ms, idx, content, False)
     \<and> flushed (ms, idx, content, False) = map typed_update us \<and> (idx = None \<longleftrightarrow> us = [])"
proof (cases us)
  case (Cons u vs)
  obtain i ws where u: "u = (i, ws)" by fastforce
  have ok: "i < 2 ^ 31" "ws \<noteq> []" "\<forall>w \<in> set ws. plain_word w" "updates_ok vs"
    using assms(1) Cons u by (auto simp: updates_ok_def)
  have len: "length (join_with (CHR '' '') ws') < 1024" if m: "(j, ws') \<in> set us" for j ws'
  proof -
    obtain xs ys where us: "us = xs @ (j, ws') # ys" using split_list [OF m] by blast
    have "concat (map (\<lambda>(i, ws). show_nat i # ws) us)
        = (concat (map (\<lambda>(i, ws). show_nat i # ws) xs) @ [show_nat j]) @ ws' @ concat (map (\<lambda>(i, ws). show_nat i # ws) ys)"
      by (simp add: us)
    then have "length (join_with (CHR '' '') ws') \<le> length (update_text us)"
      unfolding update_text_def by (simp only: length_join_part)
    with assms(2) show ?thesis by simp
  qed
  have ne: "join_with (CHR '' '') ws \<noteq> []" using ok(2,3) by (cases ws rule: remdups_adj.cases) (auto simp: plain_word_def)
  have "\<forall>(i, ws) \<in> set vs. length (join_with (CHR '' '') ws) < 1024" using len Cons by fastforce
  from write_tokens_updates [OF ok(4) this ne, of "int i"] obtain ms idx content where
    w: "write_tokens (Some (int i)) (join_with (CHR '' '') ws) (concat (map (\<lambda>(i, ws). show_nat i # ws) vs)) = (ms, Some idx, content, False)"
      "flushed (ms, Some idx, content, False) = map typed_update us"
    by (auto simp: Cons u typed_update_def)
  have "strtok {CHR '' ''} (update_text us) = (show_nat i # ws) @ concat (map (\<lambda>(i, ws). show_nat i # ws) vs)"
    using update_text_tokens(1) [OF assms(1)] by (simp add: Cons u)
  moreover have "length (join_with (CHR '' '') ws) < 1024" using len [of i ws] by (simp add: Cons u)
  ultimately have "write_tokens None [] (strtok {CHR '' ''} (update_text us)) = (ms, Some idx, content, False)"
    by (simp only: write_tokens_update(1) [OF ok(1-3)] w(1))
  with w(2) show ?thesis by (metis Cons list.distinct(1) option.distinct(1))
qed (simp add: update_text_def flushed_def)

lemma write_line_flushed:
  assumes "cut_end line = (input, finish)" "length input < 1024"
    "write_tokens None [] (strtok {CHR '' ''} input) = (ms, idx, content, fin)"
  shows "write_line line = (flushed (ms, idx, content, fin), idx = None \<and> input \<noteq> [], finish \<or> fin)"
  using assms by (simp add: write_line_def flushed_def)

lemma typed_updates:
  assumes "updates_ok us" "length (update_text us) < 1024"
  shows "write_line (update_text us) = (map typed_update us, False, False)
       \<and> write_line (update_text us @ '' ETIRW'') = (map typed_update us, False, True)"
proof -
  note tok = update_text_tokens [OF assms(1)]
  obtain ms idx content where w: "write_tokens None [] (strtok {CHR '' ''} (update_text us)) = (ms, idx, content, False)"
    "flushed (ms, idx, content, False) = map typed_update us" "idx = None \<longleftrightarrow> us = []"
    using write_tokens_text [OF assms] by blast
  have "cut_end (update_text us) = (update_text us, False)" by (simp add: cut_end_def tok(2))
  from write_line_flushed [OF this assms(2) w(1)] w(2,3)
  have first: "write_line (update_text us) = (map typed_update us, False, False)" by (auto simp: update_text_def)
  have "strstr ''ETIRW'' (update_text us @ '' ETIRW'') = Some (length (update_text us) + 1)"
    using strstr_separated [of "CHR '' ''" "''ETIRW''" "update_text us" "''ETIRW''"] tok(2) by simp
  moreover have rev_text: "rev (dropWhile isspace (rev (take (length (update_text us) + 1) (update_text us @ '' ETIRW'')))) = update_text us"
  proof -
    have "take (length (update_text us) + 1) (update_text us @ '' ETIRW'') = update_text us @ '' ''" by simp
    moreover have "dropWhile isspace (rev (update_text us)) = rev (update_text us)"
      using tok(3) by (cases "update_text us" rule: rev_cases) simp_all
    ultimately show ?thesis by (simp add: isspace_def [of "CHR '' ''"])
  qed
  ultimately have "cut_end (update_text us @ '' ETIRW'') = (update_text us, True)"
    by (simp only: cut_end_def option.case)
  from write_line_flushed [OF this assms(2) w(1)] w(2,3)
  have "write_line (update_text us @ '' ETIRW'') = (map typed_update us, False, True)" by (auto simp: update_text_def)
  with first show ?thesis ..
qed

text \<open>
  C18: a line of updates typed as word indices, each followed by its words, is turned into exactly
  these updates in this order; with the end mark behind it the session ends too.
\<close>

theorem typed_updates_are_sent:
  assumes "updates_ok us" "length (update_text us) < 1024"
  shows "write_line (update_text us) = (map typed_update us, False, False)
       \<and> write_line (update_text us @ '' ETIRW'') = (map typed_update us, False, True)"
  by (rule typed_updates [OF assms])

theorem typed_updates_are_sent_witness:
  "write_line (''1 Hello big 3 world'' @ '' ETIRW'') = ([update_message 1 ''Hello big'', update_message 3 ''world''], False, True)"
proof -
  let ?us = "[(1, [''Hello'', ''big'']), (3, [''world''])]"
  have ok: "updates_ok ?us" by (simp add: updates_ok_def plain_word_def is_int_str_def isdigit_def isspace_def)
  have line: "update_text ?us = ''1 Hello big 3 world''" by code_simp
  have len: "length (update_text ?us) < 1024" unfolding line by simp
  have sent: "map typed_update ?us = [update_message 1 ''Hello big'', update_message 3 ''world'']"
    by (simp add: typed_update_def)
  from typed_updates_are_sent [OF ok len] show ?thesis unfolding sent line by (rule conjunct2)
qed

section \<open>Asking for access\<close>

text \<open>
  REQUESTACCESS asks for two arguments besides the flag, although its usage text and the help
  name one: typed as documented, with a file name and \<^verbatim>\<open>-R\<close> or \<^verbatim>\<open>-W\<close>, it only prints that usage
  text and sends nothing.
\<close>

theorem request_access_as_documented:
  assumes "f \<noteq> []" "CHR '' '' \<notin> set f" "hd f \<noteq> CHR ''-''" "flag \<in> {''-R'', ''-W''}"
    and "stray \<inter> (set ''REQUESTACCESS'' \<union> set f \<union> set flag) = {}"
  shows "execute_command stray (''REQUESTACCESS'' @ CHR '' '' # f @ CHR '' '' # flag) c
       = Inr (False, print_line ''Usage: REQUESTACCESS <filename> -R|-W'' c)"
proof -
  have join: "''REQUESTACCESS'' @ CHR '' '' # f @ CHR '' '' # flag = join_with (CHR '' '') [''REQUESTACCESS'', f, flag]" by simp
  have "strtok (insert (CHR '' '') stray) (join_with (CHR '' '') [''REQUESTACCESS'', f, flag]) = [''REQUESTACCESS'', f, flag]"
    by (rule strtok_join_with) (use assms in auto)
  then have toks: "split_string stray (''REQUESTACCESS'' @ CHR '' '' # f @ CHR '' '' # flag) (CHR '' '') 20 = [''REQUESTACCESS'', f, flag]"
    by (simp only: join split_string_def) simp
  obtain d fs where f: "f = d # fs" "d \<noteq> CHR ''-''" using assms(1,3) by (cases f) auto
  define cm where "cm = parse_command stray (''REQUESTACCESS'' @ CHR '' '' # f @ CHR '' '' # flag)"
  have "cmd cm = ''REQUESTACCESS''" "length (args cm) = 1"
    using f assms(4) unfolding cm_def parse_command_def toks
    by (auto simp: command_zero_def parse_token_def parse_flag_def)
  then show ?thesis
    unfolding execute_command_def cm_def [symmetric] Let_def by (simp add: execute_request_access_def stay_def)
qed

theorem request_access_as_documented_witness:
  "execute_command {} ''REQUESTACCESS notes.txt -W'' (fresh_client [] [])
   = Inr (False, print_line ''Usage: REQUESTACCESS <filename> -R|-W'' (fresh_client [] []))"
  using request_access_as_documented [of "''notes.txt''" "''-W''" "{}" "fresh_client [] []"] by simp

section \<open>Long addresses\<close>

lemma bounded_request_sent:
  assumes "command_fits True c cm" "cl_nm c = resp # ms"
  shows "\<exists>c'. ask_nm (bounded_request t c f d) c = Inr (resp, c')"
  using assms by (auto simp: ask_nm_def recv_nm_def bounded_request_def user_request_def command_fits_def text_ok_def
      strcpy_buf_def strcat_buf_def)

text \<open>
  When the address of the storage server has 15 characters, the longest an IPv4 address
  has, all four checkpoint commands read a byte of their copy of the address that was
  never written, although the array has room for 15 characters and a terminator.
\<close>

theorem checkpoint_long_address:
  assumes "command_fits True c cm" "2 \<le> length (args cm)" "cl_nm c = resp # ms"
    and "m_type resp \<noteq> MSG_ERROR" "MAX_IP_LEN - 1 \<le> length (m_data resp)"
    and "execute \<in> {execute_checkpoint, execute_view_checkpoint, execute_revert, execute_list_checkpoints}"
  shows "execute cm c = Inl Uninitialised"
proof -
  have "at_ss_copied resp k c' = Inl Uninitialised" for k c' using assms(4,5) by (simp add: at_ss_copied_def)
  then have "ebind (ask_nm (bounded_request t c f d) c) (\<lambda>(resp, c). at_ss_copied resp k c) = Inl Uninitialised" for t f d k
    using bounded_request_sent [OF assms(1,3), of t f d] by auto
  moreover have "\<not> length (args cm) < 2" "\<not> length (args cm) < 1" using assms(2) by linarith+
  ultimately show ?thesis using assms(6)
    by (auto simp: execute_checkpoint_def execute_view_checkpoint_def execute_revert_def execute_list_checkpoints_def
        simp del: One_nat_def)
qed

theorem checkpoint_long_address_witness:
  "execute_checkpoint (command_zero\<lparr>args := [''f'', ''v1'']\<rparr>)
     ((fresh_client [] [])\<lparr>cl_nm := [message_zero\<lparr>m_type := MSG_SS_INFO, m_data := ''192.168.100.200''\<rparr>]\<rparr>) = Inl Uninitialised"
  by (rule checkpoint_long_address [where resp = "message_zero\<lparr>m_type := MSG_SS_INFO, m_data := ''192.168.100.200''\<rparr>"])
     (simp_all add: command_fits_def text_ok_def fresh_client_def command_zero_def message_zero_def limit_defs)

end
