(* ===== verification/Client_Composition.thy ===== *)
theory Client_Composition
  imports Client_Properties Storage_Demo
begin

text \<open>
  The client and a storage server together: the replies that arrive on the client's
  connection are those that the model of the storage server sends on it when it is given the
  messages that the client sends.
\<close>

definition client_replies :: "ss_output \<Rightarrow> message list" where
  "client_replies out = map snd (filter (\<lambda>(p, m). p = Client) out)"

fun to_ss :: "action list \<Rightarrow> message list" where
  "to_ss [] = []"
| "to_ss (To_SS m # as) = m # to_ss as"
| "to_ss (a # as) = to_ss as"

lemma to_ss_append [simp]: "to_ss (xs @ ys) = to_ss xs @ to_ss ys"
  by (induction xs rule: to_ss.induct) auto

lemma to_ss_updates [simp]: "to_ss (map To_SS ms) = ms"
  by (induction ms) auto

lemma client_replies_simps [simp]:
  "client_replies [] = []" "client_replies ((Client, m) # out) = m # client_replies out"
  "client_replies ((Naming_Server, m) # out) = client_replies out"
  "client_replies (xs @ ys) = client_replies xs @ client_replies ys"
  by (simp_all add: client_replies_def)

section \<open>Requests that fit\<close>

definition plain_request :: "message_type \<Rightarrow> string \<Rightarrow> string \<Rightarrow> message" where
  "plain_request t u f = message_zero\<lparr>m_type := t, m_sender := u, m_filename := f\<rparr>"

lemma file_request_plain:
  assumes "command_fits True c cm" "i < length (args cm)"
  shows "file_request t c (args cm ! i) = Inr (plain_request t (cl_user c) (args cm ! i))"
  using assms nth_mem [OF assms(2)]
  by (auto simp: command_fits_def text_ok_def file_request_def user_request_def strcpy_buf_def strcat_buf_def plain_request_def)

lemma command_fits_user: "command_fits P c cm \<Longrightarrow> cl_user c' = cl_user c \<Longrightarrow> command_fits P c' cm"
  by (simp add: command_fits_def)

text \<open>The way to the storage server, when the naming server gave an address and the connection works.\<close>

definition at_server :: "client \<Rightarrow> message \<Rightarrow> message \<Rightarrow> client" where
  "at_server c m resp =
     c\<lparr>cl_nm := tl (cl_nm c), cl_trace := cl_trace c @ [To_NM m, Connected (m_data resp) (m_arg1 resp)],
       cl_conns := tl (cl_conns c), cl_ss := the (hd (cl_conns c))\<rparr>"

lemma reach_server:
  assumes "cl_nm c = resp # ms" "m_type resp \<noteq> MSG_ERROR" "cl_conns c = Some replies # cs"
  shows "ebind (ask_nm (Inr m) c) (\<lambda>(resp, c). at_ss resp k c) = k (at_server c m resp)"
  using assms by (simp add: ask_nm_def recv_nm_def at_ss_def connect_ss_def open_ss_def act_def at_server_def Let_def)

lemma at_server_fields [simp]:
  "cl_user (at_server c m resp) = cl_user c" "cl_stdin (at_server c m resp) = cl_stdin c"
  "cl_ss (at_server c m resp) = the (hd (cl_conns c))"
  "cl_trace (at_server c m resp) = cl_trace c @ [To_NM m, Connected (m_data resp) (m_arg1 resp)]"
  by (simp_all add: at_server_def)

section \<open>Streaming\<close>

lemma text_of_ended [simp]: "length (m_data m) < MAX_CONTENT_LEN \<Longrightarrow> text_of m = Inr (m_data m)"
  by (simp add: text_of_def)

lemma stream_loop_words:
  "\<forall>w \<in> set ws. length w < MAX_CONTENT_LEN \<Longrightarrow>
   \<exists>c'. stream_loop (map ack_reply ws @ [ack_reply ''END_OF_FILE'']) c = Inr c'
     \<and> cl_trace c' = cl_trace c @ map (\<lambda>w. Printed (w @ '' '')) (takeWhile (\<lambda>w. w \<noteq> ''END_OF_FILE'') ws) @ [Printed [nl]]"
proof (induction ws arbitrary: c)
  case (Cons w ws)
  show ?case
  proof (cases "w = ''END_OF_FILE''")
    case False
    with Cons.IH [of "print (w @ '' '') c"] Cons.prems show ?thesis by auto
  qed simp
qed simp

lemma stream_words_replies:
  "stream_words ws = Inr out \<Longrightarrow> client_replies out = map ack_reply ws \<and> (\<forall>w \<in> set ws. length w < MAX_CONTENT_LEN)"
  by (induction ws arbitrary: out) (auto simp: fault_simps strcpy_buf_def strcat_buf_def split: if_splits)

text \<open>
  STREAM shows the words of the file in order, each followed by a blank, up to the first word
  that is the text \<^verbatim>\<open>END_OF_FILE\<close>, which the client takes for the end mark.  (The naming server
  gave an address, the connection works, and the storage server answers.)
\<close>

theorem stream_shows_words:
  assumes "command_fits True c cm" "1 \<le> length (args cm)"
    and "cl_nm c = resp # ms" "m_type resp \<noteq> MSG_ERROR"
    and "req = plain_request MSG_STREAM_REQUEST (cl_user c) (args cm ! 0)"
    and "handle_client_connection S [req] = Inr (out, S')" "cl_conns c = Some (client_replies out) # cs"
    and "read_file_content (ss_fs S) (locate S (args cm ! 0)) = Some content"
  shows "\<exists>c'. execute_stream cm c = Inr c' \<and> S' = S \<and> cl_trace c' = cl_trace c
       @ [To_NM (plain_request MSG_STREAM_FILE (cl_user c) (args cm ! 0)), Connected (m_data resp) (m_arg1 resp), To_SS req]
       @ map (\<lambda>w. Printed (w @ '' '')) (takeWhile (\<lambda>w. w \<noteq> ''END_OF_FILE'') (take 10000 (strtok blanks content)))
       @ [Printed [nl], Closed_SS]"
proof -
  let ?m = "plain_request MSG_STREAM_FILE (cl_user c) (args cm ! 0)" and ?ws = "take 10000 (strtok blanks content)"
  have i: "0 < length (args cm)" using assms(2) by linarith
  have req: "m_type req = MSG_STREAM_REQUEST" "m_filename req = args cm ! 0"
    by (simp_all add: assms(5) plain_request_def message_zero_def)
  obtain out' where o: "stream_words ?ws = Inr out'" "out = out' @ [(Client, ack_reply ''END_OF_FILE'')]" "S' = S"
    using assms(6,8) req by (auto simp: handle_client_connection_def handle_stream_file_def fault_simps)
  have replies: "client_replies out = map ack_reply ?ws @ [ack_reply ''END_OF_FILE'']"
    using o stream_words_replies [OF o(1)] by simp
  let ?c = "at_server c ?m resp"
  have "cl_ss ?c = map ack_reply ?ws @ [ack_reply ''END_OF_FILE'']" by (simp add: assms(7) replies)
  with stream_loop_words [of ?ws "act (To_SS req) ?c"] stream_words_replies [OF o(1)]
  obtain c' where c': "stream_loop (cl_ss ?c) (act (To_SS req) ?c) = Inr c'"
    "cl_trace c' = cl_trace (act (To_SS req) ?c) @ map (\<lambda>w. Printed (w @ '' '')) (takeWhile (\<lambda>w. w \<noteq> ''END_OF_FILE'') ?ws) @ [Printed [nl]]"
    by auto
  have "execute_stream cm c = Inr (close_ss c')"
    using file_request_plain [OF assms(1) i] file_request_plain [OF command_fits_user [OF assms(1)] i, of ?c]
      reach_server [OF assms(3,4,7)] i c'(1) by (simp add: execute_stream_def assms(5))
  then show ?thesis using o(3) c'(2) by (simp add: close_ss_def)
qed

section \<open>Writing\<close>

text \<open>A line that the editing loop reads whole and that does not end the session.\<close>

definition editing_line :: "string \<Rightarrow> bool" where
  "editing_line l \<longleftrightarrow> nl \<notin> set l \<and> CHR 0x00 \<notin> set l \<and> length l + 1 < 1024 \<and> \<not> snd (snd (write_line l))"

lemma write_line_end: "write_line ''ETIRW'' = ([], False, True)"
  by (simp add: write_line_def cut_end_def strncpy_buf_def)

text \<open>The loop sends the updates of each line and then the end mark, and receives nothing.\<close>

lemma edit_loop_sends:
  assumes "cl_stdin c = concat (map (\<lambda>l. l @ [nl]) ls) @ ''ETIRW'' @ nl # rest" "\<forall>l \<in> set ls. editing_line l"
  shows "cl_stdin (edit_loop c) = rest \<and> cl_user (edit_loop c) = cl_user c \<and> cl_ss (edit_loop c) = cl_ss c
       \<and> to_ss (cl_trace (edit_loop c)) = to_ss (cl_trace c) @ concat (map (\<lambda>l. fst (write_line l)) ls) @ [finish_message]"
  using assms
proof (induction ls arbitrary: c)
  case Nil
  let ?c = "print ''> '' c"
  have "read_line 1024 ?c = Some (''ETIRW'', ?c\<lparr>cl_stdin := rest\<rparr>)"
    by (rule read_typed_line) (use Nil in simp_all)
  then show ?case by (subst (1 2 3 4) edit_loop.simps) (simp add: write_line_end)
next
  case (Cons l ls)
  let ?c = "print ''> '' c" and ?s = "concat (map (\<lambda>l. l @ [nl]) ls) @ ''ETIRW'' @ nl # rest"
  have l: "nl \<notin> set l" "CHR 0x00 \<notin> set l" "length l + 1 < 1024" "\<not> snd (snd (write_line l))"
    using Cons.prems(2) by (simp_all add: editing_line_def)
  have rl: "read_line 1024 ?c = Some (l, ?c\<lparr>cl_stdin := ?s\<rparr>)"
    by (rule read_typed_line) (use Cons.prems(1) l in simp_all)
  obtain ms bad where w: "write_line l = (ms, bad, False)" using l(4) by (metis prod.exhaust snd_conv)
  define c2 where "c2 = (if l = [] then ?c\<lparr>cl_stdin := ?s\<rparr>
     else if bad then print_line bad_format (send_updates ms (?c\<lparr>cl_stdin := ?s\<rparr>)) else send_updates ms (?c\<lparr>cl_stdin := ?s\<rparr>))"
  have e: "edit_loop c = edit_loop c2"
    by (subst edit_loop.simps) (simp add: rl w c2_def)
  have "ms = []" if "l = []" using w that by (simp add: write_line_def cut_end_def strncpy_buf_def)
  then have "cl_stdin c2 = ?s" "cl_user c2 = cl_user c" "cl_ss c2 = cl_ss c" "to_ss (cl_trace c2) = to_ss (cl_trace c) @ ms"
    by (auto simp: c2_def)
  with Cons.IH [of c2] Cons.prems(2) show ?case by (simp add: e w)
qed

text \<open>The whole command, whatever the storage server answers.\<close>

lemma execute_write_session:
  assumes fits: "command_fits True c cm" "2 \<le> length (args cm)"
    and nm: "cl_nm c = resp # ms" "m_type resp \<noteq> MSG_ERROR"
    and input: "cl_stdin c = concat (map (\<lambda>l. l @ [nl]) ls) @ ''ETIRW'' @ nl # rest" "\<forall>l \<in> set ls. editing_line l"
    and ss: "cl_conns c = Some (ready # final # later) # cs" "m_type ready \<noteq> MSG_ERROR"
      "length (m_data ready) < MAX_CONTENT_LEN" "length (m_data final) < MAX_CONTENT_LEN"
  shows "\<exists>c' tr. execute_write cm c = Inr c' \<and> cl_stdin c' = rest
     \<and> to_ss (cl_trace c') = to_ss (cl_trace c) @ (plain_request MSG_WRITE_REQUEST (cl_user c) (args cm ! 0))\<lparr>m_arg1 := atoi32 (args cm ! 1)\<rparr>
         # concat (map (\<lambda>l. fst (write_line l)) ls) @ [finish_message]
     \<and> cl_trace c' = tr @ [Printed (m_data final @ [nl]), Closed_SS]"
proof -
  let ?m = "plain_request MSG_WRITE_FILE (cl_user c) (args cm ! 0)"
  let ?req = "(plain_request MSG_WRITE_REQUEST (cl_user c) (args cm ! 0))\<lparr>m_arg1 := atoi32 (args cm ! 1)\<rparr>"
  have i: "0 < length (args cm)" using fits(2) by linarith
  let ?c = "at_server c ?m resp"
  let ?c1 = "(act (To_SS ?req) ?c)\<lparr>cl_ss := final # later\<rparr>"
  define c2 where "c2 = write_prompt (m_data ready) ?c1"
  have c2: "cl_stdin c2 = cl_stdin c" "cl_user c2 = cl_user c" "cl_ss c2 = final # later" "to_ss (cl_trace c2) = to_ss (cl_trace c) @ [?req]"
    by (simp_all add: c2_def write_prompt_def)
  note e = edit_loop_sends [of c2, unfolded c2(1), OF input]
  have "execute_write cm c = Inr (close_ss (print_line (m_data final) ((edit_loop c2)\<lparr>cl_ss := later\<rparr>)))"
    using file_request_plain [OF fits(1) i] file_request_plain [OF command_fits_user [OF fits(1)] i, of ?c]
      reach_server [OF nm ss(1)] fits(2) ss e c2
    by (simp add: execute_write_def ask_ss_def recv_ss_def c2_def [symmetric] del: One_nat_def)
  with e c2 show ?thesis by (simp add: close_ss_def)
qed

text \<open>
  A WRITE typed at the client and a storage server together: when the lines and the end mark
  have been typed, the client has sent exactly the typed updates, the storage server has
  replaced the sentence, and the client shows the first reply after READY.  That is the report of
  success only if no update was rejected; otherwise it is the first rejection, although the session
  was committed.  (The naming server gave an address, the connection works, the file is in
  place, its lock is free, and the texts fit.)
\<close>

theorem client_write_commits:
  assumes "command_fits True c cm" "2 \<le> length (args cm)"
    and "cl_nm c = resp # ms" "m_type resp \<noteq> MSG_ERROR"
    and "cl_stdin c = concat (map (\<lambda>l. l @ [nl]) ls) @ ''ETIRW'' @ nl # rest" "\<forall>l \<in> set ls. editing_line l"
    and "req = (plain_request MSG_WRITE_REQUEST (cl_user c) (args cm ! 0))\<lparr>m_arg1 := atoi32 (args cm ! 1)\<rparr>"
    and "inputs = concat (map (\<lambda>l. fst (write_line l)) ls) @ [finish_message]"
    and "handle_client_connection S (req # inputs) = Inr (out, S')" "cl_conns c = Some (client_replies out) # cs"
    and "placed S (args cm ! 0) d D" "locks_ok (ss_locks S)" "p = d @ CHR ''/'' # args cm ! 0"
    and "read_file_content (ss_fs S) p = Some old" "i = atoi32 (args cm ! 1)" "0 \<le> i"
    and "lock_available S (args cm ! 0, i)"
    and "write_loop (new_session req p (split_sentences [] old)) inputs = (errs, ws, True)"
    and "edit_fits (split_sentences [] old) (nat i) (words_text (ws_words ws))" "closed_edit (words_text (ws_words ws))"
  shows "\<exists>c' tr. execute_write cm c = Inr c' \<and> cl_stdin c' = rest
     \<and> to_ss (cl_trace c') = to_ss (cl_trace c) @ req # inputs
     \<and> cl_trace c' = tr @ [Printed ((if errs = [] then ''Write Successful!'' else m_data (snd (hd errs))) @ [nl]), Closed_SS]
     \<and> read_file_content (ss_fs S') p
         = Some (join_with (CHR '' '') (edited_sentences (split_sentences [] old) (nat i) (words_text (ws_words ws))))"
    "\<exists>tail. handle_write_file S req inputs = Inr ((Client, ack_reply ''READY'') # tail, S')"
proof -
  have req: "m_type req = MSG_WRITE_REQUEST" "m_filename req = args cm ! 0" "m_arg1 req = i"
    by (simp_all add: assms(7,15) plain_request_def message_zero_def)
  let ?final = "join_with (CHR '' '') (edited_sentences (split_sentences [] old) (nat i) (words_text (ws_words ws)))"
  obtain S2 where S2: "handle_write_file S req inputs = Inr ((Client, ack_reply ''READY'') # errs
      @ [(Naming_Server, metadata_message (args cm ! 0) ?final), (Client, ack_reply ''Write Successful!'')], S2)"
    "read_file_content (ss_fs S2) p = Some ?final"
    using write_session_commits [of S req d D old inputs errs ws, unfolded req, folded assms(13), OF assms(11,12,14,16-18) refl assms(19,20) refl]
    by blast
  then have out: "out = (Client, ack_reply ''READY'') # errs
      @ [(Naming_Server, metadata_message (args cm ! 0) ?final), (Client, ack_reply ''Write Successful!'')]" "S' = S2"
    using assms(9) req(1) by (simp_all add: handle_client_connection_def)
  have errs: "client_replies errs = map snd errs"
    using write_loop_out [OF assms(18)] by (induction errs) auto
  then have "client_replies out = ack_reply ''READY'' # map snd errs @ [ack_reply ''Write Successful!'']"
    by (simp add: out)
  moreover define shown where "shown = (if errs = [] then ack_reply ''Write Successful!'' else snd (hd errs))"
  ultimately obtain later where conns: "cl_conns c = Some (ack_reply ''READY'' # shown # later) # cs"
    using assms(10) by (cases errs) auto
  have ready: "m_type (ack_reply ''READY'') \<noteq> MSG_ERROR" by simp
  have m: "m_data shown = (if errs = [] then ''Write Successful!'' else m_data (snd (hd errs)))"
    by (simp add: shown_def)
  have "length (m_data (snd (hd errs))) < MAX_CONTENT_LEN" if "errs \<noteq> []"
    using that write_loop_short [OF assms(18)] by (cases errs) auto
  then have short: "length (m_data (ack_reply ''READY'')) < MAX_CONTENT_LEN" "length (m_data shown) < MAX_CONTENT_LEN"
    by (simp_all add: shown_def limit_defs)
  obtain c' tr where w:
    "execute_write cm c = Inr c'" "cl_stdin c' = rest" "to_ss (cl_trace c') = to_ss (cl_trace c) @ req # inputs"
    "cl_trace c' = tr @ [Printed (m_data shown @ [nl]), Closed_SS]"
    using execute_write_session [OF assms(1-6) conns ready short]
    by (elim exE conjE) (rule that, simp_all only: assms(7,8))
  show "\<exists>tail. handle_write_file S req inputs = Inr ((Client, ack_reply ''READY'') # tail, S')"
    using S2(1) out(2) by blast
  show "\<exists>c' tr. execute_write cm c = Inr c' \<and> cl_stdin c' = rest
     \<and> to_ss (cl_trace c') = to_ss (cl_trace c) @ req # inputs
     \<and> cl_trace c' = tr @ [Printed ((if errs = [] then ''Write Successful!'' else m_data (snd (hd errs))) @ [nl]), Closed_SS]
     \<and> read_file_content (ss_fs S') p = Some ?final"
    unfolding m [symmetric] by (intro exI conjI) (rule w, rule w, rule w, rule w, simp only: out(2) S2(2))
qed

text \<open>Ann types one line of updates for sentence 0 of the file of \<open>Storage_Demo\<close>.\<close>

definition demo_command :: command where
  "demo_command = command_zero\<lparr>cmd := ''WRITE'', args := [''f'', ''0'']\<rparr>"

definition demo_replies :: message where
  "demo_replies = message_zero\<lparr>m_type := MSG_SS_INFO, m_data := ''10.0.0.2'', m_arg1 := 9002\<rparr>"

definition demo_ann :: "message list option \<Rightarrow> client" where
  "demo_ann conn = \<lparr>cl_user = ''ann'', cl_stdin = concat (map (\<lambda>l. l @ [nl]) [''1 Number 7 x'']) @ ''ETIRW'' @ nl # [],
     cl_nm = [demo_replies], cl_ss = [], cl_conns = [conn], cl_trace = []\<rparr>"

lemma demo_ann_fields [simp]:
  "cl_user (demo_ann r) = ''ann''" "cl_nm (demo_ann r) = [demo_replies]" "cl_conns (demo_ann r) = [r]"
  "cl_trace (demo_ann r) = []" "cl_stdin (demo_ann r) = concat (map (\<lambda>l. l @ [nl]) [''1 Number 7 x'']) @ ''ETIRW'' @ nl # []"
  "args demo_command = [''f'', ''0'']" "m_type demo_replies = MSG_SS_INFO"
  by (simp_all add: demo_ann_def demo_command_def demo_replies_def)

lemma demo_fits: "command_fits True (demo_ann r) demo_command"
  by (simp add: command_fits_def text_ok_def limit_defs)

lemma demo_line: "write_line ''1 Number 7 x'' = ([update_message 1 ''Number'', update_message 7 ''x''], False, False)"
proof -
  let ?us = "[(1, [''Number'']), (7, [''x''])]"
  have ok: "updates_ok ?us" by (simp add: updates_ok_def plain_word_def is_int_str_def isdigit_def isspace_def)
  have line: "update_text ?us = ''1 Number 7 x''" by code_simp
  have len: "length (update_text ?us) < 1024" unfolding line by simp
  have sent: "map typed_update ?us = [update_message 1 ''Number'', update_message 7 ''x'']"
    by (simp add: typed_update_def)
  from typed_updates [OF ok len] show ?thesis unfolding sent line by (rule conjunct1)
qed

definition demo_sent :: "message list" where
  "demo_sent = concat (map (\<lambda>l. fst (write_line l)) [''1 Number 7 x'']) @ [finish_message]"

lemma demo_sent_eq: "demo_sent = [update_message 1 ''Number'', update_message 7 ''x'', finish_message]"
  by (simp add: demo_sent_def demo_line)

lemma demo_editing: "\<forall>l \<in> set [''1 Number 7 x'']. editing_line l"
  by (simp add: editing_line_def demo_line)

lemma demo_atoi: "atoi32 ''0'' = 0"
  by code_simp

lemma demo_request: "(plain_request MSG_WRITE_REQUEST ''ann'' ''f'')\<lparr>m_arg1 := 0\<rparr> = demo_write"
  by (simp add: plain_request_def demo_write_def message_zero_def)

lemma demo_sent_loop:
  "write_loop (new_session demo_write (''data/ss_storage/s'' @ CHR ''/'' # ''f'') [''One.'', ''Two.'']) demo_sent
   = ([(Client, error_reply ERR_INVALID_WORD_INDEX ''ERROR: Invalid word index. Use 1..current_length+1.'')],
      demo_session, True)"
proof -
  have words: "ws_words (new_session demo_write p [''One.'', ''Two.'']) = [''One.'']" for p
  proof -
    have "strtok {CHR '' ''} ''One.'' = [''One.'']" by code_simp
    then show ?thesis by (simp add: new_session_def sentence_words_def limit_defs strncpy_buf_def Let_def)
  qed
  show ?thesis
    by (simp add: demo_sent_eq update_message_def finish_message_def message_zero_def words demo_session_def update_words_def
        limit_defs insert_word_def insert_at_def Let_def)
qed

theorem client_write_commits_witness:
  "\<exists>replies c' tr. execute_write demo_command (demo_ann (Some replies)) = Inr c'
     \<and> to_ss (cl_trace c') = demo_write # demo_sent
     \<and> cl_trace c' = tr @ [Printed (''ERROR: Invalid word index. Use 1..current_length+1.'' @ [nl]), Closed_SS]"
proof -
  let ?p = "''data/ss_storage/s'' @ CHR ''/'' # ''f''"
  obtain out S' where h: "handle_client_connection demo_server (demo_write # demo_sent) = Inr (out, S')"
    using write_session_commits [of demo_server demo_write "''data/ss_storage/s''" demo_dir "''One. Two.''" demo_sent,
      unfolded demo_write_fields demo_split, OF demo_placed demo_locks(3) demo_read order_refl demo_available demo_sent_loop refl _ _ refl,
      unfolded demo_text nat_0, OF demo_edit(1,2)]
    by (auto simp: handle_client_connection_def)
  show ?thesis
    using client_write_commits(1) [of "demo_ann (Some (client_replies out))" demo_command demo_replies "[]" "[''1 Number 7 x'']" "[]"
        demo_write demo_sent demo_server out S' "[]" "''data/ss_storage/s''" demo_dir ?p "''One. Two.''" 0, unfolded demo_split,
        OF demo_fits _ _ _ _ demo_editing _ _ h _ _ demo_locks(3) _ _ _ _ _ demo_sent_loop]
      demo_placed demo_read demo_available demo_text demo_edit(1,2) demo_atoi demo_request
    by (auto simp: demo_sent_def)
qed

theorem stream_shows_words_witness:
  "\<exists>c'. execute_stream demo_command (demo_ann (Some [ack_reply ''One.'', ack_reply ''Two.'', ack_reply ''END_OF_FILE''])) = Inr c'
     \<and> drop 3 (cl_trace c') = [Printed ''One. '', Printed ''Two. '', Printed [nl], Closed_SS]"
proof -
  let ?replies = "[ack_reply ''One.'', ack_reply ''Two.'', ack_reply ''END_OF_FILE'']"
  let ?req = "plain_request MSG_STREAM_REQUEST ''ann'' ''f''"
  have r: "read_file_content (ss_fs demo_server) (locate demo_server ''f'') = Some ''One. Two.''" by code_simp
  have w: "strtok blanks ''One. Two.'' = [''One.'', ''Two.'']" by code_simp
  have h: "handle_client_connection demo_server [?req] = Inr (map (Pair Client) ?replies, demo_server)"
    by (simp add: handle_client_connection_def plain_request_def message_zero_def handle_stream_file_def r w strcpy_buf_def
        strcat_buf_def limit_defs)
  have c: "1 \<le> length (args demo_command)" "cl_nm (demo_ann (Some ?replies)) = demo_replies # []"
    "?req = plain_request MSG_STREAM_REQUEST (cl_user (demo_ann (Some ?replies))) (args demo_command ! 0)"
    "m_type demo_replies \<noteq> MSG_ERROR"
    "cl_conns (demo_ann (Some ?replies)) = Some (client_replies (map (Pair Client) ?replies)) # []"
    "read_file_content (ss_fs demo_server) (locate demo_server (args demo_command ! 0)) = Some ''One. Two.''"
    by (simp_all add: r)
  show ?thesis
    using stream_shows_words [OF demo_fits c(1,2,4,3) h c(5,6)] by (auto simp: w)
qed

end
