(* ===== verification/Naming_Answers.thy ===== *)
theory Naming_Answers
  imports Naming_Effects Naming_Threads
begin

text \<open>
  What comes back on the connection of the client that asked: exactly one message for every
  request, and for EXEC a sequence of outputs closed by one end mark or error.  A client that
  sends one request and receives one reply therefore stays in step.
\<close>

section \<open>Answers on one connection\<close>

definition answers :: "int \<Rightarrow> nm_output \<Rightarrow> message list" where
  "answers sock out = map snd (filter (\<lambda>p. fst p = sock) out)"

lemma answers_simps [simp]:
  "answers sock [] = []" "answers sock ((sock, m) # out) = m # answers sock out"
  "k \<noteq> sock \<Longrightarrow> answers sock ((k, m) # out) = answers sock out"
  "answers sock (xs @ ys) = answers sock xs @ answers sock ys"
  by (simp_all add: answers_def)

text \<open>A handler answers once, and leaves the tables of clients and servers as they are.\<close>

definition one_answer :: "naming_server \<Rightarrow> int \<Rightarrow> nm_result \<Rightarrow> bool" where
  "one_answer T sock r \<longleftrightarrow> (case r of Inl _ \<Rightarrow> True
     | Inr (out, S) \<Rightarrow> (\<exists>m. answers sock out = [m]) \<and> nm_clients S = nm_clients T \<and> nm_servers S = nm_servers T)"

lemma one_answer_simps [simp]:
  "one_answer T sock (Inl f)"
  "one_answer T sock (Inr (out, S)) \<longleftrightarrow> (\<exists>m. answers sock out = [m]) \<and> nm_clients S = nm_clients T \<and> nm_servers S = nm_servers T"
  by (simp_all add: one_answer_def)

lemma one_answer_bind: "(\<And>x. m = Inr x \<Longrightarrow> one_answer T sock (f x)) \<Longrightarrow> one_answer T sock (ebind m f)"
  by (cases m) simp_all

named_theorems table_rules "functions that leave the tables of clients and servers as they are"

lemma lookup_tables [table_rules]:
  "lookup_metadata E S f = Inr (S1, r) \<Longrightarrow> nm_clients S1 = nm_clients S \<and> nm_servers S1 = nm_servers S"
  by (auto simp: lookup_metadata_def fault_simps split: option.splits)

lemma put_meta_tables [simp]: "nm_clients (put_meta S r m) = nm_clients S" "nm_servers (put_meta S r m) = nm_servers S"
  by (simp_all add: put_meta_def)

lemma save_tables [table_rules]: "save_metadata S = Inr S' \<Longrightarrow> nm_clients S' = nm_clients S \<and> nm_servers S' = nm_servers S"
  by (auto simp: save_metadata_def fault_simps)

lemma add_tables [table_rules]: "add_metadata E S f m = Inr S' \<Longrightarrow> nm_clients S' = nm_clients S \<and> nm_servers S' = nm_servers S"
  by (auto simp: add_metadata_def Let_def fault_simps)

lemma drop_tables [table_rules]: "drop_metadata S f = Inr S' \<Longrightarrow> nm_clients S' = nm_clients S \<and> nm_servers S' = nm_servers S"
  by (auto simp: drop_metadata_def fault_simps)

lemma refresh_tables [table_rules]:
  "refresh_counts E S r m = Inr S' \<Longrightarrow> nm_clients S' = nm_clients S \<and> nm_servers S' = nm_servers S"
  by (auto simp: refresh_counts_def fault_simps split: if_splits option.splits dest!: save_tables)

lemma view_tables [table_rules]:
  "view_details E S fs d = Inr (d', S') \<Longrightarrow> nm_clients S' = nm_clients S \<and> nm_servers S' = nm_servers S"
  by (induction E S fs d rule: view_details.induct) (auto simp: fault_simps split: option.splits dest!: refresh_tables)

lemma resolve_tables [table_rules]:
  "access_requests_resolve S f u ok a = Inr (rc, S') \<Longrightarrow> nm_clients S' = nm_clients S \<and> nm_servers S' = nm_servers S"
  by (auto simp: access_requests_resolve_def resolve_take_def resolve_grant_def Let_def fault_simps split: if_splits option.splits prod.splits dest!: save_tables)

lemma one_answer_file:
  assumes "\<And>S1 r m. nm_clients S1 = nm_clients S \<Longrightarrow> nm_servers S1 = nm_servers S \<Longrightarrow> one_answer S sock (g S1 r m)"
  shows "one_answer S sock (with_file E S sock f g)"
  unfolding with_file_def
proof (rule one_answer_bind)
  fix x
  assume x: "lookup_metadata E S f = Inr x"
  obtain S1 found where "x = (S1, found)" by fastforce
  with x lookup_tables show "one_answer S sock (case x of (S1, found) \<Rightarrow> case found of None \<Rightarrow> Inr ([(sock, file_not_found)], S1)
        | Some r \<Rightarrow> ebind (meta_at S1 r) (\<lambda>m. g S1 r m))"
    by (cases found) (auto intro!: one_answer_bind assms)
qed

lemma one_answer_client:
  "get_client_by_socket (nm_clients S) sock = Some c \<Longrightarrow> one_answer S sock (g c) \<Longrightarrow> one_answer S sock (with_client S sock g)"
  by (simp add: with_client_def)

section \<open>Messages to storage servers go elsewhere\<close>

definition apart :: "int \<Rightarrow> naming_server \<Rightarrow> bool" where
  "apart sock S \<longleftrightarrow> (\<forall>s \<in> set (nm_servers S). si_socket s \<noteq> sock)"

lemma apart_server: "apart sock S \<Longrightarrow> get_storage_server (nm_servers S) i = Some s \<Longrightarrow> si_socket s \<noteq> sock"
  by (auto simp: apart_def get_storage_server_def split: if_splits)

lemma apart_selected:
  "apart sock S \<Longrightarrow> select_storage_server_for_new_file (nm_servers S) l = (Some s, l') \<Longrightarrow> si_socket s \<noteq> sock"
proof -
  assume a: "apart sock S" and sel: "select_storage_server_for_new_file (nm_servers S) l = (Some s, l')"
  let ?n = "int (length (nm_servers S))"
  have ne: "nm_servers S \<noteq> []" and s: "s = nm_servers S ! nat ((l + 1) mod ?n)"
    using sel by (auto simp: select_storage_server_for_new_file_def Let_def split: if_splits)
  have "0 \<le> (l + 1) mod ?n" "(l + 1) mod ?n < ?n" using ne by simp_all
  then have "nat ((l + 1) mod ?n) < length (nm_servers S)" by linarith
  then have "s \<in> set (nm_servers S)" unfolding s by simp
  with a show ?thesis by (simp add: apart_def)
qed

lemma answers_elsewhere: "\<forall>p \<in> set out. fst p \<noteq> sock \<Longrightarrow> answers sock out = []"
  by (auto simp: answers_def filter_empty_conv)

lemma replica_elsewhere [table_rules]:
  "create_replica E S p ss_msg = Inr (out, S') \<Longrightarrow>
     nm_clients S' = nm_clients S \<and> nm_servers S' = nm_servers S \<and> (\<forall>sock. apart sock S \<longrightarrow> answers sock out = [])"
  by (auto simp: create_replica_def Let_def split: if_splits option.splits dest: apart_server)

section \<open>The handlers\<close>

lemma one_answer_view_files:
  "get_client_by_socket (nm_clients S) sock = Some c \<Longrightarrow> one_answer S sock (nm_handle_view_files E S sock msg)"
  unfolding nm_handle_view_files_def view_files_body_def by (auto intro!: one_answer_client one_answer_bind dest!: table_rules)

lemma one_answer_lookups:
  assumes "get_client_by_socket (nm_clients S) sock = Some c"
  shows "one_answer S sock (nm_handle_read_file E S sock msg)" "one_answer S sock (nm_handle_stream_lookup E S sock msg)"
    "one_answer S sock (nm_handle_undo_lookup E S sock msg)" "one_answer S sock (nm_handle_write_file E S sock msg)"
    "one_answer S sock (nm_handle_info_file E S sock msg)" "one_answer S sock (nm_handle_checkpoint_request E S sock msg)"
    "one_answer S sock (nm_handle_add_access E S sock msg)" "one_answer S sock (nm_handle_remove_access E S sock msg)"
    "one_answer S sock (nm_handle_view_folder S sock msg)"
  unfolding nm_handle_read_file_def read_file_body_def nm_handle_stream_lookup_def stream_lookup_body_def nm_handle_undo_lookup_def undo_lookup_body_def nm_handle_write_file_def write_file_body_def
    nm_handle_info_file_def info_file_body_def nm_handle_checkpoint_request_def checkpoint_body_def nm_handle_add_access_def add_access_body_def nm_handle_remove_access_def remove_access_body_def
    nm_handle_view_folder_def view_folder_body_def Let_def
  by (auto intro!: one_answer_client [OF assms] one_answer_file one_answer_bind split: option.splits dest!: table_rules)

lemma one_answer_requests:
  "one_answer S sock (nm_request_access E S sock msg)" "one_answer S sock (nm_view_requests E S sock msg)"
  "one_answer S sock (nm_approve_request E S sock msg)" "one_answer S sock (nm_deny_request E S sock msg)"
  "one_answer S sock (nm_handle_list_users S sock)"
  unfolding nm_request_access_eq nm_view_requests_def nm_resolve_request_eq
    nm_handle_list_users_def Let_def
  by (auto intro!: one_answer_file one_answer_bind split: prod.splits dest!: table_rules)

lemma one_answer_create:
  assumes "get_client_by_socket (nm_clients S) sock = Some c" "apart sock S"
  shows "one_answer S sock (nm_handle_create_file E S sock msg)"
  unfolding nm_handle_create_file_eq Let_def
  using assms(2)
  by (auto intro!: one_answer_client [OF assms(1)] one_answer_bind split: option.splits prod.splits
      dest: apart_selected simp: apart_selected apart_def dest!: table_rules)

lemma one_answer_delete:
  assumes "get_client_by_socket (nm_clients S) sock = Some c" "apart sock S"
  shows "one_answer S sock (nm_handle_delete_file E S sock msg)"
  unfolding nm_handle_delete_file_def delete_file_body_def Let_def
proof (intro one_answer_client [OF assms(1)] one_answer_file)
  fix S1 :: naming_server and r and m
  assume tables: "nm_clients S1 = nm_clients S" "nm_servers S1 = nm_servers S"
  from this(2) have "apart sock S1" using assms(2) by (simp add: apart_def)
  then show "one_answer S sock (if fm_owner m \<noteq> ci_username c
       then Inr ([(sock, error_reply ERR_NOT_OWNER ''ERROR: Only owner can delete file.'')], S1)
       else (case get_storage_server (nm_servers S1) (fm_ss_id m) of
               None \<Rightarrow> Inl NullDeref
             | Some s \<Rightarrow>
                 (case env_reply E (si_socket s) (message_zero\<lparr>m_type := MSG_DELETE_FILE_SS, m_filename := m_filename msg\<rparr>) of
                    None \<Rightarrow> Inl Uninitialised
                  | Some resp \<Rightarrow>
                      if m_error resp = ERR_SUCCESS
                      then ebind (drop_metadata S1 (m_filename msg)) (\<lambda>S2.
                           ebind (save_metadata S2) (\<lambda>S3.
                             Inr ([(si_socket s, message_zero\<lparr>m_type := MSG_DELETE_FILE_SS, m_filename := m_filename msg\<rparr>),
                                   (sock, ack_reply (''File '' @ CHR 0x27 # m_filename msg @ CHR 0x27 # '' deleted successfully!''))], S3)))
                      else Inr ([(si_socket s, message_zero\<lparr>m_type := MSG_DELETE_FILE_SS, m_filename := m_filename msg\<rparr>),
                                 (sock, error_reply ERR_SUCCESS ''ERROR: Failed to delete file.'')], S1))))"
    using tables by (auto intro!: one_answer_bind simp: apart_server split: option.splits dest!: table_rules)
qed

lemma one_answer_folders:
  assumes "get_client_by_socket (nm_clients S) sock = Some c" "apart sock S"
  shows "one_answer S sock (nm_handle_create_folder S sock msg)" "one_answer S sock (nm_handle_move_file E S sock msg)"
proof -
  have b: "answers sock (folder_broadcast S m) = []" for m
    using assms(2) by (intro answers_elsewhere) (auto simp: folder_broadcast_def apart_def)
  show "one_answer S sock (nm_handle_create_folder S sock msg)"
    unfolding nm_handle_create_folder_def create_folder_body_def
    by (intro one_answer_client [OF assms(1)]) (auto simp: b Let_def intro!: one_answer_bind)
  have t: "answers sock (map (\<lambda>s. (si_socket s, m)) (move_targets S2 f fm)) = []" if "nm_servers S2 = nm_servers S" for S2 f fm m
  proof -
    have "apart sock S2" using assms(2) that by (simp add: apart_def)
    then show ?thesis
      by (intro answers_elsewhere) (auto simp: move_targets_def dest: apart_server [OF _ sym] split: option.splits)
  qed
  show "one_answer S sock (nm_handle_move_file E S sock msg)"
    unfolding nm_handle_move_file_eq unbroken_move Let_def
    by (intro one_answer_client [OF assms(1)] one_answer_file)
       (auto intro!: one_answer_bind simp: t fault_simps split: option.splits)
qed

section \<open>EXEC\<close>

definition exec_answers :: "message list \<Rightarrow> bool" where
  "exec_answers ms \<longleftrightarrow> (\<exists>outs m. ms = outs @ [m] \<and> list_all (\<lambda>o'. m_type o' = MSG_EXEC_OUTPUT) outs
     \<and> m_type m \<in> {MSG_ERROR, MSG_EXEC_DONE})"

lemma exec_answers_closed:
  assumes "get_client_by_socket (nm_clients S) sock = Some c" "nm_handle_exec_file E S sock msg = Inr (out, S')"
  shows "exec_answers (answers sock out)" "nm_clients S' = nm_clients S" "nm_servers S' = nm_servers S"
proof -
  have single: "exec_answers [error_reply e t]" "exec_answers [file_not_found]" "exec_answers [access_denied]" for e t
    by (auto simp: exec_answers_def file_not_found_def access_denied_def)
  have run: "exec_answers (answers sock out')" if "exec_run E S1 sock r = Inr (out', S2)" for S1 S2 r out'
  proof -
    have "answers sock (map (\<lambda>l. (sock, message_zero\<lparr>m_type := MSG_EXEC_OUTPUT, m_data := l\<rparr>)) ls)
        = map (\<lambda>l. message_zero\<lparr>m_type := MSG_EXEC_OUTPUT, m_data := l\<rparr>) ls" for ls
      by (induction ls) simp_all
    then have "exec_answers (answers sock (map (\<lambda>l. (sock, message_zero\<lparr>m_type := MSG_EXEC_OUTPUT, m_data := l\<rparr>)) ls
        @ [(sock, message_zero\<lparr>m_type := MSG_EXEC_DONE, m_data := d\<rparr>)]))" for ls d
      by (auto simp: exec_answers_def list_all_iff message_zero_def)
    with that single show ?thesis
      by (cases "meta_at S1 r"; cases "fetch_file_content_for_exec E (projr (meta_at S1 r))";
          cases "env_exec E (the (fetch_file_content_for_exec E (projr (meta_at S1 r))))")
         (auto simp: exec_run_def)
  qed
  have none: "exec_run E S1 sock r \<noteq> Inr ([], S2)" for S1 S2 r using run [of S1 r "[]" S2] by (auto simp: exec_answers_def)
  show "exec_answers (answers sock out)"
    using assms(2) single
    by (auto simp: nm_handle_exec_file_eq exec_lookup_def exec_check_def assms(1) none fault_simps dest: run split: option.splits if_splits)
  have same: "S2 = S1" if "exec_run E S1 sock r = Inr (out', S2)" for S1 S2 r out'
    using that by (auto simp: exec_run_def fault_simps split: option.splits)
  show "nm_clients S' = nm_clients S" "nm_servers S' = nm_servers S"
    using assms(2)
    by (auto simp: nm_handle_exec_file_eq exec_lookup_def exec_check_def assms(1) fault_simps split: option.splits if_splits dest!: table_rules dest: same)
qed

section \<open>Every request of a client\<close>

text \<open>The requests that the client program sends to the naming server after its registration.\<close>

definition session_requests :: "message_type list" where
  "session_requests =
     [MSG_VIEW_FILES, MSG_READ_FILE, MSG_CREATE_FILE, MSG_WRITE_FILE, MSG_DELETE_FILE, MSG_INFO_FILE,
      MSG_STREAM_FILE, MSG_LIST_USERS, MSG_ADDACCESS, MSG_REMACCESS, MSG_UNDO_FILE, MSG_CREATE_FOLDER,
      MSG_MOVE_FILE, MSG_VIEW_FOLDER, MSG_REQUEST_ACCESS, MSG_CP_CREATE, MSG_CP_VIEW, MSG_CP_REVERT, MSG_CP_LIST,
      MSG_VIEW_REQUESTS, MSG_APPROVE_REQUEST, MSG_DENY_REQUEST]"

lemma request_one_answer:
  assumes "get_client_by_socket (nm_clients S) sock = Some c" "apart sock S" "m_type msg \<in> set session_requests"
  shows "one_answer S sock (handle_client_message E S sock cip cport msg)"
  using assms(3)
  by (auto simp: session_requests_def handle_client_message_eq one_answer_requests one_answer_lookups [OF assms(1)]
      one_answer_view_files [OF assms(1)] one_answer_create [OF assms(1,2)] one_answer_delete [OF assms(1,2)]
      one_answer_folders [OF assms(1,2)])

section \<open>A whole connection\<close>

text \<open>
  What a client reads for one request: the first message, or, for EXEC, everything up to the
  first message that is not an output.
\<close>

definition after_reply :: "message \<Rightarrow> message list \<Rightarrow> message list" where
  "after_reply m rs =
     (if m_type m = MSG_EXEC_FILE then tl (dropWhile (\<lambda>r. m_type r = MSG_EXEC_OUTPUT) rs) else tl rs)"

lemma after_exec:
  assumes "exec_answers rs"
  shows "tl (dropWhile (\<lambda>r. m_type r = MSG_EXEC_OUTPUT) (rs @ later)) = later"
proof -
  obtain outs m where rs: "rs = outs @ [m]" "\<forall>r \<in> set outs. m_type r = MSG_EXEC_OUTPUT" "m_type m \<noteq> MSG_EXEC_OUTPUT"
    using assms by (auto simp: exec_answers_def list_all_iff)
  then have "dropWhile (\<lambda>r. m_type r = MSG_EXEC_OUTPUT) (rs @ later) = m # later"
    by (simp add: dropWhile_append2)
  then show ?thesis by simp
qed

lemma one_request:
  assumes "get_client_by_socket (nm_clients S) sock = Some c" "apart sock S"
    and "m_type msg \<in> insert MSG_EXEC_FILE (set session_requests)"
    and "handle_client_message E S sock cip cport msg = Inr (out, S')"
  shows "after_reply msg (answers sock out @ later) = later" "nm_clients S' = nm_clients S" "nm_servers S' = nm_servers S"
proof -
  have "after_reply msg (answers sock out @ later) = later \<and> nm_clients S' = nm_clients S \<and> nm_servers S' = nm_servers S"
  proof (cases "m_type msg = MSG_EXEC_FILE")
    case True
    then have "nm_handle_exec_file E S sock msg = Inr (out, S')"
      using assms(4) by (simp add: handle_client_message_eq)
    note e = exec_answers_closed [OF assms(1) this]
    show ?thesis using after_exec [OF e(1)] e(2,3) True by (simp add: after_reply_def)
  next
    case False
    with assms(3) have "m_type msg \<in> set session_requests" by simp
    from request_one_answer [OF assms(1,2) this, of E cip cport] assms(4) False show ?thesis
      by (auto simp: after_reply_def)
  qed
  then show "after_reply msg (answers sock out @ later) = later" "nm_clients S' = nm_clients S" "nm_servers S' = nm_servers S"
    by simp_all
qed

lemma whole_connection:
  assumes "handle_client_thread S sock cip cport Ms = Inr (out, S')"
    and "get_client_by_socket (nm_clients S) sock = Some c" "apart sock S"
    and "\<forall>(E, m) \<in> set Ms. m_type m \<in> insert MSG_EXEC_FILE (set session_requests)"
  shows "fold after_reply (map snd Ms) (answers sock out @ later) = later"
  using assms
proof (induction Ms arbitrary: S out)
  case (Cons p Ms)
  obtain E msg where p: "p = (E, msg)" by fastforce
  obtain out1 S1 out2 where h: "handle_client_message E S sock cip cport msg = Inr (out1, S1)"
    "handle_client_thread S1 sock cip cport Ms = Inr (out2, S')" "out = out1 @ out2"
    using Cons.prems(1) by (auto simp: p fault_simps)
  have "m_type msg \<in> insert MSG_EXEC_FILE (set session_requests)" using Cons.prems(4) p by auto
  note one = one_request [OF Cons.prems(2,3) this h(1)]
  have "get_client_by_socket (nm_clients S1) sock = Some c" "apart sock S1"
    using Cons.prems(2,3) one by (simp_all add: apart_def)
  then have "fold after_reply (map snd Ms) (answers sock out2 @ later) = later"
    using Cons.IH [OF h(2)] Cons.prems(4) by simp
  with one(1) show ?case by (simp add: h(3) p)
qed simp

end
