(* ===== verification/Lockstep.thy ===== *)
theory Lockstep
  imports Client_Properties Naming_Answers Naming_Demo
begin

text \<open>
  The client and the naming server together: for every request the client reads exactly the
  messages that the naming server sends for it, so that the two stay in step over a whole
  session.
\<close>

section \<open>What a client asks the naming server\<close>

fun to_nm :: "action list \<Rightarrow> message list" where
  "to_nm [] = []"
| "to_nm (To_NM m # as) = m # to_nm as"
| "to_nm (a # as) = to_nm as"

lemma to_nm_append [simp]: "to_nm (xs @ ys) = to_nm xs @ to_nm ys"
  by (induction xs rule: to_nm.induct) auto

definition asks :: "client \<Rightarrow> client \<Rightarrow> bool" where
  "asks c c' \<longleftrightarrow> (\<exists>ms. to_nm (cl_trace c') = to_nm (cl_trace c) @ ms \<and> cl_nm c' = fold after_reply ms (cl_nm c)
     \<and> (\<forall>m \<in> set ms. m_type m \<in> insert MSG_EXEC_FILE (set session_requests)))"

definition asking :: "client \<Rightarrow> client result \<Rightarrow> bool" where
  "asking c r \<longleftrightarrow> (case r of Inl f \<Rightarrow> True | Inr c' \<Rightarrow> asks c c')"

lemma asking_simps [simp]: "asking c (Inl f)" "asking c (Inr c') \<longleftrightarrow> asks c c'"
  by (simp_all add: asking_def)

lemma asks_trans: "asks c c' \<Longrightarrow> asks c' c'' \<Longrightarrow> asks c c''"
  unfolding asks_def by (elim exE conjE, rename_tac ms ms', rule_tac x = "ms @ ms'" in exI) auto

lemma asking_after: "asks c c' \<Longrightarrow> asking c' r \<Longrightarrow> asking c r"
  by (cases r) (auto intro: asks_trans)

named_theorems ask_rules "steps of the client that leave the connection to the naming server alone"

definition quiet_nm :: "client \<Rightarrow> client \<Rightarrow> bool" where
  "quiet_nm c c' \<longleftrightarrow> to_nm (cl_trace c') = to_nm (cl_trace c) \<and> cl_nm c' = cl_nm c"

lemma quiet_asks: "quiet_nm c c' \<Longrightarrow> asks c c'"
  by (auto simp: quiet_nm_def asks_def)

lemma quiet_steps [simp]:
  "quiet_nm c (print s c') = quiet_nm c c'" "quiet_nm c (print_line s c') = quiet_nm c c'"
  "quiet_nm c (act (To_SS m) c') = quiet_nm c c'" "quiet_nm c (act (Connected ip p) c') = quiet_nm c c'"
  "quiet_nm c (act Closed_SS c') = quiet_nm c c'" "quiet_nm c (act Closed_NM c') = quiet_nm c c'"
  "quiet_nm c (c'\<lparr>cl_ss := ms\<rparr>) = quiet_nm c c'" "quiet_nm c (c'\<lparr>cl_conns := cs\<rparr>) = quiet_nm c c'"
  "quiet_nm c (c'\<lparr>cl_stdin := s\<rparr>) = quiet_nm c c'" "quiet_nm c c"
  by (simp_all add: quiet_nm_def print_def print_line_def act_def)

lemma quiet_shows [simp]:
  "quiet_nm c (close_ss c') = quiet_nm c c'" "quiet_nm c (write_prompt d c') = quiet_nm c c'"
  by (simp_all add: close_ss_def write_prompt_def)

lemma quiet_updates [simp]: "quiet_nm c (send_updates ms c') = quiet_nm c c'"
  unfolding send_updates_def by (induction ms arbitrary: c') simp_all

lemma quiet_read: "read_line n c = Some (l, c') \<Longrightarrow> quiet_nm c0 c' = quiet_nm c0 c"
  by (auto simp: read_line_def Let_def split: if_splits)

lemma quiet_edit [simp]: "quiet_nm c0 (edit_loop c) = quiet_nm c0 c"
proof (induction c rule: edit_loop.induct)
  case (1 c)
  show ?case
  proof (cases "read_line 1024 (print ''> '' c)")
    case None
    then show ?thesis by (subst edit_loop.simps) simp
  next
    case (Some p)
    obtain line c' where rl: "read_line 1024 (print ''> '' c) = Some (line, c')" using Some by (cases p) auto
    obtain ms bad fin where w: "write_line line = (ms, bad, fin)" by (metis prod_cases3)
    note ih = "1.IH"(1) [OF rl refl] "1.IH"(2) [OF rl refl _ w [symmetric] refl refl refl]
    show ?thesis
      by (subst edit_loop.simps, cases bad; cases fin; use ih quiet_read [OF rl] in \<open>simp add: rl w\<close>)
  qed
qed

text \<open>One request and one reply.\<close>

definition request_of :: "message_type \<Rightarrow> message result \<Rightarrow> bool" where
  "request_of t r \<longleftrightarrow> (case r of Inl f \<Rightarrow> True | Inr m \<Rightarrow> m_type m = t)"

lemma request_of_simps [simp]: "request_of t (Inl f)" "request_of t (Inr m) \<longleftrightarrow> m_type m = t"
  by (simp_all add: request_of_def)

lemma request_of_bind: "(\<And>x. r = Inr x \<Longrightarrow> request_of t (f x)) \<Longrightarrow> request_of t (ebind r f)"
  by (cases r) simp_all

lemma requests_of [simp]:
  "request_of t (user_request t c)" "request_of t (file_request t c f)" "request_of t (bounded_request t c f d)"
  by (auto simp: user_request_def file_request_def bounded_request_def message_zero_def fault_simps intro!: request_of_bind)

lemma requests_with [simp]:
  "request_of t (ebind (user_request t c) (\<lambda>m. Inr (m\<lparr>m_arg1 := i, m_arg2 := j\<rparr>)))"
  "request_of t (ebind (bounded_request t c f d) (\<lambda>m. Inr (m\<lparr>m_arg1 := i\<rparr>)))"
  "request_of t (ebind (file_request t c f) (\<lambda>m. ebind r (\<lambda>d. Inr (m\<lparr>m_data := d\<rparr>))))"
  "request_of t (ebind (file_request t c f) (\<lambda>m. ebind r (\<lambda>d. Inr (m\<lparr>m_data := d, m_arg1 := i\<rparr>))))"
  by (auto simp: user_request_def file_request_def bounded_request_def message_zero_def fault_simps intro!: request_of_bind)

lemma asking_ask:
  assumes "request_of t r" "t \<in> set session_requests" "\<And>resp c'. asking c' (k (resp, c'))"
  shows "asking c (ebind (ask_nm r c) k)"
proof (cases r)
  case (Inr m)
  then have m: "m_type m = t" using assms(1) by simp
  have t: "t \<noteq> MSG_EXEC_FILE" using assms(2) by (auto simp: session_requests_def)
  show ?thesis
  proof (cases "cl_nm c")
    case (Cons resp ms)
    have "asks c ((act (To_NM m) c)\<lparr>cl_nm := ms\<rparr>)"
      using m t assms(2) Cons by (auto simp: asks_def act_def after_reply_def)
    from asking_after [OF this assms(3)] show ?thesis by (simp add: ask_nm_def recv_nm_def Inr Cons)
  qed (simp add: ask_nm_def recv_nm_def Inr)
qed (simp add: ask_nm_def)

lemma asking_quiet: "quiet_nm c c' \<Longrightarrow> asking c (Inr c')"
  by (simp add: quiet_asks)

lemma asking_text: "(\<And>d. asking c (k d)) \<Longrightarrow> asking c (ebind (text_of m) k)"
  by (simp add: text_of_def)

lemma asking_show:
  assumes "asks c c'"
  shows "asking c (show_reply m c')" "asking c (show_text m c')" "asking c (show_short m c')" "asking c (show_error m c')"
  unfolding show_reply_def show_text_def show_short_def show_error_def
  using asks_trans [OF assms quiet_asks] by (auto intro!: asking_text)

lemma asking_show_quiet:
  assumes "quiet_nm c c'"
  shows "asking c (show_reply m c')" "asking c (show_text m c')" "asking c (show_short m c')" "asking c (show_error m c')"
  by (rule asking_show [OF quiet_asks [OF assms]])+

text \<open>A step that leaves the connection alone, and closes the other one.\<close>

definition still :: "client \<Rightarrow> client result \<Rightarrow> bool" where
  "still c r \<longleftrightarrow> (case r of Inl f \<Rightarrow> True | Inr c' \<Rightarrow> quiet_nm c c')"

lemma still_simps [simp]: "still c (Inl f)" "still c (Inr c') \<longleftrightarrow> quiet_nm c c'"
  by (simp_all add: still_def)

lemma still_text: "(\<And>d. still c (k d)) \<Longrightarrow> still c (ebind (text_of m) k)"
  by (simp add: text_of_def)

lemma still_show:
  "quiet_nm c c' \<Longrightarrow> still c (show_reply m c')" "quiet_nm c c' \<Longrightarrow> still c (show_short m c')" "quiet_nm c c' \<Longrightarrow> still c (show_error m c')"
  unfolding show_reply_def show_short_def show_error_def by (auto intro!: still_text)

lemma still_stream: "quiet_nm c c' \<Longrightarrow> still c (stream_loop ms c')"
  by (induction ms arbitrary: c') (auto intro!: still_text)

lemma asking_close: "still c r \<Longrightarrow> asking c (ebind r (\<lambda>c. Inr (close_ss c)))"
  by (cases r) (simp_all add: quiet_asks)

lemma asking_ask_ss:
  assumes "\<And>resp c'. quiet_nm c c' \<Longrightarrow> asking c (k (resp, c'))"
  shows "asking c (ebind (ask_ss r c) k)"
  using assms by (cases r) (auto simp: ask_ss_def recv_ss_def split: list.split)

lemma asking_recv_ss:
  assumes "quiet_nm c c'" "\<And>resp c'. quiet_nm c c' \<Longrightarrow> asking c (k (resp, c'))"
  shows "asking c (ebind (recv_ss c') k)"
  using assms by (auto simp: recv_ss_def split: list.split)

lemma asking_at_ss:
  assumes "\<And>c'. asking c' (k c')"
  shows "asking c (at_ss resp k c)" "asking c (at_ss_copied resp k c)"
proof -
  have "asking c (connect_ss ip port k c)" for ip port
  proof -
    obtain b c' where o: "open_ss ip port c = (b, c')" by fastforce
    then have q: "quiet_nm c c'" by (auto simp: open_ss_def Let_def split: list.splits option.splits)
    show ?thesis
    proof (cases b)
      case True
      then show ?thesis using asking_after [OF quiet_asks [OF q] assms] by (simp add: connect_ss_def o)
    qed (use q in \<open>simp add: connect_ss_def o quiet_asks\<close>)
  qed
  then show "asking c (at_ss resp k c)" "asking c (at_ss_copied resp k c)"
    by (auto simp: at_ss_def at_ss_copied_def quiet_asks intro!: asking_show_quiet asking_text)
qed

section \<open>Every command\<close>

lemma commands_ask:
  "asking c (execute_view cm c)" "asking c (execute_create cm c)" "asking c (execute_delete cm c)"
  "asking c (execute_info cm c)" "asking c (execute_list cm c)" "asking c (execute_addaccess cm c)"
  "asking c (execute_remaccess cm c)" "asking c (execute_create_folder cm c)" "asking c (execute_move cm c)"
  "asking c (execute_view_folder cm c)" "asking c (execute_request_access cm c)"
  "asking c (execute_view_requests c)" "asking c (execute_approve_request cm c)" "asking c (execute_deny_request cm c)"
  unfolding execute_view_def execute_create_def execute_delete_def execute_info_def execute_list_def execute_addaccess_def
    execute_remaccess_def execute_create_folder_def execute_move_def execute_view_folder_def execute_request_access_def
    execute_view_requests_def execute_approve_request_def execute_deny_request_def
  by (auto intro!: asking_ask requests_of requests_with asking_show_quiet asking_text quiet_asks simp: session_requests_def)

lemma session_commands_ask:
  "asking c (execute_read cm c)" "asking c (execute_undo cm c)" "asking c (execute_checkpoint cm c)"
  "asking c (execute_view_checkpoint cm c)" "asking c (execute_revert cm c)" "asking c (execute_list_checkpoints cm c)"
  "asking c (execute_write cm c)"
  unfolding execute_read_def execute_undo_def execute_checkpoint_def execute_view_checkpoint_def execute_revert_def
    execute_list_checkpoints_def execute_write_def
  by (auto intro!: asking_ask requests_of asking_at_ss asking_ask_ss asking_recv_ss asking_close still_show asking_text quiet_asks
      simp: session_requests_def)

lemma stream_command_asks: "asking c (execute_stream cm c)"
proof -
  have "asking c' (ebind r (\<lambda>m. ebind (stream_loop (cl_ss c') (act (To_SS m) c')) (\<lambda>c. Inr (close_ss c))))" for c' r
    by (cases r) (auto intro!: asking_close still_stream)
  then show ?thesis
    by (auto simp: execute_stream_def session_requests_def intro!: asking_ask requests_of asking_at_ss quiet_asks)
qed

lemma exec_loop_asks:
  "exec_loop ms c = Inr c' \<Longrightarrow>
   to_nm (cl_trace c') = to_nm (cl_trace c) \<and> cl_nm c' = tl (dropWhile (\<lambda>r. m_type r = MSG_EXEC_OUTPUT) ms)"
proof (induction ms arbitrary: c)
  case (Cons m ms)
  show ?case
  proof (cases "m_type m = MSG_EXEC_OUTPUT")
    case True
    with Cons show ?thesis by (auto simp: fault_simps)
  next
    case False
    with Cons.prems show ?thesis by (auto simp: fault_simps show_error_def split: if_splits)
  qed
qed (auto simp: fault_simps)

lemma exec_command_asks: "asking c (execute_exec cm c)"
proof -
  have "asking c (exec_loop (cl_nm c) (act (To_NM m) c))" if "m_type m = MSG_EXEC_FILE" for m
    using that exec_loop_asks [of "cl_nm c" "act (To_NM m) c"]
    by (cases "exec_loop (cl_nm c) (act (To_NM m) c)") (auto simp: asks_def after_reply_def)
  moreover have "request_of MSG_EXEC_FILE (file_request MSG_EXEC_FILE c (args cm ! 0))" by simp
  ultimately show ?thesis
    by (cases "file_request MSG_EXEC_FILE c (args cm ! 0)") (auto simp: execute_exec_def quiet_asks)
qed

definition command_asks :: "client \<Rightarrow> (bool \<times> client) result \<Rightarrow> bool" where
  "command_asks c r \<longleftrightarrow> asking c (map_sum id snd r)"

lemma command_asks_stay: "asking c r \<Longrightarrow> command_asks c (stay r)"
  by (cases r) (simp_all add: command_asks_def stay_def)

lemma command_asks_Inr: "quiet_nm c c' \<Longrightarrow> command_asks c (Inr (b, c'))"
  by (simp add: command_asks_def quiet_asks)

lemma command_asks_if: "command_asks c x \<Longrightarrow> command_asks c y \<Longrightarrow> command_asks c (if b then x else y)"
  by simp

lemma quiet_help: "quiet_nm c (execute_help c)"
proof -
  have "quiet_nm c (fold print ls c0) = quiet_nm c c0" for ls c0
    by (induction ls arbitrary: c0) simp_all
  then show ?thesis by (simp add: execute_help_def)
qed

lemma execute_command_asks: "command_asks c (execute_command stray input c)"
proof -
  have quit: "quiet_nm c (act Closed_NM (print_line goodbye c))" by simp
  have unknown: "quiet_nm c (print_line s (print_line t c))" for s t by simp
  have same: "quiet_nm c c" by simp
  show ?thesis unfolding execute_command_def Let_def
    by (intro command_asks_if command_asks_stay command_asks_Inr commands_ask session_commands_ask stream_command_asks
        exec_command_asks quit quiet_help unknown same)
qed

section \<open>A whole session\<close>

lemma main_loop_asks: "asking c (main_loop stray c)"
proof (induction stray c rule: main_loop.induct)
  case (1 stray c)
  let ?c = "print (cl_user c @ ''> '') c"
  show ?case
  proof (cases "read_line 1024 ?c")
    case None
    then show ?thesis by (subst main_loop.simps) (simp add: quiet_asks)
  next
    case (Some p)
    obtain line c' where rl: "read_line 1024 ?c = Some (line, c')" using Some by (cases p) auto
    then have c': "asks c c'" by (intro quiet_asks) (simp add: quiet_read [OF rl])
    show ?thesis
    proof (cases "line = []")
      case True
      then show ?thesis
        using asking_after [OF c' "1.IH"(1) [OF rl refl]] by (subst main_loop.simps) (simp add: rl)
    next
      case False
      note ex = execute_command_asks [of c' stray line]
      show ?thesis
      proof (cases "execute_command stray line c'")
        case (Inr q)
        obtain quit c'' where q: "q = (quit, c'')" by fastforce
        have c'': "asks c c''" using ex Inr q asks_trans [OF c'] by (simp add: command_asks_def)
        have "asks c (print_line [] c'')" by (rule asks_trans [OF c'' quiet_asks]) simp
        with "1.IH"(2) [OF rl refl False Inr [unfolded q] refl] c''
        show ?thesis by (subst main_loop.simps) (auto simp: rl False Inr q intro: asking_after)
      qed (subst main_loop.simps, simp add: rl False)
    qed
  qed
qed

text \<open>
  C8: the client and the naming server stay in step over a whole session, whatever the user types:
  when the replies on the connection are those that the naming server sends on it for the
  messages of the client, every reply is read by the command that asked for it, and none is
  left at the end.  (The client is registered on its own socket; \<open>later\<close> is what would come after.)
\<close>

theorem client_in_step:
  assumes "main_loop stray c = Inr c'"
    and "to_nm (cl_trace c') = to_nm (cl_trace c) @ map snd Ms"
    and "handle_client_thread S sock ip port Ms = Inr (out, S')"
    and "get_client_by_socket (nm_clients S) sock = Some info" "apart sock S"
    and "cl_nm c = answers sock out @ later"
  shows "cl_nm c' = later"
proof -
  have "asks c c'" using main_loop_asks [of c stray] assms(1) by simp
  then have c': "cl_nm c' = fold after_reply (map snd Ms) (cl_nm c)"
    "\<forall>m \<in> set (map snd Ms). m_type m \<in> insert MSG_EXEC_FILE (set session_requests)"
    using assms(2) by (auto simp: asks_def)
  then have "\<forall>(E, m) \<in> set Ms. m_type m \<in> insert MSG_EXEC_FILE (set session_requests)" by force
  from whole_connection [OF assms(3-5) this] show ?thesis by (simp add: c'(1) assms(6))
qed

text \<open>Alice asks for the users and leaves.\<close>

definition demo_list :: message where
  "demo_list = message_zero\<lparr>m_type := MSG_LIST_USERS, m_sender := ''alice''\<rparr>"

definition demo_users :: message where
  "demo_users = message_zero\<lparr>m_type := MSG_USER_LIST, m_data := concat (map name_line [''alice'', ''bob''])\<rparr>"

definition demo_alice :: client where
  "demo_alice = (fresh_client (''LIST'' @ nl # []) [])\<lparr>cl_user := ''alice'', cl_nm := [demo_users]\<rparr>"

lemma demo_list_served:
  "handle_client_thread demo_nm 5 ''10.0.0.2'' 5000 [(demo_env, demo_list)]
     = Inr ([(5, demo_users)], leave_client demo_nm 5)"
proof -
  have names: "get_all_usernames [''alice'', ''bob''] [demo_client 5 ''alice'', demo_client 6 ''bob''] MAX_CLIENTS = [''alice'', ''bob'']"
    by (simp add: get_all_usernames_def limit_defs demo_clients)
  have listing: "strcat_all MAX_CONTENT_LEN [] (map name_line [''alice'', ''bob'']) = Inr (concat (map name_line [''alice'', ''bob'']))"
    by (subst strcat_all_Inr) (simp_all add: name_line_def limit_defs)
  have "nm_handle_list_users demo_nm 5 = Inr ([(5, demo_users)], demo_nm)"
    unfolding nm_handle_list_users_def demo_nm_fields names listing demo_users_def by simp
  then have "handle_client_message demo_env demo_nm 5 ''10.0.0.2'' 5000 demo_list = Inr ([(5, demo_users)], demo_nm)"
    by (simp add: handle_client_message_eq demo_list_def message_zero_def)
  then show ?thesis by simp
qed

lemma demo_alice_runs:
  "\<exists>c'. main_loop {} demo_alice = Inr c' \<and> to_nm (cl_trace c') = [demo_list]"
proof -
  let ?c = "print (cl_user demo_alice @ ''> '') demo_alice"
  have rl: "read_line 1024 ?c = Some (''LIST'', ?c\<lparr>cl_stdin := []\<rparr>)"
    by (rule read_typed_line) (simp_all add: demo_alice_def fresh_client_def)
  have cm: "parse_command {} ''LIST'' = command_zero\<lparr>cmd := ''LIST''\<rparr>" by code_simp
  have cmd: "cmd (command_zero\<lparr>cmd := ''LIST''\<rparr>) = ''LIST''" by simp
  have u: "user_request MSG_LIST_USERS (?c\<lparr>cl_stdin := []\<rparr>) = Inr demo_list"
    by (simp add: user_request_def strcpy_buf_def strcat_buf_def demo_list_def limit_defs demo_alice_def)
  have ex: "execute_list (command_zero\<lparr>cmd := ''LIST''\<rparr>) (?c\<lparr>cl_stdin := []\<rparr>)
      = Inr (print (m_data demo_users) ((act (To_NM demo_list) (?c\<lparr>cl_stdin := []\<rparr>))\<lparr>cl_nm := []\<rparr>))"
    unfolding execute_list_def u by (simp add: ask_nm_def recv_nm_def demo_alice_def text_of_def demo_users_def name_line_def limit_defs)
  have "execute_command {} ''LIST'' (?c\<lparr>cl_stdin := []\<rparr>)
      = Inr (False, print (m_data demo_users) ((act (To_NM demo_list) (?c\<lparr>cl_stdin := []\<rparr>))\<lparr>cl_nm := []\<rparr>))"
    unfolding execute_command_def cm Let_def cmd ex stay_def by simp
  moreover have loop: "main_loop {} c = Inr (act Closed_NM (print (cl_user c @ ''> '') c))" if "cl_stdin c = []" for c
    using that by (subst main_loop.simps) (simp add: read_line_def)
  ultimately show ?thesis
    by (subst main_loop.simps) (simp add: rl loop, simp add: act_def print_def print_line_def demo_alice_def fresh_client_def)
qed

theorem client_in_step_witness:
  "\<exists>c'. main_loop {} demo_alice = Inr c' \<and> to_nm (cl_trace c') = [demo_list] \<and> cl_nm c' = []"
proof -
  obtain c' where c': "main_loop {} demo_alice = Inr c'" "to_nm (cl_trace c') = [demo_list]"
    using demo_alice_runs by blast
  have nm: "get_client_by_socket (nm_clients demo_nm) 5 = Some (demo_client 5 ''alice'')" by (simp add: demo_clients)
  have "cl_nm c' = []"
    by (rule client_in_step [OF c'(1) _ demo_list_served nm])
       (simp_all add: c'(2) demo_alice_def fresh_client_def apart_def demo_ss_def)
  with c' show ?thesis by blast
qed

end
