(* ===== verification/Whole_System.thy ===== *)
theory Whole_System
  imports Client_Composition Lockstep
begin

text \<open>
  Client, naming server and storage server together: the reply that the client reads from
  the naming server is the one that the model of the naming server sends, and the replies on
  its connection to the storage server are those that the model of the storage server sends.
\<close>

section \<open>Lookups\<close>

lemma plain_request_fields [simp]:
  "m_type (plain_request t u f) = t" "m_sender (plain_request t u f) = u" "m_filename (plain_request t u f) = f"
  by (simp_all add: plain_request_def)

lemma plain_request_ok:
  assumes "command_fits True c cm" "i < length (args cm)"
  shows "message_ok (plain_request t (cl_user c) (args cm ! i))"
  using assms nth_mem [OF assms(2)]
  by (auto simp: command_fits_def text_ok_def plain_request_def message_ok_def message_zero_def limit_defs)

lemma read_asked:
  assumes "nm_ok S" "message_ok req" "m_type req = MSG_READ_FILE" "get_client_by_socket (nm_clients S) sock = Some info"
    and "handle_client_message E S sock ip port req = Inr (asked, S')"
  shows "answers sock asked = [lookup_reply S (\<lambda>a. a \<noteq> ACCESS_NONE) (ci_username info) (m_filename req)]"
  using read_effect [OF assms(1,2,4), of E] assms(3,5) by (auto simp: handle_client_message_eq)

lemma write_asked:
  assumes "nm_ok S" "message_ok req" "m_type req = MSG_WRITE_FILE" "get_client_by_socket (nm_clients S) sock = Some info"
    and "handle_client_message E S sock ip port req = Inr (asked, S')"
  shows "answers sock asked = [lookup_reply S (\<lambda>a. a = ACCESS_WRITE) (ci_username info) (m_filename req)]"
    "nm_ok S'" "same_but_cache S S'" "nm_files S' = nm_files S"
proof -
  have h: "nm_handle_write_file E S sock req = Inr (asked, S')" using assms(3,5) by (simp add: handle_client_message_eq)
  with write_effect [OF assms(1,2,4), of E]
  show "answers sock asked = [lookup_reply S (\<lambda>a. a = ACCESS_WRITE) (ci_username info) (m_filename req)]" by auto
  have "nm_ok S' \<and> same_but_cache S S' \<and> nm_files S' = nm_files S"
  proof (cases "nm_files S (m_filename req)")
    case None
    obtain S1 where "\<And>g sock. with_file E S sock (m_filename req) g = Inr ([(sock, file_not_found)], S1)"
      "same_but_cache S S1" "nm_ok S1" "nm_files S1 = nm_files S"
      by (rule with_file_missing [OF assms(1) message_short [OF assms(2)] None, of E]) blast
    with h show ?thesis by (simp add: nm_handle_write_file_def write_file_body_def with_client_def assms(4))
  next
    case (Some m)
    obtain S1 r where "\<And>g sock. with_file E S sock (m_filename req) g = g S1 r m" "same_but_cache S S1" "nm_ok S1" "nm_files S1 = nm_files S"
      by (rule with_file_found [OF assms(1) message_short [OF assms(2)] Some, of E]) blast
    with h show ?thesis
      by (auto simp: nm_handle_write_file_def write_file_body_def with_client_def assms(4) split: if_splits option.splits)
  qed
  then show "nm_ok S'" "same_but_cache S S'" "nm_files S' = nm_files S" by simp_all
qed

lemma lookup_reply_errors [simp]:
  "m_type file_not_found = MSG_ERROR" "m_type access_denied = MSG_ERROR" "m_type ss_unavailable = MSG_ERROR"
  "error_text file_not_found = ''ERROR: File not found.''" "error_text access_denied = ''ERROR: Access denied.''"
  "error_text ss_unavailable = ''ERROR: Storage server unavailable.''"
  by (simp_all add: file_not_found_def access_denied_def ss_unavailable_def error_text_def)

lemma ss_address_fields [simp]:
  "m_type (ss_address s) = MSG_SS_INFO" "m_data (ss_address s) = si_ip s" "m_arg1 (ss_address s) = si_client_port s"
  by (simp_all add: ss_address_def)

section \<open>Reading\<close>

lemma execute_read_refused:
  assumes "command_fits True c cm" "1 \<le> length (args cm)" "cl_nm c = resp # ms" "m_type resp = MSG_ERROR"
    and "length (m_data resp) < MAX_CONTENT_LEN"
  shows "\<exists>c'. execute_read cm c = Inr c' \<and> cl_nm c' = ms
    \<and> cl_trace c' = cl_trace c @ [To_NM (plain_request MSG_READ_FILE (cl_user c) (args cm ! 0)), Printed (error_text resp @ [nl])]"
proof -
  have "0 < length (args cm)" using assms(2) by linarith
  from file_request_plain [OF assms(1) this] this assms(3-5) show ?thesis
    by (simp add: execute_read_def ask_nm_def recv_nm_def at_ss_def show_error_def act_def print_line_def print_def)
qed

lemma execute_read_served:
  assumes "command_fits True c cm" "1 \<le> length (args cm)" "cl_nm c = resp # ms" "m_type resp \<noteq> MSG_ERROR"
    and "cl_conns c = Some [r] # cs" "m_data r \<noteq> [] \<or> m_type r \<noteq> MSG_ERROR" "length (m_data r) < MAX_CONTENT_LEN"
  shows "\<exists>c'. execute_read cm c = Inr c' \<and> cl_nm c' = ms
    \<and> cl_trace c' = cl_trace c @ [To_NM (plain_request MSG_READ_FILE (cl_user c) (args cm ! 0)), Connected (m_data resp) (m_arg1 resp),
         To_SS (plain_request MSG_READ_REQUEST (cl_user c) (args cm ! 0)), Printed (m_data r @ [nl]), Closed_SS]"
proof -
  have i: "0 < length (args cm)" using assms(2) by linarith
  let ?m = "plain_request MSG_READ_FILE (cl_user c) (args cm ! 0)"
  let ?c = "at_server c ?m resp"
  show ?thesis
    using file_request_plain [OF assms(1) i] file_request_plain [OF command_fits_user [OF assms(1)] i, of ?c]
      reach_server [OF assms(3-5)] i assms(3-)
    by (simp add: execute_read_def ask_ss_def recv_ss_def close_ss_def show_reply_def show_error_def error_text_def at_server_def)
qed

text \<open>READ, on every branch.\<close>

lemma read_all_branches:
  assumes "command_fits True c cm" "1 \<le> length (args cm)" "f = args cm ! 0"
    and "nm_ok S" "get_client_by_socket (nm_clients S) sock = Some info" "ci_username info = cl_user c"
    and "handle_client_message E S sock ip port (plain_request MSG_READ_FILE (cl_user c) f) = Inr (asked, S')"
    and "cl_nm c = answers sock asked @ ms"
    and "handle_client_connection T [plain_request MSG_READ_REQUEST (cl_user c) f] = Inr (out, T')"
    and "cl_conns c = Some (client_replies out) # cs"
  shows "\<exists>c'. execute_read cm c = Inr c' \<and> cl_nm c' = ms \<and> T' = T
    \<and> cl_trace c' = cl_trace c @ To_NM (plain_request MSG_READ_FILE (cl_user c) f) #
       (case nm_files S f of None \<Rightarrow> [Printed (''ERROR: File not found.'' @ [nl])]
        | Some m \<Rightarrow>
            if check_file_access m (cl_user c) = ACCESS_NONE then [Printed (''ERROR: Access denied.'' @ [nl])]
            else (case route S m of None \<Rightarrow> [Printed (''ERROR: Storage server unavailable.'' @ [nl])]
                  | Some s \<Rightarrow> [Connected (si_ip s) (si_client_port s), To_SS (plain_request MSG_READ_REQUEST (cl_user c) f),
                      Printed ((case read_file_content (ss_fs T) (locate T f) of None \<Rightarrow> ''File not found''
                                | Some content \<Rightarrow> take (MAX_CONTENT_LEN - 1) content) @ [nl]), Closed_SS]))"
proof -
  have i: "0 < length (args cm)" using assms(2) by linarith
  note msg = plain_request_ok [OF assms(1) i, folded assms(3)]
  let ?reply = "lookup_reply S (\<lambda>a. a \<noteq> ACCESS_NONE) (cl_user c) f"
  have nm: "cl_nm c = ?reply # ms"
    using read_asked [OF assms(4) msg _ assms(5,7)] assms(6,8) by simp
  define r where "r = (case read_file_content (ss_fs T) (locate T f) of None \<Rightarrow> error_reply ERR_FILE_NOT_FOUND ''File not found''
      | Some content \<Rightarrow> ack_reply (take (MAX_CONTENT_LEN - 1) content))"
  have out: "client_replies out = [r]" "T' = T"
    using assms(9) by (auto simp: handle_client_connection_def handle_read_file_def strncpy_buf_def r_def split: option.splits)
  have r: "m_data r \<noteq> [] \<or> m_type r \<noteq> MSG_ERROR" by (simp add: r_def split: option.split)
  have short: "length (m_data r) < MAX_CONTENT_LEN" by (auto simp: r_def limit_defs split: option.split)
  have shown: "m_data r = (case read_file_content (ss_fs T) (locate T f) of None \<Rightarrow> ''File not found''
      | Some content \<Rightarrow> take (MAX_CONTENT_LEN - 1) content)" by (simp add: r_def split: option.split)
  show ?thesis
  proof (cases "m_type ?reply = MSG_ERROR")
    case True
    then have "length (m_data ?reply) < MAX_CONTENT_LEN"
      by (auto simp: lookup_reply_def file_not_found_def access_denied_def ss_unavailable_def limit_defs split: option.splits if_splits)
    with True execute_read_refused [OF assms(1,2) nm True] out(2) show ?thesis
      by (auto simp: lookup_reply_def assms(3) split: option.splits if_splits)
  next
    case False
    have conns: "cl_conns c = Some [r] # cs" using assms(10) out(1) by simp
    obtain m s where s: "nm_files S f = Some m" "check_file_access m (cl_user c) \<noteq> ACCESS_NONE" "route S m = Some s"
      using False by (auto simp: lookup_reply_def split: option.splits if_splits)
    then have "?reply = ss_address s" by (simp add: lookup_reply_def)
    with execute_read_served [OF assms(1,2) nm False conns r short] s out(2) show ?thesis by (auto simp: assms(3) shown)
  qed
qed

section \<open>Writing and then reading\<close>

text \<open>
  C29: READ through the whole system, on every branch: a file without metadata, no access, no storage
  server, or a connection to the server that the naming server chose and what that server
  reads from the file, of which a message holds the first 4095 characters.  Nothing is
  changed on the storage server.
\<close>

theorem read_through_system:
  assumes "command_fits True c cm" "1 \<le> length (args cm)" "f = args cm ! 0"
    and "nm_ok S" "get_client_by_socket (nm_clients S) sock = Some info" "ci_username info = cl_user c"
    and "handle_client_message E S sock ip port (plain_request MSG_READ_FILE (cl_user c) f) = Inr (asked, S')"
    and "cl_nm c = answers sock asked @ ms"
    and "handle_client_connection T [plain_request MSG_READ_REQUEST (cl_user c) f] = Inr (out, T')"
    and "cl_conns c = Some (client_replies out) # cs"
  shows "\<exists>c'. execute_read cm c = Inr c' \<and> cl_nm c' = ms \<and> T' = T
    \<and> cl_trace c' = cl_trace c @ To_NM (plain_request MSG_READ_FILE (cl_user c) f) #
       (case nm_files S f of None \<Rightarrow> [Printed (''ERROR: File not found.'' @ [nl])]
        | Some m \<Rightarrow>
            if check_file_access m (cl_user c) = ACCESS_NONE then [Printed (''ERROR: Access denied.'' @ [nl])]
            else (case route S m of None \<Rightarrow> [Printed (''ERROR: Storage server unavailable.'' @ [nl])]
                  | Some s \<Rightarrow> [Connected (si_ip s) (si_client_port s), To_SS (plain_request MSG_READ_REQUEST (cl_user c) f),
                      Printed ((case read_file_content (ss_fs T) (locate T f) of None \<Rightarrow> ''File not found''
                                | Some content \<Rightarrow> take (MAX_CONTENT_LEN - 1) content) @ [nl]), Closed_SS]))"
  by (rule read_all_branches [OF assms])

text \<open>
  C5: a WRITE of one user and then a READ of another, through all three programs: when the first user
  may write and the second may read, the clients reach the storage server that the naming
  server chose, the first is told of the commit (or of the first rejected update), and
  the second sees the file with the edited sentence replaced.  (The file is in the root of the
  storage server, the lock is free, and the texts fit.)
\<close>

theorem written_then_read:
  assumes a: "command_fits True a cma" "2 \<le> length (args cma)" "f = args cma ! 0"
      "cl_stdin a = concat (map (\<lambda>l. l @ [nl]) ls) @ ''ETIRW'' @ nl # rest" "\<forall>l \<in> set ls. editing_line l"
    and b: "command_fits True b cmb" "1 \<le> length (args cmb)" "f = args cmb ! 0"
    and naming: "nm_ok S" "get_client_by_socket (nm_clients S) sock = Some ia" "ci_username ia = cl_user a"
      "get_client_by_socket (nm_clients S) sock' = Some ib" "ci_username ib = cl_user b"
      "nm_files S f = Some m" "check_file_access m (cl_user a) = ACCESS_WRITE" "check_file_access m (cl_user b) \<noteq> ACCESS_NONE"
      "route S m = Some s"
    and asked: "handle_client_message E S sock ip port (plain_request MSG_WRITE_FILE (cl_user a) f) = Inr (asked, S1)"
      "cl_nm a = answers sock asked @ ma"
      "handle_client_message E' S1 sock' ip' port' (plain_request MSG_READ_FILE (cl_user b) f) = Inr (asked', S2)"
      "cl_nm b = answers sock' asked' @ mb"
    and session: "i = atoi32 (args cma ! 1)" "req = (plain_request MSG_WRITE_REQUEST (cl_user a) f)\<lparr>m_arg1 := i\<rparr>"
      "inputs = concat (map (\<lambda>l. fst (write_line l)) ls) @ [finish_message]"
      "handle_client_connection T (req # inputs) = Inr (out, T')" "cl_conns a = Some (client_replies out) # ca"
    and storage: "in_root T f D" "locks_ok (ss_locks T)" "p = ss_dir T @ CHR ''/'' # f"
      "read_file_content (ss_fs T) p = Some old" "0 \<le> i" "lock_available T (f, i)"
      "write_loop (new_session req p (split_sentences [] old)) inputs = (errs, ws, True)"
      "edit_fits (split_sentences [] old) (nat i) (words_text (ws_words ws))" "closed_edit (words_text (ws_words ws))"
    and reading: "handle_client_connection T' [plain_request MSG_READ_REQUEST (cl_user b) f] = Inr (out', T'')"
      "cl_conns b = Some (client_replies out') # cb"
  shows "\<exists>a' b' tr. execute_write cma a = Inr a' \<and> execute_read cmb b = Inr b'
     \<and> to_ss (cl_trace a') = to_ss (cl_trace a) @ req # inputs
     \<and> cl_trace a' = tr @ [Printed ((if errs = [] then ''Write Successful!'' else m_data (snd (hd errs))) @ [nl]), Closed_SS]
     \<and> cl_trace b' = cl_trace b @ [To_NM (plain_request MSG_READ_FILE (cl_user b) f), Connected (si_ip s) (si_client_port s),
         To_SS (plain_request MSG_READ_REQUEST (cl_user b) f),
         Printed (take (MAX_CONTENT_LEN - 1) (join_with (CHR '' '')
           (edited_sentences (split_sentences [] old) (nat i) (words_text (ws_words ws)))) @ [nl]), Closed_SS]"
proof -
  let ?final = "join_with (CHR '' '') (edited_sentences (split_sentences [] old) (nat i) (words_text (ws_words ws)))"
  have "0 < length (args cma)" using a(2) by linarith
  note msg = plain_request_ok [OF a(1) this, folded a(3)]
  note w = write_asked [OF naming(1) msg _ naming(2) asked(1)]
  have nm: "cl_nm a = ss_address s # ma"
    using w(1) asked(2) naming by (simp add: lookup_reply_def)
  have S1: "nm_clients S1 = nm_clients S" "route S1 = route S" using w(3) same_but_cache_fields by auto
  have placed: "placed T f (ss_dir T) D" by (rule in_root_placed [OF storage(1)])
  have ss: "m_type (ss_address s) \<noteq> MSG_ERROR" by simp
  note wc = client_write_commits [OF a(1,2) nm ss a(4,5) session(2) [unfolded a(3) session(1)] session(3,4,5)
      placed [unfolded a(3)] storage(2,3) [unfolded a(3)] storage(4) session(1) storage(5) storage(6) [unfolded a(3)] storage(7-9)]
  obtain tail where tail: "handle_write_file T req inputs = Inr ((Client, ack_reply ''READY'') # tail, T')" using wc(2) by blast
  have reqf: "m_filename req = f" by (simp add: session(2))
  note u = write_session_undo [OF tail, unfolded reqf, OF storage(1)]
  have loc: "locate T' f = p" using in_root_placed [OF u(2)] u(3) storage(3) by (simp add: placed_def)
  obtain a' tr where a': "execute_write cma a = Inr a'" "to_ss (cl_trace a') = to_ss (cl_trace a) @ req # inputs"
    "cl_trace a' = tr @ [Printed ((if errs = [] then ''Write Successful!'' else m_data (snd (hd errs))) @ [nl]), Closed_SS]"
    "read_file_content (ss_fs T') p = Some ?final"
    using wc(1) by blast
  have "get_client_by_socket (nm_clients S1) sock' = Some ib" using naming(4) S1(1) by simp
  from read_all_branches [OF b w(2) this naming(5) asked(3,4) reading] a'(4)
  obtain b' where "execute_read cmb b = Inr b'"
    "cl_trace b' = cl_trace b @ [To_NM (plain_request MSG_READ_FILE (cl_user b) f), Connected (si_ip s) (si_client_port s),
         To_SS (plain_request MSG_READ_REQUEST (cl_user b) f), Printed (take (MAX_CONTENT_LEN - 1) ?final @ [nl]), Closed_SS]"
    using w(4) naming(6,8,9) S1(2) loc by auto
  with a'(1-3) show ?thesis by blast
qed

section \<open>Ann writes and Bob reads\<close>

text \<open>The file of \<open>Storage_Demo\<close> as the naming server knows it: Ann owns it and Bob may read.\<close>

definition shared_meta :: file_metadata where
  "shared_meta = fst (add_file_access (create_file_metadata ''f'' ''ann'' 0 ''10.0.0.1'' 9001 0) ''bob'' ACCESS_READ)"

definition shared_nm :: naming_server where
  "shared_nm = demo_nm\<lparr>nm_heap := [0 \<mapsto> shared_meta], nm_trie := trie_insert trie_init ''f'' 0,
     nm_clients := [demo_client 5 ''ann'', demo_client 6 ''bob''], nm_users := [''ann'', ''bob'']\<rparr>"

lemma shared_meta_fields:
  "fm_filename shared_meta = ''f''" "fm_owner shared_meta = ''ann''" "fm_ss_id shared_meta = 0"
  "check_file_access shared_meta ''ann'' = ACCESS_WRITE" "check_file_access shared_meta ''bob'' = ACCESS_READ" "acl_ok shared_meta"
  by (code_simp | simp add: acl_ok_def)+

lemma shared_nm_fields [simp]:
  "nm_heap shared_nm = [0 \<mapsto> shared_meta]" "nm_fresh shared_nm = 1" "nm_trie shared_nm = trie_insert trie_init ''f'' 0"
  "nm_servers shared_nm = [demo_ss]" "nm_clients shared_nm = [demo_client 5 ''ann'', demo_client 6 ''bob'']"
  "nm_users shared_nm = [''ann'', ''bob'']" "nm_folders shared_nm = [\<lparr>fd_name = ''d'', fd_files = []\<rparr>]"
  "nm_requests shared_nm = []" "nm_replicas shared_nm = []" "nm_stale shared_nm = []" "\<not> nm_folders_mutex shared_nm" "nm_cache shared_nm = cache_init (int CACHE_CAPACITY)"
  by (simp_all add: shared_nm_def start_naming_server_def trie_load_from_disk_def)

lemma shared_nm_ok: "nm_ok shared_nm"
proof -
  have "lru.coherent (nm_cache shared_nm) (trie_search (trie_insert trie_init ''f'' 0))"
    using empty_cache_coherent by simp
  then have "index_ok shared_nm"
    by (intro index_okI)
       (auto simp: trie_search_insert short_name_def limit_defs shared_meta_fields split: if_splits)
  moreover have "tables_ok shared_nm"
    by (simp add: tables_ok_def ss_registry_ok_def folders_ok_def requests_ok_def pending_keys_def demo_ss_def
        demo_client_def limit_defs)
  ultimately show ?thesis by (simp add: nm_ok_def)
qed

lemma shared_clients:
  "get_client_by_socket (nm_clients shared_nm) 5 = Some (demo_client 5 ''ann'')"
  "get_client_by_socket (nm_clients shared_nm) 6 = Some (demo_client 6 ''bob'')"
  by (simp_all add: get_client_by_socket_def demo_client_def)

lemma shared_file: "nm_files shared_nm ''f'' = Some shared_meta"
  by (simp add: nm_files_def meta_lookup_def trie_search_insert)

lemma shared_route: "route shared_nm shared_meta = Some demo_ss"
  by (simp add: route_def replicas_pick_alive_for_access_def get_storage_server_status_def get_storage_server_def
      demo_ss_def Let_def shared_meta_fields)

definition read_command :: command where
  "read_command = command_zero\<lparr>cmd := ''READ'', args := [''f'']\<rparr>"

definition ann_with :: "message list \<Rightarrow> client" where
  "ann_with replies = (demo_ann (Some replies))\<lparr>cl_nm := [ss_address demo_ss]\<rparr>"

definition bob_with :: "message list \<Rightarrow> client" where
  "bob_with replies = \<lparr>cl_user = ''bob'', cl_stdin = [], cl_nm = [ss_address demo_ss], cl_ss = [], cl_conns = [Some replies],
                       cl_trace = []\<rparr>"

lemma with_fields [simp]:
  "cl_user (ann_with r) = ''ann''" "cl_nm (ann_with r) = [ss_address demo_ss]" "cl_conns (ann_with r) = [Some r]"
  "cl_stdin (ann_with r) = concat (map (\<lambda>l. l @ [nl]) [''1 Number 7 x'']) @ ''ETIRW'' @ nl # []" "cl_trace (ann_with r) = []"
  "cl_user (bob_with r) = ''bob''" "cl_nm (bob_with r) = [ss_address demo_ss]" "cl_conns (bob_with r) = [Some r]"
  "cl_trace (bob_with r) = []" "args read_command = [''f'']"
  by (simp_all add: ann_with_def bob_with_def read_command_def)

lemma with_fits: "command_fits True (ann_with r) demo_command" "command_fits True (bob_with r) read_command"
  by (simp_all add: command_fits_def text_ok_def limit_defs)

lemma shared_lookups:
  "\<exists>S1 S2. handle_client_message demo_env shared_nm 5 ip port (plain_request MSG_WRITE_FILE ''ann'' ''f'') = Inr ([(5, ss_address demo_ss)], S1)
     \<and> handle_client_message demo_env S1 6 ip port (plain_request MSG_READ_FILE ''bob'' ''f'') = Inr ([(6, ss_address demo_ss)], S2)"
proof -
  let ?w = "plain_request MSG_WRITE_FILE ''ann'' ''f''" and ?r = "plain_request MSG_READ_FILE ''bob'' ''f''"
  have msg: "message_ok ?w" "message_ok ?r"
    by (simp_all add: message_ok_def plain_request_def message_zero_def limit_defs)
  obtain S1 where h: "handle_client_message demo_env shared_nm 5 ip port ?w = Inr ([(5, ss_address demo_ss)], S1)"
    using write_effect [OF shared_nm_ok msg(1) shared_clients(1), of demo_env]
    by (auto simp: handle_client_message_eq lookup_reply_def shared_file shared_meta_fields shared_route demo_clients)
  note S1 = write_asked [OF shared_nm_ok msg(1) _ shared_clients(1) h]
  have "get_client_by_socket (nm_clients S1) 6 = Some (demo_client 6 ''bob'')" "route S1 = route shared_nm"
    using S1(3) same_but_cache_fields shared_clients(2) by auto
  with read_effect [OF S1(2) msg(2), of 6 _ demo_env] S1(4)
  show ?thesis using h
    by (fastforce simp: handle_client_message_eq lookup_reply_def shared_file shared_meta_fields shared_route demo_clients)
qed

theorem read_through_system_witness:
  "\<exists>c'. execute_read read_command (bob_with [ack_reply ''One. Two.'']) = Inr c' \<and> cl_nm c' = []
     \<and> drop 3 (cl_trace c') = [Printed (''One. Two.'' @ [nl]), Closed_SS]"
proof -
  let ?c = "bob_with [ack_reply ''One. Two.'']" and ?req = "plain_request MSG_READ_REQUEST ''bob'' ''f''"
  have loc: "locate demo_server ''f'' = ''data/ss_storage/s'' @ CHR ''/'' # ''f''"
    using demo_placed by (simp add: placed_def)
  have h: "handle_client_connection demo_server [?req] = Inr ([(Client, ack_reply ''One. Two.'')], demo_server)"
    unfolding handle_client_connection_def handle_read_file_def
    by (simp only: list.case plain_request_fields message_type.case loc demo_read option.case) (simp add: strncpy_buf_def limit_defs)
  have msg: "message_ok (plain_request MSG_READ_FILE ''bob'' ''f'')"
    by (simp add: message_ok_def plain_request_def message_zero_def limit_defs)
  obtain S' where a: "handle_client_message demo_env shared_nm 6 [] 0 (plain_request MSG_READ_FILE ''bob'' ''f'')
      = Inr ([(6, ss_address demo_ss)], S')"
    using read_effect [OF shared_nm_ok msg shared_clients(2), of demo_env]
    by (auto simp: handle_client_message_eq lookup_reply_def shared_file shared_meta_fields shared_route demo_clients)
  have p: "1 \<le> length (args read_command)" "''f'' = args read_command ! 0" "ci_username (demo_client 6 ''bob'') = cl_user ?c"
    "cl_nm ?c = answers 6 [(6, ss_address demo_ss)] @ []" "cl_conns ?c = Some (client_replies [(Client, ack_reply ''One. Two.'')]) # []"
    by (simp_all add: demo_clients)
  from read_through_system [OF with_fits(2) p(1,2) shared_nm_ok shared_clients(2) p(3), unfolded with_fields,
      OF a p(4) [unfolded with_fields] h p(5) [unfolded with_fields]]
  show ?thesis
    unfolding loc demo_read
    by (auto simp: shared_file shared_meta_fields shared_route limit_defs)
qed

theorem written_then_read_witness:
  "\<exists>ra rb a' b' tr. execute_write demo_command (ann_with ra) = Inr a' \<and> execute_read read_command (bob_with rb) = Inr b'
     \<and> to_ss (cl_trace a') = demo_write # demo_sent
     \<and> cl_trace a' = tr @ [Printed (''ERROR: Invalid word index. Use 1..current_length+1.'' @ [nl]), Closed_SS]
     \<and> drop 3 (cl_trace b') = [Printed (''Number One. Two.'' @ [nl]), Closed_SS]"
proof -
  let ?p = "''data/ss_storage/s'' @ CHR ''/'' # ''f''" and ?req = "plain_request MSG_READ_REQUEST ''bob'' ''f''"
  obtain out T' where h: "handle_client_connection demo_server (demo_write # demo_sent) = Inr (out, T')"
    using write_session_commits [of demo_server demo_write "''data/ss_storage/s''" demo_dir "''One. Two.''" demo_sent,
      unfolded demo_write_fields demo_split, OF demo_placed demo_locks(3) demo_read order_refl demo_available demo_sent_loop refl _ _ refl,
      unfolded demo_text nat_0, OF demo_edit(1,2)]
    by (auto simp: handle_client_connection_def)
  obtain out' T'' where h': "handle_client_connection T' [?req] = Inr (out', T'')"
    by (simp add: handle_client_connection_def) (metis prod.exhaust)
  obtain S1 S2 where nm: "handle_client_message demo_env shared_nm 5 [] 0 (plain_request MSG_WRITE_FILE ''ann'' ''f'') = Inr ([(5, ss_address demo_ss)], S1)"
    "handle_client_message demo_env S1 6 [] 0 (plain_request MSG_READ_FILE ''bob'' ''f'') = Inr ([(6, ss_address demo_ss)], S2)"
    using shared_lookups by blast
  let ?a = "ann_with (client_replies out)" and ?b = "bob_with (client_replies out')"
  have u: "ci_username (demo_client 5 ''ann'') = cl_user ?a" "ci_username (demo_client 6 ''bob'') = cl_user ?b"
    by (simp_all add: demo_clients)
  have access: "check_file_access shared_meta (cl_user ?a) = ACCESS_WRITE" "check_file_access shared_meta (cl_user ?b) \<noteq> ACCESS_NONE"
    by (simp_all add: shared_meta_fields)
  have f: "''f'' = args demo_command ! 0" "''f'' = args read_command ! 0" "2 \<le> length (args demo_command)" "1 \<le> length (args read_command)"
    by simp_all
  have replies: "cl_nm ?a = answers 5 [(5, ss_address demo_ss)] @ []" "cl_nm ?b = answers 6 [(6, ss_address demo_ss)] @ []"
    "cl_conns ?a = Some (client_replies out) # []" "cl_conns ?b = Some (client_replies out') # []" by simp_all
  have req: "0 = atoi32 (args demo_command ! 1)" "demo_write = (plain_request MSG_WRITE_REQUEST (cl_user ?a) ''f'')\<lparr>m_arg1 := 0\<rparr>"
    using demo_atoi demo_request by simp_all
  have p: "?p = ss_dir demo_server @ CHR ''/'' # ''f''" by (simp add: demo_dir_name)
  have edit: "edit_fits (split_sentences [] ''One. Two.'') (nat 0) (words_text (ws_words demo_session))"
    "closed_edit (words_text (ws_words demo_session))"
    using demo_edit(1,2) by (simp_all only: demo_split demo_text nat_0)
  note asked = nm [folded with_fields(1) [of "client_replies out"] with_fields(6) [of "client_replies out'"]]
  from written_then_read [OF with_fits(1) f(3,1) with_fields(4) demo_editing with_fits(2) f(4,2) shared_nm_ok shared_clients(1) u(1)
      shared_clients(2) u(2) shared_file access shared_route asked(1) replies(1) asked(2) replies(2) req demo_sent_def h replies(3)
      demo_in_root demo_locks(3) p demo_read order_refl demo_available demo_sent_loop [folded demo_split] edit
      h' [folded with_fields(6) [of "client_replies out'"]] replies(4), unfolded demo_split demo_text nat_0 demo_edit(3)]
  obtain a' b' tr where r: "execute_write demo_command ?a = Inr a'" "execute_read read_command ?b = Inr b'"
    "to_ss (cl_trace a') = to_ss (cl_trace ?a) @ demo_write # demo_sent"
    "cl_trace a' = tr @ [Printed (''ERROR: Invalid word index. Use 1..current_length+1.'' @ [nl]), Closed_SS]"
    "cl_trace b' = cl_trace ?b @ [To_NM (plain_request MSG_READ_FILE (cl_user ?b) ''f''), Connected (si_ip demo_ss) (si_client_port demo_ss),
       To_SS (plain_request MSG_READ_REQUEST (cl_user ?b) ''f''), Printed (take (MAX_CONTENT_LEN - 1) ''Number One. Two.'' @ [nl]), Closed_SS]"
    by auto
  have "take (MAX_CONTENT_LEN - 1) ''Number One. Two.'' = ''Number One. Two.''" by (simp add: limit_defs)
  then have "to_ss (cl_trace a') = demo_write # demo_sent" "drop 3 (cl_trace b') = [Printed (''Number One. Two.'' @ [nl]), Closed_SS]"
    using r(3,5) by simp_all
  with r(1,2,4) show ?thesis by blast
qed

end
