(* ===== verification/Storage_Replies.thy ===== *)
theory Storage_Replies
  imports Storage_Demo
begin

text \<open>
  The types of what a storage server sends: every message is well-formed, so that the wire carries
  it unchanged, and of a kind that its receiver expects.
\<close>

section \<open>Well-formed replies\<close>

text \<open>
  What may go to whom.  To a client: an acknowledgement without, or an error with an error code.  To
  the naming server: these, and the new counts of a file.
\<close>

fun typed_reply :: "peer \<times> message \<Rightarrow> bool" where
  "typed_reply (Client, m) \<longleftrightarrow> message_ok m
     \<and> (m_type m = MSG_ACK \<and> m_error m = ERR_SUCCESS \<or> m_type m = MSG_ERROR \<and> m_error m \<noteq> ERR_SUCCESS)"
| "typed_reply (Naming_Server, m) \<longleftrightarrow> message_ok m \<and> m_type m \<in> {MSG_ACK, MSG_ERROR, MSG_UPDATE_METADATA}"

text \<open>The names of files and directories are C strings.\<close>

definition names_ok :: "fs \<Rightarrow> bool" where
  "names_ok F \<longleftrightarrow> (\<forall>p \<in> fst ` set (fs_nodes F). \<forall>n \<in> set p. CHR 0x00 \<notin> set n)"

lemma ack_ok: "message_ok (ack_reply s) \<longleftrightarrow> length s < MAX_CONTENT_LEN \<and> CHR 0x00 \<notin> set s"
  by (simp add: message_ok_def ack_reply_def message_zero_def limit_defs)

lemma error_ok: "message_ok (error_reply e s) \<longleftrightarrow> length s < MAX_CONTENT_LEN \<and> CHR 0x00 \<notin> set s"
  by (simp add: message_ok_def error_reply_def message_zero_def limit_defs)

lemma metadata_ok: "message_ok (metadata_message f s) \<longleftrightarrow> length f < MAX_FILENAME_LEN \<and> CHR 0x00 \<notin> set f"
  by (simp add: message_ok_def metadata_message_def message_zero_def limit_defs)

lemma strncpy_ok: "length (strncpy_buf 4096 s) < 4096" "CHR 0x00 \<notin> set s \<Longrightarrow> CHR 0x00 \<notin> set (strncpy_buf n s)"
  by (auto simp: strncpy_buf_def dest: in_set_takeD)

lemma metadata_fields [simp]: "m_type (metadata_message f s) = MSG_UPDATE_METADATA"
  by (simp add: metadata_message_def)

section \<open>The handlers\<close>

lemma read_typed: "fst (handle_read_file S msg) = out \<Longrightarrow> list_all typed_reply out"
  by (auto simp: handle_read_file_def ack_ok error_ok strncpy_ok read_no_nul limit_defs split: option.splits)

lemma stream_words_typed:
  assumes "stream_words ws = Inr out" "\<forall>w \<in> set ws. CHR 0x00 \<notin> set w"
  shows "list_all typed_reply out"
  using assms by (induction ws arbitrary: out) (auto simp: fault_simps strcpy_buf_def strcat_buf_def ack_ok split: if_splits)

lemma stream_typed:
  assumes "handle_stream_file S msg = Inr (out, S')"
  shows "list_all typed_reply out"
proof (cases "read_file_content (ss_fs S) (locate S (m_filename msg))")
  case (Some content)
  have "\<forall>w \<in> set (take 10000 (strtok blanks content)). CHR 0x00 \<notin> set w"
    using read_no_nul [OF Some] by (auto dest!: in_set_takeD strtok_tokens)
  with stream_words_typed assms show ?thesis
    by (auto simp: handle_stream_file_def Some fault_simps ack_ok limit_defs)
qed (use assms in \<open>auto simp: handle_stream_file_def error_ok limit_defs\<close>)

lemma undo_typed: "list_all typed_reply (fst (handle_undo_file S msg))"
  by (auto simp: handle_undo_file_def ack_ok error_ok limit_defs split: option.split prod.split)

lemma cp_typed:
  assumes "message_ok msg"
  shows "list_all typed_reply (fst (handle_cp_create S msg))" "list_all typed_reply (fst (handle_cp_view S msg))"
    "list_all typed_reply (fst (handle_cp_revert S msg))"
proof -
  have f: "length (m_filename msg) < MAX_FILENAME_LEN" "CHR 0x00 \<notin> set (m_filename msg)"
    using assms by (simp_all add: message_ok_def)
  show "list_all typed_reply (fst (handle_cp_create S msg))" "list_all typed_reply (fst (handle_cp_view S msg))"
    "list_all typed_reply (fst (handle_cp_revert S msg))"
    using f(1)
    by (auto simp: handle_cp_create_def handle_cp_view_def handle_cp_revert_def Let_def ack_ok error_ok metadata_ok f(2)
        strncpy_ok read_no_nul limit_defs split: option.split)
qed

lemma readdir_no_nul:
  assumes "names_ok F" "readdir_entries F d = Some ents" "e \<in> set ents"
  shows "CHR 0x00 \<notin> set e"
proof -
  have "e \<in> {''.'', ''..''} \<or> (\<exists>q \<in> fst ` set (fs_nodes F). q \<noteq> [] \<and> e = last q)"
    using assms(2,3) by (auto simp: readdir_entries_def split: option.splits if_splits)
  with assms(1) show ?thesis by (auto simp: names_ok_def)
qed

lemma cp_list_typed:
  assumes "names_ok (ss_fs S)" "handle_cp_list S msg = Inr (out, S')"
  shows "list_all typed_reply out"
proof -
  let ?dir = "build_checkpoint_dir_for_file (ss_fs S) (ss_dir S) (m_filename msg) 800"
  obtain d where d: "out = [(Client, ack_reply d)]"
    "(case readdir_entries (ss_fs S) ?dir of None \<Rightarrow> Inr [] | Some ents \<Rightarrow> strcat_all MAX_CONTENT_LEN [] (checkpoint_lines ents)) = Inr d"
    using assms(2) by (auto simp: handle_cp_list_def Let_def fault_simps)
  have "length d < MAX_CONTENT_LEN \<and> CHR 0x00 \<notin> set d"
  proof (cases "readdir_entries (ss_fs S) ?dir")
    case (Some ents)
    have "CHR 0x00 \<notin> set (concat (checkpoint_lines ents))"
      using readdir_no_nul [OF assms(1) Some] by (auto simp: checkpoint_lines_def dest!: in_set_takeD)
    then show ?thesis using d(2) Some by (auto simp: strcat_all_Inr limit_defs split: if_splits)
  qed (use d(2) in \<open>simp add: limit_defs\<close>)
  with d(1) show ?thesis by (simp add: ack_ok)
qed

lemma write_loop_typed: "write_loop ws ms = (out, r) \<Longrightarrow> list_all typed_reply out"
  by (induction ws ms arbitrary: out r rule: write_loop.induct)
     (auto simp: update_words_def Let_def error_ok limit_defs split: if_splits sum.splits prod.splits)

lemma write_begin_typed: "write_begin S msg p c = Inr (out, r) \<Longrightarrow> list_all typed_reply out"
  by (auto simp: write_begin_def fault_simps ack_ok error_ok limit_defs split: if_splits prod.splits bool.splits)

lemma write_typed:
  assumes "message_ok msg" "handle_write_file S msg inputs = Inr (out, S')"
  shows "list_all typed_reply out"
proof -
  obtain p c where o: "write_open S msg = (p, c)" by fastforce
  obtain out1 session S1 where b: "write_begin S msg p c = Inr (out1, session, S1)"
    using assms(2) by (auto simp: handle_write_file_def o fault_simps)
  note out1 = write_begin_typed [OF b]
  show ?thesis
  proof (cases session)
    case (Some ws)
    obtain errs ws' committed where l: "write_loop ws inputs = (errs, ws', committed)" by (metis prod_cases3)
    have f: "ws_filename ws' = m_filename msg"
      using write_loop_session [of ws inputs errs ws' committed] l b Some
      by (auto simp: write_begin_def fault_simps split: if_splits prod.splits bool.splits)
    have name: "length (m_filename msg) < MAX_FILENAME_LEN" "CHR 0x00 \<notin> set (m_filename msg)"
      using assms(1) by (simp_all add: message_ok_def)
    then have "list_all typed_reply out'" if "write_commit S1 ws' = Inr (out', S2)" for out' S2
      using that by (auto simp: write_commit_def Let_def fault_simps f ack_ok error_ok metadata_ok limit_defs split: option.splits)
    with assms(2) out1 write_loop_typed [OF l] show ?thesis
      by (auto simp: handle_write_file_def o b Some l fault_simps split: if_splits)
  qed (use assms(2) out1 in \<open>auto simp: handle_write_file_def o b\<close>)
qed

lemma connection_typed:
  assumes "list_all message_ok inputs" "names_ok (ss_fs S)" "handle_client_connection S inputs = Inr (out, S')"
  shows "list_all typed_reply out"
proof (cases inputs)
  case (Cons msg rest)
  then have "message_ok msg" using assms(1) by simp
  with assms(2,3) Cons show ?thesis
    using read_typed [of S msg out] undo_typed [of S msg] cp_typed [of msg S] write_typed [of msg S rest out S']
      stream_typed [of S msg out S'] cp_list_typed [of S msg out S']
    by (cases "m_type msg") (auto simp: handle_client_connection_def)
qed (use assms(3) in \<open>simp add: handle_client_connection_def\<close>)

lemma request_typed:
  assumes "message_ok msg"
  shows "list_all typed_reply (fst (nm_request S msg))"
proof -
  have f: "length (m_filename msg) < MAX_FILENAME_LEN" "CHR 0x00 \<notin> set (m_filename msg)"
    using assms by (simp_all add: message_ok_def)
  have "list_all typed_reply (fst (handle_create_file S msg))" "list_all typed_reply (fst (handle_delete_file S msg))"
    "list_all typed_reply (fst (handle_create_folder_ss S msg))" "list_all typed_reply (fst (handle_move_file_ss S msg))"
    "list_all typed_reply (fst (handle_push_content S msg))"
    using f(1)
    by (auto simp: handle_create_file_def handle_delete_file_def handle_create_folder_ss_def handle_move_file_ss_def
        handle_push_content_def Let_def ack_ok error_ok metadata_ok f(2) limit_defs split: option.split prod.split)
  then show ?thesis by (cases "m_type msg") (simp_all add: nm_request_def ack_ok limit_defs)
qed

text \<open>
  C20: the types of the storage server's messages: when the messages it receives are well-formed (and
  the names on the disk are C strings), every message that it sends is well-formed, and it is
  of a kind that its receiver expects: to a client an acknowledgement without, or an error
  with an error code, and to the naming server also the new counts of a file.
\<close>

theorem replies_well_typed:
  assumes "list_all message_ok inputs" "names_ok (ss_fs S)" "message_ok msg"
  shows "(case handle_client_connection S inputs of Inl fault \<Rightarrow> True | Inr (out, S') \<Rightarrow> list_all typed_reply out)
       \<and> list_all typed_reply (fst (nm_request S msg))"
  using connection_typed [OF assms(1,2)] request_typed [OF assms(3)] by (auto split: sum.split)

theorem replies_well_typed_witness:
  "\<exists>out S'. handle_client_connection demo_server (demo_write # demo_inputs) = Inr (out, S') \<and> list_all typed_reply out
     \<and> Client \<in> fst ` set out \<and> Naming_Server \<in> fst ` set out"
proof -
  have ok: "list_all message_ok (demo_write # demo_inputs)"
    by (simp add: demo_inputs_def demo_write_def message_ok_def message_zero_def limit_defs)
  have names: "names_ok (ss_fs demo_server)" by code_simp
  obtain out S' where h: "handle_client_connection demo_server (demo_write # demo_inputs) = Inr (out, S')"
    "Client \<in> fst ` set out" "Naming_Server \<in> fst ` set out"
    using demo_session_commits by (force simp: handle_client_connection_def)
  with replies_well_typed [OF ok names, of demo_write] ok show ?thesis by auto
qed

end
