(* ===== verification/Net_Sockets.thy ===== *)
theory Net_Sockets
  imports Utils Net_Stream
begin

text \<open>
  The socket operations of \<^verbatim>\<open>common/network.c\<close> around the transport of \<open>Net_Stream\<close>: what they
  do with file descriptors.  The state holds the open descriptors of the process and
  the kernel's answers to its next calls, success or failure; a new descriptor is the lowest
  number that is not open.  Addresses, ports and options only reach the kernel, so they show in
  its answers.  The lemmas show that no operation leaks a descriptor on any failure path.
\<close>

section \<open>The calls of the kernel\<close>

record sockets =
  so_fds :: "nat list"
  so_answers :: "bool list"

definition answer :: "sockets \<Rightarrow> bool \<times> sockets" where
  "answer k = (case so_answers k of [] \<Rightarrow> (False, k) | b # bs \<Rightarrow> (b, k\<lparr>so_answers := bs\<rparr>))"

definition lowest_fd :: "nat list \<Rightarrow> nat" where
  "lowest_fd fds = hd (filter (\<lambda>n. n \<notin> set fds) [0..<Suc (length fds)])"

text \<open>\<open>socket\<close> and \<open>accept\<close> return a new descriptor or \<open>-1\<close>; the other calls return 0 or \<open>-1\<close>.\<close>

definition sys_open :: "sockets \<Rightarrow> int \<times> sockets" where
  "sys_open k = (case answer k of
     (True, k) \<Rightarrow> (int (lowest_fd (so_fds k)), k\<lparr>so_fds := lowest_fd (so_fds k) # so_fds k\<rparr>)
   | (False, k) \<Rightarrow> (- 1, k))"

definition sys_call :: "sockets \<Rightarrow> int \<times> sockets" where
  "sys_call k = (case answer k of (b, k) \<Rightarrow> (if b then 0 else - 1, k))"

definition sys_close :: "int \<Rightarrow> sockets \<Rightarrow> sockets" where
  "sys_close fd k = k\<lparr>so_fds := filter (\<lambda>n. int n \<noteq> fd) (so_fds k)\<rparr>"

section \<open>Socket operations\<close>

definition create_tcp_socket :: "sockets \<Rightarrow> int \<times> sockets" where
  "create_tcp_socket k =
     (case sys_open k of (fd, k) \<Rightarrow>
        if fd < 0 then (- 1, k)
        else (case sys_call k of (r, k) \<Rightarrow> if r < 0 then (- 1, sys_close fd k) else (fd, k)))"

definition bind_socket :: "sockets \<Rightarrow> int \<times> sockets" where
  "bind_socket k = (case sys_call k of (r, k) \<Rightarrow> (if r < 0 then - 1 else 0, k))"

definition listen_socket :: "sockets \<Rightarrow> int \<times> sockets" where
  "listen_socket k = (case sys_call k of (r, k) \<Rightarrow> (if r < 0 then - 1 else 0, k))"

definition accept_connection :: "sockets \<Rightarrow> int \<times> sockets" where
  "accept_connection k = (case sys_open k of (fd, k) \<Rightarrow> (if fd < 0 then - 1 else fd, k))"

definition close_socket :: "int \<Rightarrow> sockets \<Rightarrow> sockets" where
  "close_socket fd k = (if 0 \<le> fd then sys_close fd k else k)"

text \<open>\<open>inet_pton\<close> refuses a text that is no address; the answer stands for its result.\<close>

definition connect_to_server :: "sockets \<Rightarrow> int \<times> sockets" where
  "connect_to_server k =
     (case create_tcp_socket k of (fd, k) \<Rightarrow>
        if fd < 0 then (- 1, k)
        else (case answer k of (valid, k) \<Rightarrow>
                if \<not> valid then (- 1, sys_close fd k)
                else (case sys_call k of (r, k) \<Rightarrow> if r < 0 then (- 1, sys_close fd k) else (fd, k))))"

definition start_server :: "sockets \<Rightarrow> int \<times> sockets" where
  "start_server k =
     (case create_tcp_socket k of (fd, k) \<Rightarrow>
        if fd < 0 then (- 1, k)
        else (case bind_socket k of (r, k) \<Rightarrow>
                if r < 0 then (- 1, close_socket fd k)
                else (case listen_socket k of (r, k) \<Rightarrow> if r < 0 then (- 1, close_socket fd k) else (fd, k))))"

definition stop_server :: "int \<Rightarrow> sockets \<Rightarrow> sockets" where
  "stop_server fd k = close_socket fd k"

definition set_socket_timeout :: "sockets \<Rightarrow> int \<times> sockets" where
  "set_socket_timeout k =
     (case sys_call k of (r, k) \<Rightarrow>
        if r < 0 then (- 1, k) else (case sys_call k of (r, k) \<Rightarrow> (if r < 0 then - 1 else 0, k)))"

text \<open>Two \<open>fcntl\<close> calls.\<close>

definition set_non_blocking :: "sockets \<Rightarrow> int \<times> sockets" where
  "set_non_blocking k =
     (case sys_call k of (flags, k) \<Rightarrow>
        if flags < 0 then (- 1, k) else (case sys_call k of (r, k) \<Rightarrow> (if r < 0 then - 1 else 0, k)))"

text \<open>
  \<open>found\<close> is the text of the address that \<open>getsockname\<close> reports.  The results of \<open>connect\<close> and
  \<open>getsockname\<close> are not tested.
\<close>

definition get_local_ip :: "string \<Rightarrow> nat \<Rightarrow> sockets \<Rightarrow> string \<times> sockets" where
  "get_local_ip found buffer_size k =
     (case sys_open k of (fd, k) \<Rightarrow>
        if fd < 0 then (take buffer_size ''127.0.0.1'', k)
        else (case sys_call k of (_, k) \<Rightarrow>
              case sys_call k of (_, k) \<Rightarrow> (take (buffer_size - 1) found, sys_close fd k)))"

section \<open>Descriptors are balanced\<close>

lemma lowest_fd_fresh: "lowest_fd fds \<notin> set fds"
proof -
  have "\<exists>n \<in> set [0..<Suc (length fds)]. n \<notin> set fds"
  proof (rule ccontr)
    assume "\<not> ?thesis"
    then have "set [0..<Suc (length fds)] \<subseteq> set fds" by auto
    then have "Suc (length fds) \<le> card (set fds)" using card_mono [of "set fds" "set [0..<Suc (length fds)]"] by (simp del: upt_Suc)
    then show False using card_length [of fds] by simp
  qed
  then have "filter (\<lambda>n. n \<notin> set fds) [0..<Suc (length fds)] \<noteq> []" by (simp add: filter_empty_conv)
  then have "lowest_fd fds \<in> set (filter (\<lambda>n. n \<notin> set fds) [0..<Suc (length fds)])"
    unfolding lowest_fd_def by (rule hd_in_set)
  then show ?thesis by (simp del: upt_Suc)
qed

text \<open>What an operation that returns a descriptor may do to the set of open ones.\<close>

definition opens :: "sockets \<Rightarrow> int \<times> sockets \<Rightarrow> bool" where
  "opens k res \<longleftrightarrow> (case res of (r, k') \<Rightarrow>
     (r = - 1 \<and> set (so_fds k') = set (so_fds k))
     \<or> (0 \<le> r \<and> nat r \<notin> set (so_fds k) \<and> set (so_fds k') = insert (nat r) (set (so_fds k))))"

lemma answer_fds: "answer k = (b, k') \<Longrightarrow> so_fds k' = so_fds k"
  by (auto simp: answer_def split: list.splits)

lemma sys_call_fds: "sys_call k = (r, k') \<Longrightarrow> so_fds k' = so_fds k"
  by (auto simp: sys_call_def split: prod.splits dest: answer_fds)

lemma sys_open_opens: "opens k (sys_open k)"
  using lowest_fd_fresh by (auto simp: opens_def sys_open_def split: prod.splits bool.splits dest!: answer_fds)

lemma close_opened:
  assumes "opens k (r, k1)" "0 \<le> r" "so_fds k2 = so_fds k1"
  shows "set (so_fds (sys_close r k2)) = set (so_fds k)"
proof -
  have "int n \<noteq> r \<longleftrightarrow> n \<noteq> nat r" for n using assms(2) by auto
  with assms show ?thesis by (simp add: opens_def sys_close_def) blast
qed

lemma opens_continue: "opens k (r, k1) \<Longrightarrow> so_fds k2 = so_fds k1 \<Longrightarrow> opens k (r, k2)"
  by (simp add: opens_def)

lemma create_opens: "opens k (create_tcp_socket k)"
proof -
  obtain fd k1 where o: "sys_open k = (fd, k1)" by fastforce
  obtain r k2 where c: "sys_call k1 = (r, k2)" by fastforce
  have op: "opens k (fd, k1)" using sys_open_opens [of k] o by simp
  have fds: "so_fds k2 = so_fds k1" by (rule sys_call_fds [OF c])
  show ?thesis
  proof (cases "fd < 0")
    case True
    with op show ?thesis by (auto simp: create_tcp_socket_def o opens_def)
  next
    case False
    then show ?thesis
      using close_opened [OF op _ fds] opens_continue [OF op fds] by (simp add: create_tcp_socket_def o c) (simp add: opens_def)
  qed
qed

lemma connect_opens: "opens k (connect_to_server k)"
proof -
  obtain fd k1 where o: "create_tcp_socket k = (fd, k1)" by fastforce
  obtain v k2 where a: "answer k1 = (v, k2)" by fastforce
  obtain r k3 where c: "sys_call k2 = (r, k3)" by fastforce
  have op: "opens k (fd, k1)" using create_opens [of k] o by simp
  have fds: "so_fds k2 = so_fds k1" "so_fds k3 = so_fds k1" using answer_fds [OF a] sys_call_fds [OF c] by simp_all
  show ?thesis
  proof (cases "fd < 0")
    case True
    with op show ?thesis by (auto simp: connect_to_server_def o opens_def)
  next
    case False
    then show ?thesis
      using close_opened [OF op _ fds(1)] close_opened [OF op _ fds(2)] opens_continue [OF op fds(2)]
      by (cases v; cases "r < 0") (simp_all add: connect_to_server_def o a c, simp_all add: opens_def)
  qed
qed

lemma start_opens: "opens k (start_server k)"
proof -
  obtain fd k1 where o: "create_tcp_socket k = (fd, k1)" by fastforce
  obtain r k2 where b: "sys_call k1 = (r, k2)" by fastforce
  obtain q k3 where l: "sys_call k2 = (q, k3)" by fastforce
  have op: "opens k (fd, k1)" using create_opens [of k] o by simp
  have fds: "so_fds k2 = so_fds k1" "so_fds k3 = so_fds k1" using sys_call_fds [OF b] sys_call_fds [OF l] by simp_all
  show ?thesis
  proof (cases "fd < 0")
    case True
    with op show ?thesis by (auto simp: start_server_def o opens_def)
  next
    case False
    then show ?thesis
      using close_opened [OF op _ fds(1)] close_opened [OF op _ fds(2)] opens_continue [OF op fds(2)]
      by (cases "r < 0"; cases "q < 0") (simp_all add: start_server_def o b l bind_socket_def listen_socket_def close_socket_def, simp_all add: opens_def)
  qed
qed

lemma accept_opens: "opens k (accept_connection k)"
proof -
  obtain fd k1 where o: "sys_open k = (fd, k1)" by fastforce
  have "opens k (fd, k1)" using sys_open_opens [of k] o by simp
  then show ?thesis by (cases "fd < 0") (simp_all add: accept_connection_def o, simp add: opens_def)
qed

lemma local_ip_balanced: "set (so_fds (snd (get_local_ip found n k))) = set (so_fds k)"
proof -
  obtain fd k1 where o: "sys_open k = (fd, k1)" by fastforce
  obtain r k2 where b: "sys_call k1 = (r, k2)" by fastforce
  obtain q k3 where l: "sys_call k2 = (q, k3)" by fastforce
  have op: "opens k (fd, k1)" using sys_open_opens [of k] o by simp
  have fds: "so_fds k3 = so_fds k1" using sys_call_fds [OF b] sys_call_fds [OF l] by simp
  show ?thesis
  proof (cases "fd < 0")
    case True
    with op have "set (so_fds k1) = set (so_fds k)" by (auto simp: opens_def)
    with True show ?thesis by (simp add: get_local_ip_def o)
  next
    case False
    with close_opened [OF op _ fds] show ?thesis by (simp add: get_local_ip_def o b l)
  qed
qed

text \<open>
  C36: no socket operation leaks a file descriptor: whichever call of the kernel fails, an operation
  that returns \<open>-1\<close> leaves the descriptors that were open before, and otherwise exactly the
  returned descriptor is new; closing it gives the old set back, and \<open>get_local_ip\<close> leaves it.
\<close>

theorem sockets_balanced:
  assumes "operation \<in> {create_tcp_socket, accept_connection, connect_to_server, start_server}"
    and "operation k = (r, k')"
  shows "(if r = - 1 then set (so_fds k') = set (so_fds k)
          else nat r \<notin> set (so_fds k) \<and> set (so_fds k') = insert (nat r) (set (so_fds k)))
       \<and> set (so_fds (close_socket r k')) = set (so_fds k)
       \<and> set (so_fds (snd (get_local_ip found n k))) = set (so_fds k)"
proof -
  have "opens k (operation k)"
    using assms(1) create_opens accept_opens connect_opens start_opens by blast
  then have op: "opens k (r, k')" by (simp only: assms(2))
  then have "set (so_fds (close_socket r k')) = set (so_fds k)"
    using close_opened [OF op _ refl] by (auto simp: close_socket_def opens_def)
  with op local_ip_balanced [of found n k] show ?thesis by (simp add: opens_def) linarith
qed

theorem sockets_balanced_witness:
  "set (so_fds (snd (connect_to_server \<lparr>so_fds = [0, 1, 2], so_answers = [True, True, True, False]\<rparr>))) = {0, 1, 2}
   \<and> connect_to_server \<lparr>so_fds = [0, 1, 2], so_answers = [True, True, True, True]\<rparr> = (3, \<lparr>so_fds = [3, 0, 1, 2], so_answers = []\<rparr>)"
proof -
  let ?k = "\<lparr>so_fds = [0, 1, 2], so_answers = [True, True, True, False]\<rparr>"
  have e: "fst (connect_to_server ?k) = - 1" by code_simp
  obtain k' where k: "connect_to_server ?k = (- 1, k')" using e by (metis prod.collapse)
  have "set (so_fds k') = set (so_fds ?k)"
    using sockets_balanced [of connect_to_server ?k "- 1" k'] k by simp
  moreover have "connect_to_server \<lparr>so_fds = [0, 1, 2], so_answers = [True, True, True, True]\<rparr> = (3, \<lparr>so_fds = [3, 0, 1, 2], so_answers = []\<rparr>)"
    by code_simp
  ultimately show ?thesis using k by simp
qed

section \<open>When sending returns\<close>

text \<open>The bytes that a script can move, and the events after which the loop goes on.\<close>

definition capacity :: "io_event list \<Rightarrow> nat" where
  "capacity evs = sum_list (map (\<lambda>e. case e of Transfer n \<Rightarrow> n | _ \<Rightarrow> 0) evs)"

definition goes_on_after :: "io_event \<Rightarrow> bool" where
  "goes_on_after e = (case e of Interrupted \<Rightarrow> True | Transfer n \<Rightarrow> 0 < n | _ \<Rightarrow> False)"

lemma send_loop_blocks:
  "tot \<le> length buf \<Longrightarrow>
   send_loop evs stream buf tot = None \<longleftrightarrow> list_all goes_on_after evs \<and> tot + capacity evs < length buf"
proof (induction evs arbitrary: stream tot)
  case (Cons e evs)
  show ?case
  proof (cases e)
    case (Transfer n)
    let ?s = "min n (length buf - tot)"
    have "tot + ?s + capacity evs < length buf \<longleftrightarrow> tot + n + capacity evs < length buf" if "tot < length buf"
      using that by (auto simp: min_def)
    with Cons show ?thesis by (auto simp: Transfer Let_def goes_on_after_def capacity_def)
  qed (use Cons in \<open>auto simp: goes_on_after_def capacity_def\<close>)
qed (auto simp: capacity_def)

text \<open>
  C35: \<open>send_message\<close> has not returned at the end of a script of kernel answers exactly if the script
  holds neither an error nor a transfer of nothing, and moves fewer bytes than the message has.  So interruptions alone keep it in the loop, and every
  script that makes enough progress ends it.
\<close>

theorem send_returns_iff:
  "send_message evs stream buf = None \<longleftrightarrow> list_all goes_on_after evs \<and> capacity evs < length buf"
  using send_loop_blocks [of 0 buf evs stream] by (simp add: send_message_def)

end
