(* ===== verification/Server_Starts.thy ===== *)
theory Server_Starts
  imports Net_Sockets Naming_Runs Storage_Demo Naming_Demo
begin

text \<open>
  The \<open>main\<close> functions of the two servers: arguments, sockets, registration and the loop that
  accepts connections, on the descriptors of \<open>Net_Sockets\<close>; and what the registration message
  of a storage server makes the naming server know.
\<close>

section \<open>The storage server\<close>

text \<open>
  \<open>register_with_nm\<close>: \<open>None\<close> is \<^verbatim>\<open>exit(1)\<close>.  The acknowledgement is printed whether it arrived
  (\<open>reply\<close>) or not.
\<close>

definition register_with_nm ::
  "storage_server \<Rightarrow> string \<Rightarrow> int \<Rightarrow> int \<Rightarrow> message option \<Rightarrow> sockets \<Rightarrow> ((int \<times> message) option \<times> sockets) result" where
  "register_with_nm S ss_id ss_nm_port ss_client_port reply k =
     (case connect_to_server k of (nm_socket_fd, k) \<Rightarrow>
        if nm_socket_fd < 0 then Inr (None, k)
        else (case reply of
                None \<Rightarrow> Inl Uninitialised
              | Some response \<Rightarrow> Inr (Some (nm_socket_fd, register_message S ss_id ss_nm_port ss_client_port), k)))"

text \<open>
  The state in which the storage server begins to accept: its directories, the registration that
  it sent, and its two sockets.  \<open>Inl\<close> is the exit status.
\<close>

record running =
  ru_server :: storage_server
  ru_registration :: message
  ru_nm_socket :: int
  ru_listening :: int

definition storage_main :: "string list \<Rightarrow> fs \<Rightarrow> message option \<Rightarrow> sockets \<Rightarrow> ((int + running) \<times> sockets) result" where
  "storage_main argv F reply k =
     (if length argv < 6 then Inr (Inl 1, k)
      else
        ebind (strcpy_buf 64 (argv ! 1)) (\<lambda>ss_id.
        ebind (strcpy_buf MAX_IP_LEN (argv ! 3)) (\<lambda>nm_ip.
        ebind (strcpy_buf 512 (''data/ss_storage/'' @ ss_id)) (\<lambda>storage_dir.
        let S = start_storage_server F ss_id in
        ebind (strcpy_buf 256 (''logs/'' @ ss_id @ ''_logs.txt'')) (\<lambda>log_file.
        ebind (strcpy_buf 16 ss_id) (\<lambda>component.
        ebind (register_with_nm S ss_id (atoi32 (argv ! 4)) (atoi32 (argv ! 5)) reply k) (\<lambda>(registered, k).
          case registered of
            None \<Rightarrow> Inr (Inl 1, k)
          | Some (nm_fd, m) \<Rightarrow>
              (case start_server k of (fd, k) \<Rightarrow>
                 if fd < 0 then Inr (Inl 1, k)
                 else Inr (Inr \<lparr>ru_server = S, ru_registration = m, ru_nm_socket = nm_fd, ru_listening = fd\<rparr>, k)))))))))"

text \<open>The accepting loop of both programs, \<open>n\<close> rounds of it: a thread for every connection that is accepted.\<close>

fun accept_loop :: "nat \<Rightarrow> sockets \<Rightarrow> int list \<times> sockets" where
  "accept_loop 0 k = ([], k)"
| "accept_loop (Suc n) k =
     (case accept_connection k of (client_socket, k) \<Rightarrow>
        if client_socket < 0 then accept_loop n k
        else (case accept_loop n k of (threads, k) \<Rightarrow> (client_socket # threads, k)))"

section \<open>The naming server\<close>

definition listen_port :: "string list \<Rightarrow> int" where
  "listen_port argv =
     (if 2 \<le> length argv \<and> 0 < atoi32 (argv ! 1) \<and> atoi32 (argv ! 1) < 65536 then atoi32 (argv ! 1) else 8080)"

definition naming_main ::
  "string list \<Rightarrow> int \<Rightarrow> string \<Rightarrow> string \<Rightarrow> string \<Rightarrow> string \<Rightarrow> sockets \<Rightarrow> (int + int \<times> int \<times> naming_server) \<times> sockets" where
  "naming_main argv now metadata_dat users_dat folders_dat requests_dat k =
     (case start_server k of (server_socket, k) \<Rightarrow>
        if server_socket < 0 then (Inl 1, k)
        else (Inr (listen_port argv, server_socket, start_naming_server now metadata_dat users_dat folders_dat requests_dat), k))"

section \<open>Starting\<close>

text \<open>What is left when a program has ended: the descriptors that were open before it began to connect.\<close>

lemma connect_fds: "connect_to_server k = (r, k') \<Longrightarrow> opens k (r, k')"
  using connect_opens [of k] by simp

lemma start_fds: "start_server k = (r, k') \<Longrightarrow> opens k (r, k')"
  using start_opens [of k] by simp

lemma storage_main_overrun:
  assumes "6 \<le> length argv" "16 \<le> length (argv ! 1) \<or> 16 \<le> length (argv ! 3)"
  shows "storage_main argv F reply k = Inl Overflow"
  using assms by (auto simp: storage_main_def strcpy_buf_def strcat_buf_def limit_defs Let_def)

lemma storage_main_runs:
  assumes "6 \<le> length argv" "length (argv ! 1) < 16" "length (argv ! 3) < 16"
    and "connect_to_server k = (fd, k1)" "start_server k1 = (fd2, k2)"
  shows "storage_main argv F reply k =
     (if fd < 0 then Inr (Inl 1, k1)
      else if reply = None then Inl Uninitialised
      else if fd2 < 0 then Inr (Inl 1, k2)
      else Inr (Inr \<lparr>ru_server = start_storage_server F (argv ! 1),
             ru_registration = register_message (start_storage_server F (argv ! 1)) (argv ! 1) (atoi32 (argv ! 4)) (atoi32 (argv ! 5)),
             ru_nm_socket = fd, ru_listening = fd2\<rparr>, k2))"
  using assms
  by (cases reply) (simp_all add: storage_main_def strcpy_buf_def strcat_buf_def limit_defs Let_def register_with_nm_def del: One_nat_def)

text \<open>
  The start of the storage server: with all arguments it overruns a buffer exactly when its own id
  or the address of the naming server has 16 characters or more (the id is copied into an
  array of 16, although \<^verbatim>\<open>ss_id\<close> has room for 63); otherwise it runs, exits with status 1, or shows a
  reply that did not arrive.
\<close>

theorem storage_start_overruns:
  assumes "6 \<le> length argv"
  shows "(storage_main argv F reply k = Inl Overflow \<longleftrightarrow> 16 \<le> length (argv ! 1) \<or> 16 \<le> length (argv ! 3))
       \<and> (case storage_main argv F reply k of
            Inl fault \<Rightarrow> fault = Overflow \<or> fault = Uninitialised \<and> reply = None
          | Inr (Inl status, k') \<Rightarrow> status = 1
          | Inr (Inr run, k') \<Rightarrow>
              ru_server run = start_storage_server F (argv ! 1) \<and> m_sender (ru_registration run) = argv ! 1
              \<and> nat (ru_nm_socket run) \<noteq> nat (ru_listening run)
              \<and> set (so_fds k') = {nat (ru_nm_socket run), nat (ru_listening run)} \<union> set (so_fds k))"
proof (cases "16 \<le> length (argv ! 1) \<or> 16 \<le> length (argv ! 3)")
  case True
  with storage_main_overrun [OF assms True] show ?thesis by simp
next
  case False
  then have len: "length (argv ! 1) < 16" "length (argv ! 3) < 16" by simp_all
  obtain fd k1 where c: "connect_to_server k = (fd, k1)" by fastforce
  obtain fd2 k2 where s: "start_server k1 = (fd2, k2)" by fastforce
  have fds: "nat fd \<noteq> nat fd2 \<and> set (so_fds k2) = {nat fd, nat fd2} \<union> set (so_fds k)" if "0 \<le> fd" "0 \<le> fd2"
    using connect_fds [OF c] start_fds [OF s] that by (auto simp: opens_def)
  show ?thesis
    unfolding storage_main_runs [OF assms len c s]
    using len fds by (auto simp: register_message_def simp del: One_nat_def)
qed

definition demo_argv :: "string \<Rightarrow> string list" where
  "demo_argv ss_id = [''storage_server'', ss_id, ''8080'', ''10.0.0.1'', ''9000'', ''9001'']"

definition demo_kernel :: sockets where
  "demo_kernel = \<lparr>so_fds = [0, 1, 2], so_answers = replicate 8 True\<rparr>"

theorem storage_start_overruns_witness:
  "storage_main (demo_argv ''storage_server_1'') demo_fs (Some (ack_reply [])) demo_kernel = Inl Overflow
   \<and> (\<exists>run k'. storage_main (demo_argv ''s'') demo_fs (Some (ack_reply [])) demo_kernel = Inr (Inr run, k')
        \<and> ru_server run = demo_server \<and> set (so_fds k') = {0, 1, 2, 3, 4})"
proof -
  have argv: "demo_argv i ! 1 = i" "length (demo_argv i ! 3) = 8" "6 \<le> length (demo_argv i)" for i
    by (simp_all add: demo_argv_def)
  have c: "connect_to_server demo_kernel = (3, \<lparr>so_fds = [3, 0, 1, 2], so_answers = replicate 4 True\<rparr>)"
    "start_server \<lparr>so_fds = [3, 0, 1, 2], so_answers = replicate 4 True\<rparr> = (4, \<lparr>so_fds = [4, 3, 0, 1, 2], so_answers = []\<rparr>)"
    by code_simp+
  have len: "length (demo_argv ''s'' ! 1) < 16" "length (demo_argv ''s'' ! 3) < 16" by (simp_all add: argv del: One_nat_def)
  obtain run k' where run: "storage_main (demo_argv ''s'') demo_fs (Some (ack_reply [])) demo_kernel = Inr (Inr run, k')"
    "ru_nm_socket run = 3" "ru_listening run = 4"
    using storage_main_runs [OF argv(3) len c, of demo_fs "Some (ack_reply [])"] by simp
  note start = storage_start_overruns [OF argv(3), of _ demo_fs "Some (ack_reply [])" demo_kernel, unfolded argv(1,2)]
  have "so_fds demo_kernel = [0, 1, 2]" by (simp add: demo_kernel_def)
  with start [of "''s''", unfolded run(1)] run(2,3) start [of "''storage_server_1''"] run(1)
  show ?thesis by (auto simp: demo_server_def)
qed

section \<open>Accepting\<close>

text \<open>Every thread gets a descriptor of its own, and no descriptor is lost when \<open>accept\<close> fails.\<close>

lemma accept_loop_threads:
  "accept_loop n k = (threads, k') \<Longrightarrow>
     distinct threads \<and> (\<forall>fd \<in> set threads. 0 \<le> fd \<and> nat fd \<notin> set (so_fds k))
     \<and> set (so_fds k') = nat ` set threads \<union> set (so_fds k)"
proof (induction n arbitrary: k k' threads)
  case (Suc n)
  obtain fd k1 where a: "accept_connection k = (fd, k1)" by fastforce
  obtain ts k2 where l: "accept_loop n k1 = (ts, k2)" by fastforce
  note ih = Suc.IH [OF l]
  have o: "opens k (fd, k1)" using accept_opens [of k] a by simp
  show ?case
  proof (cases "fd < 0")
    case True
    with Suc.prems ih o show ?thesis by (auto simp: a l opens_def)
  next
    case False
    then have fd: "0 \<le> fd" "nat fd \<notin> set (so_fds k)" "set (so_fds k1) = insert (nat fd) (set (so_fds k))"
      using o by (auto simp: opens_def)
    have "fd \<notin> set ts" using ih fd by auto
    with Suc.prems False ih fd show ?thesis by (auto simp: a l)
  qed
qed simp

section \<open>What a registration makes known\<close>

text \<open>The regular files of the storage directory that are not hidden, in the order of the directory.\<close>

definition listed :: "fs \<Rightarrow> string \<Rightarrow> string \<Rightarrow> bool" where
  "listed F dir d \<longleftrightarrow> \<not> (d \<noteq> [] \<and> hd d = CHR ''.'') \<and> is_regular F (dir @ CHR ''/'' # d)"

definition listed_files :: "fs \<Rightarrow> string \<Rightarrow> string list" where
  "listed_files F dir = filter (listed F dir)
     (case readdir_entries F dir of None \<Rightarrow> [] | Some ents \<Rightarrow> ents)"

lemma list_files_eq:
  assumes "length (join_with (CHR '','') (pre @ filter (listed F dir) ents))
      < MAX_CONTENT_LEN"
  shows "list_files F dir (pre = []) (join_with (CHR '','') pre) ents
       = join_with (CHR '','') (pre @ filter (listed F dir) ents)"
  using assms
proof (induction ents arbitrary: pre)
  case (Cons d ents)
  let ?fs = "filter (listed F dir) ents"
  show ?case
  proof (cases "listed F dir d")
    case True
    have grow: "length (join_with (CHR '','') xs) \<le> length (join_with (CHR '','') (xs @ ys))" for xs ys :: "string list"
    proof (induction "CHR '',''" xs rule: join_with.induct)
      case (2 x)
      then show ?case by (cases ys) auto
    qed auto
    have snoc: "join_with (CHR '','') (pre @ [d]) = (if pre = [] then d else join_with (CHR '','') pre @ CHR '','' # d)"
      by (induction "CHR '',''" pre rule: join_with.induct) auto
    have "length (join_with (CHR '','') (pre @ [d])) < MAX_CONTENT_LEN"
      using grow [of "pre @ [d]" ?fs] Cons.prems True by simp
    then have "list_files F dir (pre = []) (join_with (CHR '','') pre) (d # ents)
        = list_files F dir (pre @ [d] = []) (join_with (CHR '','') (pre @ [d])) ents"
      using True by (auto simp: snoc Let_def listed_def)
    with Cons.IH [of "pre @ [d]"] Cons.prems True show ?thesis by simp
  next
    case False
    then have "list_files F dir (pre = []) (join_with (CHR '','') pre) (d # ents) = list_files F dir (pre = []) (join_with (CHR '','') pre) ents"
      by (auto simp: listed_def)
    with Cons.IH [of pre] Cons.prems False show ?thesis by simp
  qed
qed simp

text \<open>Seeding adds the names that are not known yet.\<close>

definition seeded_meta :: "nm_env \<Rightarrow> int \<Rightarrow> ss_info \<Rightarrow> string \<Rightarrow> file_metadata" where
  "seeded_meta E ss_id info f = create_file_metadata f ''system'' ss_id (si_ip info) (si_client_port info) (env_now E)"

lemma seed_files_effect:
  assumes "nm_ok S" "\<forall>t \<in> set toks. trim_item t = t \<and> t \<noteq> [] \<and> short_name t"
  shows "\<exists>n' S'. seed_files E S ss_id info toks n = Inr (n', S') \<and> nm_ok S' \<and> nm_servers S' = nm_servers S
    \<and> nm_files S' = (\<lambda>k. if k \<in> set toks \<and> nm_files S k = None then Some (seeded_meta E ss_id info k) else nm_files S k)"
  using assms
proof (induction toks arbitrary: S n)
  case (Cons t toks)
  have t: "trim_item t = t" "t \<noteq> []" "short_name t" and toks: "\<forall>t \<in> set toks. trim_item t = t \<and> t \<noteq> [] \<and> short_name t"
    using Cons.prems(2) by simp_all
  show ?case
  proof (cases "trie_search (nm_trie S) t")
    case None
    then have new: "nm_files S t = None" using nm_files_None [OF nm_ok_index [OF Cons.prems(1)]] by simp
    have m: "fm_filename (seeded_meta E ss_id info t) = t" "acl_ok (seeded_meta E ss_id info t)"
      using t(3) by (simp_all add: seeded_meta_def create_file_metadata_ok create_metadata_filename short_name_def)
    obtain S1 where S1: "add_metadata E S t (seeded_meta E ss_id info t) = Inr S1" "index_ok S1"
      "nm_files S1 = (nm_files S)(t \<mapsto> seeded_meta E ss_id info t)"
      "S1 = S\<lparr>nm_heap := nm_heap S1, nm_fresh := nm_fresh S1, nm_trie := nm_trie S1, nm_cache := nm_cache S1\<rparr>"
      using add_metadata_spec [OF nm_ok_index [OF Cons.prems(1)] t(3) m, of E] by blast
    have "tables_ok S1" using Cons.prems(1) by (subst S1(4)) (simp add: nm_ok_def)
    then have ok: "nm_ok S1" using S1(2) by (simp add: nm_ok_def)
    have servers: "nm_servers S1 = nm_servers S" by (subst S1(4)) simp
    from Cons.IH [OF ok toks, of "n + 1"] S1(1,3) t None new servers
    show ?thesis by (fastforce simp: Let_def seeded_meta_def)
  next
    case (Some r)
    then have old: "nm_files S t \<noteq> None" using nm_files_None [OF nm_ok_index [OF Cons.prems(1)]] by simp
    with Cons.IH [OF Cons.prems(1) toks, of n] Some t show ?thesis by (fastforce simp: Let_def)
  qed
qed simp

lemma recover_files_total: "index_ok S \<Longrightarrow> \<exists>out. recover_files E S sock ss_id fs = Inr out"
proof (induction fs)
  case (Cons f fs)
  then obtain out where out: "recover_files E S sock ss_id fs = Inr out" by blast
  show ?case
  proof (cases "trie_search (nm_trie S) f")
    case (Some r)
    then obtain m where "nm_heap S r = Some m" using index_ref [OF Cons.prems] by blast
    with Some out show ?thesis by (auto simp: meta_at_def Let_def split: option.split)
  qed (use out in simp)
qed simp

text \<open>The texts of a registration: the list of names fits, and each name survives the way.\<close>

lemma registration_data:
  assumes "list_all item_ok (listed_files (ss_fs S) (ss_dir S))"
    and "length (join_with (CHR '','') (listed_files (ss_fs S) (ss_dir S))) < MAX_CONTENT_LEN"
  shows "strtok {CHR '',''} (strncpy_buf MAX_CONTENT_LEN (m_data (register_message S ss_id p1 p2))) = listed_files (ss_fs S) (ss_dir S)"
proof -
  let ?l = "listed_files (ss_fs S) (ss_dir S)"
  have "m_data (register_message S ss_id p1 p2) = join_with (CHR '','') ?l"
  proof (cases "readdir_entries (ss_fs S) (ss_dir S)")
    case (Some ents)
    then show ?thesis
      using list_files_eq [of "[]" "ss_fs S" "ss_dir S" ents] assms(2) by (simp add: register_message_def listed_files_def)
  qed (simp add: register_message_def listed_files_def)
  moreover have "strncpy_buf MAX_CONTENT_LEN (join_with (CHR '','') ?l) = join_with (CHR '','') ?l"
    using assms(2) by (simp add: strncpy_buf_def)
  moreover have "strtok {CHR '',''} (join_with (CHR '','') ?l) = ?l"
    by (rule strtok_join_with) (use assms(1) in \<open>auto simp: list_all_iff item_ok_def\<close>)
  ultimately show ?thesis by simp
qed

lemma seeded_access: "check_file_access (seeded_meta E i info f) u = (if u = ''system'' then ACCESS_WRITE else ACCESS_NONE)"
  by (simp add: seeded_meta_def check_file_access_map_of create_file_metadata_def limit_defs strncpy_buf_def)

lemma ss_register_effect:
  assumes ok: "nm_ok N" and names: "list_all item_ok toks" and data: "strtok {CHR '',''} (strncpy_buf MAX_CONTENT_LEN (m_data msg)) = toks"
    and room: "length (nm_servers N) < MAX_STORAGE_SERVERS"
    and info: "info = \<lparr>si_id = 0, si_ip = strncpy_buf MAX_IP_LEN ip, si_nm_port = m_arg1 msg, si_client_port = m_arg2 msg,
      si_alive = True, si_heartbeat = 0, si_socket = sock\<rparr>"
  shows "\<exists>i N' s. handle_ss_register E N sock ip msg = Inr ([(sock, ss_registered i)], N') \<and> nm_ok N'
    \<and> get_storage_server (nm_servers N') i = Some s \<and> si_socket s = sock \<and> si_client_port s = m_arg2 msg \<and> si_alive s
    \<and> nm_files N' = (\<lambda>f. if f \<in> set toks \<and> nm_files N f = None then Some (seeded_meta E i info f) else nm_files N f)"
proof -
  obtain i reg where reg: "register_storage_server (nm_servers N) info (env_now E) = (i, reg)" by fastforce
  have tables: "ss_registry_ok (nm_servers N)" using ok by (simp add: nm_ok_def tables_ok_def)
  have i: "i \<noteq> - 1"
  proof (cases "find_idx (\<lambda>s. si_ip s = si_ip info \<and> si_client_port s = si_client_port info) (nm_servers N)")
    case (Some j)
    then have "j < length (nm_servers N)" by (rule find_idx_lt)
    then have "si_id (nm_servers N ! j) = int j" by (rule ss_registry_id [OF tables])
    with Some reg show ?thesis by (auto simp: register_storage_server_def)
  qed (use reg room in \<open>auto simp: register_storage_server_def\<close>)
  obtain s where s: "get_storage_server reg i = Some s" "si_socket s = si_socket info" "si_client_port s = si_client_port info" "si_alive s = si_alive info"
    using register_storage_server_get [OF tables reg i] by blast
  have "ss_registry_ok reg" using register_storage_server_ok [OF tables, of info "env_now E"] reg by simp
  then have ok1: "nm_ok (N\<lparr>nm_servers := reg\<rparr>)" by (rule nm_ok_servers [OF ok])
  have tok: "\<forall>t \<in> set toks. trim_item t = t \<and> t \<noteq> [] \<and> short_name t"
    using names by (auto simp: list_all_iff item_ok_def short_name_def)
  have same: "nm_files (N\<lparr>nm_servers := reg\<rparr>) = nm_files N" "nm_servers (N\<lparr>nm_servers := reg\<rparr>) = reg"
    by (simp_all add: nm_files_def)
  obtain n N1 where seed:
    "seed_files E (N\<lparr>nm_servers := reg\<rparr>) i info toks 0 = Inr (n, N1)" "nm_ok N1" "nm_servers N1 = reg"
    "nm_files N1 = (\<lambda>f. if f \<in> set toks \<and> nm_files N f = None then Some (seeded_meta E i info f) else nm_files N f)"
    using seed_files_effect [OF ok1 tok, of E i info 0, unfolded same] by blast
  obtain N2 where N2: "(if 0 < n then save_metadata N1 else Inr N1) = Inr N2" "nm_ok N2" "nm_servers N2 = reg" "nm_files N2 = nm_files N1"
  proof (cases "0 < n")
    case True
    obtain dat where "save_metadata N1 = Inr (N1\<lparr>nm_metadata_dat := dat\<rparr>)" using save_metadata_spec [OF nm_ok_index [OF seed(2)]] by blast
    with True seed(2,3) show ?thesis by (intro that [of "N1\<lparr>nm_metadata_dat := dat\<rparr>"]) simp_all
  qed (use that [of N1] seed(2,3) in simp)
  have "get_storage_server_status reg i"
    using s(1,4) by (auto simp: info get_storage_server_def get_storage_server_status_def split: if_splits)
  then have "recover_files E N2 sock i fs = Inr []" for fs
    using recover_files_nothing [OF nm_ok_index [OF N2(2)]] N2(3) by simp
  then have "handle_ss_register E N sock ip msg = Inr ([(sock, ss_registered i)], N2)"
    unfolding handle_ss_register_def info [symmetric] Let_def reg prod.case data
    by (simp add: seed(1) N2(1))
  with N2 s seed(4) show ?thesis by (auto simp: info)
qed

text \<open>
  C17: a storage server that starts makes its files known: its registration message lists them, and the
  naming server then knows every one of them, the new ones as files of this server that belong to
  the user \<^verbatim>\<open>system\<close>, to whom alone they give access.  The server is registered, alive, on its
  connection, and nothing else changes in the table of files.  (The names survive a list
  separated by commas, the list fits a message, and the table of servers has room.)
\<close>

theorem registration_publishes_files:
  assumes "nm_ok N" "length (nm_servers N) < MAX_STORAGE_SERVERS"
    and "files = listed_files (ss_fs S) (ss_dir S)" "list_all item_ok files" "length (join_with (CHR '','') files) < MAX_CONTENT_LEN"
  shows "\<exists>i N' s. handle_ss_register E N sock ip (register_message S ss_id nm_port client_port) = Inr ([(sock, ss_registered i)], N')
    \<and> nm_ok N' \<and> get_storage_server (nm_servers N') i = Some s \<and> si_socket s = sock \<and> si_client_port s = client_port \<and> si_alive s
    \<and> (\<forall>f. case nm_files N f of
          Some m \<Rightarrow> nm_files N' f = Some m
        | None \<Rightarrow> if f \<in> set files
                  then \<exists>m. nm_files N' f = Some m \<and> fm_ss_id m = i
                         \<and> (\<forall>u. check_file_access m u = (if u = ''system'' then ACCESS_WRITE else ACCESS_NONE))
                  else nm_files N' f = None)"
proof -
  let ?m = "register_message S ss_id nm_port client_port"
  have port: "m_arg2 ?m = client_port" by (simp add: register_message_def)
  note data = registration_data [of S ss_id nm_port client_port, folded assms(3), OF assms(4,5)]
  from ss_register_effect [OF assms(1,4) data assms(2) refl, where ip = ip and sock = sock and E = E]
  obtain i N' s info where N': "handle_ss_register E N sock ip ?m = Inr ([(sock, ss_registered i)], N')" "nm_ok N'"
    "get_storage_server (nm_servers N') i = Some s" "si_socket s = sock" "si_client_port s = client_port" "si_alive s"
    "nm_files N' = (\<lambda>f. if f \<in> set files \<and> nm_files N f = None then Some (seeded_meta E i info f) else nm_files N f)"
    unfolding port by blast
  have "fm_ss_id (seeded_meta E i info f) = i" for f by (simp add: seeded_meta_def create_file_metadata_def)
  with seeded_access [of E i info] have "case nm_files N f of
          Some m \<Rightarrow> nm_files N' f = Some m
        | None \<Rightarrow> if f \<in> set files
                  then \<exists>m. nm_files N' f = Some m \<and> fm_ss_id m = i
                         \<and> (\<forall>u. check_file_access m u = (if u = ''system'' then ACCESS_WRITE else ACCESS_NONE))
                  else nm_files N' f = None" for f
    by (cases "nm_files N f") (auto simp: N'(7))
  with N'(1-6) show ?thesis by blast
qed

theorem registration_publishes_files_witness:
  "\<exists>i N' m. handle_ss_register demo_env demo_nm 9 ''10.0.0.5'' (register_message demo_server ''s'' 9000 9001) = Inr ([(9, ss_registered i)], N')
     \<and> nm_files N' ''f'' = Some m \<and> fm_ss_id m = i \<and> check_file_access m ''alice'' = ACCESS_NONE"
proof -
  have files: "listed_files (ss_fs demo_server) (ss_dir demo_server) = [''f'']" by code_simp
  have ok: "list_all item_ok [''f'']" "length (join_with (CHR '','') [''f'']) < MAX_CONTENT_LEN"
    by (simp_all add: item_ok_def trim_item_def limit_defs)
  have room: "length (nm_servers demo_nm) < MAX_STORAGE_SERVERS" by (simp add: limit_defs)
  from registration_publishes_files [OF demo_nm_ok room files [symmetric] ok, of demo_env 9 "''10.0.0.5''" "''s''" 9000 9001]
  obtain i N' where N': "handle_ss_register demo_env demo_nm 9 ''10.0.0.5'' (register_message demo_server ''s'' 9000 9001)
      = Inr ([(9, ss_registered i)], N')"
    "\<forall>f. case nm_files demo_nm f of
          Some m \<Rightarrow> nm_files N' f = Some m
        | None \<Rightarrow> if f \<in> set [''f'']
                  then \<exists>m. nm_files N' f = Some m \<and> fm_ss_id m = i
                         \<and> (\<forall>u. check_file_access m u = (if u = ''system'' then ACCESS_WRITE else ACCESS_NONE))
                  else nm_files N' f = None"
    by blast
  have "nm_files demo_nm ''f'' = None" by (simp add: demo_file)
  with spec [OF N'(2), of "''f''"] N'(1) show ?thesis by auto
qed

end
