(* ===== verification/Control_Channel.thy ===== *)
theory Control_Channel
  imports Storage_Server Naming_Threads
begin

text \<open>
  The connection between the naming server and one storage server, with the threads that use
  it at the same time.  At the naming server these are the handler of a client's CREATE or
  DELETE (it holds \<open>trie_mutex\<close> from its \<open>send_message\<close> to its \<open>recv_message\<close>), the handlers that
  wait a second at most (folders, MOVE, the replica of CREATE), the heartbeat, the threads that
  push contents without waiting, and the connection's own thread, which receives updates.  At
  the storage server they are \<open>nm_communication_thread\<close> and the client connections that report
  an update.  A message is moved as a whole; which of the waiting threads gets it is open.
  The option \<open>SO_RCVTIMEO\<close> belongs to the socket, and a \<open>recv\<close> is under the value that it has
  when the call starts.
\<close>

section \<open>State\<close>

text \<open>The booleans say whether the pending \<open>recv\<close> has a time limit.\<close>

datatype relay = No_Relay | Relay_Sent message | Relay_Waits message bool

datatype beat = Beat_Rests | Beat_Sent | Beat_Waits

datatype listener = Listening bool | Busy "message list" bool | Gone

record control =
  ct_down :: "message list"
  ct_up :: "message list"
  ct_relay :: relay
  ct_answers :: "(message \<times> message option) list"
  ct_beat :: beat
  ct_alive :: bool
  ct_orders :: nat
  ct_nm_limit :: bool
  ct_listener :: listener
  ct_updates :: "message list"
  ct_ss :: storage_server
  ct_server :: listener
  ct_sessions :: "(bool \<times> bool) list"
  ct_ss_limit :: bool

datatype control_event =
    Relay message | Relay_Recv | Relay_Read | Relay_Timeout
  | Beat_Send | Beat_Recv | Beat_Read | Beat_Timeout
  | Order message | Order_Read | Order_Timeout
  | Push string string
  | Listener_Read | Listener_Update | Listener_Timeout
  | Serve | Serve_Ack | Serve_Ack_Timeout | Serve_Timeout
  | Session "message list" | Session_Read nat | Session_Timeout nat

section \<open>Steps of the naming server\<close>

definition relay_send :: "message \<Rightarrow> control \<Rightarrow> control option" where
  "relay_send req c =
     (if ct_relay c = No_Relay \<and> m_type req \<in> {MSG_CREATE_FILE_SS, MSG_DELETE_FILE_SS}
      then Some (c\<lparr>ct_down := ct_down c @ [req], ct_relay := Relay_Sent req\<rparr>) else None)"

definition relay_recv :: "control \<Rightarrow> control option" where
  "relay_recv c =
     (case ct_relay c of Relay_Sent req \<Rightarrow> Some (c\<lparr>ct_relay := Relay_Waits req (ct_nm_limit c)\<rparr>) | _ \<Rightarrow> None)"

definition relay_read :: "control \<Rightarrow> control option" where
  "relay_read c =
     (case (ct_relay c, ct_up c) of
        (Relay_Waits req _, m # ms) \<Rightarrow> Some (c\<lparr>ct_up := ms, ct_relay := No_Relay, ct_answers := ct_answers c @ [(req, Some m)]\<rparr>)
      | _ \<Rightarrow> None)"

definition relay_timeout :: "control \<Rightarrow> control option" where
  "relay_timeout c =
     (case ct_relay c of
        Relay_Waits req True \<Rightarrow> Some (c\<lparr>ct_relay := No_Relay, ct_answers := ct_answers c @ [(req, None)]\<rparr>)
      | _ \<Rightarrow> None)"

text \<open>The heartbeat: its limit is on from before its \<open>recv\<close> until after it.\<close>

definition beat_send :: "control \<Rightarrow> control option" where
  "beat_send c =
     (if ct_beat c = Beat_Rests then Some (c\<lparr>ct_down := ct_down c @ [ping], ct_beat := Beat_Sent\<rparr>) else None)"

definition beat_recv :: "control \<Rightarrow> control option" where
  "beat_recv c = (if ct_beat c = Beat_Sent then Some (c\<lparr>ct_beat := Beat_Waits, ct_nm_limit := True\<rparr>) else None)"

definition beat_ends :: "bool \<Rightarrow> control \<Rightarrow> control" where
  "beat_ends b c = c\<lparr>ct_beat := Beat_Rests, ct_nm_limit := False, ct_alive := b\<rparr>"

definition beat_read :: "control \<Rightarrow> control option" where
  "beat_read c =
     (case ct_up c of
        pong # ms \<Rightarrow> if ct_beat c = Beat_Waits then Some (beat_ends (m_type pong = MSG_ACK) (c\<lparr>ct_up := ms\<rparr>)) else None
      | [] \<Rightarrow> None)"

definition beat_timeout :: "control \<Rightarrow> control option" where
  "beat_timeout c = (if ct_beat c = Beat_Waits then Some (beat_ends False c) else None)"

text \<open>The handlers that drop the reply, whatever it is.\<close>

definition order_send :: "message \<Rightarrow> control \<Rightarrow> control option" where
  "order_send req c =
     (if m_type req \<in> {MSG_CREATE_FOLDER_SS, MSG_MOVE_FILE_SS, MSG_CREATE_FILE_SS}
      then Some (c\<lparr>ct_down := ct_down c @ [req], ct_orders := Suc (ct_orders c), ct_nm_limit := True\<rparr>) else None)"

definition order_ends :: "control \<Rightarrow> control" where
  "order_ends c = c\<lparr>ct_orders := ct_orders c - 1, ct_nm_limit := False\<rparr>"

definition order_read :: "control \<Rightarrow> control option" where
  "order_read c =
     (case ct_up c of m # ms \<Rightarrow> if 0 < ct_orders c then Some (order_ends (c\<lparr>ct_up := ms\<rparr>)) else None | [] \<Rightarrow> None)"

definition order_timeout :: "control \<Rightarrow> control option" where
  "order_timeout c = (if 0 < ct_orders c then Some (order_ends c) else None)"

definition push_message :: "string \<Rightarrow> string \<Rightarrow> message" where
  "push_message f content = message_zero\<lparr>m_type := MSG_WRITE_FILE_SS, m_filename := f, m_data := content\<rparr>"

text \<open>
  The connection's own thread drops every message that is not an update, and needs
  \<open>trie_mutex\<close> for an update.
\<close>

definition listener_read :: "control \<Rightarrow> control option" where
  "listener_read c =
     (case (ct_listener c, ct_up c) of
        (Listening l, m # ms) \<Rightarrow>
          Some (c\<lparr>ct_up := ms,
                  ct_listener := (if m_type m = MSG_UPDATE_METADATA then Busy [m] False else Listening (ct_nm_limit c))\<rparr>)
      | _ \<Rightarrow> None)"

definition listener_update :: "control \<Rightarrow> control option" where
  "listener_update c =
     (case ct_listener c of
        Busy ms _ \<Rightarrow>
          if ct_relay c = No_Relay
          then Some (c\<lparr>ct_updates := ct_updates c @ ms, ct_down := ct_down c @ [ack_reply []],
                       ct_listener := Listening (ct_nm_limit c)\<rparr>)
          else None
      | _ \<Rightarrow> None)"

definition listener_timeout :: "control \<Rightarrow> control option" where
  "listener_timeout c = (if ct_listener c = Listening True then Some (c\<lparr>ct_listener := Gone\<rparr>) else None)"

section \<open>Steps of the storage server\<close>

definition to_naming :: "ss_output \<Rightarrow> message list" where
  "to_naming out = map snd (filter (\<lambda>(p, m). p = Naming_Server) out)"

text \<open>
  \<open>nm_communication_thread\<close> answers at once, except that it waits for an acknowledgement in the
  middle of its answer to pushed content.  When its \<open>recv\<close> fails it ends.
\<close>

definition serve :: "control \<Rightarrow> control option" where
  "serve c =
     (case (ct_server c, ct_down c) of
        (Listening l, m # ms) \<Rightarrow>
          (case nm_request (ct_ss c) m of
             (out, S) \<Rightarrow>
               let c1 = c\<lparr>ct_down := ms, ct_ss := S\<rparr> in
               Some (if m_type m = MSG_WRITE_FILE_SS
                     then c1\<lparr>ct_up := ct_up c @ take 1 (to_naming out), ct_server := Busy (drop 1 (to_naming out)) (ct_ss_limit c)\<rparr>
                     else c1\<lparr>ct_up := ct_up c @ to_naming out, ct_server := Listening (ct_ss_limit c)\<rparr>))
      | _ \<Rightarrow> None)"

definition serve_goes_on :: "message list \<Rightarrow> control \<Rightarrow> control" where
  "serve_goes_on rest c = c\<lparr>ct_up := ct_up c @ rest, ct_server := Listening (ct_ss_limit c)\<rparr>"

definition serve_ack :: "control \<Rightarrow> control option" where
  "serve_ack c =
     (case (ct_server c, ct_down c) of
        (Busy rest l, m # ms) \<Rightarrow> Some (serve_goes_on rest (c\<lparr>ct_down := ms\<rparr>)) | _ \<Rightarrow> None)"

definition serve_ack_timeout :: "control \<Rightarrow> control option" where
  "serve_ack_timeout c = (case ct_server c of Busy rest True \<Rightarrow> Some (serve_goes_on rest c) | _ \<Rightarrow> None)"

definition serve_timeout :: "control \<Rightarrow> control option" where
  "serve_timeout c = (if ct_server c = Listening True then Some (c\<lparr>ct_server := Gone\<rparr>) else None)"

text \<open>
  A client connection that reports an update waits for the acknowledgement: a WRITE under a
  limit that it sets, a REVERT without.
\<close>

definition client_session :: "message list \<Rightarrow> control \<Rightarrow> control option" where
  "client_session inputs c =
     (case handle_client_connection (ct_ss c) inputs of
        Inl _ \<Rightarrow> None
      | Inr (out, S) \<Rightarrow>
          let ups = to_naming out; drains = (m_type (hd inputs) = MSG_WRITE_REQUEST); l = (drains \<or> ct_ss_limit c) in
          Some (if ups = [] then c\<lparr>ct_ss := S\<rparr>
                else c\<lparr>ct_ss := S, ct_up := ct_up c @ ups, ct_sessions := ct_sessions c @ [(drains, l)], ct_ss_limit := l\<rparr>))"

definition session_ends :: "nat \<Rightarrow> control \<Rightarrow> control" where
  "session_ends i c =
     c\<lparr>ct_sessions := delete_at (ct_sessions c) i,
       ct_ss_limit := (if fst (ct_sessions c ! i) then False else ct_ss_limit c)\<rparr>"

definition session_read :: "nat \<Rightarrow> control \<Rightarrow> control option" where
  "session_read i c =
     (case ct_down c of
        m # ms \<Rightarrow> if i < length (ct_sessions c) then Some (session_ends i (c\<lparr>ct_down := ms\<rparr>)) else None
      | [] \<Rightarrow> None)"

definition session_timeout :: "nat \<Rightarrow> control \<Rightarrow> control option" where
  "session_timeout i c =
     (if i < length (ct_sessions c) \<and> snd (ct_sessions c ! i) then Some (session_ends i c) else None)"

section \<open>Runs\<close>

fun control_step :: "control_event \<Rightarrow> control \<Rightarrow> control option" where
  "control_step (Relay req) c = relay_send req c"
| "control_step Relay_Recv c = relay_recv c"
| "control_step Relay_Read c = relay_read c"
| "control_step Relay_Timeout c = relay_timeout c"
| "control_step Beat_Send c = beat_send c"
| "control_step Beat_Recv c = beat_recv c"
| "control_step Beat_Read c = beat_read c"
| "control_step Beat_Timeout c = beat_timeout c"
| "control_step (Order req) c = order_send req c"
| "control_step Order_Read c = order_read c"
| "control_step Order_Timeout c = order_timeout c"
| "control_step (Push f content) c = Some (c\<lparr>ct_down := ct_down c @ [push_message f content]\<rparr>)"
| "control_step Listener_Read c = listener_read c"
| "control_step Listener_Update c = listener_update c"
| "control_step Listener_Timeout c = listener_timeout c"
| "control_step Serve c = serve c"
| "control_step Serve_Ack c = serve_ack c"
| "control_step Serve_Ack_Timeout c = serve_ack_timeout c"
| "control_step Serve_Timeout c = serve_timeout c"
| "control_step (Session inputs) c = client_session inputs c"
| "control_step (Session_Read i) c = session_read i c"
| "control_step (Session_Timeout i) c = session_timeout i c"

text \<open>A run is possible when every step is possible where it is taken.\<close>

fun control_run :: "control_event list \<Rightarrow> control \<Rightarrow> control option" where
  "control_run [] c = Some c"
| "control_run (e # es) c = Option.bind (control_step e c) (control_run es)"

lemmas control_steps =
  relay_send_def relay_recv_def relay_read_def relay_timeout_def beat_send_def beat_recv_def beat_read_def
  beat_timeout_def beat_ends_def order_send_def order_read_def order_timeout_def order_ends_def listener_read_def
  listener_update_def listener_timeout_def serve_def serve_ack_def serve_ack_timeout_def serve_goes_on_def
  serve_timeout_def client_session_def session_read_def session_timeout_def session_ends_def

lemma control_run_append: "control_run (es @ es') c = Option.bind (control_run es c) (control_run es')"
  by (induction es c rule: control_run.induct) (auto split: bind_split)

lemma control_run_snoc: "control_run (es @ [e]) c = Option.bind (control_run es c) (control_step e)"
proof -
  have "control_run [e] = control_step e" by (rule ext) (simp split: bind_split)
  then show ?thesis by (simp only: control_run_append)
qed

end
