(* ===== verification/Control_Races.thy ===== *)
theory Control_Races
  imports Control_Channel Naming_Demo Storage_Demo
begin

text \<open>
  What the threads of \<^verbatim>\<open>Control_Channel\<close> do to each other's exchanges: a request of a handler gets
  the storage server's own answer when nothing else uses the connection meanwhile; otherwise it
  may get the answer to a heartbeat, or none.
\<close>

section \<open>What the storage server sends\<close>

lemma to_naming_simps [simp]:
  "to_naming [] = []" "to_naming ((Naming_Server, m) # out) = m # to_naming out" "to_naming ((Client, m) # out) = to_naming out"
  "to_naming (out @ out') = to_naming out @ to_naming out'"
  by (simp_all add: to_naming_def)

lemma relayed_answer:
  assumes "m_type req \<in> {MSG_CREATE_FILE_SS, MSG_DELETE_FILE_SS}"
  obtains a S' where "nm_request S req = ([(Naming_Server, a)], S')" "m_type a \<in> {MSG_ACK, MSG_ERROR}"
proof -
  have "\<exists>a S'. nm_request S req = ([(Naming_Server, a)], S') \<and> m_type a \<in> {MSG_ACK, MSG_ERROR}"
    using assms by (auto simp: nm_request_def handle_create_file_def handle_delete_file_def Let_def split: option.splits)
  then show thesis using that by blast
qed

lemma ping_type [simp]: "m_type ping = MSG_SS_HEARTBEAT"
  by (simp add: ping_def)

lemma nm_request_ping [simp]: "nm_request S ping = ([(Naming_Server, ack_reply ''PONG'')], S)"
  by (simp add: nm_request_def)

lemma stream_words_client: "stream_words ws = Inr out \<Longrightarrow> to_naming out = []"
  by (induction ws arbitrary: out) (auto simp: ebind_eq_Inr)

text \<open>Only WRITE and REVERT report to the naming server.\<close>

definition unreported :: "message list \<Rightarrow> bool" where
  "unreported inputs \<longleftrightarrow> inputs = [] \<or> m_type (hd inputs) \<notin> {MSG_WRITE_REQUEST, MSG_CP_REVERT}"

lemma unreported_session:
  assumes "unreported inputs" "handle_client_connection S inputs = Inr (out, S')"
  shows "to_naming out = []"
proof (cases inputs)
  case (Cons msg rest)
  show ?thesis
  proof (cases "m_type msg = MSG_STREAM_REQUEST")
    case True
    with assms(2) Cons show ?thesis
      by (auto simp: handle_client_connection_def handle_stream_file_def ebind_eq_Inr stream_words_client split: option.splits)
  next
    case False
    with assms Cons show ?thesis
      by (auto simp: handle_client_connection_def unreported_def handle_read_file_def handle_undo_file_def handle_cp_create_def
          handle_cp_view_def handle_cp_list_def Let_def ebind_eq_Inr split: message_type.splits option.splits prod.splits)
  qed
qed (use assms(2) in \<open>simp add: handle_client_connection_def\<close>)

section \<open>An exchange on its own\<close>

fun undisturbed :: "control_event \<Rightarrow> bool" where
  "undisturbed Relay_Recv = True"
| "undisturbed Relay_Read = True"
| "undisturbed Serve = True"
| "undisturbed (Session inputs) = unreported inputs"
| "undisturbed _ = False"

definition idle :: "control \<Rightarrow> bool" where
  "idle c \<longleftrightarrow> ct_down c = [] \<and> ct_up c = [] \<and> ct_relay c = No_Relay \<and> \<not> ct_nm_limit c \<and> (\<exists>l. ct_server c = Listening l)"

text \<open>The answer that the storage server computes at a step of the run.\<close>

definition answered_in :: "control_event list \<Rightarrow> control \<Rightarrow> message \<Rightarrow> message \<Rightarrow> bool" where
  "answered_in es c req a \<longleftrightarrow>
     (\<exists>es1 es2 c1. es = es1 @ Serve # es2 \<and> control_run es1 c = Some c1 \<and> fst (nm_request (ct_ss c1) req) = [(Naming_Server, a)])"

definition in_exchange :: "control \<Rightarrow> control_event list \<Rightarrow> message \<Rightarrow> control \<Rightarrow> bool" where
  "in_exchange c es req c' \<longleftrightarrow>
     \<not> ct_nm_limit c' \<and> (\<exists>l. ct_server c' = Listening l)
   \<and> (ct_relay c' \<in> {Relay_Sent req, Relay_Waits req False} \<and> ct_answers c' = ct_answers c
        \<and> (ct_down c' = [req] \<and> ct_up c' = [] \<or> (\<exists>a. ct_down c' = [] \<and> ct_up c' = [a] \<and> answered_in es c req a))
      \<or> (\<exists>a. ct_relay c' = No_Relay \<and> ct_down c' = [] \<and> ct_up c' = [] \<and> answered_in es c req a
            \<and> ct_answers c' = ct_answers c @ [(req, Some a)]))"

lemma answered_in_snoc: "answered_in es c req a \<Longrightarrow> answered_in (es @ [e]) c req a"
  by (fastforce simp: answered_in_def)

lemma in_exchange_step:
  assumes req: "m_type req \<in> {MSG_CREATE_FILE_SS, MSG_DELETE_FILE_SS}"
    and inv: "in_exchange c es req c1" and run: "control_run es c = Some c1"
    and e: "undisturbed e" "control_step e c1 = Some c2"
  shows "in_exchange c (es @ [e]) req c2"
proof (cases e)
  case Serve
  show ?thesis
  proof (cases "ct_down c1 = [req]")
    case True
    obtain a S' where a: "nm_request (ct_ss c1) req = ([(Naming_Server, a)], S')" by (rule relayed_answer [OF req])
    have "answered_in (es @ [Serve]) c req a" unfolding answered_in_def using run a by fastforce
    with Serve True a e(2) inv req show ?thesis
      by (auto simp: in_exchange_def serve_def)
  next
    case False
    with Serve e(2) inv show ?thesis by (auto simp: in_exchange_def serve_def)
  qed
next
  case (Session inputs)
  obtain out S' where "handle_client_connection (ct_ss c1) inputs = Inr (out, S')" "to_naming out = []"
    using Session e unreported_session by (fastforce simp: client_session_def split: sum.splits)
  with Session e(2) inv show ?thesis
    by (auto simp: in_exchange_def client_session_def Let_def answered_in_snoc)
next
  case Relay_Read
  obtain req' l m ms where c1: "ct_relay c1 = Relay_Waits req' l" "ct_up c1 = m # ms"
    and c2: "c2 = c1\<lparr>ct_up := ms, ct_relay := No_Relay, ct_answers := ct_answers c1 @ [(req', Some m)]\<rparr>"
    using Relay_Read e(2) by (auto simp: relay_read_def split: relay.splits list.splits)
  from inv c1 have "req' = req" "ms = []" "ct_down c1 = []" "ct_answers c1 = ct_answers c" "answered_in es c req m"
    "\<not> ct_nm_limit c1" "\<exists>l. ct_server c1 = Listening l"
    by (auto simp: in_exchange_def)
  then show ?thesis unfolding in_exchange_def c2 by (simp add: answered_in_snoc)
qed (use e inv in \<open>auto simp: in_exchange_def relay_recv_def relay_read_def answered_in_snoc split: relay.splits\<close>)

lemma in_exchange_run:
  assumes "m_type req \<in> {MSG_CREATE_FILE_SS, MSG_DELETE_FILE_SS}" "idle c"
    and "list_all undisturbed es" "control_run (Relay req # es) c = Some c'"
  shows "in_exchange c (Relay req # es) req c'"
  using assms(3,4)
proof (induction es arbitrary: c' rule: rev_induct)
  case Nil
  then show ?case using assms(1,2) by (auto simp: in_exchange_def idle_def relay_send_def)
next
  case (snoc e es)
  have "control_run ((Relay req # es) @ [e]) c = Some c'" using snoc.prems(2) by simp
  then obtain c1 where c1: "control_run (Relay req # es) c = Some c1" "control_step e c1 = Some c'"
    unfolding control_run_snoc by (auto split: bind_splits)
  have "in_exchange c ((Relay req # es) @ [e]) req c'"
    by (rule in_exchange_step [OF assms(1) snoc.IH c1(1) _ c1(2)]) (use snoc.prems(1) c1(1) in auto)
  then show ?case by simp
qed

lemma exchange_can_end:
  assumes req: "m_type req \<in> {MSG_CREATE_FILE_SS, MSG_DELETE_FILE_SS}" and "in_exchange c es req c'" "ct_relay c' \<noteq> No_Relay"
  shows "\<exists>es' c''. list_all undisturbed es' \<and> control_run es' c' = Some c'' \<and> ct_relay c'' = No_Relay"
proof -
  obtain a S' where a: "nm_request (ct_ss c') req = ([(Naming_Server, a)], S')" by (rule relayed_answer [OF req])
  obtain l where l: "ct_server c' = Listening l" and r: "ct_relay c' = Relay_Sent req \<or> ct_relay c' = Relay_Waits req False"
    and p: "ct_down c' = [req] \<and> ct_up c' = [] \<or> (\<exists>a. ct_down c' = [] \<and> ct_up c' = [a])"
    using assms(2,3) by (auto simp: in_exchange_def)
  define es1 where "es1 = (if ct_down c' = [] then [] else [Serve])"
  define es2 where "es2 = (if ct_relay c' = Relay_Sent req then [Relay_Recv] else [])"
  have "list_all undisturbed (es1 @ es2 @ [Relay_Read])" by (simp add: es1_def es2_def)
  moreover have "\<exists>c''. control_run (es1 @ es2 @ [Relay_Read]) c' = Some c'' \<and> ct_relay c'' = No_Relay"
    using r p l a req by (auto simp: es1_def es2_def serve_def relay_recv_def relay_read_def)
  ultimately show ?thesis by blast
qed

text \<open>
  C21: a CREATE or DELETE that the naming server relays while nothing else uses the connection gets
  the storage server's own answer to it, computed in the state in which the server serves the
  request, and nothing is left on the connection; and as long as the answer is outstanding the
  exchange can be completed.
\<close>

theorem exchange_undisturbed:
  assumes "m_type req \<in> {MSG_CREATE_FILE_SS, MSG_DELETE_FILE_SS}" "idle c"
    and "list_all undisturbed es" "control_run (Relay req # es) c = Some c'"
  shows "if ct_relay c' = No_Relay
    then (\<exists>a es1 es2 c1. es = es1 @ Serve # es2 \<and> control_run (Relay req # es1) c = Some c1
           \<and> fst (nm_request (ct_ss c1) req) = [(Naming_Server, a)]
           \<and> ct_answers c' = ct_answers c @ [(req, Some a)] \<and> idle c')
    else ct_answers c' = ct_answers c
         \<and> (\<exists>es' c''. list_all undisturbed es' \<and> control_run es' c' = Some c'' \<and> ct_relay c'' = No_Relay)"
proof -
  note inv = in_exchange_run [OF assms]
  show ?thesis
  proof (cases "ct_relay c' = No_Relay")
    case True
    with inv obtain a where a: "answered_in (Relay req # es) c req a" "ct_answers c' = ct_answers c @ [(req, Some a)]" "idle c'"
      by (auto simp: in_exchange_def idle_def)
    then obtain es1 es2 c1 where "Relay req # es = es1 @ Serve # es2" "control_run es1 c = Some c1"
      "fst (nm_request (ct_ss c1) req) = [(Naming_Server, a)]" by (auto simp: answered_in_def)
    with True a(2,3) show ?thesis by (cases es1) (auto intro!: exI)
  next
    case False
    with inv exchange_can_end [OF assms(1) inv] show ?thesis by (auto simp: in_exchange_def)
  qed
qed


definition demo_control :: control where
  "demo_control =
     \<lparr>ct_down = [], ct_up = [], ct_relay = No_Relay, ct_answers = [], ct_beat = Beat_Rests, ct_alive = True, ct_orders = 0,
      ct_nm_limit = False, ct_listener = Listening False, ct_updates = [], ct_ss = demo_server,
      ct_server = Listening False, ct_sessions = [], ct_ss_limit = False\<rparr>"

definition delete_request :: "string \<Rightarrow> message" where
  "delete_request f = message_zero\<lparr>m_type := MSG_DELETE_FILE_SS, m_filename := f\<rparr>"

lemma delete_request_type [simp]: "m_type (delete_request f) = MSG_DELETE_FILE_SS"
  by (simp add: delete_request_def)

lemma demo_control_idle [simp]: "idle demo_control" "ct_beat demo_control = Beat_Rests" "ct_listener demo_control = Listening False"
  "ct_answers demo_control = []"
  by (auto simp: demo_control_def idle_def)

theorem exchange_undisturbed_witness:
  "\<exists>c' a. control_run [Relay (delete_request ''a''), Relay_Recv, Serve, Relay_Read] demo_control = Some c'
     \<and> fst (nm_request demo_server (delete_request ''a'')) = [(Naming_Server, a)]
     \<and> ct_answers c' = [(delete_request ''a'', Some a)]"
proof -
  let ?req = "delete_request ''a''"
  obtain a S' where a: "nm_request demo_server ?req = ([(Naming_Server, a)], S')" by (rule relayed_answer [of ?req]) auto
  obtain c' where run: "control_run [Relay ?req, Relay_Recv, Serve, Relay_Read] demo_control = Some c'" "ct_relay c' = No_Relay"
    by (auto simp: demo_control_def relay_send_def relay_recv_def relay_read_def serve_def Let_def a)
  have "list_all undisturbed [Relay_Recv, Serve, Relay_Read]" by simp
  from exchange_undisturbed [OF _ demo_control_idle(1) this run(1)] run(2)
  obtain b es1 es2 c1 where b: "[Relay_Recv, Serve, Relay_Read] = es1 @ Serve # es2" "control_run (Relay ?req # es1) demo_control = Some c1"
    "fst (nm_request (ct_ss c1) ?req) = [(Naming_Server, b)]" "ct_answers c' = [(?req, Some b)]" by auto
  from b(1) have "es1 = [Relay_Recv]" by (cases es1) (auto simp: Cons_eq_append_conv)
  with b(2) have "ct_ss c1 = demo_server" by (auto simp: demo_control_def relay_send_def relay_recv_def)
  with b run(1) show ?thesis by auto
qed

section \<open>A heartbeat in between\<close>

text \<open>
  C31: when a heartbeat is sent just before the handler of a DELETE sends its request, the handler can
  get the answer to the heartbeat: the naming server then forgets the file and tells the client
  that it is deleted, while the storage server has not even seen the request; what it answers
  later, a refusal too, stays on the connection for whoever reads next.
\<close>

theorem pong_for_answer:
  assumes c: "idle c" "ct_beat c = Beat_Rests"
    and S: "nm_ok S" "message_ok msg" "get_client_by_socket (nm_clients S) sock = Some info"
      "nm_files S (m_filename msg) = Some m" "fm_owner m = ci_username info"
      "get_storage_server (nm_servers S) (fm_ss_id m) = Some s"
  shows "\<exists>c' c'' a out reply S'.
      control_run [Beat_Send, Relay (delete_request (m_filename msg)), Relay_Recv, Serve, Relay_Read] c = Some c'
    \<and> ct_ss c' = ct_ss c \<and> ct_down c' = [delete_request (m_filename msg)]
    \<and> nm_handle_delete_file (E\<lparr>env_reply := \<lambda>fd req. snd (last (ct_answers c'))\<rparr>) S sock msg = Inr (out @ [(sock, reply)], S')
    \<and> m_type reply = MSG_ACK \<and> nm_files S' = (nm_files S)(m_filename msg := None)
    \<and> control_run [Serve] c' = Some c''
    \<and> fst (nm_request (ct_ss c) (delete_request (m_filename msg))) = [(Naming_Server, a)] \<and> ct_up c'' = [a]"
proof -
  let ?req = "delete_request (m_filename msg)"
  obtain a S1 where a: "nm_request (ct_ss c) ?req = ([(Naming_Server, a)], S1)" by (rule relayed_answer [of ?req]) auto
  obtain c' where run: "control_run [Beat_Send, Relay ?req, Relay_Recv, Serve, Relay_Read] c = Some c'" "ct_ss c' = ct_ss c"
    "ct_down c' = [?req]" "ct_up c' = []" "ct_answers c' = ct_answers c @ [(?req, Some (ack_reply ''PONG''))]"
    "\<exists>l. ct_server c' = Listening l"
    using c by (auto simp: idle_def beat_send_def relay_send_def relay_recv_def relay_read_def serve_def Let_def)
  let ?E = "E\<lparr>env_reply := \<lambda>fd req. snd (last (ct_answers c'))\<rparr>"
  have "env_reply ?E (si_socket s) (message_zero\<lparr>m_type := MSG_DELETE_FILE_SS, m_filename := m_filename msg\<rparr>)
      = Some (ack_reply ''PONG'')" by (simp add: run(5))
  from delete_effect [OF S this] obtain S' reply where "nm_handle_delete_file ?E S sock msg
      = Inr ([(si_socket s, ?req), (sock, reply)], S')" "m_type reply = MSG_ACK" "nm_files S' = (nm_files S)(m_filename msg := None)"
    unfolding delete_request_def by auto
  moreover have "\<exists>c''. control_run [Serve] c' = Some c'' \<and> ct_up c'' = [a]"
    using run a by (auto simp: serve_def)
  ultimately show ?thesis using run(1,2,3) a by (metis append_Cons append_Nil fst_conv)
qed

theorem pong_for_answer_witness:
  "\<exists>c' out reply S'. control_run [Beat_Send, Relay (delete_request ''a''), Relay_Recv, Serve, Relay_Read] demo_control = Some c'
    \<and> ct_ss c' = demo_server
    \<and> nm_handle_delete_file (demo_env\<lparr>env_reply := \<lambda>fd req. snd (last (ct_answers c'))\<rparr>) demo_nm 5
        (demo_msg MSG_DELETE_FILE ''alice'' ''a'' [] 0) = Inr (out @ [(5, reply)], S')
    \<and> m_type reply = MSG_ACK \<and> nm_files S' ''a'' = None"
proof -
  let ?msg = "demo_msg MSG_DELETE_FILE ''alice'' ''a'' [] 0"
  have msg: "message_ok ?msg" by (simp add: demo_msg_ok limit_defs)
  have c: "get_client_by_socket (nm_clients demo_nm) 5 = Some (demo_client 5 ''alice'')" by (simp add: demo_clients)
  have f: "nm_files demo_nm (m_filename ?msg) = Some demo_meta" by (simp add: demo_file)
  have s: "get_storage_server (nm_servers demo_nm) (fm_ss_id demo_meta) = Some demo_ss" by (simp add: get_storage_server_def)
  have "fm_owner demo_meta = ci_username (demo_client 5 ''alice'')" by (simp add: demo_client_def)
  from pong_for_answer [OF demo_control_idle(1,2) demo_nm_ok msg c f this s, of demo_env]
  show ?thesis by (auto simp: demo_control_def)
qed

section \<open>The answer goes to another thread\<close>

text \<open>The events after which the storage server has nothing to send.\<close>

fun unasked :: "control_event \<Rightarrow> bool" where
  "unasked (Relay req) = True"
| "unasked Beat_Send = False"
| "unasked (Order req) = False"
| "unasked (Push f content) = False"
| "unasked (Session inputs) = unreported inputs"
| "unasked _ = True"

definition stranded :: "control \<Rightarrow> message \<Rightarrow> control \<Rightarrow> bool" where
  "stranded c req c' \<longleftrightarrow> ct_relay c' = Relay_Waits req False \<and> ct_down c' = [] \<and> ct_up c' = []
     \<and> (\<forall>ms l. ct_listener c' \<noteq> Busy ms l) \<and> (\<forall>ms l. ct_server c' \<noteq> Busy ms l) \<and> ct_answers c' = ct_answers c"

lemma stranded_step:
  assumes st: "stranded c req c1" and e: "unasked e" "control_step e c1 = Some c2"
  shows "stranded c req c2"
proof (cases e)
  case (Session inputs)
  obtain out S' where "handle_client_connection (ct_ss c1) inputs = Inr (out, S')" "to_naming out = []"
    using Session e unreported_session by (fastforce simp: client_session_def split: sum.splits)
  with Session e st show ?thesis by (auto simp: stranded_def client_session_def Let_def)
qed (use st e in \<open>auto simp: stranded_def control_steps split: if_splits listener.splits bool.splits\<close>)

lemma stranded_run:
  assumes "stranded c req c1" "list_all unasked es" "control_run es c1 = Some c2"
  shows "stranded c req c2"
  using assms
proof (induction es arbitrary: c1)
  case (Cons e es)
  then obtain c1' where "control_step e c1 = Some c1'" "control_run es c1' = Some c2" by (auto split: bind_splits)
  with Cons stranded_step show ?case by fastforce
qed simp

text \<open>
  C32: the thread of the connection can take the answer to a CREATE or DELETE and drop it.  Then, as long
  as no heartbeat and no other message is sent to the storage server and nothing is reported to
  the naming server, no run of all the threads gives the handler an answer: it keeps
  \<open>trie_mutex\<close>, and no further request of that kind is sent.
\<close>

theorem answer_taken_away:
  assumes "m_type req \<in> {MSG_CREATE_FILE_SS, MSG_DELETE_FILE_SS}" "idle c" "ct_listener c = Listening l"
  shows "\<exists>c1. control_run [Relay req, Relay_Recv, Serve, Listener_Read] c = Some c1
    \<and> (\<forall>es c2. list_all unasked es \<and> control_run es c1 = Some c2
         \<longrightarrow> ct_relay c2 = Relay_Waits req False \<and> ct_answers c2 = ct_answers c \<and> (\<forall>req'. control_step (Relay req') c2 = None))"
proof -
  obtain a S' where a: "nm_request (ct_ss c) req = ([(Naming_Server, a)], S')" "m_type a \<noteq> MSG_UPDATE_METADATA"
    by (rule relayed_answer [OF assms(1)]) fastforce
  then obtain c1 where c1: "control_run [Relay req, Relay_Recv, Serve, Listener_Read] c = Some c1" "stranded c req c1"
    using assms by (auto simp: idle_def relay_send_def relay_recv_def serve_def listener_read_def stranded_def Let_def)
  have "ct_relay c2 = Relay_Waits req False \<and> ct_answers c2 = ct_answers c \<and> (\<forall>req'. control_step (Relay req') c2 = None)"
    if "list_all unasked es" "control_run es c1 = Some c2" for es c2
    using stranded_run [OF c1(2) that] by (simp add: stranded_def relay_send_def)
  with c1(1) show ?thesis by blast
qed

theorem answer_taken_away_witness:
  "\<exists>c1 c2. control_run [Relay (delete_request ''a''), Relay_Recv, Serve, Listener_Read] demo_control = Some c1
     \<and> control_run [Session []] c1 = Some c2 \<and> ct_relay c2 = Relay_Waits (delete_request ''a'') False \<and> ct_answers c2 = []"
proof -
  let ?req = "delete_request ''a''"
  have "m_type ?req \<in> {MSG_CREATE_FILE_SS, MSG_DELETE_FILE_SS}" by simp
  from answer_taken_away [OF this demo_control_idle(1,3)] obtain c1 where
    c1: "control_run [Relay ?req, Relay_Recv, Serve, Listener_Read] demo_control = Some c1"
    and stays: "list_all unasked es \<Longrightarrow> control_run es c1 = Some c2 \<Longrightarrow> ct_relay c2 = Relay_Waits ?req False \<and> ct_answers c2 = []"
    for es c2 by auto
  obtain c2 where c2: "control_run [Session []] c1 = Some c2"
    by (auto simp: client_session_def handle_client_connection_def)
  have "list_all unasked [Session []]" by (simp add: unreported_def)
  from c1 c2 stays [OF this c2] show ?thesis by blast
qed

section \<open>The thread of the storage server ends\<close>

text \<open>
  A message that \<open>nm_communication_thread\<close> serves while a client connection has the time limit on
  makes its next \<open>recv\<close> fail after a second: the thread ends for good, and from then on every
  heartbeat finds the server dead unless another message was on its way.
\<close>

lemma server_gone:
  assumes "ct_server c = Gone" "control_run es c = Some c'"
  shows "ct_server c' = Gone"
  using assms
proof (induction es arbitrary: c)
  case (Cons e es)
  then obtain c1 where c1: "control_step e c = Some c1" "control_run es c1 = Some c'" by (auto split: bind_splits)
  have "ct_server c1 = Gone"
    using c1(1) Cons.prems(1) by (cases e) (auto simp: control_steps Let_def split: relay.splits list.splits if_splits listener.splits bool.splits sum.splits)
  with Cons.IH c1(2) show ?case by blast
qed simp

lemma server_thread_lost:
  assumes "ct_server c = Listening l" "ct_ss_limit c" "ct_down c = m # ms" "m_type m \<noteq> MSG_WRITE_FILE_SS"
  obtains c1 where "control_run [Serve, Serve_Timeout] c = Some c1" "ct_server c1 = Gone"
    "\<And>es c2. control_run es c1 = Some c2 \<Longrightarrow> ct_server c2 = Gone"
proof -
  obtain out S' where "nm_request (ct_ss c) m = (out, S')" by (cases "nm_request (ct_ss c) m")
  with assms have "\<exists>c1. control_run [Serve, Serve_Timeout] c = Some c1 \<and> ct_server c1 = Gone"
    by (auto simp: serve_def serve_timeout_def Let_def)
  with that server_gone show thesis by blast
qed

end
