(* ===== verification/Naming_Interleaving.thy ===== *)
theory Naming_Interleaving
  imports Naming_Runs
begin

text \<open>
  Runs that interleave the pieces of all the threads of the naming server: the invariant, the one
  way in which freed memory is read, and who can change the rights on a file.  A piece ends where
  another thread can come in: after \<open>get_client_by_socket\<close>, whose pointer is read later, and where
  a mutex is released.
\<close>

section \<open>Runs\<close>

datatype nm_piece =
    Piece_Message nm_env int string int message
  | Piece_Update nm_env int message
  | Piece_Task nm_env nat
  | Piece_Leaves int
  | Piece_Joins nm_env int string message
  | Piece_Heartbeat nm_env

type_synonym nm_config = "naming_server \<times> nm_task list"

definition task_list :: "nm_task option \<Rightarrow> nm_task list" where
  "task_list t = (case t of None \<Rightarrow> [] | Some t \<Rightarrow> [t])"

text \<open>A piece that is not possible where it comes is skipped.\<close>

fun piece_step :: "nm_config \<Rightarrow> nm_piece \<Rightarrow> (nm_output \<times> nm_config) result" where
  "piece_step (S, ts) (Piece_Message E sock ip port msg) =
     (if Some sock \<in> task_socket ` set ts then Inr ([], S, ts)
      else ebind (begin_message E S sock ip port msg) (\<lambda>(out, S1, t). Inr (out, S1, ts @ task_list t)))"
| "piece_step (S, ts) (Piece_Update E sock msg) =
     ebind (begin_update E S sock msg) (\<lambda>(out, S1, t). Inr (out, S1, ts @ task_list t))"
| "piece_step (S, ts) (Piece_Task E i) =
     (if i < length ts
      then ebind (continue_task E S (ts ! i)) (\<lambda>(out, S1, t). Inr (out, S1, take i ts @ task_list t @ drop (Suc i) ts))
      else Inr ([], S, ts))"
| "piece_step (S, ts) (Piece_Leaves sock) =
     Inr ([], if Some sock \<in> task_socket ` set ts then S else leave_client S sock, ts)"
| "piece_step (S, ts) (Piece_Joins E sock ip msg) = ebind (handle_ss_register E S sock ip msg) (\<lambda>(out, S1). Inr (out, S1, ts))"
| "piece_step (S, ts) (Piece_Heartbeat E) = Inr ([], S\<lparr>nm_servers := heartbeat_round E (nm_servers S) 0\<rparr>, ts)"

fun run_pieces :: "nm_config \<Rightarrow> nm_piece list \<Rightarrow> (nm_output \<times> nm_config) result" where
  "run_pieces c [] = Inr ([], c)"
| "run_pieces c (p # ps) =
     ebind (piece_step c p) (\<lambda>(out, c1). ebind (run_pieces c1 ps) (\<lambda>(out', c2). Inr (out @ out', c2)))"

definition piece_ok :: "nm_piece \<Rightarrow> bool" where
  "piece_ok p \<longleftrightarrow> (case p of
       Piece_Message E sock ip port msg \<Rightarrow> request_ok msg
     | Piece_Joins E sock ip msg \<Rightarrow> seed_ok msg
     | _ \<Rightarrow> True)"

text \<open>Whether a run has a message of user \<open>u\<close> about \<open>f\<close>, each judged in the state it meets.\<close>

definition piece_by :: "naming_server \<Rightarrow> string \<Rightarrow> string \<Rightarrow> nm_piece \<Rightarrow> bool" where
  "piece_by S u f p \<longleftrightarrow> (case p of
       Piece_Message E sock ip port msg \<Rightarrow> m_filename msg = f \<and> acting_user S sock msg = u
     | _ \<Rightarrow> False)"

fun pieces_have :: "nm_config \<Rightarrow> string \<Rightarrow> string \<Rightarrow> nm_piece list \<Rightarrow> bool" where
  "pieces_have c u f [] = False"
| "pieces_have c u f (p # ps) =
     (piece_by (fst c) u f p \<or> (case piece_step c p of Inl _ \<Rightarrow> False | Inr (out, c1) \<Rightarrow> pieces_have c1 u f ps))"

text \<open>
  Whether the places in \<open>client_registry\<close> that the waiting handlers point to keep their users.  A
  client that leaves moves the entries above its own; a client that registers can take the place
  of one that has left.
\<close>

definition names_stay :: "naming_server \<Rightarrow> nm_task list \<Rightarrow> naming_server \<Rightarrow> bool" where
  "names_stay S ts S' \<longleftrightarrow> list_all (\<lambda>t. case t of
       Handling sock msg i \<Rightarrow> ci_username (client_slot S' i) = ci_username (client_slot S i)
     | _ \<Rightarrow> True) ts"

fun entries_stay :: "nm_config \<Rightarrow> nm_piece list \<Rightarrow> bool" where
  "entries_stay c [] = True"
| "entries_stay c (p # ps) =
     (case piece_step c p of
        Inl _ \<Rightarrow> True
      | Inr (out, c1) \<Rightarrow> names_stay (fst c) (snd c) (fst c1) \<and> entries_stay c1 ps)"

section \<open>What a task may rely on\<close>

fun task_ok :: "nm_task \<Rightarrow> bool" where
  "task_ok (Handling sock msg i) = request_ok msg"
| "task_ok (Moving sock msg) = short_name (m_filename msg)"
| "task_ok (Queueing sock msg) = message_ok msg"
| "task_ok (Granting sock msg acc tx) = (length (m_data msg) < MAX_USERNAME_LEN)"
| "task_ok _ = True"

text \<open>The file on which a task will change the rights.\<close>

fun grants_on :: "nm_task \<Rightarrow> string option" where
  "grants_on (Resolving sock msg approve acc tx) = (if approve then Some (m_filename msg) else None)"
| "grants_on (Granting sock msg acc tx) = Some (m_filename msg)"
| "grants_on _ = None"

text \<open>On which file, and for whom, a task can change the rights.\<close>

definition may_act :: "naming_server \<Rightarrow> nm_task \<Rightarrow> string \<Rightarrow> string \<Rightarrow> bool" where
  "may_act S t u f \<longleftrightarrow> grants_on t = Some f
     \<or> (case t of Handling sock msg i \<Rightarrow> m_filename msg = f \<and> ci_username (client_slot S i) = u | _ \<Rightarrow> False)"

lemma may_act_simps [simp]:
  "may_act S (Handling sock msg i) u f \<longleftrightarrow> m_filename msg = f \<and> ci_username (client_slot S i) = u"
  "may_act S (Creating_Replica sock p q) u f = False" "may_act S (Executing sock r) u f = False"
  "may_act S (Moving sock msg) u f = False" "may_act S (Announcing_Move sock msg r') u f = False"
  "may_act S (Queueing sock msg) u f = False"
  "may_act S (Resolving sock msg approve acc tx) u f \<longleftrightarrow> approve \<and> m_filename msg = f"
  "may_act S (Granting sock msg acc tx) u f \<longleftrightarrow> m_filename msg = f"
  "may_act S (Replicating g) u f = False" "may_act S (Copying r) u f = False"
  by (auto simp: may_act_def)

text \<open>The body of a handler, for the client that it reads: it leaves no right to change to a task.\<close>

definition body_ok :: "string \<Rightarrow> string \<Rightarrow> naming_server \<Rightarrow> nm_output \<times> naming_server \<times> nm_task option \<Rightarrow> bool" where
  "body_ok u f S x \<longleftrightarrow> (case x of (out, S1, t) \<Rightarrow>
     nm_ok S1 \<and> permitted u f S S1 \<and> (\<forall>t'. t = Some t' \<longrightarrow> task_ok t' \<and> (\<forall>v g. \<not> may_act S1 t' v g)))"

lemma body_atomic: "safe r (step_ok u f S) \<Longrightarrow> safe (no_task r) (body_ok u f S)"
  unfolding no_task_def safe_simps by (erule safe_mono) (auto simp: step_ok_def body_ok_def)

lemma body_ok_same:
  assumes "nm_ok S1" "nm_files S1 = nm_files S" "\<And>t'. t = Some t' \<Longrightarrow> task_ok t' \<and> (\<forall>v g. \<not> may_act S1 t' v g)"
  shows "body_ok u f S (out, S1, t)"
  using assms permitted_same [of S1 S u f] by (auto simp: body_ok_def)

lemma safe_look_up:
  assumes "nm_ok S" "short_name f" "\<And>S1 out. nm_ok S1 \<Longrightarrow> nm_files S1 = nm_files S \<Longrightarrow> P (out, S1, None)"
    and "\<And>S1 m. nm_ok S1 \<Longrightarrow> nm_files S1 = nm_files S \<Longrightarrow> nm_files S f = Some m \<Longrightarrow> safe (k S1 m) P"
  shows "safe (look_up_file E S sock f k) P"
  unfolding look_up_file_def safe_simps
  by (rule safe_lookup [OF assms(1,2)]) (auto simp: meta_at_def assms(3,4))

lemma create_start_ok:
  assumes "nm_ok S" "short_name (m_filename msg)" and c: "length (ci_username c) < MAX_USERNAME_LEN"
  shows "safe (create_start E S sock msg c) (body_ok (ci_username c) (m_filename msg) S)"
proof -
  let ?f = "m_filename msg" and ?u = "ci_username c"
  show ?thesis
  proof (cases "trie_search (nm_trie S) ?f = None")
    case False
    with assms(1) show ?thesis by (auto simp: create_start_def intro!: body_ok_same)
  next
    case True
    then have new: "nm_files S ?f = None" using nm_files_None [OF nm_ok_index [OF assms(1)]] by simp
    have body: "safe (ebind (add_metadata E (S\<lparr>nm_last_selected := l\<rparr>) ?f (create_file_metadata ?f ?u i ip p (env_now E))) (\<lambda>S2.
        ebind (save_metadata S2) (\<lambda>S3. Inr (out, S3, Some (Creating_Replica sock i q))))) (body_ok ?u ?f S)" for l i ip p q out
      unfolding safe_simps
    proof (rule safe_add_metadata)
      fix S2
      assume S2: "nm_ok S2" "nm_files S2 = (nm_files (S\<lparr>nm_last_selected := l\<rparr>))(?f \<mapsto> create_file_metadata ?f ?u i ip p (env_now E))"
      then have files: "nm_files S2 = (nm_files S)(?f \<mapsto> create_file_metadata ?f ?u i ip p (env_now E))" by simp
      have perm: "permitted ?u ?f S S2"
        by (rule permitted_create [OF new files]) (simp_all add: create_metadata_rights c)
      show "safe (save_metadata S2) (\<lambda>S3. body_ok ?u ?f S (out, S3, Some (Creating_Replica sock i q)))"
        by (intro safe_save [OF nm_ok_index [OF S2(1)]]) (use perm permitted_files [of "S2\<lparr>nm_metadata_dat := _\<rparr>" S2] in \<open>simp add: body_ok_def S2(1)\<close>)
    qed (use assms(1,2) in \<open>simp_all add: create_file_metadata_ok create_metadata_filename short_name_def\<close>)
    have same: "body_ok ?u ?f S (out, S\<lparr>nm_last_selected := l\<rparr>, None)" for out l
      by (rule body_ok_same) (use assms(1) in simp_all)
    show ?thesis
      using True body same by (auto simp: create_start_def Let_def simp del: safe_simps(3) split: option.split prod.split)
  qed
qed

lemma exec_start_ok:
  assumes "nm_ok S" "short_name (m_filename msg)"
  shows "safe (exec_start E S sock msg c) (body_ok u (m_filename msg) S)"
proof -
  have "safe (lookup_metadata E S (m_filename msg)) (\<lambda>x. safe (case x of (S1, found) \<Rightarrow>
      (case found of None \<Rightarrow> Inr ([(sock, file_not_found)], S1, None)
       | Some r \<Rightarrow> ebind (meta_at S1 r) (\<lambda>m.
           if check_file_access m (ci_username c) = ACCESS_NONE then Inr ([(sock, access_denied)], S1, None) else Inr ([], S1, Some r))))
      (\<lambda>(out, S1, go). nm_ok S1 \<and> nm_files S1 = nm_files S))"
    by (rule safe_lookup [OF assms]) (auto simp: meta_at_def)
  then show ?thesis
    unfolding exec_start_def exec_check_def safe_simps by (auto elim!: safe_mono intro!: body_ok_same)
qed

lemma client_handler_ok:
  assumes "nm_ok S" "request_ok msg" "client_handler (m_type msg) = Some h" "length (ci_username c) < MAX_USERNAME_LEN"
  shows "safe (h E S sock msg c) (body_ok (ci_username c) (m_filename msg) S)"
proof -
  have f: "short_name (m_filename msg)" using assms(2) by (simp add: request_ok_def message_ok_def short_name_def)
  have data: "m_type msg = MSG_ADDACCESS \<Longrightarrow> length (m_data msg) < MAX_USERNAME_LEN"
    "m_type msg = MSG_CREATE_FOLDER \<Longrightarrow> length (m_data msg) < MAX_FILENAME_LEN" using assms(2) by (auto simp: request_ok_def)
  have move: "safe (move_start E S sock msg) (body_ok u (m_filename msg) S)" for u
    unfolding move_start_def by (rule safe_look_up [OF assms(1) f]) (auto intro!: body_ok_same simp: f)
  note bodies = lookup_bodies_ok [OF assms(1) f] file_bodies_ok [OF assms(1) f] view_folder_body_ok [OF assms(1)]
    view_files_body_ok [OF assms(1)] add_access_body_ok [OF assms(1) f data(1) refl]
    remove_access_body_ok [OF assms(1) f refl] delete_file_body_ok [OF assms(1) f refl] create_folder_body_ok [OF assms(1) data(2)]
  show ?thesis
    using assms(3)
    by (cases "m_type msg") (auto simp: client_handler_def intro!: body_atomic bodies create_start_ok [OF assms(1) f assms(4)]
        exec_start_ok [OF assms(1) f] move)
qed

text \<open>A piece that begins: the new task, and for whom it may change rights.\<close>

definition begin_ok :: "string \<Rightarrow> string \<Rightarrow> naming_server \<Rightarrow> nm_output \<times> naming_server \<times> nm_task option \<Rightarrow> bool" where
  "begin_ok u f S x \<longleftrightarrow> (case x of (out, S1, t) \<Rightarrow>
     nm_ok S1 \<and> permitted u f S S1
     \<and> (\<forall>t'. t = Some t' \<longrightarrow> task_ok t' \<and> (\<forall>v g. may_act S1 t' v g \<longrightarrow> g = f \<and> (v = u \<or> (\<exists>m. nm_files S f = Some m \<and> fm_owner m = u)))))"

lemma begin_atomic: "safe r (step_ok u f S) \<Longrightarrow> safe (no_task r) (begin_ok u f S)"
  unfolding no_task_def safe_simps by (erule safe_mono) (auto simp: step_ok_def begin_ok_def)

lemma begin_ok_same:
  assumes "nm_ok S1" "nm_files S1 = nm_files S"
    and "\<And>t'. t = Some t' \<Longrightarrow> task_ok t'"
    and "\<And>t' v g. t = Some t' \<Longrightarrow> may_act S1 t' v g \<Longrightarrow> g = f \<and> (v = u \<or> (\<exists>m. nm_files S f = Some m \<and> fm_owner m = u))"
  shows "begin_ok u f S (out, S1, t)"
  using assms permitted_same [of S1 S u f] by (auto simp: begin_ok_def)

lemma begin_message_ok:
  assumes "nm_ok S" "request_ok msg"
  shows "safe (begin_message E S sock ip port msg) (begin_ok (acting_user S sock msg) (m_filename msg) S)"
proof (cases "client_handler (m_type msg)")
  case (Some h)
  then have "m_type msg \<noteq> MSG_APPROVE_REQUEST" by (auto simp: client_handler_def)
  then have "acting_user S sock msg = ci_username (client_slot S i)" if "client_index S sock = Some i" for i
    using that by (simp add: acting_user_def client_index_get)
  with Some assms show ?thesis by (auto simp: begin_message_def intro!: begin_ok_same)
next
  case None
  have f: "short_name (m_filename msg)" "message_ok msg" using assms(2) by (simp_all add: request_ok_def message_ok_def short_name_def)
  have request: "safe (request_start E S sock msg) (begin_ok u (m_filename msg) S)" for u
    unfolding request_start_def by (rule safe_look_up [OF assms(1) f(1)]) (auto intro!: begin_ok_same simp: f)
  have resolve: "safe (resolve_start E S sock msg approve acc tx) (begin_ok u (m_filename msg) S)"
    if "approve \<Longrightarrow> u = m_sender msg" for u approve acc tx
    unfolding resolve_start_def by (rule safe_look_up [OF assms(1) f(1)]) (use that in \<open>auto intro!: begin_ok_same split: if_splits\<close>)
  have approve: "m_type msg = MSG_APPROVE_REQUEST \<Longrightarrow>
      safe (resolve_start E S sock msg True acc tx) (begin_ok (acting_user S sock msg) (m_filename msg) S)" for acc tx
    by (rule resolve) (simp add: acting_user_def)
  have deny: "safe (resolve_start E S sock msg False acc tx) (begin_ok u (m_filename msg) S)" for u acc tx
    by (rule resolve) simp
  have skip: "begin_ok u (m_filename msg) S ([], S, None)" for u by (rule begin_ok_same) (use assms(1) in simp_all)
  show ?thesis
    using None unfolding begin_message_def direct_body_def option.case
    by (cases "m_type msg")
       (simp_all add: client_handler_def request approve deny skip
          begin_atomic nm_register_ok [OF assms(1) f(2)] nm_handle_list_users_ok [OF assms(1)] nm_view_requests_ok [OF assms(1)])
qed

text \<open>A piece that goes on: rights change only as far as the task was to change them.\<close>

definition continue_ok :: "nm_task \<Rightarrow> naming_server \<Rightarrow> nm_output \<times> naming_server \<times> nm_task option \<Rightarrow> bool" where
  "continue_ok t S x \<longleftrightarrow> (case x of (out, S1, t1) \<Rightarrow>
     nm_ok S1 \<and> (\<forall>u f. \<not> may_act S t u f \<longrightarrow> keeps_rights S u f S1)
     \<and> (\<forall>t'. t1 = Some t' \<longrightarrow> task_ok t' \<and> (\<forall>u f. may_act S1 t' u f \<longrightarrow> may_act S t u f)))"

lemma rel_keeps: "rel_option same_rights (nm_files S f) (nm_files S1 f) \<Longrightarrow> keeps_rights S u f S1"
  by (auto simp: keeps_rights_def option_rel_Some1)

lemma keeps_same: "nm_files S1 = nm_files S \<Longrightarrow> keeps_rights S u f S1"
  by (simp add: quiet_keeps)

lemma continue_same:
  "nm_ok S1 \<Longrightarrow> nm_files S1 = nm_files S \<Longrightarrow> continue_ok t S (out, S1, None)"
  "nm_ok S1 \<Longrightarrow> nm_files S1 = nm_files S \<Longrightarrow> task_ok t' \<Longrightarrow> (\<And>u f. may_act S1 t' u f \<Longrightarrow> may_act S t u f) \<Longrightarrow> continue_ok t S (out, S1, Some t')"
  by (simp_all add: continue_ok_def keeps_same)

lemma handling_ok:
  assumes "nm_ok S" "request_ok msg"
  shows "safe (continue_task E S (Handling sock msg i)) (continue_ok (Handling sock msg i) S)"
proof (cases "client_handler (m_type msg)")
  case None
  with assms(1) show ?thesis by (simp add: continue_same)
next
  case (Some h)
  have "continue_ok (Handling sock msg i) S x" if "body_ok (ci_username (client_slot S i)) (m_filename msg) S x" for x
    using that permitted_keeps by (fastforce simp: body_ok_def continue_ok_def split: prod.splits)
  with Some show ?thesis by (auto intro!: safe_mono [OF client_handler_ok [OF assms Some client_slot_short [OF assms(1)]]])
qed

lemma grant_taken_ok:
  assumes "nm_ok S" "length (m_data msg) < MAX_USERNAME_LEN"
  shows "safe (grant_taken S sock msg acc tx) (continue_ok (Granting sock msg acc tx) S)"
proof (cases "trie_search (nm_trie S) (m_filename msg)")
  case None
  with assms(1) show ?thesis by (simp add: grant_taken_def resolve_grant_def continue_same)
next
  case (Some r)
  let ?f = "m_filename msg"
  obtain m where m: "nm_heap S r = Some m" "nm_files S ?f = Some m" "fm_filename m = ?f" "acl_ok m"
    using index_ref [OF nm_ok_index [OF assms(1)] Some] by blast
  let ?m = "fst (add_file_access m (m_data msg) acc)"
  have m': "fm_filename ?m = ?f" "acl_ok ?m" using m assms(2) by (simp_all add: add_file_access_ok)
  note p = nm_ok_put_meta [OF assms(1) Some m'] put_meta_spec(2) [OF nm_ok_index [OF assms(1)] Some m']
  have "safe (save_metadata (put_meta S r ?m)) (\<lambda>S1. continue_ok (Granting sock msg acc tx) S ([(sock, ack_reply tx)], S1, None))"
    by (rule safe_save [OF nm_ok_index [OF p(1)]]) (auto simp: continue_ok_def p option.rel_refl intro!: rel_keeps)
  with Some m(1) show ?thesis by (simp add: grant_taken_def resolve_grant_def meta_at_def)
qed

lemma continue_task_ok:
  assumes "nm_ok S" "task_ok t" "\<And>r. task_pointer t = Some r \<Longrightarrow> nm_heap S r \<noteq> None"
  shows "safe (continue_task E S t) (continue_ok t S)"
proof (cases t)
  case (Handling sock msg i)
  with handling_ok [OF assms(1)] assms(2) show ?thesis by simp
next
  case (Creating_Replica sock primary ss_msg)
  show ?thesis
    unfolding Creating_Replica continue_task.simps no_task_def safe_simps
    by (rule safe_mono [OF create_replica_ok [OF assms(1)]]) (auto intro: continue_same)
next
  case (Executing sock r)
  then obtain m where "nm_heap S r = Some m" using assms(3) by auto
  with Executing assms(1) show ?thesis
    by (auto simp: no_task_def exec_run_def meta_at_def intro!: continue_same split: option.split)
next
  case (Moving sock msg)
  have fs: "\<not> nm_folders_mutex S" "folders_ok (nm_folders S)" using nm_ok_mutex [OF assms(1)] by simp_all
  have "safe (move_file_to_folder False (nm_folders S) (m_filename msg) (m_data msg)) (\<lambda>(rc, held, fs). \<not> held \<and> folders_ok fs)"
    using move_folders_ok [OF fs(2)] assms(2) Moving by (simp add: short_name_def)
  then show ?thesis
    using Moving assms(1) fs(1)
    by (auto simp: move_folders_def Let_def nm_ok_folders elim!: safe_mono intro!: continue_same)
next
  case (Announcing_Move sock msg meta2)
  show ?thesis
  proof (cases meta2)
    case None
    with Announcing_Move assms(1) show ?thesis by (simp add: announce_move_def Let_def continue_same)
  next
    case (Some r)
    with Announcing_Move assms(3) obtain m where "nm_heap S r = Some m" by auto
    with Announcing_Move Some assms(1) show ?thesis by (simp add: announce_move_def Let_def meta_at_def continue_same)
  qed
next
  case (Queueing sock msg)
  then have f: "short_name (m_filename msg)" "length (m_sender msg) < MAX_USERNAME_LEN"
    using assms(2) by (simp_all add: message_ok_def short_name_def)
  obtain rc reqs dat where a: "access_requests_append (nm_requests S) (nm_requests_dat S) (m_filename msg) (m_sender msg)
      (requested_access msg) (env_now E) = (rc, reqs, dat)" by (rule prod_cases3)
  from nm_ok_append [OF assms(1) f a] Queueing show ?thesis by (auto simp: queue_request_def a intro: continue_same)
next
  case (Resolving sock msg approve acc tx)
  obtain rc reqs dat where t: "take_request (nm_requests S) (nm_requests_dat S) (m_filename msg) (m_data msg) = (rc, reqs, dat)"
    by (rule prod_cases3)
  note ok = nm_ok_take [OF assms(1) t]
  have "rc = 0 \<Longrightarrow> length (m_data msg) < MAX_USERNAME_LEN" by (rule take_request_short [OF assms(1) t])
  with Resolving ok show ?thesis by (auto simp: resolve_taken_def resolve_take_def t intro!: continue_same)
next
  case (Granting sock msg acc tx)
  with grant_taken_ok [OF assms(1)] assms(2) show ?thesis by simp
next
  case (Replicating f)
  with assms(1) show ?thesis by (cases "trie_search (nm_trie S) f") (auto intro!: continue_same)
next
  case (Copying r)
  then obtain m where "nm_heap S r = Some m" using assms(3) by auto
  with Copying assms(1) show ?thesis by (simp add: meta_at_def continue_same)
qed

section \<open>Every run\<close>

lemma dangling_task:
  assumes "nm_ok S" "task_ok t" "continue_task E S t = Inl UseAfterFree"
  obtains r where "task_pointer t = Some r" "nm_heap S r = None"
  using continue_task_ok [OF assms(1,2), of E] assms(3) that by (cases "task_pointer t") fastforce+

definition tasks_ok :: "nm_task list \<Rightarrow> bool" where
  "tasks_ok ts \<longleftrightarrow> list_all task_ok ts"

definition owned_by :: "naming_server \<Rightarrow> string \<Rightarrow> string \<Rightarrow> bool" where
  "owned_by S u f \<longleftrightarrow> (\<exists>m. nm_files S f = Some m \<and> fm_owner m = u)"

definition no_actor :: "naming_server \<Rightarrow> nm_task list \<Rightarrow> string \<Rightarrow> string \<Rightarrow> bool" where
  "no_actor S ts u f \<longleftrightarrow> list_all (\<lambda>t. \<not> may_act S t u f) ts"

lemma no_actor_append: "no_actor S (ts @ [t]) u f \<longleftrightarrow> no_actor S ts u f \<and> \<not> may_act S t u f"
  by (simp add: no_actor_def)

lemma no_actor_stays:
  assumes "no_actor S ts u f" "names_stay S ts S'"
  shows "no_actor S' ts u f"
proof -
  have "\<not> may_act S' t u f" if "t \<in> set ts" for t
  proof -
    have "\<not> may_act S t u f" "case t of Handling sock msg i \<Rightarrow> ci_username (client_slot S' i) = ci_username (client_slot S i) | _ \<Rightarrow> True"
      using assms that by (auto simp: no_actor_def names_stay_def list_all_iff)
    then show ?thesis by (cases t) auto
  qed
  then show ?thesis by (simp add: no_actor_def list_all_iff)
qed

text \<open>What one piece keeps, whoever acts; \<open>u\<close> owns \<open>f\<close> and does nothing about it.\<close>

definition piece_keeps :: "nm_config \<Rightarrow> string \<Rightarrow> string \<Rightarrow> nm_piece \<Rightarrow> nm_config \<Rightarrow> bool" where
  "piece_keeps c u f p c' \<longleftrightarrow> nm_ok (fst c') \<and> tasks_ok (snd c')
     \<and> (owned_by (fst c) u f \<and> no_actor (fst c) (snd c) u f \<and> \<not> piece_by (fst c) u f p \<and> names_stay (fst c) (snd c) (fst c')
          \<longrightarrow> keeps_rights (fst c) u f (fst c') \<and> no_actor (fst c') (snd c') u f)"

lemma piece_keeps_quiet:
  "nm_ok S1 \<Longrightarrow> tasks_ok ts \<Longrightarrow> quiet S S1 \<Longrightarrow> piece_keeps (S, ts) u f p (S1, ts)"
  by (auto simp: piece_keeps_def quiet_keeps intro: no_actor_stays)

lemma piece_step_ok:
  assumes "nm_ok S" "tasks_ok ts" "piece_ok p" "\<And>E i. p \<noteq> Piece_Task E i"
  shows "safe (piece_step (S, ts) p) (\<lambda>(out, c'). piece_keeps (S, ts) u f p c')"
proof (cases p)
  case (Piece_Message E sock ip port msg)
  have req: "request_ok msg" using assms(3) Piece_Message by (simp add: piece_ok_def)
  show ?thesis
  proof (cases "Some sock \<in> task_socket ` set ts")
    case True
    with Piece_Message assms(1,2) show ?thesis by (simp add: piece_keeps_quiet)
  next
    case False
    have "piece_keeps (S, ts) u f p (S1, ts @ task_list t)"
      if b: "begin_ok (acting_user S sock msg) (m_filename msg) S (out, S1, t)" for out S1 t
    proof -
      have "tasks_ok (ts @ task_list t)" using b assms(2) by (auto simp: begin_ok_def tasks_ok_def task_list_def split: option.splits)
      moreover have "keeps_rights S u f S1 \<and> no_actor S1 (ts @ task_list t) u f"
        if "owned_by S u f" "no_actor S ts u f" "\<not> piece_by S u f p" "names_stay S ts S1"
      proof -
        have other: "\<not> (m_filename msg = f \<and> acting_user S sock msg = u)" using that(3) Piece_Message by (simp add: piece_by_def)
        have "keeps_rights S u f S1" using b other permitted_keeps by (auto simp: begin_ok_def)
        moreover have "\<not> may_act S1 t' u f" if "t = Some t'" for t'
        proof
          assume "may_act S1 t' u f"
          with b that have "f = m_filename msg \<and> (u = acting_user S sock msg \<or> (\<exists>m. nm_files S (m_filename msg) = Some m \<and> fm_owner m = acting_user S sock msg))"
            unfolding begin_ok_def prod.case by blast
          with other \<open>owned_by S u f\<close> show False by (auto simp: owned_by_def)
        qed
        ultimately show ?thesis using no_actor_stays [OF that(2,4)] by (auto simp: no_actor_def task_list_def split: option.split)
      qed
      ultimately show ?thesis using b by (simp add: piece_keeps_def begin_ok_def)
    qed
    with False Piece_Message show ?thesis
      by (auto intro!: safe_mono [OF begin_message_ok [OF assms(1) req]])
  qed
next
  case (Piece_Update E sock msg)
  have "safe (update_counts E S msg) (\<lambda>S1. piece_keeps (S, ts) u f p (S1, ts @ [Replicating (m_filename msg)]))"
    by (rule safe_mono [OF update_counts_ok [OF assms(1)]])
       (use assms(2) in \<open>auto simp: piece_keeps_def tasks_ok_def quiet_keeps no_actor_append intro: no_actor_stays\<close>)
  with Piece_Update show ?thesis by (simp add: begin_update_def task_list_def)
next
  case (Piece_Task E i)
  with assms(4) show ?thesis by blast
next
  case (Piece_Leaves sock)
  with assms show ?thesis by (simp add: piece_keeps_quiet leave_client_ok)
next
  case (Piece_Joins E sock ip msg)
  then have "seed_ok msg" using assms(3) by (simp add: piece_ok_def)
  have "safe (handle_ss_register E S sock ip msg) (\<lambda>(out, S1). piece_keeps (S, ts) u f p (S1, ts))"
    by (rule safe_mono [OF handle_ss_register_ok [OF assms(1) \<open>seed_ok msg\<close>, of E sock ip]])
       (use assms(2) in \<open>auto simp: piece_keeps_def keeps_rights_def intro: no_actor_stays, metis option.distinct(1) same_rights_refl\<close>)
  with Piece_Joins show ?thesis by (auto elim!: safe_mono)
next
  case (Piece_Heartbeat E)
  have "ss_registry_ok (nm_servers S)" using assms(1) by (simp add: nm_ok_def tables_ok_def)
  with Piece_Heartbeat assms(1,2) show ?thesis by (simp add: piece_keeps_quiet nm_ok_servers heartbeat_round_ok)
qed

lemma task_step_ok:
  assumes "nm_ok S" "tasks_ok ts" "i < length ts" "\<And>r. task_pointer (ts ! i) = Some r \<Longrightarrow> nm_heap S r \<noteq> None"
  shows "safe (piece_step (S, ts) (Piece_Task E i)) (\<lambda>(out, c'). piece_keeps (S, ts) u f (Piece_Task E i) c')"
proof -
  have t: "task_ok (ts ! i)" using assms(2,3) by (simp add: tasks_ok_def list_all_length)
  have sub: "set (take i ts) \<subseteq> set ts" "set (drop (Suc i) ts) \<subseteq> set ts" by (simp_all add: set_take_subset set_drop_subset)
  have "piece_keeps (S, ts) u f (Piece_Task E i) (S1, take i ts @ task_list t1 @ drop (Suc i) ts)"
    if b: "continue_ok (ts ! i) S (out, S1, t1)" for out S1 t1
  proof -
    have "tasks_ok (take i ts @ task_list t1 @ drop (Suc i) ts)"
      using b assms(2) sub by (auto simp: continue_ok_def tasks_ok_def task_list_def list_all_iff split: option.splits)
    moreover have "keeps_rights S u f S1 \<and> no_actor S1 (take i ts @ task_list t1 @ drop (Suc i) ts) u f"
      if no: "no_actor S ts u f" and "names_stay S ts S1"
    proof -
      have "\<not> may_act S (ts ! i) u f" using no assms(3) by (simp add: no_actor_def list_all_length)
      then have "keeps_rights S u f S1" "\<And>t'. t1 = Some t' \<Longrightarrow> \<not> may_act S1 t' u f"
        using b by (auto simp: continue_ok_def)
      with no_actor_stays [OF that] sub show ?thesis by (auto simp: no_actor_def list_all_iff task_list_def split: option.split)
    qed
    ultimately show ?thesis using b by (simp add: piece_keeps_def continue_ok_def)
  qed
  with assms(3) show ?thesis by (auto intro!: safe_mono [OF continue_task_ok [OF assms(1) t assms(4)]])
qed

text \<open>The only way in which a run reads freed memory.\<close>

definition dangling_run :: "nm_config \<Rightarrow> nm_piece list \<Rightarrow> bool" where
  "dangling_run c ps \<longleftrightarrow>
     (\<exists>ps1 E i ps2 out S1 ts1 r. ps = ps1 @ Piece_Task E i # ps2 \<and> run_pieces c ps1 = Inr (out, S1, ts1)
        \<and> i < length ts1 \<and> task_pointer (ts1 ! i) = Some r \<and> nm_heap S1 r = None)"

lemma dangling_run_Cons:
  assumes "piece_step c p = Inr (out, c1)" "dangling_run c1 ps"
  shows "dangling_run c (p # ps)"
proof -
  obtain ps1 E i ps2 out1 S1 ts1 r where "ps = ps1 @ Piece_Task E i # ps2" "run_pieces c1 ps1 = Inr (out1, S1, ts1)"
    "i < length ts1" "task_pointer (ts1 ! i) = Some r" "nm_heap S1 r = None"
    using assms(2) by (auto simp: dangling_run_def)
  moreover from this(2) have "run_pieces c (p # ps1) = Inr (out @ out1, S1, ts1)" using assms(1) by simp
  ultimately show ?thesis unfolding dangling_run_def by (metis append_Cons)
qed

lemma piece_step_cases:
  assumes "nm_ok S" "tasks_ok ts" "piece_ok p"
  shows "safe (piece_step (S, ts) p) (\<lambda>(out, c'). piece_keeps (S, ts) u f p c') \<or> dangling_run (S, ts) [p]"
proof (cases "\<exists>E i. p = Piece_Task E i")
  case True
  then obtain E i where p: "p = Piece_Task E i" by blast
  show ?thesis
  proof (cases "i < length ts \<and> (\<exists>r. task_pointer (ts ! i) = Some r \<and> nm_heap S r = None)")
    case True
    then show ?thesis unfolding dangling_run_def p by (fastforce intro: exI [of _ "[]"])
  next
    case False
    show ?thesis
    proof (cases "i < length ts")
      case True
      have "safe (piece_step (S, ts) p) (\<lambda>(out, c'). piece_keeps (S, ts) u f p c')"
        unfolding p by (rule task_step_ok [OF assms(1,2) True]) (use False True in auto)
      then show ?thesis ..
    next
      case False
      with p assms show ?thesis by (simp add: piece_keeps_quiet)
    qed
  qed
next
  case False
  with piece_step_ok [OF assms] show ?thesis by blast
qed

lemma run_pieces_ok:
  assumes "nm_ok (fst c)" "tasks_ok (snd c)" "list_all piece_ok ps"
  shows "safe (run_pieces c ps) (\<lambda>(out, c'). nm_ok (fst c')
      \<and> (owned_by (fst c) u f \<and> no_actor (fst c) (snd c) u f \<and> \<not> pieces_have c u f ps \<and> entries_stay c ps \<longrightarrow> keeps_rights (fst c) u f (fst c'))) \<or> dangling_run c ps"
  using assms
proof (induction ps arbitrary: c)
  case Nil
  then show ?case by (simp add: quiet_keeps)
next
  case (Cons p ps)
  obtain S ts where c: "c = (S, ts)" by fastforce
  have pre: "nm_ok S" "tasks_ok ts" "piece_ok p" "list_all piece_ok ps" using Cons.prems c by simp_all
  show ?case
  proof (cases "dangling_run (S, ts) [p]")
    case True
    then have "dangling_run c (p # ps)" unfolding dangling_run_def c by (fastforce simp: Cons_eq_append_conv)
    then show ?thesis ..
  next
    case False
    then have step: "safe (piece_step (S, ts) p) (\<lambda>(out, c'). piece_keeps (S, ts) u f p c')"
      using piece_step_cases [OF pre(1-3)] by blast
    show ?thesis
    proof (cases "piece_step (S, ts) p")
      case (Inl e)
      with step show ?thesis by (simp add: c)
    next
      case (Inr x)
      obtain out c1 where x: "x = (out, c1)" by (cases x)
      from step Inr x have k: "piece_keeps (S, ts) u f p c1" by simp
      then have "nm_ok (fst c1)" "tasks_ok (snd c1)" by (simp_all add: piece_keeps_def)
      from Cons.IH [OF this pre(4)] show ?thesis
      proof
        assume "dangling_run c1 ps"
        then show ?thesis using dangling_run_Cons [of c p out c1 ps] Inr x c by simp
      next
        assume ih: "safe (run_pieces c1 ps) (\<lambda>(out, c'). nm_ok (fst c') \<and> (owned_by (fst c1) u f \<and> no_actor (fst c1) (snd c1) u f
            \<and> \<not> pieces_have c1 u f ps \<and> entries_stay c1 ps \<longrightarrow> keeps_rights (fst c1) u f (fst c')))"
        have "owned_by (fst c1) u f" if "owned_by S u f" "keeps_rights S u f (fst c1)"
          using that by (auto simp: owned_by_def keeps_rights_def same_rights_def)
        then have "safe (run_pieces c1 ps) (\<lambda>(out, c'). nm_ok (fst c') \<and> (owned_by S u f \<and> no_actor S ts u f
            \<and> \<not> pieces_have c u f (p # ps) \<and> entries_stay c (p # ps) \<longrightarrow> keeps_rights S u f (fst c')))"
          using k Inr x c by (auto intro!: safe_mono [OF ih] simp: piece_keeps_def intro: keeps_rights_trans)
        then show ?thesis using Inr x c by (auto elim!: safe_mono)
      qed
    qed
  qed
qed

end
