(* ===== verification/Naming_Races.thy ===== *)
theory Naming_Races
  imports Naming_Interleaving Naming_Demo
begin

text \<open>
  What the interleaved runs of the naming server guarantee, and what the breaks in its handlers
  let through.
\<close>

section \<open>Every interleaving\<close>

lemma run_pieces_append:
  "run_pieces c (ps @ qs) = ebind (run_pieces c ps) (\<lambda>(out, c1). ebind (run_pieces c1 qs) (\<lambda>(out', c2). Inr (out @ out', c2)))"
proof (induction ps arbitrary: c)
  case Nil
  show ?case by (cases "run_pieces c qs") auto
next
  case (Cons p ps)
  show ?case
  proof (cases "piece_step c p")
    case (Inr x)
    obtain out c1 where x: "x = (out, c1)" by (cases x)
    show ?thesis using Cons.IH [of c1] Inr x by (cases "run_pieces c1 ps") (auto simp: ebind_assoc case_prod_unfold)
  qed simp
qed

lemma dangling_pointer_faults:
  "task_pointer t = Some r \<Longrightarrow> nm_heap S r = None \<Longrightarrow> continue_task E S t = Inl UseAfterFree"
  by (cases t) (auto simp: no_task_def exec_run_def announce_move_def meta_at_def Let_def)

lemma dangling_run_faults:
  assumes "dangling_run c ps"
  shows "run_pieces c ps = Inl UseAfterFree"
proof -
  obtain ps1 E i ps2 out S1 ts1 r where ps: "ps = ps1 @ Piece_Task E i # ps2" "run_pieces c ps1 = Inr (out, S1, ts1)"
    "i < length ts1" "task_pointer (ts1 ! i) = Some r" "nm_heap S1 r = None"
    using assms by (auto simp: dangling_run_def)
  from dangling_pointer_faults [OF ps(4,5)] ps(1-3) show ?thesis by (simp add: run_pieces_append)
qed

section \<open>Tables that stay\<close>

definition same_tables :: "naming_server \<Rightarrow> naming_server \<Rightarrow> bool" where
  "same_tables S S' \<longleftrightarrow> nm_requests S' = nm_requests S \<and> nm_clients S' = nm_clients S \<and> nm_servers S' = nm_servers S
     \<and> nm_last_selected S' = nm_last_selected S"

lemma same_tables_refl [simp]: "same_tables S S"
  by (simp add: same_tables_def)

lemma index_same_tables:
  "lookup_metadata E S f = Inr (S1, r) \<Longrightarrow> same_tables S S1" "save_metadata S = Inr S1 \<Longrightarrow> same_tables S S1"
  "drop_metadata S f = Inr S1 \<Longrightarrow> same_tables S S1" "add_metadata E S f m = Inr S1 \<Longrightarrow> same_tables S S1"
  by (auto simp: same_tables_def lookup_metadata_def save_metadata_def drop_metadata_def add_metadata_def Let_def ebind_eq_Inr
      split: option.splits)

definition stays :: "naming_server \<Rightarrow> nm_result \<Rightarrow> bool" where
  "stays S r \<longleftrightarrow> (case r of Inl _ \<Rightarrow> True | Inr (out, S') \<Rightarrow> same_tables S S')"

lemma same_tables_trans: "same_tables S1 S2 \<Longrightarrow> same_tables S2 S3 \<Longrightarrow> same_tables S1 S3"
  by (simp add: same_tables_def)

lemma stays_simps [simp]: "stays S (Inl e)" "stays S (Inr (out, S')) = same_tables S S'"
  by (simp_all add: stays_def)

lemma stays_file:
  assumes "\<And>S1 r m. same_tables S S1 \<Longrightarrow> stays S (g S1 r m)"
  shows "stays S (with_file E S sock f g)"
proof (cases "lookup_metadata E S f")
  case (Inr x)
  obtain S1 found where x: "x = (S1, found)" by (cases x)
  then have "same_tables S S1" using Inr index_same_tables(1) by blast
  with Inr x assms show ?thesis
    by (cases found; cases "meta_at S1 (the found)") (auto simp: with_file_def)
qed (simp add: with_file_def)

lemma stays_drop:
  assumes "same_tables S S1"
  shows "stays S (ebind (drop_metadata S1 f) (\<lambda>S2. ebind (save_metadata S2) (\<lambda>S3. Inr (out, S3))))"
proof (cases "drop_metadata S1 f")
  case (Inr S2)
  then have "same_tables S S2" using assms index_same_tables(3) same_tables_trans by blast
  then show ?thesis using Inr index_same_tables(2) [of S2] same_tables_trans [of S S2] by (cases "save_metadata S2") auto
qed simp

lemma delete_same_tables: "stays S (delete_file_body E S sock msg c)"
  unfolding delete_file_body_def by (auto intro!: stays_file simp: Let_def stays_drop split: option.split)

lemma stays_save:
  assumes "same_tables S S1"
  shows "stays S (ebind (save_metadata (put_meta S1 r m)) (\<lambda>S2. Inr (out, S2)))"
proof (cases "save_metadata (put_meta S1 r m)")
  case (Inr S2)
  have "same_tables S1 (put_meta S1 r m)" by (simp add: same_tables_def put_meta_def)
  with Inr assms show ?thesis using index_same_tables(2) same_tables_trans by fastforce
qed simp

lemma add_access_same_tables: "stays S (add_access_body E S sock msg c)"
  unfolding add_access_body_def by (auto intro!: stays_file stays_save simp: Let_def)

text \<open>A pointer to the client of a socket, in a later state with the same table.\<close>

lemma same_tables_client:
  assumes "same_tables S S1" "client_index S sock = Some i"
  shows "client_index S1 sock = Some i" "client_slot S1 i = nm_clients S ! i"
proof -
  show i: "client_index S1 sock = Some i" using assms by (simp add: client_index_def same_tables_def)
  show "client_slot S1 i = nm_clients S ! i" using client_index_SomeD [OF i] assms(1) by (simp add: same_tables_def)
qed

section \<open>What every run guarantees\<close>


text \<open>
  C3: the rights on a file change by its owner only, however the threads interleave: in a run
  without a message of user \<open>u\<close> about \<open>f\<close>, a file \<open>f\<close> of \<open>u\<close> stays, keeps its owner, and gives every
  user the access they had.  The condition is that while a handler waits between looking its client
  up and taking the mutex, the entry of \<open>client_registry\<close> that it points to keeps its user; without it
  the property fails (\<open>stale_client_pointer\<close>).  The reads of the entry from then on count as one.
\<close>

theorem interleaved_rights:
  assumes "nm_ok S" "list_all piece_ok ps" "run_pieces (S, []) ps = Inr (out, S', ts)" "entries_stay (S, []) ps"
    and "nm_files S f = Some m" "\<not> pieces_have (S, []) (fm_owner m) f ps"
  shows "\<exists>m'. nm_files S' f = Some m' \<and> fm_owner m' = fm_owner m \<and> (\<forall>v. check_file_access m' v = check_file_access m v)"
proof -
  have "\<not> dangling_run (S, []) ps" using dangling_run_faults assms(3) by fastforce
  then have "safe (run_pieces (S, []) ps) (\<lambda>(out, c'). nm_ok (fst c') \<and> (owned_by S (fm_owner m) f \<and> no_actor S [] (fm_owner m) f
      \<and> \<not> pieces_have (S, []) (fm_owner m) f ps \<and> entries_stay (S, []) ps \<longrightarrow> keeps_rights S (fm_owner m) f (fst c')))"
    using run_pieces_ok [of "(S, [])" ps "fm_owner m" f] assms(1,2) by (simp add: tasks_ok_def)
  with assms(3-6) have "keeps_rights S (fm_owner m) f S'" by (simp add: owned_by_def no_actor_def)
  then obtain m' where "nm_files S' f = Some m'" "same_rights m m'" using assms(5) by (auto simp: keeps_rights_def)
  then show ?thesis by (auto simp: same_rights_def check_file_access_map_of)
qed

section \<open>A break in the middle of an approval\<close>

lemma create_start_effect:
  assumes "nm_ok S" "message_ok msg" and new: "nm_files S (m_filename msg) = None"
    and s: "select_storage_server_for_new_file (nm_servers S) (nm_last_selected S) = (Some s, l)"
    and resp: "env_reply E (si_socket s) (create_request msg c) = Some resp" "m_error resp = ERR_SUCCESS"
  obtains S' where "create_start E S sock msg c = Inr ([(si_socket s, create_request msg c), (sock, ack_reply ''File Created Successfully!'')], S',
      Some (Creating_Replica sock (si_id s) (create_request msg c)))" "nm_ok S'" "nm_requests S' = nm_requests S"
    "nm_files S' = (nm_files S)(m_filename msg \<mapsto>
        create_file_metadata (m_filename msg) (ci_username c) (si_id s) (si_ip s) (si_client_port s) (env_now E))"
proof -
  let ?f = "m_filename msg" and ?S = "S\<lparr>nm_last_selected := l\<rparr>"
  let ?m = "create_file_metadata ?f (ci_username c) (si_id s) (si_ip s) (si_client_port s) (env_now E)"
  have none: "trie_search (nm_trie S) ?f = None" using new nm_files_None [OF nm_ok_index [OF assms(1)]] by simp
  have short: "short_name ?f" by (rule message_short [OF assms(2)])
  have m: "fm_filename ?m = ?f" "acl_ok ?m" using short by (simp_all add: create_metadata_filename create_file_metadata_ok short_name_def)
  have ok: "nm_ok ?S" using assms(1) by simp
  have "safe (add_metadata E ?S ?f ?m) (\<lambda>S2. nm_ok S2 \<and> nm_files S2 = (nm_files S)(?f \<mapsto> ?m))"
    by (rule safe_add_metadata [OF ok short m]) simp
  moreover obtain S2 where S2: "add_metadata E ?S ?f ?m = Inr S2" using add_metadata_spec [OF nm_ok_index [OF ok] short m] by blast
  ultimately have ok2: "nm_ok S2" "nm_files S2 = (nm_files S)(?f \<mapsto> ?m)" by simp_all
  obtain dat where "save_metadata S2 = Inr (S2\<lparr>nm_metadata_dat := dat\<rparr>)" by (rule save_effect [OF nm_ok_index [OF ok2(1)]])
  with S2 ok2 index_same_tables(4) [OF S2] show ?thesis
    by (intro that [of "S2\<lparr>nm_metadata_dat := dat\<rparr>"])
       (simp_all add: create_start_def none s Let_def create_request_def [symmetric] resp same_tables_def)
qed

lemma resolve_start_effect:
  assumes "nm_ok S" "message_ok msg" "nm_files S (m_filename msg) = Some m" "fm_owner m = m_sender msg"
  obtains S1 where "resolve_start E S sock msg approve acc tx = Inr ([], S1, Some (Resolving sock msg approve acc tx))"
    "nm_ok S1" "nm_files S1 = nm_files S" "same_tables S S1"
proof -
  obtain S1 where S1: "lookup_metadata E S (m_filename msg) = Inr (S1, trie_search (nm_trie S) (m_filename msg))"
    "same_but_cache S S1" "index_ok S1"
    using lookup_metadata_spec [OF nm_ok_index [OF assms(1)] message_short [OF assms(2)]] by blast
  obtain r where r: "trie_search (nm_trie S) (m_filename msg) = Some r" "nm_heap S r = Some m"
    by (rule nm_files_Some [OF nm_ok_index [OF assms(1)] assms(3)])
  have "nm_heap S1 r = Some m" "nm_ok S1" "nm_files S1 = nm_files S"
    using S1(2,3) r(2) assms(1) by (auto simp: same_but_cache_def nm_ok_def)
  with S1(1) r(1) assms(4) index_same_tables(1) [OF S1(1)] show ?thesis
    by (intro that [of S1]) (simp_all add: resolve_start_def look_up_file_def meta_at_def)
qed

text \<open>The two pieces of an approval that come after the test of the owner, in any later state.\<close>

lemma resolve_rest_effect:
  assumes "nm_ok S" and m: "nm_files S (m_filename msg) = Some m"
    and pend: "(m_filename msg, m_data msg) \<in> set (pending_keys (nm_requests S))"
  obtains S1 S2 where "continue_task E S (Resolving sock msg True acc tx) = Inr ([], S1, Some (Granting sock msg acc tx))"
    "continue_task E' S1 (Granting sock msg acc tx) = Inr ([(sock, ack_reply tx)], S2, None)"
    "nm_files S2 = (nm_files S)(m_filename msg \<mapsto> fst (add_file_access m (m_data msg) acc))" "length (m_data msg) < MAX_USERNAME_LEN"
proof -
  let ?f = "m_filename msg" and ?u = "m_data msg"
  obtain rc reqs dat where t: "take_request (nm_requests S) (nm_requests_dat S) ?f ?u = (rc, reqs, dat)"
    by (rule prod_cases3)
  have req: "requests_ok (nm_requests S)" using assms(1) by (simp add: nm_ok_def tables_ok_def)
  have rc: "rc = 0" using take_request_cases(3) [OF req t] pend by simp
  have u: "length ?u < MAX_USERNAME_LEN" by (rule take_request_short [OF assms(1) t rc])
  let ?S = "S\<lparr>nm_requests := reqs, nm_requests_dat := dat\<rparr>"
  have ok: "nm_ok ?S" using nm_ok_take [OF assms(1) t] by simp
  have "nm_files ?S ?f = Some m" using m by simp
  then obtain r where r: "trie_search (nm_trie ?S) ?f = Some r" "nm_heap ?S r = Some m" "fm_filename m = ?f" "acl_ok m"
    by (rule nm_files_Some [OF nm_ok_index [OF ok]])
  have m': "fm_filename (fst (add_file_access m ?u acc)) = ?f" "acl_ok (fst (add_file_access m ?u acc))"
    using r(3,4) u by (simp_all add: add_file_access_ok)
  obtain S2 where "save_metadata (put_meta ?S r (fst (add_file_access m ?u acc))) = Inr S2"
    "nm_files S2 = (nm_files ?S)(?f \<mapsto> fst (add_file_access m ?u acc))"
    by (rule owner_update_effect [OF ok r(1) m'])
  with r rc u t show ?thesis
    by (intro that [of ?S S2]) (simp_all add: resolve_taken_def resolve_take_def grant_taken_def resolve_grant_def meta_at_def)
qed

text \<open>
  C30: an approval can reach a file that is not the approver's: when the owner of a file deletes it
  over a second connection just after the approval has been let in, and another user creates a
  file of the same name, the approval goes on and gives the requester the access to the new
  file, whose owner has never been asked.
\<close>

theorem approval_outlives_file:
  assumes S: "nm_ok S" and f: "nm_files S (m_filename app) = Some m" "fm_owner m = m_sender app"
    and app: "message_ok app" "m_type app = MSG_APPROVE_REQUEST"
      "(m_filename app, m_data app) \<in> set (pending_keys (nm_requests S))"
    and del: "message_ok del" "m_type del = MSG_DELETE_FILE" "m_filename del = m_filename app"
      "get_client_by_socket (nm_clients S) dsock = Some a" "ci_username a = fm_owner m"
      "get_storage_server (nm_servers S) (fm_ss_id m) = Some s"
      "env_reply E1 (si_socket s) (message_zero\<lparr>m_type := MSG_DELETE_FILE_SS, m_filename := m_filename del\<rparr>) = Some ok1"
      "m_error ok1 = ERR_SUCCESS"
    and cre: "message_ok cre" "m_type cre = MSG_CREATE_FILE" "m_filename cre = m_filename app"
      "get_client_by_socket (nm_clients S) csock = Some c"
      "select_storage_server_for_new_file (nm_servers S) (nm_last_selected S) = (Some s', l)"
      "env_reply E2 (si_socket s') (create_request cre c) = Some ok2" "m_error ok2 = ERR_SUCCESS"
    and apart: "sock \<noteq> dsock" "sock \<noteq> csock" "m_data app \<noteq> ci_username c"
  shows "\<exists>out S' t m'. run_pieces (S, [])
        [Piece_Message E sock ip port app, Piece_Message E1 dsock ip1 port1 del, Piece_Task E1 1,
         Piece_Message E2 csock ip2 port2 cre, Piece_Task E2 1, Piece_Task E3 0, Piece_Task E4 0] = Inr (out, S', [t])
    \<and> (sock, ack_reply ''Request approved.'') \<in> set out
    \<and> nm_files S' (m_filename app) = Some m' \<and> fm_owner m' = ci_username c
    \<and> check_file_access m' (m_data app) = requested_access app"
proof -
  let ?f = "m_filename app" and ?acc = "requested_access app" and ?tx = "''Request approved.''"
  from del(4) obtain ia where ia: "client_index S dsock = Some ia" "client_slot S ia = a" by (auto simp: client_index_get)
  from cre(4) obtain ic where ic: "client_index S csock = Some ic" "client_slot S ic = c" by (auto simp: client_index_get)
  have slots: "nm_clients S ! ia = a" "nm_clients S ! ic = c" using ia ic client_index_SomeD by auto
  obtain S1 where S1: "resolve_start E S sock app True ?acc ?tx = Inr ([], S1, Some (Resolving sock app True ?acc ?tx))"
    "nm_ok S1" "nm_files S1 = nm_files S" "same_tables S S1"
    by (rule resolve_start_effect [OF S app(1) f])
  note at1 = same_tables_client [OF S1(4) ia(1)]
  have c1: "nm_files S1 (m_filename del) = Some m" "get_client_by_socket (nm_clients S1) dsock = Some a"
    "get_storage_server (nm_servers S1) (fm_ss_id m) = Some s"
    using S1(3,4) f(1) del(3,4,6) by (simp_all add: same_tables_def)
  from delete_effect [OF S1(2) del(1) c1(2,1) del(5) [symmetric] c1(3) del(7)] del(8)
  obtain S2 reply where S2: "delete_file_body E1 S1 dsock del a
      = Inr ([(si_socket s, message_zero\<lparr>m_type := MSG_DELETE_FILE_SS, m_filename := m_filename del\<rparr>), (dsock, reply)], S2)"
    "nm_ok S2" "nm_files S2 = (nm_files S1)(?f := None)"
    using del(3) by (auto simp: nm_handle_delete_file_def with_client_def c1(2))
  have same2: "same_tables S S2" using delete_same_tables [of S1 E1 dsock del a] S2(1) S1(4) same_tables_trans by simp
  note at2 = same_tables_client [OF same2 ic(1)]
  let ?m = "create_file_metadata ?f (ci_username c) (si_id s') (si_ip s') (si_client_port s') (env_now E2)"
  obtain S3 where S3: "create_start E2 S2 csock cre c
      = Inr ([(si_socket s', create_request cre c), (csock, ack_reply ''File Created Successfully!'')], S3,
          Some (Creating_Replica csock (si_id s') (create_request cre c)))"
    "nm_ok S3" "nm_requests S3 = nm_requests S" "nm_files S3 = (nm_files S2)(?f \<mapsto> ?m)"
    by (rule create_start_effect [OF S2(2) cre(1) _ _ cre(6,7), of l csock]) (use cre same2 S2(3) in \<open>auto simp: same_tables_def\<close>)
  obtain S4 S5 where S4: "continue_task E3 S3 (Resolving sock app True ?acc ?tx) = Inr ([], S4, Some (Granting sock app ?acc ?tx))"
    "continue_task E4 S4 (Granting sock app ?acc ?tx) = Inr ([(sock, ack_reply ?tx)], S5, None)"
    "nm_files S5 = (nm_files S3)(?f \<mapsto> fst (add_file_access ?m (m_data app) ?acc))" "length (m_data app) < MAX_USERNAME_LEN"
    by (rule resolve_rest_effect [OF S3(2), of app ?m]) (use S3(3,4) app(3) in auto)
  have c: "length (ci_username c) < MAX_USERNAME_LEN" using get_client_in [OF cre(4)] S by (auto simp: nm_ok_def tables_ok_def)
  have owner: "fm_owner (fst (add_file_access ?m (m_data app) ?acc)) = ci_username c"
    using create_metadata_rights(1) [OF c] by (simp add: add_file_access_frame)
  have "snd (add_file_access ?m (m_data app) ?acc) = 0"
    using apart(3) c by (auto simp: add_file_access_def push_access_def create_file_metadata_def limit_defs split: option.split)
  then have "check_file_access (fst (add_file_access ?m (m_data app) ?acc)) (m_data app) = ?acc"
    using add_file_access_check [of ?m "m_data app" ?acc "m_data app"] apart(3) S4(4) c
    by (simp add: create_metadata_rights create_file_metadata_ok)
  moreover have "run_pieces (S, []) [Piece_Message E sock ip port app, Piece_Message E1 dsock ip1 port1 del, Piece_Task E1 1,
      Piece_Message E2 csock ip2 port2 cre, Piece_Task E2 1, Piece_Task E3 0, Piece_Task E4 0]
    = Inr ([(si_socket s, message_zero\<lparr>m_type := MSG_DELETE_FILE_SS, m_filename := m_filename del\<rparr>), (dsock, reply),
        (si_socket s', create_request cre c), (csock, ack_reply ''File Created Successfully!''), (sock, ack_reply ?tx)], S5,
        [Creating_Replica csock (si_id s') (create_request cre c)])"
    using S1(1) S2(1) S3(1) S4(1,2) app(2) del(2) cre(2) apart(1,2) at1 at2 slots
    by (simp add: begin_message_def direct_body_def client_handler_def no_task_def task_list_def)
  ultimately show ?thesis using S4(3) owner by auto
qed

definition asked_nm :: naming_server where
  "asked_nm = demo_nm\<lparr>nm_requests := [\<lparr>ar_filename = ''a'', ar_requester = ''carol'', ar_access = ACCESS_READ, ar_pending = True, ar_time = 0\<rparr>]\<rparr>"

lemma asked_nm_ok: "nm_ok asked_nm"
  unfolding asked_nm_def
  by (rule nm_ok_requests [OF demo_nm_ok]) (simp_all add: requests_ok_def pending_keys_def limit_defs)

lemma asked_nm_fields [simp]:
  "nm_files asked_nm k = (if k = ''a'' then Some demo_meta else None)" "nm_servers asked_nm = [demo_ss]" "nm_last_selected asked_nm = - 1"
  "nm_clients asked_nm = [demo_client 5 ''alice'', demo_client 6 ''bob'']" "pending_keys (nm_requests asked_nm) = [(''a'', ''carol'')]"
  by (simp_all add: asked_nm_def demo_file pending_keys_def)

theorem approval_outlives_file_witness:
  "\<exists>out S' t m'. run_pieces (asked_nm, [])
        [Piece_Message demo_env 9 ''1'' 2 (demo_msg MSG_APPROVE_REQUEST ''alice'' ''a'' ''carol'' 2),
         Piece_Message demo_env 5 ''1'' 2 (demo_msg MSG_DELETE_FILE ''alice'' ''a'' [] 0), Piece_Task demo_env 1,
         Piece_Message demo_env 6 ''1'' 2 (demo_msg MSG_CREATE_FILE ''bob'' ''a'' [] 0), Piece_Task demo_env 1,
         Piece_Task demo_env 0, Piece_Task demo_env 0] = Inr (out, S', [t])
    \<and> nm_files S' ''a'' = Some m' \<and> fm_owner m' = ''bob'' \<and> check_file_access m' ''carol'' = ACCESS_WRITE"
proof -
  let ?app = "demo_msg MSG_APPROVE_REQUEST ''alice'' ''a'' ''carol'' 2" and ?del = "demo_msg MSG_DELETE_FILE ''alice'' ''a'' [] 0"
    and ?cre = "demo_msg MSG_CREATE_FILE ''bob'' ''a'' [] 0"
  have msgs: "message_ok ?app" "message_ok ?del" "message_ok ?cre" by (simp_all add: demo_msg_ok limit_defs)
  have s: "get_storage_server (nm_servers asked_nm) (fm_ss_id demo_meta) = Some demo_ss" by (simp add: get_storage_server_def)
  have sel: "select_storage_server_for_new_file (nm_servers asked_nm) (nm_last_selected asked_nm) = (Some demo_ss, 0)"
    by (simp add: select_storage_server_for_new_file_def demo_ss_def)
  have reply: "env_reply demo_env x y = Some (ack_reply [])" for x y by (simp add: demo_env_def)
  have cl: "get_client_by_socket (nm_clients asked_nm) 5 = Some (demo_client 5 ''alice'')"
    "get_client_by_socket (nm_clients asked_nm) 6 = Some (demo_client 6 ''bob'')" by (simp_all add: demo_clients)
  have "\<exists>out S' t m'. run_pieces (asked_nm, []) [Piece_Message demo_env 9 ''1'' 2 ?app, Piece_Message demo_env 5 ''1'' 2 ?del,
      Piece_Task demo_env 1, Piece_Message demo_env 6 ''1'' 2 ?cre, Piece_Task demo_env 1, Piece_Task demo_env 0, Piece_Task demo_env 0] = Inr (out, S', [t])
    \<and> (9, ack_reply ''Request approved.'') \<in> set out \<and> nm_files S' (m_filename ?app) = Some m'
    \<and> fm_owner m' = ci_username (demo_client 6 ''bob'') \<and> check_file_access m' (m_data ?app) = requested_access ?app"
    by (rule approval_outlives_file [OF asked_nm_ok _ _ msgs(1) _ _ msgs(2) _ _ cl(1) _ s reply _ msgs(3) _ _ cl(2) sel reply])
       (simp_all add: demo_clients)
  then show ?thesis by (auto simp: demo_clients requested_access_def)
qed

section \<open>A break between the lookup of a client and the mutex\<close>

text \<open>The entries above the one that leaves move down under the pointers to them.\<close>

lemma leave_moves_down:
  assumes "client_index S csock = Some j" "j \<le> i" "Suc i < length (nm_clients S)"
  shows "client_slot (leave_client S csock) i = nm_clients S ! Suc i"
proof -
  have j: "j < length (nm_clients S)" using client_index_SomeD [OF assms(1)] by simp
  have "nm_clients (leave_client S csock) = take j (nm_clients S) @ drop (Suc j) (nm_clients S)"
    using assms(1) j by (simp add: leave_client_def Let_def remove_client_def client_index_def delete_at_eq)
  with assms(2,3) j show ?thesis by (simp add: client_slot_def nth_append)
qed

text \<open>
  C24: a user can act as the owner of a file: \<open>get_client_by_socket\<close> returns a pointer into
  \<open>client_registry\<close>, the mutex is taken only then, and \<open>remove_client\<close> moves the entries.  When the
  entry above the user's is the owner's and a client below them leaves just after the user's
  ADDACCESS has looked the user up, the access is granted although the user does not own the
  file; without the client that leaves the same request is refused and changes nothing.
\<close>

theorem stale_client_pointer:
  assumes S: "nm_ok S" and msg: "message_ok msg" "m_type msg = MSG_ADDACCESS" "length (m_data msg) < MAX_USERNAME_LEN"
    and f: "nm_files S (m_filename msg) = Some m" "length (fm_access_list m) < MAX_USERS"
    and i: "client_index S sock = Some i" "ci_username (nm_clients S ! i) \<noteq> fm_owner m"
    and owner: "Suc i < length (nm_clients S)" "ci_username (nm_clients S ! Suc i) = fm_owner m"
    and leaver: "client_index S csock = Some j" "j < i"
    and user: "check_file_access m (m_data msg) \<noteq> ACCESS_WRITE"
  shows "(\<exists>S' m'. run_pieces (S, []) [Piece_Message E sock ip port msg, Piece_Leaves csock, Piece_Task E1 0]
        = Inr ([(sock, ack_reply ''Access granted successfully!'')], S', [])
      \<and> nm_files S' (m_filename msg) = Some m'
      \<and> check_file_access m' (m_data msg) = (if m_arg1 msg = 1 then ACCESS_READ else ACCESS_WRITE))
    \<and> (\<exists>S'. run_pieces (S, []) [Piece_Message E sock ip port msg, Piece_Task E1 0]
        = Inr ([(sock, error_reply ERR_NOT_OWNER ''ERROR: Access denied.'')], S', []) \<and> nm_files S' = nm_files S)"
proof
  let ?S = "leave_client S csock" and ?acc = "if m_arg1 msg = 1 then ACCESS_READ else ACCESS_WRITE"
  have apart: "csock \<noteq> sock" using i(1) leaver by auto
  have at: "client_slot ?S i = nm_clients S ! Suc i" by (rule leave_moves_down [OF leaver(1)]) (use leaver(2) owner(1) in auto)
  have f': "nm_files ?S (m_filename msg) = Some m" using f(1) by simp
  obtain S' where S': "add_access_body E1 ?S sock msg (nm_clients S ! Suc i) = Inr ([(sock, ack_reply ''Access granted successfully!'')], S')"
    "nm_files S' = (nm_files ?S)(m_filename msg \<mapsto> fst (add_file_access m (m_data msg) ?acc))"
    using add_access_body_effect [OF leave_client_ok [OF S] msg(1,3) f' owner(2) [symmetric], of E1 sock] by blast
  have acl: "acl_ok m" by (rule nm_files_Some [OF nm_ok_index [OF S] f(1)])
  have "snd (add_file_access m (m_data msg) ?acc) = 0"
    using f(2) by (auto simp: add_file_access_def push_access_def split: option.split)
  then have "check_file_access (fst (add_file_access m (m_data msg) ?acc)) (m_data msg) = ?acc"
    using add_file_access_check [OF acl msg(3), of ?acc] user by simp
  moreover have "run_pieces (S, []) [Piece_Message E sock ip port msg, Piece_Leaves csock, Piece_Task E1 0]
      = Inr ([(sock, ack_reply ''Access granted successfully!'')], S', [])"
    using S'(1) at apart msg(2) i(1) by (simp add: begin_message_def client_handler_def no_task_def task_list_def)
  ultimately show "\<exists>S' m'. run_pieces (S, []) [Piece_Message E sock ip port msg, Piece_Leaves csock, Piece_Task E1 0]
        = Inr ([(sock, ack_reply ''Access granted successfully!'')], S', [])
      \<and> nm_files S' (m_filename msg) = Some m' \<and> check_file_access m' (m_data msg) = ?acc"
    using S'(2) by (intro exI conjI) auto
  have c: "get_client_by_socket (nm_clients S) sock = Some (nm_clients S ! i)" "client_slot S i = nm_clients S ! i"
    using client_index_SomeD [OF i(1)] i(1) by (simp_all add: client_index_get)
  obtain S2 where "add_access_body E1 S sock msg (nm_clients S ! i) = Inr ([(sock, not_owner ''ERROR: Access denied.'')], S2)"
    "nm_files S2 = nm_files S"
    using not_owner_effect(1) [OF S msg(1) c(1) f(1) i(2) [symmetric], of E1] c(1)
    by (auto simp: nm_handle_add_access_def with_client_def)
  then show "\<exists>S'. run_pieces (S, []) [Piece_Message E sock ip port msg, Piece_Task E1 0]
      = Inr ([(sock, error_reply ERR_NOT_OWNER ''ERROR: Access denied.'')], S', []) \<and> nm_files S' = nm_files S"
    using c(2) i(1) msg(2) by (simp add: begin_message_def client_handler_def no_task_def task_list_def not_owner_def)
qed

text \<open>Carol, then bob, then alice, whose file it is.\<close>

definition queue_nm :: naming_server where
  "queue_nm = demo_nm\<lparr>nm_clients := [demo_client 4 ''carol'', demo_client 6 ''bob'', demo_client 5 ''alice'']\<rparr>"

lemma queue_nm_ok: "nm_ok queue_nm"
  using demo_nm_ok by (simp add: queue_nm_def nm_ok_def tables_ok_def demo_client_def limit_defs)

theorem stale_client_pointer_witness:
  "(\<exists>S' m'. run_pieces (queue_nm, []) [Piece_Message demo_env 6 ''1'' 2 (demo_msg MSG_ADDACCESS ''bob'' ''a'' ''bob'' 2),
        Piece_Leaves 4, Piece_Task demo_env 0] = Inr ([(6, ack_reply ''Access granted successfully!'')], S', [])
      \<and> nm_files S' ''a'' = Some m' \<and> check_file_access m' ''bob'' = ACCESS_WRITE)
   \<and> check_file_access demo_meta ''bob'' = ACCESS_NONE"
proof -
  let ?msg = "demo_msg MSG_ADDACCESS ''bob'' ''a'' ''bob'' 2"
  have msg: "message_ok ?msg" by (simp add: demo_msg_ok limit_defs)
  have f: "nm_files queue_nm (m_filename ?msg) = Some demo_meta" by (simp add: queue_nm_def demo_file)
  have i: "client_index queue_nm 6 = Some 1" "client_index queue_nm 4 = Some 0"
    by (simp_all add: client_index_def queue_nm_def demo_client_def)
  have cs: "ci_username (nm_clients queue_nm ! 1) = ''bob''" "ci_username (nm_clients queue_nm ! 2) = ''alice''"
    "length (nm_clients queue_nm) = 3" by (simp_all add: queue_nm_def demo_clients numeral_2_eq_2)
  have "\<exists>S' m'. run_pieces (queue_nm, []) [Piece_Message demo_env 6 ''1'' 2 ?msg, Piece_Leaves 4, Piece_Task demo_env 0]
        = Inr ([(6, ack_reply ''Access granted successfully!'')], S', [])
      \<and> nm_files S' (m_filename ?msg) = Some m'
      \<and> check_file_access m' (m_data ?msg) = (if m_arg1 ?msg = 1 then ACCESS_READ else ACCESS_WRITE)"
    by (rule stale_client_pointer [OF queue_nm_ok msg _ _ f _ i(1) _ _ _ i(2), THEN conjunct1])
       (simp_all add: cs demo_access limit_defs del: One_nat_def)
  then show ?thesis by (simp add: demo_access)
qed

section \<open>Examples\<close>

text \<open>A handler that has released the mutex, and the object it goes on with.\<close>

lemma exec_start_effect:
  assumes "nm_ok S" "message_ok msg" "nm_files S (m_filename msg) = Some m" "check_file_access m (ci_username c) \<noteq> ACCESS_NONE"
  obtains S1 r where "exec_start E S sock msg c = Inr ([], S1, Some (Executing sock r))"
    "nm_ok S1" "nm_files S1 = nm_files S" "same_tables S S1" "trie_search (nm_trie S1) (m_filename msg) = Some r"
proof -
  obtain S1 where S1: "lookup_metadata E S (m_filename msg) = Inr (S1, trie_search (nm_trie S) (m_filename msg))"
    "same_but_cache S S1" "index_ok S1"
    using lookup_metadata_spec [OF nm_ok_index [OF assms(1)] message_short [OF assms(2)]] by blast
  obtain r where r: "trie_search (nm_trie S) (m_filename msg) = Some r" "nm_heap S r = Some m"
    by (rule nm_files_Some [OF nm_ok_index [OF assms(1)] assms(3)])
  have "nm_heap S1 r = Some m" "nm_ok S1" "nm_files S1 = nm_files S" "trie_search (nm_trie S1) (m_filename msg) = Some r"
    using S1(2,3) r assms(1) by (auto simp: same_but_cache_def nm_ok_def)
  with S1(1) r(1) assms(4) index_same_tables(1) [OF S1(1)] show ?thesis
    by (intro that [of S1 r]) (simp_all add: exec_start_def exec_check_def meta_at_def)
qed

lemma delete_frees:
  assumes "nm_ok S" "message_ok msg" "nm_files S (m_filename msg) = Some m" "trie_search (nm_trie S) (m_filename msg) = Some r"
    and "delete_file_body E S sock msg c = Inr (out, S')" "nm_files S' (m_filename msg) = None"
  shows "nm_heap S' r = None"
proof -
  let ?f = "m_filename msg"
  obtain S1 r' where S1: "\<And>g sock. with_file E S sock ?f g = g S1 r' m" "same_but_cache S S1" "nm_files S1 = nm_files S"
    by (rule with_file_found [OF assms(1) message_short [OF assms(2)] assms(3), of E]) blast
  have r: "trie_search (nm_trie S1) ?f = Some r" using S1(2) assms(4) by (auto simp: same_but_cache_def)
  have drop: "nm_heap S3 r = None" if "drop_metadata S1 ?f = Inr S2" "save_metadata S2 = Inr S3" for S2 S3
    using that r by (auto simp: drop_metadata_def save_metadata_def fault_simps)
  have "nm_files S1 ?f \<noteq> None" using S1(3) assms(3) by simp
  with assms(5,6) show ?thesis
    unfolding delete_file_body_def S1(1) Let_def
    by (cases "get_storage_server (nm_servers S1) (fm_ss_id m)")
       (auto simp: ebind_eq_Inr dest: drop split: if_splits option.splits)
qed

definition two_nm :: naming_server where
  "two_nm = demo_nm\<lparr>nm_clients := [demo_client 5 ''alice'', demo_client 7 ''alice'']\<rparr>"

lemma two_nm_ok: "nm_ok two_nm"
  using demo_nm_ok by (simp add: two_nm_def nm_ok_def tables_ok_def demo_client_def limit_defs)


theorem interleaved_rights_witness:
  "\<exists>out S' m'. run_pieces (demo_nm, []) [Piece_Message demo_env 6 ''1'' 2 (demo_msg MSG_ADDACCESS ''bob'' ''a'' ''bob'' 2), Piece_Task demo_env 0]
       = Inr (out, S', [])
     \<and> nm_files S' ''a'' = Some m' \<and> check_file_access m' ''bob'' = ACCESS_NONE"
proof -
  let ?msg = "demo_msg MSG_ADDACCESS ''bob'' ''a'' ''bob'' 2" and ?bob = "demo_client 6 ''bob''"
  let ?ps = "[Piece_Message demo_env 6 ''1'' 2 ?msg, Piece_Task demo_env 0]"
  have msg: "message_ok ?msg" by (simp add: demo_msg_ok limit_defs)
  have i: "client_index demo_nm 6 = Some 1" by (simp add: client_index_def demo_client_def)
  have bob: "client_slot demo_nm 1 = ?bob" using client_index_SomeD [OF i] by simp
  obtain S' where S': "add_access_body demo_env demo_nm 6 ?msg ?bob = Inr ([(6, not_owner ''ERROR: Access denied.'')], S')"
    using not_owner_effect(1) [OF demo_nm_ok msg, of 6 ?bob demo_meta demo_env]
    by (auto simp: demo_clients demo_file nm_handle_add_access_def with_client_def)
  have "same_tables demo_nm S'" using add_access_same_tables [of demo_nm demo_env 6 ?msg ?bob] S' by simp
  from same_tables_client(2) [OF this i] have bob': "client_slot S' 1 = ?bob" by simp
  have steps: "piece_step (demo_nm, []) (Piece_Message demo_env 6 ''1'' 2 ?msg) = Inr ([], demo_nm, [Handling 6 ?msg 1])"
    "piece_step (demo_nm, [Handling 6 ?msg 1]) (Piece_Task demo_env 0) = Inr ([(6, not_owner ''ERROR: Access denied.'')], S', [])"
    using S' i bob by (simp_all add: begin_message_def client_handler_def no_task_def task_list_def)
  then have run: "run_pieces (demo_nm, []) ?ps = Inr ([(6, not_owner ''ERROR: Access denied.'')], S', [])"
    by (simp del: piece_step.simps)
  have ok: "list_all piece_ok ?ps" using msg by (simp add: piece_ok_def request_ok_def limit_defs)
  have stay: "entries_stay (demo_nm, []) ?ps" by (simp add: steps names_stay_def bob bob' del: piece_step.simps One_nat_def)
  have no: "\<not> pieces_have (demo_nm, []) (fm_owner demo_meta) ''a'' ?ps"
    by (simp add: steps piece_by_def acting_user_def demo_clients del: piece_step.simps One_nat_def)
  have f: "nm_files demo_nm ''a'' = Some demo_meta" by (simp add: demo_file)
  from interleaved_rights [OF demo_nm_ok ok run stay f no] run show ?thesis by (auto simp: demo_access)
qed

end
