(* ===== verification/Naming_Entries.thy ===== *)
theory Naming_Entries
  imports Naming_Races Naming_Answers
begin

text \<open>
  When the entries of \<open>client_registry\<close> stay where the waiting handlers point to: only a connection
  that ends moves them.  Every other piece leaves the table of clients as it is, or appends to it.
  So the condition of \<open>interleaved_rights\<close> holds in every run in which no connection ends
  between the lookup of a client and the mutex.
\<close>

section \<open>Pieces and the table of clients\<close>

lemma bodies_keep_clients:
  "view_files_body E S sock msg c = Inr (out, S') \<Longrightarrow> nm_clients S' = nm_clients S"
  "view_folder_body S sock msg c = Inr (out, S') \<Longrightarrow> nm_clients S' = nm_clients S"
  "create_folder_body S sock msg c = Inr (out, S') \<Longrightarrow> nm_clients S' = nm_clients S"
  unfolding view_files_body_def view_folder_body_def create_folder_body_def
  by (auto simp: fault_simps Let_def split: option.splits if_splits dest!: table_rules)

lemma file_bodies_keep_clients:
  "checkpoint_body E S sock msg c = Inr (out, S') \<Longrightarrow> nm_clients S' = nm_clients S"
  "read_file_body E S sock msg c = Inr (out, S') \<Longrightarrow> nm_clients S' = nm_clients S"
  "stream_lookup_body E S sock msg c = Inr (out, S') \<Longrightarrow> nm_clients S' = nm_clients S"
  "undo_lookup_body E S sock msg c = Inr (out, S') \<Longrightarrow> nm_clients S' = nm_clients S"
  "write_file_body E S sock msg c = Inr (out, S') \<Longrightarrow> nm_clients S' = nm_clients S"
  "info_file_body E S sock msg c = Inr (out, S') \<Longrightarrow> nm_clients S' = nm_clients S"
  "add_access_body E S sock msg c = Inr (out, S') \<Longrightarrow> nm_clients S' = nm_clients S"
  "remove_access_body E S sock msg c = Inr (out, S') \<Longrightarrow> nm_clients S' = nm_clients S"
  unfolding checkpoint_body_def  read_file_body_def write_file_body_def info_file_body_def
      add_access_body_def remove_access_body_def stream_lookup_body_def undo_lookup_body_def with_file_def
  by (auto simp: fault_simps Let_def split: option.splits if_splits dest!: table_rules)

lemma delete_keeps_clients: "delete_file_body E S sock msg c = Inr (out, S') \<Longrightarrow> nm_clients S' = nm_clients S"
  using delete_same_tables [of S E sock msg c] by (simp add: same_tables_def)

lemma pieces_keep_clients:
  "create_start E S sock msg c = Inr (out, S', t) \<Longrightarrow> nm_clients S' = nm_clients S"
  "exec_start E S sock msg c = Inr (out, S', t) \<Longrightarrow> nm_clients S' = nm_clients S"
  "move_start E S sock msg = Inr (out, S', t) \<Longrightarrow> nm_clients S' = nm_clients S"
  "request_start E S sock msg = Inr (out, S', t) \<Longrightarrow> nm_clients S' = nm_clients S"
  "resolve_start E S sock msg ap acc tx = Inr (out, S', t) \<Longrightarrow> nm_clients S' = nm_clients S"
  "move_folders S sock msg = Inr (out, S', t) \<Longrightarrow> nm_clients S' = nm_clients S"
  "announce_move S sock msg r = Inr (out, S', t) \<Longrightarrow> nm_clients S' = nm_clients S"
  "queue_request E S sock msg = Inr (out, S', t) \<Longrightarrow> nm_clients S' = nm_clients S"
  "resolve_taken S sock msg ap acc tx = Inr (out, S', t) \<Longrightarrow> nm_clients S' = nm_clients S"
  "grant_taken S sock msg acc tx = Inr (out, S', t) \<Longrightarrow> nm_clients S' = nm_clients S"
  "exec_run E S sock q = Inr (out, S') \<Longrightarrow> nm_clients S' = nm_clients S"
  unfolding create_start_def exec_start_def exec_check_def move_start_def request_start_def resolve_start_def look_up_file_def
    move_folders_def announce_move_def queue_request_def resolve_taken_def resolve_take_def grant_taken_def resolve_grant_def exec_run_def
  by (auto simp: fault_simps Let_def split: option.splits if_splits prod.splits dest!: table_rules)

lemma handler_keeps_clients:
  assumes "client_handler ty = Some h" "h E S sock msg c = Inr (out, S', t)"
  shows "nm_clients S' = nm_clients S"
proof (cases ty)
qed (use assms in \<open>auto simp: client_handler_def no_task_def fault_simps dest: bodies_keep_clients file_bodies_keep_clients delete_keeps_clients pieces_keep_clients\<close>)

lemma task_keeps_clients:
  assumes "continue_task E S t = Inr (out, S', t')"
  shows "nm_clients S' = nm_clients S"
proof (cases t)
qed (use assms in \<open>auto simp: no_task_def fault_simps dest: handler_keeps_clients pieces_keep_clients split: option.splits dest!: replica_elsewhere\<close>)

lemma seed_tables: "seed_files E S ss_id info toks n = Inr (n', S') \<Longrightarrow> nm_clients S' = nm_clients S"
  by (induction E S ss_id info toks n rule: seed_files.induct) (auto simp: Let_def fault_simps split: if_splits dest!: add_tables)

lemma update_tables: "update_counts E S msg = Inr S' \<Longrightarrow> nm_clients S' = nm_clients S"
  by (auto simp: update_counts_def fault_simps split: option.splits dest!: table_rules)

lemma register_tables: "handle_ss_register E S sock ip msg = Inr (out, S') \<Longrightarrow> nm_clients S' = nm_clients S"
  by (auto simp: handle_ss_register_def Let_def fault_simps split: prod.splits if_splits dest!: seed_tables save_tables)

lemma begin_grows:
  assumes "begin_message E S sock ip port msg = Inr (out, S', t)"
  shows "\<exists>cs. nm_clients S' = nm_clients S @ cs"
proof (cases "client_handler (m_type msg)")
  case None
  then show ?thesis
    using assms
    by (cases "m_type msg")
       (auto simp: begin_message_def direct_body_def no_task_def fault_simps nm_register_def register_client_def Let_def
          nm_handle_list_users_def nm_view_requests_def dest: pieces_keep_clients split: if_splits prod.splits)
qed (use assms in \<open>simp add: begin_message_def\<close>)

section \<open>Calm runs\<close>

text \<open>A run in which no connection ends while a handler waits between its lookup and the mutex.\<close>

definition handling :: "nm_task \<Rightarrow> bool" where
  "handling t \<longleftrightarrow> (case t of Handling sock msg i \<Rightarrow> True | _ \<Rightarrow> False)"

lemma handling_iff: "handling t \<longleftrightarrow> (\<exists>sock msg i. t = Handling sock msg i)"
  by (cases t) (simp_all add: handling_def)

fun calm :: "nm_config \<Rightarrow> nm_piece list \<Rightarrow> bool" where
  "calm c [] = True"
| "calm c (p # ps) =
     ((case p of Piece_Leaves sock \<Rightarrow> \<not> list_ex handling (snd c) | _ \<Rightarrow> True)
      \<and> (case piece_step c p of Inl _ \<Rightarrow> True | Inr (out, c1) \<Rightarrow> calm c1 ps))"

definition inside :: "nm_config \<Rightarrow> bool" where
  "inside c \<longleftrightarrow> (case c of (S, ts) \<Rightarrow>
     list_all (\<lambda>t. case t of Handling sock msg i \<Rightarrow> i < length (nm_clients S) | _ \<Rightarrow> True) ts)"

lemma names_stay_append:
  assumes "inside (S, ts)" "nm_clients S' = nm_clients S @ cs"
  shows "names_stay S ts S'"
  using assms by (auto simp: inside_def names_stay_def list_all_iff client_slot_def nth_append split: nm_task.splits)

lemma handler_no_handling:
  assumes "client_handler ty = Some h" "h E S sock msg c = Inr (out, S', Some t)"
  shows "\<not> handling t"
proof (cases ty)
qed (use assms in \<open>auto simp: client_handler_def no_task_def fault_simps handling_def create_start_def exec_start_def
     move_start_def look_up_file_def Let_def split: option.splits if_splits prod.splits\<close>)

lemma task_no_handling:
  assumes "continue_task E S t = Inr (out, S', Some t')"
  shows "\<not> handling t'"
proof (cases t)
qed (use assms in \<open>auto simp: no_task_def fault_simps handling_def dest!: handler_no_handling split: option.splits if_splits prod.splits
  simp: move_folders_def announce_move_def queue_request_def resolve_taken_def grant_taken_def Let_def\<close>)

lemma begin_inside:
  assumes "begin_message E S sock ip port msg = Inr (out, S', Some (Handling k m i))"
  shows "S' = S \<and> i < length (nm_clients S)"
proof (cases "client_handler (m_type msg)")
  case None
  with assms show ?thesis
    by (cases "m_type msg")
       (auto simp: begin_message_def direct_body_def no_task_def fault_simps request_start_def resolve_start_def look_up_file_def
          split: option.splits if_splits)
qed (use assms in \<open>auto simp: begin_message_def dest: client_index_SomeD\<close>)

lemma inside_grows:
  assumes "inside (S, ts)" "nm_clients S' = nm_clients S @ cs" "\<forall>t \<in> set ts'. t \<in> set ts \<or> \<not> handling t"
  shows "inside (S', ts')"
proof -
  have "case t of Handling sock msg i \<Rightarrow> i < length (nm_clients S') | _ \<Rightarrow> True" if "t \<in> set ts'" for t
  proof (cases "t \<in> set ts")
    case True
    with assms(1,2) show ?thesis by (auto simp: inside_def list_all_iff split: nm_task.splits)
  next
    case False
    with assms(3) that show ?thesis by (auto simp: handling_def split: nm_task.splits)
  qed
  then show ?thesis unfolding inside_def list_all_iff prod.case by blast
qed

lemma calm_step:
  assumes step: "piece_step (S, ts) p = Inr (out, S', ts')" and ins: "inside (S, ts)"
    and leave: "\<And>sock. p = Piece_Leaves sock \<Longrightarrow> \<not> list_ex handling ts"
  shows "names_stay S ts S' \<and> inside (S', ts')"
proof (cases p)
  case (Piece_Message E sock ip port msg)
  show ?thesis
  proof (cases "Some sock \<in> task_socket ` set ts")
    case True
    with step Piece_Message ins show ?thesis by (auto simp: names_stay_def list_all_iff split: nm_task.split)
  next
    case False
    then obtain t where t: "begin_message E S sock ip port msg = Inr (out, S', t)" "ts' = ts @ task_list t"
      using step Piece_Message by (auto simp: fault_simps)
    obtain cs where cs: "nm_clients S' = nm_clients S @ cs" using begin_grows [OF t(1)] by blast
    have "inside (S', ts')"
    proof (cases "\<exists>t'. t = Some t' \<and> handling t'")
      case True
      then obtain k m i where h: "t = Some (Handling k m i)" by (auto simp: handling_iff)
      then have "S' = S" "i < length (nm_clients S)" using begin_inside t(1) by blast+
      with t(2) h ins show ?thesis by (simp add: inside_def task_list_def)
    next
      case False
      then show ?thesis by (intro inside_grows [OF ins cs]) (auto simp: t(2) task_list_def split: option.splits)
    qed
    with names_stay_append [OF ins cs] show ?thesis ..
  qed
next
  case (Piece_Update E sock msg)
  then have "nm_clients S' = nm_clients S @ []" "ts' = ts @ [Replicating (m_filename msg)]"
    using step update_tables by (auto simp: begin_update_def task_list_def fault_simps)
  then show ?thesis
    using names_stay_append [OF ins] inside_grows [OF ins, of S' "[]" ts'] by (auto simp: handling_def)
next
  case (Piece_Task E i)
  show ?thesis
  proof (cases "i < length ts")
    case True
    then obtain t where t: "continue_task E S (ts ! i) = Inr (out, S', t)" "ts' = take i ts @ task_list t @ drop (Suc i) ts"
      using step Piece_Task by (auto simp: fault_simps)
    have cs: "nm_clients S' = nm_clients S @ []" using task_keeps_clients [OF t(1)] by simp
    have "\<forall>t' \<in> set ts'. t' \<in> set ts \<or> \<not> handling t'"
      using t task_no_handling by (auto simp: task_list_def dest: in_set_takeD in_set_dropD split: option.splits)
    with names_stay_append [OF ins cs] inside_grows [OF ins cs] show ?thesis by blast
  next
    case False
    with step Piece_Task ins show ?thesis by (auto simp: names_stay_def list_all_iff split: nm_task.split)
  qed
next
  case (Piece_Leaves sock)
  then have "\<not> list_ex handling ts" "ts' = ts" using leave step by auto
  then have "case t of Handling k m i \<Rightarrow> False | _ \<Rightarrow> True" if "t \<in> set ts" for t
    using that by (auto simp: list_ex_iff handling_def split: nm_task.splits)
  with \<open>ts' = ts\<close> show ?thesis by (fastforce simp: names_stay_def inside_def list_all_iff split: nm_task.splits)
next
  case (Piece_Joins E sock ip msg)
  then have "nm_clients S' = nm_clients S @ []" "ts' = ts" using step register_tables by (auto simp: fault_simps)
  then show ?thesis using names_stay_append [OF ins] inside_grows [OF ins, of S' "[]" ts'] by auto
next
  case (Piece_Heartbeat E)
  then have "nm_clients S' = nm_clients S @ []" "ts' = ts" using step by auto
  then show ?thesis using names_stay_append [OF ins] inside_grows [OF ins, of S' "[]" ts'] by auto
qed

lemma calm_entries_stay: "calm c ps \<Longrightarrow> inside c \<Longrightarrow> entries_stay c ps"
proof (induction ps arbitrary: c)
  case (Cons p ps)
  show ?case
  proof (cases "piece_step c p")
    case (Inr x)
    obtain out c1 where x: "x = (out, c1)" by (cases x)
    have "names_stay (fst c) (snd c) (fst c1) \<and> inside c1"
      using calm_step [of "fst c" "snd c" p out "fst c1" "snd c1"] Inr x Cons.prems by (cases p) simp_all
    with Cons.IH [of c1] Cons.prems(1) Inr x show ?thesis by simp
  qed simp
qed simp

end
