(* ===== verification/Teardown.thy ===== *)
theory Teardown
  imports Lru_Cache
begin

text \<open>
  The functions of \<^verbatim>\<open>naming_server/nm_storage.c\<close> that release the index and the cache.  The
  programs never call them; they are modelled with what makes them safe to call: \<open>trie_free\<close>
  frees the object of every name once and nothing else, \<open>cache_free\<close> returns, follows no pointer
  to a freed node and leaves no node behind.
\<close>

section \<open>The index\<close>

text \<open>The objects in the order in which \<open>trie_free\<close> frees them: the children's first.\<close>

primrec trie_free :: "'p trie \<Rightarrow> 'p list" where
  "trie_free (TrieNode e d ch) =
     concat (map (\<lambda>i. case map_option trie_free (ch i) of None \<Rightarrow> [] | Some ps \<Rightarrow> ps) all_bytes)
       @ (case d of None \<Rightarrow> [] | Some p \<Rightarrow> [p])"

text \<open>No node has an object without being the end of a name.\<close>

primrec trie_ok :: "'p trie \<Rightarrow> bool" where
  "trie_ok (TrieNode e d ch) \<longleftrightarrow> (d \<noteq> None \<longrightarrow> e) \<and> (\<forall>i. case map_option trie_ok (ch i) of None \<Rightarrow> True | Some b \<Rightarrow> b)"

lemma trie_ok_child: "trie_ok (TrieNode e d ch) \<Longrightarrow> ch i = Some t \<Longrightarrow> trie_ok t"
  by (auto dest!: spec [where x = i])

lemma trie_ok_init [simp]: "trie_ok trie_init"
  by (simp add: trie_init_def)

lemma trie_ok_insert: "trie_ok t \<Longrightarrow> trie_ok (trie_insert t k p)"
proof (induction t k p rule: trie_insert.induct)
  case (2 e d ch c cs p)
  have "trie_ok (case ch c of None \<Rightarrow> trie_init | Some t \<Rightarrow> t)"
    using 2(2) trie_ok_child by (auto split: option.splits)
  with 2 show ?case by simp
qed simp

lemma trie_ok_delete: "trie_ok t \<Longrightarrow> trie_ok (fst (trie_delete t k))"
proof (induction t k rule: trie_delete.induct)
  case (2 e d ch c cs)
  show ?case
  proof (cases "ch c")
    case None
    with 2(2) show ?thesis by simp
  next
    case (Some t)
    obtain t' r where t': "trie_delete t cs = (t', r)" by fastforce
    with 2(1) [OF Some trie_ok_child [OF 2(2) Some]] 2(2) Some show ?thesis by simp
  qed
qed simp

lemma child_freed:
  "p \<in> set (case map_option trie_free (ch i) of None \<Rightarrow> [] | Some ps \<Rightarrow> ps) \<longleftrightarrow> (\<exists>t. ch i = Some t \<and> p \<in> set (trie_free t))"
  by (cases "ch i") auto

lemma trie_free_iff:
  "p \<in> set (trie_free (TrieNode e d ch)) \<longleftrightarrow> d = Some p \<or> (\<exists>i t. ch i = Some t \<and> p \<in> set (trie_free t))"
proof -
  have "p \<in> set (case d of None \<Rightarrow> [] | Some q \<Rightarrow> [q]) \<longleftrightarrow> d = Some p" by (auto split: option.splits)
  then show ?thesis by (auto simp: child_freed) (metis set_all_bytes)+
qed

lemma trie_free_exact:
  assumes "trie_ok t"
  shows "set (trie_free t) = ran (trie_search t)"
  using assms
proof (induction t)
  case (TrieNode e d ch)
  have ih: "set (trie_free t) = ran (trie_search t)" if "ch i = Some t" for i t
    using TrieNode.IH [of "ch i" t] trie_ok_child [OF TrieNode.prems that] that by (metis option.set_intros rangeI)
  have "p \<in> ran (trie_search (TrieNode e d ch)) \<longleftrightarrow> p \<in> set (trie_free (TrieNode e d ch))" for p
  proof -
    have "p \<in> ran (trie_search (TrieNode e d ch))
        \<longleftrightarrow> trie_search (TrieNode e d ch) [] = Some p \<or> (\<exists>i cs. trie_search (TrieNode e d ch) (i # cs) = Some p)"
      unfolding ran_def by (auto simp del: trie_search.simps) (metis list.exhaust)
    also have "(\<exists>i cs. trie_search (TrieNode e d ch) (i # cs) = Some p) \<longleftrightarrow> (\<exists>i t. ch i = Some t \<and> p \<in> ran (trie_search t))"
      unfolding ran_def by (fastforce split: option.splits)
    finally show ?thesis unfolding trie_free_iff using ih TrieNode.prems by auto
  qed
  then show ?case by blast
qed

lemma distinct_concat_map:
  assumes "\<And>i. distinct (f i)" "\<And>i j. i \<noteq> j \<Longrightarrow> set (f i) \<inter> set (f j) = {}" "distinct xs"
  shows "distinct (concat (map f xs))"
  using assms(3)
proof (induction xs)
  case (Cons i xs)
  then have "set (f i) \<inter> set (f j) = {}" if "j \<in> set xs" for j using assms(2) [of i j] that by auto
  with Cons assms(1) show ?case by auto
qed simp

text \<open>Every object is freed once when no two names share one.\<close>

lemma trie_free_once:
  assumes "trie_ok t" "inj_on (trie_search t) (dom (trie_search t))"
  shows "distinct (trie_free t)"
  using assms
proof (induction t)
  case (TrieNode e d ch)
  let ?t = "TrieNode e d ch" and ?f = "\<lambda>i. case map_option trie_free (ch i) of None \<Rightarrow> [] | Some ps \<Rightarrow> ps"
  have same: "k = k'" if "trie_search ?t k = Some p" "trie_search ?t k' = Some p" for k k' p
    using inj_onD [OF TrieNode.prems(2), of k k'] that by (simp add: domI)
  have freed: "\<exists>cs. trie_search ?t (i # cs) = Some p" if freed: "p \<in> set (?f i)" for i p
  proof -
    obtain t where t: "ch i = Some t" "p \<in> set (trie_free t)" using freed child_freed [of p ch i] by blast
    then obtain cs where "trie_search t cs = Some p"
      using trie_free_exact [OF trie_ok_child [OF TrieNode.prems(1) t(1)]] by (auto simp: ran_def)
    with t(1) show ?thesis by auto
  qed
  have "distinct (?f i)" for i
  proof (cases "ch i")
    case (Some t)
    have "k = k'" if "trie_search t k = Some p" "trie_search t k' = Some p" for k k' p
      using same [of "i # k" p "i # k'"] that Some by simp
    then have inj: "inj_on (trie_search t) (dom (trie_search t))"
      by (fastforce simp: inj_on_def dom_def)
    have "distinct (trie_free t)"
      by (rule TrieNode.IH [OF rangeI [of ch i]]) (simp_all add: Some inj trie_ok_child [OF TrieNode.prems(1) Some])
    with Some show ?thesis by simp
  qed simp
  moreover have "set (?f i) \<inter> set (?f j) = {}" if "i \<noteq> j" for i j
  proof -
    have False if p: "p \<in> set (?f i)" "p \<in> set (?f j)" for p
    proof -
      obtain cs cs' where "trie_search ?t (i # cs) = Some p" "trie_search ?t (j # cs') = Some p"
        using freed [OF p(1)] freed [OF p(2)] by blast
      then have "i # cs = j # cs'" by (rule same)
      with \<open>i \<noteq> j\<close> show False by simp
    qed
    then show ?thesis by blast
  qed
  moreover have "distinct all_bytes" using sorted_all_bytes by (simp add: strict_sorted_iff)
  ultimately have "distinct (concat (map ?f all_bytes))" by (intro distinct_concat_map) auto
  moreover have "set (concat (map ?f all_bytes)) \<inter> set (case d of None \<Rightarrow> [] | Some p \<Rightarrow> [p]) = {}"
  proof -
    have "p \<notin> set (?f i)" if d: "d = Some p" for i p
    proof
      assume "p \<in> set (?f i)"
      then obtain cs where "trie_search ?t (i # cs) = Some p" using freed by blast
      moreover have "trie_search ?t [] = Some p" using d TrieNode.prems(1) by simp
      ultimately have "i # cs = []" by (rule same)
      then show False by simp
    qed
    then show ?thesis by (auto split: option.splits)
  qed
  ultimately show ?case by (auto split: option.splits)
qed

section \<open>The cache\<close>

text \<open>The loop of \<open>cache_free\<close>: \<open>None\<close> if it does not end.\<close>

partial_function (option) free_nodes :: "node_store \<Rightarrow> nat option \<Rightarrow> node_store result option" where
  "free_nodes N cur =
     (case cur of
        None \<Rightarrow> Some (Inr N)
      | Some p \<Rightarrow>
          (case N p of
             None \<Rightarrow> Some (Inl UseAfterFree)
           | Some n \<Rightarrow> free_nodes (N(p := None)) (cn_next n)))"

definition cache_free :: "lru_cache \<Rightarrow> node_store result option" where
  "cache_free c = free_nodes (lru_nodes c) (lru_head c)"

lemma free_nodes_list:
  "seg N pv ps None \<Longrightarrow> distinct ps \<Longrightarrow> free_nodes N (hd_ptr ps None) = Some (Inr (\<lambda>p. if p \<in> set ps then None else N p))"
proof (induction ps arbitrary: N pv)
  case Nil
  show ?case by (simp add: free_nodes.simps)
next
  case (Cons p ps)
  then obtain n where n: "N p = Some n" "cn_next n = hd_ptr ps None" "seg N (Some p) ps None" by (auto split: option.splits)
  have "free_nodes (N(p := None)) (hd_ptr ps None) = Some (Inr (\<lambda>q. if q \<in> set ps then None else (N(p := None)) q))"
    by (rule Cons.IH [of _ "Some p"]) (use Cons.prems n in \<open>simp_all del: fun_upd_apply\<close>)
  with n Cons.prems(2) show ?case by (subst free_nodes.simps) (auto simp: fun_eq_iff)
qed

theorem cache_free_all:
  assumes "lru_rep c ps"
  shows "cache_free c = Some (Inr Map.empty)"
proof -
  have "seg (lru_nodes c) None ps None" "distinct ps" "lru_head c = hd_ptr ps None" "dom (lru_nodes c) = set ps"
    using assms by (auto simp: lru_rep_def lru_shape_def linked_def)
  with free_nodes_list [of "lru_nodes c" None ps] show ?thesis by (auto simp: cache_free_def fun_eq_iff)
qed

end
