(* ===== verification/Log_Files.thy ===== *)
theory Log_Files
  imports Utils File_System
begin

text \<open>
  The logger and the file statistics of \<^verbatim>\<open>common/utils.c\<close>.  The log is a text that calls append
  to; the text of the current time is an argument, as it depends on the time zone.  Each call is
  one step, since it holds \<open>log_mutex\<close>.  The lemmas show that the log is only appended to, by
  one line per message whose fields hold no newline, and that a closed logger writes nothing.
\<close>

section \<open>The logger\<close>

datatype log_level = LOG_DEBUG | LOG_INFO | LOG_WARNING | LOG_ERROR | LOG_CRITICAL

fun log_level_to_string :: "log_level \<Rightarrow> string" where
  "log_level_to_string LOG_DEBUG = ''DEBUG''"
| "log_level_to_string LOG_INFO = ''INFO''"
| "log_level_to_string LOG_WARNING = ''WARNING''"
| "log_level_to_string LOG_ERROR = ''ERROR''"
| "log_level_to_string LOG_CRITICAL = ''CRITICAL''"

record logger =
  lg_file :: "string option"   \<comment> \<open>\<open>log_file\<close>: what the open file holds\<close>
  lg_name :: string

definition logger_start :: logger where
  "logger_start = \<lparr>lg_file = None, lg_name = ''SYSTEM''\<rparr>"

definition log_append :: "string \<Rightarrow> logger \<Rightarrow> logger" where
  "log_append s l = l\<lparr>lg_file := map_option (\<lambda>t. t @ s) (lg_file l)\<rparr>"

text \<open>\<open>found\<close> is what the file holds when \<open>fopen\<close> opens it for appending; \<open>None\<close>: it cannot be opened.\<close>

definition init_logger :: "string option \<Rightarrow> string \<Rightarrow> string \<Rightarrow> logger \<Rightarrow> logger" where
  "init_logger found comp_name now l =
     (case found of
        None \<Rightarrow> l\<lparr>lg_file := None\<rparr>
      | Some old \<Rightarrow>
          (let name = strncpy_buf 64 comp_name
           in log_append (nl # ''========== '' @ name @ '' STARTED AT '' @ now @ '' =========='' @ [nl])
                (l\<lparr>lg_file := Some old, lg_name := name\<rparr>)))"

definition or_na :: "string option \<Rightarrow> string" where
  "or_na s = (case s of None \<Rightarrow> ''N/A'' | Some t \<Rightarrow> t)"

definition bracketed :: "string \<Rightarrow> string" where
  "bracketed s = CHR ''['' # s @ [CHR '']'']"

definition log_line :: "string \<Rightarrow> log_level \<Rightarrow> string \<Rightarrow> string option \<Rightarrow> int \<Rightarrow> string option \<Rightarrow> string option
    \<Rightarrow> string option \<Rightarrow> string option \<Rightarrow> string" where
  "log_line now level name ip port username action details status =
     join_with (CHR '' '') (map bracketed
       [now, log_level_to_string level, name, or_na ip @ CHR '':'' # show_int port, or_na username, or_na action,
        or_na details, or_na status])"

definition log_message :: "string \<Rightarrow> log_level \<Rightarrow> string option \<Rightarrow> int \<Rightarrow> string option \<Rightarrow> string option
    \<Rightarrow> string option \<Rightarrow> string option \<Rightarrow> logger \<Rightarrow> logger" where
  "log_message now level ip port username action details status l =
     log_append (log_line now level (lg_name l) ip port username action details status @ [nl]) l"

definition close_logger :: "string \<Rightarrow> logger \<Rightarrow> string option \<times> logger" where
  "close_logger now l =
     (let l' = log_append (''========== '' @ lg_name l @ '' STOPPED AT '' @ now @ '' =========='' @ [nl, nl]) l
      in (lg_file l', l'\<lparr>lg_file := None\<rparr>))"

lemma log_message_closed: "lg_file l = None \<Longrightarrow> log_message now level ip port u a d s l = l"
  by (simp add: log_message_def log_append_def)

lemma log_message_appends:
  "lg_file l = Some t \<Longrightarrow> lg_file (log_message now level ip port u a d s l)
     = Some (t @ log_line now level (lg_name l) ip port u a d s @ [nl])"
  by (simp add: log_message_def log_append_def)

definition one_line :: "string option \<Rightarrow> bool" where
  "one_line s \<longleftrightarrow> nl \<notin> set (or_na s)"

lemma log_line_single:
  assumes "nl \<notin> set now" "nl \<notin> set name" "list_all one_line [ip, u, a, d, s]"
  shows "nl \<notin> set (log_line now level name ip port u a d s)"
proof -
  have "nl \<notin> set (log_level_to_string level)" by (cases level) simp_all
  moreover have "nl \<notin> set (show_int port)" by (rule show_int_free)
  ultimately have "\<forall>f \<in> set [now, log_level_to_string level, name, or_na ip @ CHR '':'' # show_int port, or_na u, or_na a,
        or_na d, or_na s]. nl \<notin> set (bracketed f)"
    using assms by (simp add: one_line_def bracketed_def)
  then show ?thesis unfolding log_line_def
    using set_join_with [of "CHR '' ''" "map bracketed [now, log_level_to_string level, name, or_na ip @ CHR '':'' # show_int port,
      or_na u, or_na a, or_na d, or_na s]"] by auto
qed

text \<open>A sequence of messages after the start: the old log, the banner, and one line each.\<close>

record log_entry =
  ev_now :: string
  ev_level :: log_level
  ev_ip :: "string option"
  ev_port :: int
  ev_user :: "string option"
  ev_action :: "string option"
  ev_details :: "string option"
  ev_status :: "string option"

definition event_line :: "string \<Rightarrow> log_entry \<Rightarrow> string" where
  "event_line name e = log_line (ev_now e) (ev_level e) name (ev_ip e) (ev_port e) (ev_user e) (ev_action e) (ev_details e) (ev_status e)"

definition log_event :: "log_entry \<Rightarrow> logger \<Rightarrow> logger" where
  "log_event e = log_message (ev_now e) (ev_level e) (ev_ip e) (ev_port e) (ev_user e) (ev_action e) (ev_details e) (ev_status e)"

lemma log_event_fields:
  "lg_name (log_event e l) = lg_name l"
  "lg_file (log_event e l) = map_option (\<lambda>t. t @ event_line (lg_name l) e @ [nl]) (lg_file l)"
  by (simp_all add: log_event_def event_line_def log_message_def log_append_def)

lemma log_events_text:
  "lg_file (fold log_event es l) = map_option (\<lambda>t. t @ concat (map (\<lambda>e. event_line (lg_name l) e @ [nl]) es)) (lg_file l)"
proof (induction es arbitrary: l)
  case (Cons e es)
  have "lg_name (log_event e l) = lg_name l" by (rule log_event_fields)
  then show ?case
    unfolding fold.simps comp_apply Cons.IH by (simp add: log_event_fields option.map_comp comp_def)
qed (simp add: option.map_ident)

section \<open>File statistics\<close>

text \<open>
  The size that the kernel reports for a directory is an argument.  \<open>count_chars_in_file\<close> keeps the
  low 32 bits of the position at the end.
\<close>

definition get_file_size :: "int \<Rightarrow> fs \<Rightarrow> string \<Rightarrow> int" where
  "get_file_size dir_size F path =
     (case node_of F path of None \<Rightarrow> 0 | Some Directory \<Rightarrow> dir_size | Some (RegularFile s) \<Rightarrow> int (length s))"

definition count_chars_in_file :: "int \<Rightarrow> fs \<Rightarrow> string \<Rightarrow> int" where
  "count_chars_in_file dir_end F path =
     (case node_of F path of
        None \<Rightarrow> 0
      | Some Directory \<Rightarrow> signed_take_bit 31 dir_end
      | Some (RegularFile s) \<Rightarrow> signed_take_bit 31 (int (length s)))"

lemma count_chars_size:
  assumes "node_of F path = Some (RegularFile s)" "length s < 2 ^ 31"
  shows "count_chars_in_file d F path = get_file_size d' F path"
proof -
  have "int (length s) < 2 ^ 31" using assms(2) by (metis of_nat_less_iff of_nat_numeral of_nat_power)
  then show ?thesis using assms(1) by (simp add: count_chars_in_file_def get_file_size_def signed_take_bit_int_eq_self)
qed

end
