(* ===== verification/Wire_Format.thy ===== *)
theory Wire_Format
  imports Protocol C_Strings Net_Stream
begin

text \<open>
  The object representation of the struct \<open>Message\<close> of \<^verbatim>\<open>common/protocol.h\<close>, which is what
  \<open>send_message\<close> and \<open>recv_message\<close> move: enumerations and integers as four bytes, lowest byte first,
  texts as arrays padded with zero bytes, and eight bytes for the time that nothing reads.  All
  programs are built for the same machine; 4440 is \<^verbatim>\<open>sizeof(Message)\<close> there.  Then the string
  functions of \<^verbatim>\<open>common/network.c\<close>, which are not used by the programs.
\<close>

section \<open>Numbers\<close>

fun le_bytes :: "nat \<Rightarrow> nat \<Rightarrow> string" where
  "le_bytes 0 n = []"
| "le_bytes (Suc k) n = char_of (n mod 256) # le_bytes k (n div 256)"

fun le_value :: "string \<Rightarrow> nat" where
  "le_value [] = 0"
| "le_value (c # cs) = of_char c + 256 * le_value cs"

lemma length_le_bytes [simp]: "length (le_bytes k n) = k"
  by (induction k arbitrary: n) auto

lemma le_value_bytes [simp]: "le_value (le_bytes k n) = n mod 256 ^ k"
proof (induction k arbitrary: n)
  case (Suc k)
  have "n mod 256 + 256 * (n div 256 mod 256 ^ k) = n mod (256 * 256 ^ k)"
    by (simp add: mod_mult2_eq)
  with Suc show ?case by simp
qed simp

definition int_bytes :: "int \<Rightarrow> string" where
  "int_bytes i = le_bytes 4 (nat (i mod 2 ^ 32))"

definition bytes_int :: "string \<Rightarrow> int" where
  "bytes_int bs = signed_take_bit 31 (int (le_value bs))"

definition is_c_int :: "int \<Rightarrow> bool" where
  "is_c_int i \<longleftrightarrow> - (2 ^ 31) \<le> i \<and> i < 2 ^ 31"

lemma bytes_int_bytes: "is_c_int i \<Longrightarrow> bytes_int (int_bytes i) = i"
proof -
  assume i: "is_c_int i"
  have "i mod 2 ^ 32 < 2 ^ 32" by simp
  then have "nat (i mod 2 ^ 32) < 256 ^ 4" by (simp add: nat_less_iff)
  then have "bytes_int (int_bytes i) = signed_take_bit 31 (take_bit 32 i)"
    by (simp add: bytes_int_def int_bytes_def take_bit_eq_mod)
  also have "\<dots> = signed_take_bit 31 i" by (simp add: signed_take_bit_take_bit)
  also have "\<dots> = i" using i by (simp add: signed_take_bit_int_eq_self is_c_int_def)
  finally show ?thesis .
qed

section \<open>Enumerations\<close>

text \<open>The constants in the order of their declaration, which is their number.\<close>

definition message_types :: "message_type list" where
  "message_types =
    [MSG_CLIENT_REGISTER, MSG_VIEW_FILES, MSG_READ_FILE, MSG_CREATE_FILE, MSG_WRITE_FILE,
     MSG_DELETE_FILE, MSG_INFO_FILE, MSG_STREAM_FILE, MSG_LIST_USERS, MSG_ADDACCESS,
     MSG_REMACCESS, MSG_EXEC_FILE, MSG_UNDO_FILE,
     MSG_CREATE_FILE_SS, MSG_DELETE_FILE_SS, MSG_GET_FILE_CONTENT, MSG_WRITE_FILE_SS,
     MSG_CREATE_FOLDER_SS, MSG_MOVE_FILE_SS,
     MSG_SS_REGISTER, MSG_SS_ACK, MSG_SS_ERROR, MSG_SS_HEARTBEAT, MSG_UPDATE_METADATA,
     MSG_SS_INFO, MSG_FILE_LIST, MSG_USER_LIST, MSG_FILE_INFO, MSG_ACK, MSG_ERROR,
     MSG_READ_REQUEST, MSG_WRITE_REQUEST, MSG_STREAM_REQUEST, MSG_EXEC_READ_REQUEST,
     MSG_EXEC_OUTPUT, MSG_EXEC_DONE,
     MSG_CREATE_FOLDER, MSG_MOVE_FILE, MSG_VIEW_FOLDER, MSG_CHECKPOINT, MSG_REQUEST_ACCESS,
     MSG_CP_CREATE, MSG_CP_VIEW, MSG_CP_REVERT, MSG_CP_LIST,
     MSG_VIEW_REQUESTS, MSG_APPROVE_REQUEST, MSG_DENY_REQUEST]"

definition error_codes :: "error_code list" where
  "error_codes =
    [ERR_SUCCESS, ERR_FILE_NOT_FOUND, ERR_ACCESS_DENIED, ERR_FILE_EXISTS, ERR_SENTENCE_LOCKED,
     ERR_INVALID_INDEX, ERR_SS_UNAVAILABLE, ERR_INVALID_COMMAND, ERR_PERMISSION_DENIED,
     ERR_NOT_OWNER, ERR_CONNECTION_FAILED, ERR_TIMEOUT, ERR_INVALID_SENTENCE,
     ERR_INVALID_WORD_INDEX, ERR_FILE_LOCKED, ERR_UNKNOWN, ERR_REQUEST_NOT_FOUND,
     ERR_REQUEST_ALREADY_EXISTS]"

text \<open>A number that is no constant is \<open>None\<close>: the switches of the programs ignore it.\<close>

definition enum_bytes :: "'a list \<Rightarrow> 'a \<Rightarrow> string" where
  "enum_bytes es e = int_bytes (case find_idx (\<lambda>x. x = e) es of Some i \<Rightarrow> int i | None \<Rightarrow> int (length es))"

definition bytes_enum :: "'a list \<Rightarrow> string \<Rightarrow> 'a option" where
  "bytes_enum es bs = (let i = bytes_int bs in if 0 \<le> i \<and> i < int (length es) then Some (es ! nat i) else None)"

lemma bytes_enum_bytes:
  assumes "e \<in> set es" "length es < 2 ^ 31"
  shows "bytes_enum es (enum_bytes es e) = Some e"
proof -
  obtain i where i: "find_idx (\<lambda>x. x = e) es = Some i"
    using assms(1) find_idx_None [of "\<lambda>x. x = e" es] by (cases "find_idx (\<lambda>x. x = e) es") auto
  then have e: "i < length es" "es ! i = e" by (auto dest: find_idx_SomeD)
  then have "int i < 2 ^ 31" using assms(2) by (metis less_trans of_nat_less_iff of_nat_numeral of_nat_power)
  then have "bytes_int (int_bytes (int i)) = int i" by (intro bytes_int_bytes) (simp add: is_c_int_def)
  with e i show ?thesis by (simp add: bytes_enum_def enum_bytes_def)
qed

lemma message_types_all: "t \<in> set message_types" "length message_types = 48"
  by (cases t; simp add: message_types_def) (simp add: message_types_def)

lemma error_codes_all: "e \<in> set error_codes" "length error_codes = 18"
  by (cases e; simp add: error_codes_def) (simp add: error_codes_def)

section \<open>Messages\<close>

text \<open>An array of \<open>n\<close> characters that holds a text.\<close>

definition text_bytes :: "nat \<Rightarrow> string \<Rightarrow> string" where
  "text_bytes n s = s @ replicate (n - length s) CHR 0x00"

definition encode_message :: "string \<Rightarrow> message \<Rightarrow> string" where
  "encode_message stamp m =
     enum_bytes message_types (m_type m) @ text_bytes MAX_USERNAME_LEN (m_sender m)
     @ text_bytes MAX_FILENAME_LEN (m_filename m) @ text_bytes MAX_CONTENT_LEN (m_data m)
     @ int_bytes (m_arg1 m) @ int_bytes (m_arg2 m) @ enum_bytes error_codes (m_error m) @ stamp"

definition field :: "nat \<Rightarrow> nat \<Rightarrow> string \<Rightarrow> string" where
  "field offset len bs = take len (drop offset bs)"

definition decode_message :: "string \<Rightarrow> message option" where
  "decode_message bs =
     (case (bytes_enum message_types (field 0 4 bs), bytes_enum error_codes (field 4428 4 bs)) of
        (Some t, Some e) \<Rightarrow>
          Some \<lparr>m_type = t, m_sender = c_string (field 4 MAX_USERNAME_LEN bs), m_filename = c_string (field 68 MAX_FILENAME_LEN bs),
                m_data = c_string (field 324 MAX_CONTENT_LEN bs), m_arg1 = bytes_int (field 4420 4 bs), m_arg2 = bytes_int (field 4424 4 bs),
                m_error = e\<rparr>
      | _ \<Rightarrow> None)"

lemma length_codes [simp]:
  "length (int_bytes i) = 4" "length (enum_bytes es e) = 4" "length s \<le> n \<Longrightarrow> length (text_bytes n s) = n"
  by (simp_all add: int_bytes_def enum_bytes_def text_bytes_def)

lemma length_encode_message:
  assumes "message_ok m" "length stamp = 8"
  shows "length (encode_message stamp m) = 4440"
  using assms by (simp add: encode_message_def message_ok_def limit_defs)

lemma fields_of:
  assumes "length t = 4" "length s = MAX_USERNAME_LEN" "length f = MAX_FILENAME_LEN" "length d = MAX_CONTENT_LEN"
    "length a = 4" "length b = 4" "length e = 4"
  shows "field 0 4 (t @ s @ f @ d @ a @ b @ e @ stamp) = t" "field 4 MAX_USERNAME_LEN (t @ s @ f @ d @ a @ b @ e @ stamp) = s"
    "field 68 MAX_FILENAME_LEN (t @ s @ f @ d @ a @ b @ e @ stamp) = f"
    "field 324 MAX_CONTENT_LEN (t @ s @ f @ d @ a @ b @ e @ stamp) = d"
    "field 4420 4 (t @ s @ f @ d @ a @ b @ e @ stamp) = a" "field 4424 4 (t @ s @ f @ d @ a @ b @ e @ stamp) = b"
    "field 4428 4 (t @ s @ f @ d @ a @ b @ e @ stamp) = e"
  using assms by (simp_all add: field_def limit_defs)

lemma c_string_text_bytes:
  assumes "CHR 0x00 \<notin> set s" "length s < n"
  shows "c_string (text_bytes n s) = s"
proof -
  obtain k where "n - length s = Suc k" using assms(2) by (metis Suc_diff_Suc)
  then have "takeWhile (\<lambda>c. c \<noteq> CHR 0x00) (text_bytes n s) = s"
    using assms(1) by (subst text_bytes_def, subst takeWhile_append2) auto
  then show ?thesis by (simp add: c_string_def)
qed

lemma decode_encode_message:
  assumes m: "message_ok m" "is_c_int (m_arg1 m)" "is_c_int (m_arg2 m)"
  shows "decode_message (encode_message stamp m) = Some m"
proof -
  have "length (text_bytes MAX_USERNAME_LEN (m_sender m)) = MAX_USERNAME_LEN"
    "length (text_bytes MAX_FILENAME_LEN (m_filename m)) = MAX_FILENAME_LEN"
    "length (text_bytes MAX_CONTENT_LEN (m_data m)) = MAX_CONTENT_LEN"
    using m(1) by (simp_all add: message_ok_def)
  note fields = fields_of [OF length_codes(2) this length_codes(1,1,2), of message_types "m_type m" "m_arg1 m" "m_arg2 m"
      error_codes "m_error m" stamp, folded encode_message_def]
  show ?thesis
    using m unfolding decode_message_def fields
    by (simp add: bytes_enum_bytes message_types_all error_codes_all c_string_text_bytes bytes_int_bytes message_ok_def)
qed

section \<open>Messages on a stream\<close>

text \<open>
  C25: well-formed messages arrive as they were sent and in order: their object representations are
  sent over a stream and received from it, however the kernel cuts and interrupts the
  transfers on either side; both sides return, and every message is decoded to the one that
  was encoded.  (The numbers are C integers.)
\<close>

theorem typed_messages_arrive:
  assumes "list_all2 exact send_scripts (map (\<lambda>_. 4440) ms)" "list_all2 exact recv_scripts (map (\<lambda>_. 4440) ms)"
    and "\<forall>m \<in> set ms. message_ok m \<and> is_c_int (m_arg1 m) \<and> is_c_int (m_arg2 m)" "length stamp = 8"
  shows "\<exists>stream. send_all (concat send_scripts) [] (map (encode_message stamp) ms) = Some stream
     \<and> map_option (map decode_message) (recv_all 4440 (length ms) (concat recv_scripts) stream) = Some (map Some ms)"
proof -
  let ?bs = "map (encode_message stamp) ms"
  have len: "\<forall>b \<in> set ?bs. length b = 4440" using length_encode_message assms(3,4) by auto
  then have lens: "map length ?bs = map (\<lambda>_. 4440) ms" by simp
  have s: "send_all (concat send_scripts) [] ?bs = Some ([] @ concat ?bs)"
    by (rule send_all_exact) (simp only: lens assms(1))
  have "recv_all 4440 (length ?bs) (concat recv_scripts) (concat ?bs @ []) = Some ?bs"
    by (rule recv_all_exact [OF _ len]) (simp only: lens assms(2))
  moreover have "map decode_message ?bs = map Some ms"
    using decode_encode_message assms(3) by simp
  ultimately show ?thesis using s by simp
qed

theorem typed_messages_arrive_witness:
  "\<exists>stream. send_all [Transfer 100, Interrupted, Transfer 4340] [] [encode_message (replicate 8 CHR 0x00) (ack_reply ''PONG'')] = Some stream
     \<and> map_option (map decode_message) (recv_all 4440 1 [Transfer 4440] stream) = Some [Some (ack_reply ''PONG'')]"
proof -
  let ?m = "ack_reply ''PONG''"
  have m: "\<forall>m \<in> set [?m]. message_ok m \<and> is_c_int (m_arg1 m) \<and> is_c_int (m_arg2 m)"
    by (simp add: ack_reply_def message_zero_def message_ok_def is_c_int_def limit_defs)
  have scripts: "list_all2 exact [[Transfer 100, Interrupted, Transfer 4340]] (map (\<lambda>_. 4440) [?m])"
    "list_all2 exact [[Transfer 4440]] (map (\<lambda>_. 4440) [?m])"
    by (simp_all add: exact_def)
  from typed_messages_arrive [OF scripts m, of "replicate 8 CHR 0x00"] show ?thesis by simp
qed

section \<open>Functions that the programs do not use\<close>

definition send_data :: "io_event \<Rightarrow> string \<Rightarrow> string option \<Rightarrow> int \<Rightarrow> int \<times> string" where
  "send_data ev stream data len =
     (case data of
        None \<Rightarrow> (- 1, stream)
      | Some d \<Rightarrow>
          if len \<le> 0 then (- 1, stream)
          else (case ev of
                  Transfer n \<Rightarrow> (int (min n (nat len)), stream @ take (min n (nat len)) d)
                | _ \<Rightarrow> (- 1, stream)))"

text \<open>The buffer is cleared before; the result is the value returned, what was received, and the stream.\<close>

definition recv_data :: "io_event \<Rightarrow> string \<Rightarrow> int \<Rightarrow> int \<times> string \<times> string" where
  "recv_data ev stream max_length =
     (if max_length \<le> 0 then (- 1, [], stream)
      else (case ev of
              Transfer n \<Rightarrow>
                (let k = min n (min (length stream) (nat max_length - 1)) in (int k, take k stream, drop k stream))
            | _ \<Rightarrow> (- 1, [], stream)))"

text \<open>The length and then the text, one call each; a call that moves less is not noticed.\<close>

definition send_string :: "io_event \<Rightarrow> io_event \<Rightarrow> string \<Rightarrow> string option \<Rightarrow> int \<times> string" where
  "send_string ev1 ev2 stream str =
     (case str of
        None \<Rightarrow> (- 1, stream)
      | Some s \<Rightarrow>
          (case ev1 of
             Transfer n \<Rightarrow>
               (let stream1 = stream @ take n (int_bytes (int (length s))) in
                case ev2 of
                  Transfer n' \<Rightarrow> (int (length s), stream1 @ take n' s)
                | _ \<Rightarrow> (- 1, stream1))
           | _ \<Rightarrow> (- 1, stream)))"

text \<open>
  The received length is only tested from above: when it is negative the second \<open>recv\<close> and the
  terminator go outside of the buffer.  A length of which not all bytes arrived is used as it is.
\<close>

definition recv_string :: "io_event \<Rightarrow> io_event \<Rightarrow> string \<Rightarrow> int \<Rightarrow> (int \<times> string \<times> string) result" where
  "recv_string ev1 ev2 stream max_length =
     (if max_length \<le> 0 then Inr (- 1, [], stream)
      else (case ev1 of
              Transfer n \<Rightarrow>
                if min n (length stream) < 4 then Inl Uninitialised
                else (let received = bytes_int (take 4 stream); stream1 = drop 4 stream;
                          len = (if max_length \<le> received then max_length - 1 else received)
                      in case ev2 of
                           Transfer n' \<Rightarrow>
                             if len < 0 then Inl Overflow
                             else (let k = min n' (min (length stream1) (nat len)) in Inr (len, take k stream1, drop k stream1))
                         | _ \<Rightarrow> Inr (- 1, [], stream1))
            | _ \<Rightarrow> Inr (- 1, [], stream)))"

definition is_socket_alive :: "io_event \<Rightarrow> string \<Rightarrow> bool" where
  "is_socket_alive ev stream =
     (case ev of Transfer n \<Rightarrow> 0 < min n (length stream) | Would_block \<Rightarrow> True | _ \<Rightarrow> False)"

text \<open>A string arrives, cut to the buffer, when the kernel takes and gives all of it at once.\<close>

lemma string_round_trip:
  assumes "length s < 2 ^ 31" "0 < max_length" "4 \<le> n1" "length s \<le> n2" "4 \<le> n3" "length s \<le> n4"
  shows "\<exists>stream rest. send_string (Transfer n1) (Transfer n2) [] (Some s) = (int (length s), stream)
    \<and> recv_string (Transfer n3) (Transfer n4) stream max_length
        = Inr (min (int (length s)) (max_length - 1), take (nat max_length - 1) s, rest)"
proof -
  have "int (length s) < 2 ^ 31" using assms(1) by (metis of_nat_less_iff of_nat_numeral of_nat_power)
  then have len: "bytes_int (int_bytes (int (length s))) = int (length s)" by (intro bytes_int_bytes) (simp add: is_c_int_def)
  have s: "send_string (Transfer n1) (Transfer n2) [] (Some s) = (int (length s), int_bytes (int (length s)) @ s)"
    using assms by (simp add: send_string_def)
  define k where "k = (if max_length \<le> int (length s) then max_length - 1 else int (length s))"
  have k: "k = min (int (length s)) (max_length - 1)" "0 \<le> k" "min n4 (min (length s) (nat k)) = nat k"
    using assms(2,6) by (auto simp: k_def)
  have "nat (max_length - 1) = nat max_length - 1" using assms(2) by linarith
  then have "take (nat k) s = take (nat max_length - 1) s" by (auto simp: k_def)
  then have "recv_string (Transfer n3) (Transfer n4) (int_bytes (int (length s)) @ s) max_length
      = Inr (k, take (nat max_length - 1) s, drop (nat k) s)"
    using assms(2,5) k(2,3) by (simp add: recv_string_def len Let_def k_def [symmetric])
  with s k(1) show ?thesis by blast
qed

lemma recv_string_negative:
  assumes "4 \<le> length stream" "4 \<le> n1" "bytes_int (take 4 stream) < 0" "0 < max_length"
  shows "recv_string (Transfer n1) (Transfer n2) stream max_length = Inl Overflow"
  using assms by (simp add: recv_string_def Let_def)

end
