(* ===== verification/Spec2Isabelle.thy ===== *)
theory Spec2Isabelle
  imports Common_Properties Storage_Properties Recovery_Properties Text_Properties
    Naming_Properties Registry_Properties Whole_System Storage_Replies Server_Starts
    Control_Races Naming_Races Naming_Entries Teardown Log_Files Wire_Format
begin

text \<open>
  \<^bold>\<open>OrionFS\<close> is a distributed file system of three programs that exchange messages of a fixed
  size over TCP.  The \<^emph>\<open>naming server\<close> (\<^verbatim>\<open>src/OrionFS/naming_server\<close>) knows the files, their
  owners and access lists, the users and the storage servers.  A \<^emph>\<open>storage server\<close>
  (\<^verbatim>\<open>src/OrionFS/storage_server\<close>) holds the contents and lets clients edit them sentence by
  sentence under locks.  The \<^emph>\<open>client\<close> (\<^verbatim>\<open>src/OrionFS/client\<close>) asks the naming server for a place
  and then works with the storage server.  Shared code is in \<^verbatim>\<open>src/OrionFS/common\<close>.

  \<^bold>\<open>How the theories follow the code.\<close>

  Shared code:
  \<^item> \<^verbatim>\<open>Orion_Prelude\<close>: faults (\<open>NullDeref\<close>, \<open>Overflow\<close>, \<open>UseAfterFree\<close>, \<open>Deadlock\<close>,
    \<open>Uninitialised\<close>, \<open>Overread\<close>), results that may fault, and the array loops of the sources (search, shift
    left, bounded copies) with the list operations that they compute.
  \<^item> \<^verbatim>\<open>C_Strings\<close>: character classes, \<open>strtok\<close>, printing and reading of numbers, \<open>fgets\<close>.
  \<^item> \<^verbatim>\<open>Protocol\<close> (\<^verbatim>\<open>protocol.h\<close>), \<^verbatim>\<open>Utils\<close> (\<^verbatim>\<open>utils.c\<close>).
  \<^item> \<^verbatim>\<open>Net_Stream\<close>, \<^verbatim>\<open>Wire_Format\<close>, \<^verbatim>\<open>Net_Sockets\<close> (\<^verbatim>\<open>network.c\<close>): the loops of \<open>send_message\<close> and
    \<open>recv_message\<close> over a script of kernel answers; the bytes of the struct \<open>Message\<close>, field by
    field, and the other senders and receivers; the operations on sockets as traces of system
    calls, each of which may fail.
  \<^item> \<^verbatim>\<open>Log_Files\<close> (\<^verbatim>\<open>utils.c\<close>): the logger as lines appended to a file of the tree below.
  \<^item> \<^verbatim>\<open>File_System\<close> and \<^verbatim>\<open>File_Updates\<close> (a tree of directories and files, the calls of the
    sources on it, and the file functions of \<^verbatim>\<open>utils.c\<close>; \<open>write_file_content\<close> and \<open>atomic_write_file\<close>
    are runs through the states that a crash can leave behind, and their result is the last of them).

  Naming server:
  \<^item> \<^verbatim>\<open>Trie\<close>, \<^verbatim>\<open>Hash_Table\<close>, \<^verbatim>\<open>Lru_Cache\<close>, \<^verbatim>\<open>Metadata\<close>, \<^verbatim>\<open>Metadata_Disk\<close>, \<^verbatim>\<open>Registries\<close>, \<^verbatim>\<open>Folders\<close>,
    \<^verbatim>\<open>Access_Requests\<close>: the data structures of \<^verbatim>\<open>nm_storage.c\<close> and their files.  The cache is a
    store of nodes with pointers; freed nodes are absent from the store.  The operations on folders
    take \<open>folders_mutex\<close> and give it back, and block when the thread holds it already.  \<^verbatim>\<open>Teardown\<close>: the
    functions that would release them, which nothing calls.
  \<^item> \<^verbatim>\<open>Naming_Server\<close>: the handlers of \<^verbatim>\<open>naming_server.c\<close> for clients, as functions from an
    environment, the state and a message to the messages sent and the new state.  Each has a body,
    with the entry of \<open>client_registry\<close> as an argument: what is done once the mutex is held.
    \<^verbatim>\<open>Naming_Threads\<close>: the handlers that release the mutex on the way, as pieces between which other
    threads can run, and as the composition of these pieces; the dispatcher, the connections of
    storage servers, the heartbeat, the start.
  \<^item> \<^verbatim>\<open>Naming_Facts\<close>: the table of files that trie, heap and cache stand for, and the contract of
    the cache (locale \<open>lossy_cache\<close>).  \<^verbatim>\<open>Naming_Invariant\<close>: every handler keeps the invariant,
    follows no dangling pointer, and changes rights only as its user may.
    \<^verbatim>\<open>Naming_Effects\<close>: replies and effects computed from the table alone.
    \<^verbatim>\<open>Naming_Runs\<close>: runs of events of all connections.  \<^verbatim>\<open>Naming_Answers\<close>: how many messages a
    request is answered with on its own connection, and what ends a session.
  \<^item> \<^verbatim>\<open>Naming_Pieces\<close>: what a handler made of several pieces computes when no other thread comes in
    between, as one equation for each; \<^verbatim>\<open>Naming_Interleaving\<close>: runs that interleave the pieces of
    all threads; \<^verbatim>\<open>Naming_Races\<close>: what holds in all of them, and what the breaks let through;
    \<^verbatim>\<open>Naming_Entries\<close>: when the pointers of waiting handlers into \<open>client_registry\<close> stay right.

  Storage server (\<^verbatim>\<open>storage_server.c\<close>):
  \<^item> \<^verbatim>\<open>Sentences\<close> (parsing and rebuilding), \<^verbatim>\<open>Word_Edit\<close> (the words of a session),
    \<^verbatim>\<open>Write_Commit\<close> (merging the session into the file of the day), \<^verbatim>\<open>Sentence_Locks\<close>,
    \<^verbatim>\<open>Undo_Store\<close>, \<^verbatim>\<open>Storage_Server\<close> (the handlers and both dispatchers).
  \<^item> \<^verbatim>\<open>Storage_Facts\<close>, \<^verbatim>\<open>Write_Effects\<close>, \<^verbatim>\<open>Checkpoints\<close>, \<^verbatim>\<open>Storage_Invariant\<close>: what the handlers do
    to the files; \<^verbatim>\<open>Write_Sessions\<close>: sessions as steps that interleave, with the lock invariant
    by rule induction; \<^verbatim>\<open>Storage_Replies\<close>: the messages it sends are well-formed.

  Client (\<^verbatim>\<open>client/client.c\<close>):
  \<^item> \<^verbatim>\<open>Client_Shell\<close> (input, requests, the commands, the editing loop of WRITE) and \<^verbatim>\<open>Client_Main\<close>
    (\<open>execute_command\<close> and \<open>main\<close>): a state that holds what is still to be read, from the keyboard
    and from the servers, and the trace of what was printed, sent and connected.
    \<^verbatim>\<open>Client_Properties\<close> is about the program by itself; \<^verbatim>\<open>Client_Composition\<close> gives it the replies
    that the model of the storage server sends when it receives the client's messages.

  Several programs together:
  \<^item> \<^verbatim>\<open>Lockstep\<close>: the client reads on its connection to the naming server what the model of the
    naming server sends there.  \<^verbatim>\<open>Whole_System\<close>: all three programs, the same for READ and WRITE.
  \<^item> \<^verbatim>\<open>Control_Channel\<close>: the connection between the naming server and a storage server as two queues,
    with a step for each thing that one of the threads at either end does on it;
    \<^verbatim>\<open>Control_Races\<close>: what these threads do to each other's exchanges.
  \<^item> \<^verbatim>\<open>Server_Starts\<close>: both \<open>main\<close> functions, from the arguments to the first message of a storage
    server and its registration at the naming server.

  Properties that need one part only are in \<^verbatim>\<open>Common_Properties\<close>, \<^verbatim>\<open>Storage_Properties\<close>,
  \<^verbatim>\<open>Recovery_Properties\<close>, \<^verbatim>\<open>Text_Properties\<close>, \<^verbatim>\<open>Naming_Properties\<close>, \<^verbatim>\<open>Registry_Properties\<close> and
  \<^verbatim>\<open>Client_Properties\<close>, or stand beside the definitions they are about; \<^verbatim>\<open>Storage_Demo\<close> and
  \<^verbatim>\<open>Naming_Demo\<close> hold the concrete states to which they are applied.

  \<^bold>\<open>Interfaces.\<close>  \<open>name_store\<close> (a finite map from names; the trie and the hash table),
  \<open>lossy_cache\<close> (what the naming server needs of its cache; the LRU cache), the lock manager of
  \<^verbatim>\<open>Sentence_Locks\<close> and the snapshot store of \<^verbatim>\<open>Undo_Store\<close> are locales; each is interpreted on
  the model of the code that provides it, in the theory where that model or its invariant is.

  \<^bold>\<open>Atomicity.\<close>  A handler of the naming server looks its client up with \<open>get_client_by_socket\<close>,
  takes \<open>trie_mutex\<close>, and some release it and take it again.  Other threads can run after the
  lookup and wherever the mutex is released: there a piece ends, and what the handler still has to
  do is a task, which keeps the pointers (into the index, into \<open>client_registry\<close>) that the code
  keeps.  \<open>nm_stale\<close> is the memory behind the end of the registry, which such a pointer can reach.
  The handlers without a break (\<open>nm_handle_X\<close>) are the same pieces one after the other.  The scan
  in \<open>get_client_by_socket\<close> is one step, and the fields that a piece reads of its client's entry
  are read at once.  \<open>folders_mutex\<close> is taken and released within a piece.  A write session of a
  storage server is a sequence of steps (begin, edit, commit, release), each atomic under the
  mutex that the code takes.  Where a handler asks a storage server, its step has the reply as a
  parameter, as if the exchange were undisturbed; \<^verbatim>\<open>Control_Channel\<close> has the exchange itself.

  \<^bold>\<open>Bounds.\<close>  The limits are those of \<^verbatim>\<open>protocol.h\<close>; \<open>strcat\<close> and \<open>sprintf\<close> into a fixed buffer are
  \<open>Overflow\<close> when the text and its terminator do not fit.  No fuel is used: every loop is
  structural or has a measure.  File sizes are 64-bit words; word and character counts, ports
  and times are integers, as the values that occur stay in range.

  \<^bold>\<open>Parameters.\<close>  What the programs get from outside is an argument: the clock, the text of a time
  (time zone), the replies of other processes (where they are not composed), what the user types,
  the output of a shell command, and the kernel's answers to the calls on sockets.

  \<^bold>\<open>Not modelled.\<close>  The calls of the logger from the handlers (nothing reads the log); starting
  threads; what the servers print; a \<open>send\<close> of the client that fails (the code ignores it) and
  time limits of its reads; messages of two threads that mix in the middle, when both send on one
  connection at once;
  \<^verbatim>\<open>naming_server/storage_server/storage_server.c\<close>, an older copy of the storage server that the
  build does not use; what \<open>strftime\<close> makes of a time.  Opening the naming server's own files is taken to succeed.
\<close>

end
